(* ===== verification/Prelude.thy ===== *)
theory Prelude
  imports Main "HOL-Library.Word"
begin

text \<open>
  Shared vocabulary of the development: the machine integer types of
  \<^verbatim>\<open>kernel/include/stdint.h\<close>, the outcome type of a C function that may stop
  the kernel, checked array accesses, and the generic list and word lemmas every
  component uses.

  A C function whose run can end in \<^verbatim>\<open>panic_spin\<close> (\<^verbatim>\<open>kernel/debug/debug.c\<close>,
  reached through \<^verbatim>\<open>ASSERT\<close> and \<^verbatim>\<open>PANIC\<close> of \<^verbatim>\<open>kernel/include/debug.h\<close>) or in an
  access outside the memory the model describes returns a \<open>cres\<close>: \<open>Inl\<close> with the
  fault, or \<open>Inr\<close> with the value.  Error codes the code returns (such as \<open>-1\<close>) are
  ordinary values.
\<close>

unbundle bit_operations_syntax

section \<open>Machine integers\<close>

type_synonym u8 = "8 word"
type_synonym u16 = "16 word"
type_synonym u32 = "32 word"
type_synonym u64 = "64 word"

section \<open>Outcomes\<close>

datatype fault =
    Assertion   \<comment> \<open>a failed \<^verbatim>\<open>ASSERT\<close> or a \<^verbatim>\<open>PANIC\<close>: \<^verbatim>\<open>panic_spin\<close> never returns\<close>
  | Wild        \<comment> \<open>a read or write outside the modelled object, or through \<^verbatim>\<open>NULL\<close>\<close>
  | DivZero     \<comment> \<open>an integer division by zero\<close>
  | Blocked     \<comment> \<open>the caller blocks, with nobody in the model to wake it up\<close>

type_synonym 'a cres = "fault + 'a"

definition andthen :: "'a cres \<Rightarrow> ('a \<Rightarrow> 'b cres) \<Rightarrow> 'b cres" where
  "andthen m f = (case m of Inl e \<Rightarrow> Inl e | Inr x \<Rightarrow> f x)"

lemma andthen_Inl [simp]: "andthen (Inl e) f = Inl e"
  by (simp add: andthen_def)

lemma andthen_Inr [simp]: "andthen (Inr x) f = f x"
  by (simp add: andthen_def)

lemma andthen_eq_Inr_iff: "andthen m f = Inr y \<longleftrightarrow> (\<exists>x. m = Inr x \<and> f x = Inr y)"
  by (cases m) simp_all

lemma andthen_eq_Inl_iff:
  "andthen m f = Inl e \<longleftrightarrow> m = Inl e \<or> (\<exists>x. m = Inr x \<and> f x = Inl e)"
  by (cases m) simp_all

lemma andthen_InrE:
  assumes "andthen m f = Inr y"
  obtains x where "m = Inr x" and "f x = Inr y"
  using assms by (auto simp: andthen_eq_Inr_iff)

lemma andthen_assoc: "andthen (andthen m f) g = andthen m (\<lambda>x. andthen (f x) g)"
  by (cases m) simp_all

lemma andthen_cong [fundef_cong]:
  "m = m' \<Longrightarrow> (\<And>x. m' = Inr x \<Longrightarrow> f x = f' x) \<Longrightarrow> andthen m f = andthen m' f'"
  by (cases m') simp_all

text \<open>\<^verbatim>\<open>ASSERT(c)\<close>\<close>

definition assert_c :: "bool \<Rightarrow> unit cres" where
  "assert_c c = (if c then Inr () else Inl Assertion)"

lemma assert_c_True [simp]: "assert_c True = Inr ()"
  by (simp add: assert_c_def)

lemma assert_c_False [simp]: "assert_c False = Inl Assertion"
  by (simp add: assert_c_def)

lemma assert_c_eq_Inr [simp]: "assert_c c = Inr u \<longleftrightarrow> c"
  by (simp add: assert_c_def)

text \<open>Reading and writing one cell of an object of known extent.\<close>

definition rd :: "'a list \<Rightarrow> nat \<Rightarrow> 'a cres" where
  "rd xs i = (if i < length xs then Inr (xs ! i) else Inl Wild)"

definition wr :: "'a list \<Rightarrow> nat \<Rightarrow> 'a \<Rightarrow> 'a list cres" where
  "wr xs i v = (if i < length xs then Inr (xs[i := v]) else Inl Wild)"

lemma rd_in [simp]: "i < length xs \<Longrightarrow> rd xs i = Inr (xs ! i)"
  by (simp add: rd_def)

lemma rd_out [simp]: "length xs \<le> i \<Longrightarrow> rd xs i = Inl Wild"
  by (simp add: rd_def)

lemma rd_eq_Inr: "rd xs i = Inr x \<longleftrightarrow> i < length xs \<and> x = xs ! i"
  by (auto simp: rd_def)

lemma wr_in [simp]: "i < length xs \<Longrightarrow> wr xs i v = Inr (xs[i := v])"
  by (simp add: wr_def)

lemma wr_eq_Inr: "wr xs i v = Inr ys \<longleftrightarrow> i < length xs \<and> ys = xs[i := v]"
  by (auto simp: wr_def)

section \<open>Lists\<close>

lemma takeWhile_eq_take_nth:
  assumes "n < length xs" and "\<forall>i<n. P (xs ! i)" and "\<not> P (xs ! n)"
  shows "takeWhile P xs = take n xs"
  using assms by (metis takeWhile_eq_take_P_nth)

lemma set_takeWhile_all: "x \<in> set (takeWhile P xs) \<Longrightarrow> P x"
  by (induction xs) (auto split: if_splits)

text \<open>The size of a page, and \<^verbatim>\<open>DIV_ROUND_UP\<close>, of \<^verbatim>\<open>kernel/include/global.h\<close>.\<close>

definition PG_SIZE :: nat where "PG_SIZE = 4096"

definition DIV_ROUND_UP :: "nat \<Rightarrow> nat \<Rightarrow> nat" where
  "DIV_ROUND_UP x step = (x + step - 1) div step"

lemma DIV_ROUND_UP_ge: "0 < step \<Longrightarrow> x \<le> DIV_ROUND_UP x step * step"
proof -
  assume s: "0 < step"
  have "(x + step - 1) mod step < step" using s by simp
  moreover have "(x + step - 1) div step * step + (x + step - 1) mod step = x + step - 1"
    by (rule div_mult_mod_eq)
  ultimately show ?thesis using s unfolding DIV_ROUND_UP_def by linarith
qed

lemma DIV_ROUND_UP_less: "0 < step \<Longrightarrow> 0 < x \<Longrightarrow> (DIV_ROUND_UP x step - 1) * step < x"
proof -
  assume s: "0 < step" and x: "0 < x"
  have "DIV_ROUND_UP x step * step \<le> x + step - 1"
    by (simp add: DIV_ROUND_UP_def)
  then show ?thesis using s x by (simp add: algebra_simps)
qed

section \<open>Words\<close>

lemma bit_u8_ext: "(\<And>n. n < 8 \<Longrightarrow> bit (a::u8) n = bit b n) \<Longrightarrow> a = b"
  by (rule bit_word_eqI) simp

lemma mask_test: "(b AND push_bit i 1 = 0) \<longleftrightarrow> \<not> bit (b :: 'a::len word) i"
  using bit_iff_and_push_bit_not_eq_0 [of b i] by simp

end
