(* ===== verification/KList.thy ===== *)
theory KList
  imports Prelude
begin

text \<open>
  \<^verbatim>\<open>kernel/list/list.c\<close>: the doubly linked list whose nodes are embedded in the objects
  it holds.  The memory is a map from addresses to nodes; address \<open>0\<close> is \<^verbatim>\<open>NULL\<close>, and an
  access through it is the fault \<open>Wild\<close>.  A \<^verbatim>\<open>struct list\<close> at address \<open>l\<close> is its
  \<open>head\<close> node at \<open>l\<close> and its \<open>tail\<close> node at \<open>l + 8\<close>.  A walk over a damaged
  list need not end, so the walks are partial functions; \<open>None\<close> is not returning.
  Turning interrupts off and on around the link updates has no effect on the links.
\<close>

section \<open>The code\<close>

record list_elem =
  prev :: nat
  "next" :: nat

type_synonym heap = "nat \<Rightarrow> list_elem"

definition NULL :: nat where
  "NULL = 0"

definition head_of :: "nat \<Rightarrow> nat" where
  "head_of plist = plist"

definition tail_of :: "nat \<Rightarrow> nat" where
  "tail_of plist = plist + 8"

definition set_prev :: "heap \<Rightarrow> nat \<Rightarrow> nat \<Rightarrow> heap cres" where
  "set_prev h a v = (if a = NULL then Inl Wild else Inr (h(a := (h a)\<lparr>prev := v\<rparr>)))"

definition set_next :: "heap \<Rightarrow> nat \<Rightarrow> nat \<Rightarrow> heap cres" where
  "set_next h a v = (if a = NULL then Inl Wild else Inr (h(a := (h a)\<lparr>next := v\<rparr>)))"

definition list_init :: "heap \<Rightarrow> nat \<Rightarrow> heap cres" where
  "list_init h plist =
     andthen (set_prev h (head_of plist) NULL) (\<lambda>h.
     andthen (set_next h (head_of plist) (tail_of plist)) (\<lambda>h.
     andthen (set_prev h (tail_of plist) (head_of plist)) (\<lambda>h.
     set_next h (tail_of plist) NULL)))"

definition list_insert_before :: "heap \<Rightarrow> nat \<Rightarrow> nat \<Rightarrow> heap cres" where
  "list_insert_before h before elem =
     andthen (set_prev h elem (prev (h before))) (\<lambda>h.
     andthen (set_next h elem before) (\<lambda>h.
     andthen (set_prev h before elem) (\<lambda>h.
     set_next h (prev (h elem)) elem)))"

definition list_push :: "heap \<Rightarrow> nat \<Rightarrow> nat \<Rightarrow> heap cres" where
  "list_push h plist elem = list_insert_before h (next (h (head_of plist))) elem"

definition list_append :: "heap \<Rightarrow> nat \<Rightarrow> nat \<Rightarrow> heap cres" where
  "list_append h plist elem = list_insert_before h (tail_of plist) elem"

definition list_remove :: "heap \<Rightarrow> nat \<Rightarrow> heap cres" where
  "list_remove h pelem =
     (if prev (h pelem) = NULL \<or> next (h pelem) = NULL then Inr h
      else
        andthen (set_next h (prev (h pelem)) (next (h pelem))) (\<lambda>h.
        andthen (set_prev h (next (h pelem)) (prev (h pelem))) (\<lambda>h.
        andthen (set_next h pelem NULL) (\<lambda>h.
        set_prev h pelem NULL))))"

definition list_pop :: "heap \<Rightarrow> nat \<Rightarrow> (heap \<times> nat) cres" where
  "list_pop h plist =
     (let elem = next (h (head_of plist))
      in andthen (list_remove h elem) (\<lambda>h. Inr (h, elem)))"

definition list_empty :: "heap \<Rightarrow> nat \<Rightarrow> bool" where
  "list_empty h plist \<longleftrightarrow> next (h (next (h (head_of plist)))) = NULL"

partial_function (option) find_from :: "heap \<Rightarrow> nat \<Rightarrow> nat \<Rightarrow> bool option" where
  "find_from h elem obj_elem =
     (if elem = NULL then Some False
      else if elem = obj_elem then Some True
      else find_from h (next (h elem)) obj_elem)"

definition elem_find :: "heap \<Rightarrow> nat \<Rightarrow> nat \<Rightarrow> bool option" where
  "elem_find h plist obj_elem = find_from h (next (h (head_of plist))) obj_elem"

partial_function (option) traverse_from ::
    "heap \<Rightarrow> (nat \<Rightarrow> 'a \<Rightarrow> bool) \<Rightarrow> 'a \<Rightarrow> nat \<Rightarrow> nat option" where
  "traverse_from h func arg elem =
     (if next (h elem) = NULL then Some NULL
      else if func elem arg then Some elem
      else traverse_from h func arg (next (h elem)))"

definition list_traversal :: "heap \<Rightarrow> nat \<Rightarrow> (nat \<Rightarrow> 'a \<Rightarrow> bool) \<Rightarrow> 'a \<Rightarrow> nat option" where
  "list_traversal h plist func arg =
     (if list_empty h plist then Some NULL
      else traverse_from h func arg (next (h (head_of plist))))"

partial_function (option) len_from :: "heap \<Rightarrow> nat \<Rightarrow> nat \<Rightarrow> nat \<Rightarrow> nat option" where
  "len_from h plist elem len =
     (if elem = tail_of plist then Some len
      else len_from h plist (next (h elem)) (len + 1))"

definition list_len :: "heap \<Rightarrow> nat \<Rightarrow> nat option" where
  "list_len h plist = len_from h plist (next (h (head_of plist))) 0"

section \<open>The sequence a list holds\<close>

fun chain :: "heap \<Rightarrow> nat list \<Rightarrow> bool" where
  "chain h [] = True"
| "chain h [a] = True"
| "chain h (a # b # xs) \<longleftrightarrow> next (h a) = b \<and> prev (h b) = a \<and> chain h (b # xs)"

definition nodes :: "nat \<Rightarrow> nat list \<Rightarrow> nat list" where
  "nodes plist xs = head_of plist # xs @ [tail_of plist]"

definition holds :: "heap \<Rightarrow> nat \<Rightarrow> nat list \<Rightarrow> bool" where
  "holds h plist xs \<longleftrightarrow>
     chain h (nodes plist xs) \<and> distinct (nodes plist xs) \<and> NULL \<notin> set (nodes plist xs) \<and>
     prev (h (head_of plist)) = NULL \<and> next (h (tail_of plist)) = NULL"

text \<open>A node of no list, as \<^verbatim>\<open>list_remove\<close> leaves it and as \<^verbatim>\<open>memset\<close> makes it.\<close>

definition unlinked :: "heap \<Rightarrow> nat \<Rightarrow> bool" where
  "unlinked h e \<longleftrightarrow> prev (h e) = NULL \<and> next (h e) = NULL"

lemma chain_frame: "\<forall>a\<in>set xs. h' a = h a \<Longrightarrow> chain h' xs = chain h xs"
  by (induction h xs rule: chain.induct) auto

lemma holds_frame: "\<forall>a\<in>set (nodes l xs). h' a = h a \<Longrightarrow> holds h' l xs = holds h l xs"
  using chain_frame [of "nodes l xs" h' h] by (auto simp: holds_def nodes_def)

lemma chain_append_Cons:
  "chain h (xs @ a # ys) \<longleftrightarrow> chain h (xs @ [a]) \<and> chain h (a # ys)"
proof (induction xs)
  case Nil
  then show ?case by simp
next
  case (Cons x xs)
  then show ?case by (cases xs) auto
qed

lemma chain_middle:
  "chain h (xs @ a # b # ys) \<longleftrightarrow>
   chain h (xs @ [a]) \<and> next (h a) = b \<and> prev (h b) = a \<and> chain h (b # ys)"
  by (subst chain_append_Cons) simp

lemma chain_upd_prev_hd: "a \<notin> set ys \<Longrightarrow> chain (h(a := (h a)\<lparr>prev := v\<rparr>)) (a # ys) = chain h (a # ys)"
proof (cases ys)
  case (Cons y zs)
  moreover assume "a \<notin> set ys"
  ultimately have "\<forall>c\<in>set (y # zs). (h(a := (h a)\<lparr>prev := v\<rparr>)) c = h c" "a \<noteq> y" by auto
  from chain_frame [OF this(1)] this(2) Cons show ?thesis by (simp add: fun_upd_def)
qed simp

lemma chain_upd_next_last:
  "a \<notin> set xs \<Longrightarrow> chain (h(a := (h a)\<lparr>next := v\<rparr>)) (xs @ [a]) = chain h (xs @ [a])"
proof (induction xs)
  case (Cons x xs)
  then show ?case by (cases xs) auto
qed simp

lemma chain_next: "chain h (xs @ a # b # ys) \<Longrightarrow> next (h a) = b \<and> prev (h b) = a"
  by (simp add: chain_middle)

text \<open>The links around one position, changed by one insertion or one removal.\<close>

lemma chain_insert:
  assumes ch: "chain h (xs @ a # b # ys)" and d: "distinct (xs @ a # b # ys)"
    and e: "e \<notin> set (xs @ a # b # ys)"
    and h': "h' a = (h a)\<lparr>next := e\<rparr>" "h' b = (h b)\<lparr>prev := e\<rparr>"
      "prev (h' e) = a" "next (h' e) = b" "\<And>c. c \<notin> {a, b, e} \<Longrightarrow> h' c = h c"
  shows "chain h' (xs @ a # e # b # ys)"
proof -
  from ch have 1: "chain h (xs @ [a])" and 2: "chain h (b # ys)" by (simp_all add: chain_middle)
  have "chain h' (xs @ [a])"
  proof -
    have "chain (h(a := (h a)\<lparr>next := e\<rparr>)) (xs @ [a])"
      using 1 d by (subst chain_upd_next_last) auto
    moreover have "h' c = (h(a := (h a)\<lparr>next := e\<rparr>)) c" if "c \<in> set (xs @ [a])" for c
    proof -
      from that d e have "c \<noteq> b" "c \<noteq> e" by auto
      with h' show ?thesis by (cases "c = a") simp_all
    qed
    ultimately show ?thesis using chain_frame by blast
  qed
  moreover have "chain h' (b # ys)"
  proof -
    have "chain (h(b := (h b)\<lparr>prev := e\<rparr>)) (b # ys)"
      using 2 d by (subst chain_upd_prev_hd) auto
    moreover have "h' c = (h(b := (h b)\<lparr>prev := e\<rparr>)) c" if "c \<in> set (b # ys)" for c
    proof -
      from that d e have "c \<noteq> a" "c \<noteq> e" by auto
      with h' show ?thesis by (cases "c = b") simp_all
    qed
    ultimately show ?thesis using chain_frame by blast
  qed
  ultimately show ?thesis using h' by (simp add: chain_middle)
qed

lemma chain_delete:
  assumes ch: "chain h (xs @ a # e # b # ys)" and d: "distinct (xs @ a # e # b # ys)"
    and h': "h' a = (h a)\<lparr>next := b\<rparr>" "h' b = (h b)\<lparr>prev := a\<rparr>" "\<And>c. c \<notin> {a, b, e} \<Longrightarrow> h' c = h c"
  shows "chain h' (xs @ a # b # ys)"
proof -
  from ch have 1: "chain h (xs @ [a])" and 2: "chain h (b # ys)" by (simp_all add: chain_middle)
  have "chain h' (xs @ [a])"
  proof -
    have "chain (h(a := (h a)\<lparr>next := b\<rparr>)) (xs @ [a])"
      using 1 d by (subst chain_upd_next_last) auto
    moreover have "h' c = (h(a := (h a)\<lparr>next := b\<rparr>)) c" if "c \<in> set (xs @ [a])" for c
    proof -
      from that d have "c \<noteq> b" "c \<noteq> e" by auto
      with h' show ?thesis by (cases "c = a") simp_all
    qed
    ultimately show ?thesis using chain_frame by blast
  qed
  moreover have "chain h' (b # ys)"
  proof -
    have "chain (h(b := (h b)\<lparr>prev := a\<rparr>)) (b # ys)"
      using 2 d by (subst chain_upd_prev_hd) auto
    moreover have "h' c = (h(b := (h b)\<lparr>prev := a\<rparr>)) c" if "c \<in> set (b # ys)" for c
    proof -
      from that d have "c \<noteq> a" "c \<noteq> e" by auto
      with h' show ?thesis by (cases "c = b") simp_all
    qed
    ultimately show ?thesis using chain_frame by blast
  qed
  ultimately show ?thesis using h' d by (simp add: chain_middle)
qed

lemma NULL_nodes: "holds h l xs \<Longrightarrow> a \<in> set (nodes l xs) \<Longrightarrow> a \<noteq> NULL"
  by (auto simp: holds_def)

lemma nodes_split:
  obtains us a b vs where "head_of l # xs = us @ [a]" "ys @ [tail_of l] = b # vs"
    "nodes l (xs @ ys) = us @ a # b # vs" "nodes l (xs @ e # ys) = us @ a # e # b # vs"
proof -
  obtain us a where 1: "head_of l # xs = us @ [a]" by (metis rev_exhaust list.distinct(1))
  obtain b vs where 2: "ys @ [tail_of l] = b # vs" by (cases "ys @ [tail_of l]") auto
  have "nodes l (xs @ ys) = (head_of l # xs) @ (ys @ [tail_of l])"
    "nodes l (xs @ e # ys) = (head_of l # xs) @ e # (ys @ [tail_of l])"
    by (simp_all add: nodes_def)
  with 1 2 that show thesis by simp
qed

section \<open>What the operations do to the sequence\<close>

lemma insert_before_ok:
  assumes h: "holds h l (xs @ ys)" and e: "e \<notin> set (nodes l (xs @ ys))" "e \<noteq> NULL"
  shows "\<exists>h'. list_insert_before h (hd (ys @ [tail_of l])) e = Inr h' \<and> holds h' l (xs @ e # ys) \<and>
    (\<forall>c. c \<notin> set (nodes l (xs @ e # ys)) \<longrightarrow> h' c = h c)"
proof -
  obtain us a b vs where sp: "head_of l # xs = us @ [a]" "ys @ [tail_of l] = b # vs"
    "nodes l (xs @ ys) = us @ a # b # vs" "nodes l (xs @ e # ys) = us @ a # e # b # vs"
    by (rule nodes_split)
  have ch: "chain h (us @ a # b # vs)" and d: "distinct (us @ a # b # vs)"
    and nn: "NULL \<notin> set (us @ a # b # vs)"
    and pn: "prev (h (head_of l)) = NULL" "next (h (tail_of l)) = NULL"
    using h unfolding holds_def sp(3) by auto
  have ef: "e \<notin> set (us @ a # b # vs)" using e(1) unfolding sp(3) .
  have ab: "next (h a) = b" "prev (h b) = a" using chain_next [OF ch] by auto
  have ne: "a \<noteq> NULL" "b \<noteq> NULL" "a \<noteq> b" "e \<noteq> a" "e \<noteq> b" using nn d ef by auto
  let ?h = "(h(e := \<lparr>prev = a, next = b\<rparr>, b := (h b)\<lparr>prev := e\<rparr>))
              (a := (h a)\<lparr>next := e\<rparr>)"
  have eq: "list_insert_before h b e = Inr ?h"
    using ne ab e(2)
    by (simp add: list_insert_before_def set_prev_def set_next_def fun_upd_twist)
       (rule ext, simp)
  have "chain ?h (us @ a # e # b # vs)"
    by (rule chain_insert [OF ch d ef]) (use ne in auto)
  moreover have "distinct (us @ a # e # b # vs)" "NULL \<notin> set (us @ a # e # b # vs)"
    using d ef nn e(2) by auto
  moreover have "prev (?h (head_of l)) = NULL"
  proof -
    have "head_of l \<in> set (us @ [a])" using sp(1) by (metis list.set_intros(1))
    then have "head_of l \<noteq> b" "head_of l \<noteq> e" using d ef by auto
    then show ?thesis using pn by auto
  qed
  moreover have "next (?h (tail_of l)) = NULL"
  proof -
    have "tail_of l \<in> set (b # vs)" using sp(2) by (metis in_set_conv_decomp)
    then have "tail_of l \<noteq> a" "tail_of l \<noteq> e" using d ef by auto
    then show ?thesis using pn by auto
  qed
  ultimately have "holds ?h l (xs @ e # ys)" unfolding holds_def sp(4) by blast
  moreover have "\<forall>c. c \<notin> set (nodes l (xs @ e # ys)) \<longrightarrow> ?h c = h c" unfolding sp(4) by auto
  ultimately show ?thesis using eq sp(2) by auto
qed

lemma list_append_ok:
  assumes "holds h l xs" "e \<notin> set (nodes l xs)" "e \<noteq> NULL"
  shows "\<exists>h'. list_append h l e = Inr h' \<and> holds h' l (xs @ [e]) \<and>
    (\<forall>c. c \<notin> set (nodes l (xs @ [e])) \<longrightarrow> h' c = h c)"
  using insert_before_ok [of h l xs "[]" e] assms by (simp add: list_append_def)

lemma holds_first: "holds h l xs \<Longrightarrow> next (h (head_of l)) = hd (xs @ [tail_of l])"
  using chain_next [of h "[]" "head_of l" "hd (xs @ [tail_of l])" "tl (xs @ [tail_of l])"]
  by (cases xs) (auto simp: holds_def nodes_def)

lemma list_push_ok:
  assumes "holds h l xs" "e \<notin> set (nodes l xs)" "e \<noteq> NULL"
  shows "\<exists>h'. list_push h l e = Inr h' \<and> holds h' l (e # xs) \<and>
    (\<forall>c. c \<notin> set (nodes l (e # xs)) \<longrightarrow> h' c = h c)"
  using insert_before_ok [of h l "[]" xs e] assms holds_first [of h l xs] by (simp add: list_push_def)

lemma list_remove_unlinked: "unlinked h e \<Longrightarrow> list_remove h e = Inr h"
  by (simp add: unlinked_def list_remove_def)

lemma list_remove_ok:
  assumes h: "holds h l (xs @ e # ys)"
  shows "\<exists>h'. list_remove h e = Inr h' \<and> holds h' l (xs @ ys) \<and> unlinked h' e \<and>
    (\<forall>c. c \<notin> set (nodes l (xs @ e # ys)) \<longrightarrow> h' c = h c)"
proof -
  obtain us a b vs where sp: "head_of l # xs = us @ [a]" "ys @ [tail_of l] = b # vs"
    "nodes l (xs @ ys) = us @ a # b # vs" "nodes l (xs @ e # ys) = us @ a # e # b # vs"
    by (rule nodes_split)
  have ch: "chain h (us @ a # e # b # vs)" and d: "distinct (us @ a # e # b # vs)"
    and nn: "NULL \<notin> set (us @ a # e # b # vs)"
    and pn: "prev (h (head_of l)) = NULL" "next (h (tail_of l)) = NULL"
    using h unfolding holds_def sp(4) by auto
  have ae: "prev (h e) = a" using chain_next [OF ch] by auto
  have eb: "next (h e) = b" using chain_next [of h "us @ [a]" e b vs] ch by simp
  have ne: "a \<noteq> NULL" "b \<noteq> NULL" "e \<noteq> NULL" "a \<noteq> b" "e \<noteq> a" "e \<noteq> b" using nn d by auto
  let ?h = "(h(a := (h a)\<lparr>next := b\<rparr>, b := (h b)\<lparr>prev := a\<rparr>))(e := \<lparr>prev = NULL, next = NULL\<rparr>)"
  have eq: "list_remove h e = Inr ?h"
    using ne ae eb
    by (simp add: list_remove_def set_prev_def set_next_def) (rule ext, simp)
  have "chain ?h (us @ a # b # vs)"
    by (rule chain_delete [OF ch d]) (use ne in auto)
  moreover have "distinct (us @ a # b # vs)" "NULL \<notin> set (us @ a # b # vs)" using d nn by auto
  moreover have "prev (?h (head_of l)) = NULL"
  proof -
    have "head_of l \<in> set (us @ [a])" using sp(1) by (metis list.set_intros(1))
    then have "head_of l \<noteq> b" "head_of l \<noteq> e" using d by auto
    then show ?thesis using pn by auto
  qed
  moreover have "next (?h (tail_of l)) = NULL"
  proof -
    have "tail_of l \<in> set (b # vs)" using sp(2) by (metis in_set_conv_decomp)
    then have "tail_of l \<noteq> a" "tail_of l \<noteq> e" using d by auto
    then show ?thesis using pn by auto
  qed
  ultimately have "holds ?h l (xs @ ys)" unfolding holds_def sp(3) by blast
  moreover have "unlinked ?h e" by (simp add: unlinked_def)
  moreover have "\<forall>c. c \<notin> set (nodes l (xs @ e # ys)) \<longrightarrow> ?h c = h c" unfolding sp(4) by auto
  ultimately show ?thesis using eq by blast
qed

lemma list_pop_ok:
  assumes "holds h l (x # xs)"
  shows "\<exists>h'. list_pop h l = Inr (h', x) \<and> holds h' l xs \<and> unlinked h' x \<and>
    (\<forall>c. c \<notin> set (nodes l (x # xs)) \<longrightarrow> h' c = h c)"
  using list_remove_ok [of h l "[]" x xs] holds_first [OF assms] assms
  by (auto simp: list_pop_def Let_def)

text \<open>Popping the empty list answers its tail node and leaves the list alone.\<close>

lemma list_pop_empty: "holds h l [] \<Longrightarrow> list_pop h l = Inr (h, tail_of l)"
  using holds_first [of h l "[]"] by (simp add: list_pop_def list_remove_def holds_def Let_def)

lemma list_init_ok:
  "l \<noteq> NULL \<Longrightarrow> \<exists>h'. list_init h l = Inr h' \<and> holds h' l [] \<and>
    (\<forall>c. c \<notin> set (nodes l []) \<longrightarrow> h' c = h c)"
  by (simp add: list_init_def set_prev_def set_next_def holds_def nodes_def head_of_def tail_of_def NULL_def)

lemma list_empty_iff: "holds h l xs \<Longrightarrow> list_empty h l \<longleftrightarrow> xs = []"
proof -
  assume h: "holds h l xs"
  show ?thesis
  proof (cases xs)
    case Nil
    with holds_first [OF h] h show ?thesis by (simp add: list_empty_def holds_def)
  next
    case (Cons y ys)
    have "next (h y) = hd (ys @ [tail_of l])"
      using chain_next [of h "[head_of l]" y "hd (ys @ [tail_of l])" "tl (ys @ [tail_of l])"] h Cons
      by (cases ys) (auto simp: holds_def nodes_def)
    moreover have "hd (ys @ [tail_of l]) \<in> set (nodes l xs)"
      using Cons by (cases ys) (auto simp: nodes_def)
    ultimately have "next (h y) \<noteq> NULL" using NULL_nodes [OF h] by metis
    with holds_first [OF h] Cons show ?thesis by (simp add: list_empty_def)
  qed
qed

lemma find_from_chain:
  "chain h (xs @ [t]) \<Longrightarrow> NULL \<notin> set (xs @ [t]) \<Longrightarrow> next (h t) = NULL \<Longrightarrow>
   find_from h (hd (xs @ [t])) e = Some (e \<in> set (xs @ [t]))"
proof (induction xs)
  case Nil
  then show ?case by (simp add: find_from.simps [of h t] find_from.simps [of h NULL])
next
  case (Cons x xs)
  have "chain h (xs @ [t])" "next (h x) = hd (xs @ [t])"
    using Cons.prems(1) by (cases xs; simp)+
  then show ?case using Cons by (simp add: find_from.simps [of h x] eq_commute [of e])
qed

lemma chain_tl: "chain h (a # xs) \<Longrightarrow> chain h xs"
  by (cases xs) auto

lemma elem_find_ok:
  assumes "holds h l xs"
  shows "elem_find h l e = Some (e \<in> set xs \<or> e = tail_of l)"
  using find_from_chain [of h xs "tail_of l" e] assms holds_first [OF assms]
    chain_tl [of h "head_of l" "xs @ [tail_of l]"]
  by (auto simp: elem_find_def holds_def nodes_def)

lemma len_from_chain:
  "chain h (xs @ [tail_of l]) \<Longrightarrow> tail_of l \<notin> set xs \<Longrightarrow>
   len_from h l (hd (xs @ [tail_of l])) n = Some (n + length xs)"
proof (induction xs arbitrary: n)
  case Nil
  then show ?case by (simp add: len_from.simps [of h l "tail_of l"])
next
  case (Cons x xs)
  have "chain h (xs @ [tail_of l])" "next (h x) = hd (xs @ [tail_of l])"
    using Cons.prems(1) by (cases xs; simp)+
  then show ?case using Cons by (simp add: len_from.simps [of h l x])
qed

lemma list_len_ok: "holds h l xs \<Longrightarrow> list_len h l = Some (length xs)"
  using len_from_chain [of h xs l 0] holds_first [of h l xs]
    chain_tl [of h "head_of l" "xs @ [tail_of l]"]
  by (auto simp: list_len_def holds_def nodes_def)

lemma traverse_from_chain:
  "chain h (xs @ [t]) \<Longrightarrow> NULL \<notin> set (xs @ [t]) \<Longrightarrow> next (h t) = NULL \<Longrightarrow>
   traverse_from h func arg (hd (xs @ [t])) =
     Some (case find (\<lambda>e. func e arg) xs of Some e \<Rightarrow> e | None \<Rightarrow> NULL)"
proof (induction xs)
  case Nil
  then show ?case by (simp add: traverse_from.simps [of h func arg t])
next
  case (Cons x xs)
  have "chain h (xs @ [t])" and nx: "next (h x) = hd (xs @ [t])"
    using Cons.prems(1) by (cases xs; simp)+
  moreover have "hd (xs @ [t]) \<noteq> NULL" using Cons.prems(2) by (cases xs) auto
  ultimately show ?case using Cons by (simp add: traverse_from.simps [of h func arg x])
qed

lemma list_traversal_ok:
  assumes "holds h l xs"
  shows "list_traversal h l func arg =
    Some (case find (\<lambda>e. func e arg) xs of Some e \<Rightarrow> e | None \<Rightarrow> NULL)"
proof (cases "xs = []")
  case True
  then show ?thesis using list_empty_iff [OF assms] by (simp add: list_traversal_def)
next
  case False
  then show ?thesis
    using traverse_from_chain [of h xs "tail_of l" func arg] assms holds_first [OF assms]
      chain_tl [of h "head_of l" "xs @ [tail_of l]"] list_empty_iff [OF assms]
    by (auto simp: list_traversal_def holds_def nodes_def)
qed

section \<open>The contract of the list's clients\<close>

text \<open>
  The scheduler and the semaphores keep every thread in at most one queue and move it from
  queue to queue; \<^verbatim>\<open>thread.c\<close> and \<^verbatim>\<open>sync.c\<close> do it with the operations below.
\<close>

locale queue_heap =
  fixes seq :: "'h \<Rightarrow> nat \<Rightarrow> nat list \<Rightarrow> bool"
    and cells :: "nat \<Rightarrow> nat list \<Rightarrow> nat set"
    and push :: "'h \<Rightarrow> nat \<Rightarrow> nat \<Rightarrow> 'h cres"
    and append :: "'h \<Rightarrow> nat \<Rightarrow> nat \<Rightarrow> 'h cres"
    and remove :: "'h \<Rightarrow> nat \<Rightarrow> 'h cres"
    and same :: "'h \<Rightarrow> 'h \<Rightarrow> nat \<Rightarrow> bool"
  assumes push_seq: "seq h l xs \<Longrightarrow> e \<notin> cells l xs \<Longrightarrow> e \<noteq> 0 \<Longrightarrow>
      \<exists>h'. push h l e = Inr h' \<and> seq h' l (e # xs) \<and> (\<forall>c. c \<notin> cells l (e # xs) \<longrightarrow> same h' h c)"
    and append_seq: "seq h l xs \<Longrightarrow> e \<notin> cells l xs \<Longrightarrow> e \<noteq> 0 \<Longrightarrow>
      \<exists>h'. append h l e = Inr h' \<and> seq h' l (xs @ [e]) \<and> (\<forall>c. c \<notin> cells l (xs @ [e]) \<longrightarrow> same h' h c)"
    and remove_seq: "seq h l (xs @ e # ys) \<Longrightarrow>
      \<exists>h'. remove h e = Inr h' \<and> seq h' l (xs @ ys) \<and> (\<forall>c. c \<notin> cells l (xs @ e # ys) \<longrightarrow> same h' h c)"
    and frame: "seq h l xs \<Longrightarrow> (\<And>c. c \<in> cells l xs \<Longrightarrow> same h' h c) \<Longrightarrow> seq h' l xs"
    and cells_add: "cells l (xs @ e # ys) = insert e (cells l (xs @ ys))"
    and cells_nonnull: "seq h l xs \<Longrightarrow> 0 \<notin> cells l xs"
begin

text \<open>Moving an element to the back, or to the front, of another queue.\<close>

lemma move_append:
  assumes "seq h m (ys @ e # zs)" and "seq h l xs" and "cells m (ys @ e # zs) \<inter> cells l xs = {}"
  shows "\<exists>h' h''. remove h e = Inr h' \<and> append h' l e = Inr h'' \<and> seq h'' l (xs @ [e])"
proof -
  obtain h' where h': "remove h e = Inr h'"
    "\<forall>c. c \<notin> cells m (ys @ e # zs) \<longrightarrow> same h' h c"
    using remove_seq [OF assms(1)] by auto
  have e: "e \<in> cells m (ys @ e # zs)" by (simp add: cells_add)
  have "seq h' l xs" by (rule frame [OF assms(2)]) (use h'(2) assms(3) in blast)
  moreover have "e \<notin> cells l xs" "e \<noteq> 0" using e assms(3) cells_nonnull [OF assms(1)] by auto
  ultimately show ?thesis using append_seq h'(1) by blast
qed

lemma move_push:
  assumes "seq h m (ys @ e # zs)" and "seq h l xs" and "cells m (ys @ e # zs) \<inter> cells l xs = {}"
    and "cells m (ys @ zs) \<inter> cells l (e # xs) = {}"
  shows "\<exists>h' h''. remove h e = Inr h' \<and> push h' l e = Inr h'' \<and> seq h'' l (e # xs) \<and>
    seq h'' m (ys @ zs)"
proof -
  obtain h' where h': "remove h e = Inr h'" "seq h' m (ys @ zs)"
    "\<forall>c. c \<notin> cells m (ys @ e # zs) \<longrightarrow> same h' h c"
    using remove_seq [OF assms(1)] by auto
  have e: "e \<in> cells m (ys @ e # zs)" by (simp add: cells_add)
  have "seq h' l xs" by (rule frame [OF assms(2)]) (use h'(3) assms(3) in blast)
  moreover have "e \<notin> cells l xs" "e \<noteq> 0" using e assms(3) cells_nonnull [OF assms(1)] by auto
  ultimately obtain h'' where h'': "push h' l e = Inr h''" "seq h'' l (e # xs)"
    "\<forall>c. c \<notin> cells l (e # xs) \<longrightarrow> same h'' h' c"
    using push_seq by blast
  have "seq h'' m (ys @ zs)" by (rule frame [OF h'(2)]) (use h''(3) assms(4) in blast)
  with h' h'' show ?thesis by blast
qed

end

interpretation kl: queue_heap holds "\<lambda>l xs. set (nodes l xs)" list_push list_append list_remove
  "\<lambda>h' h c. h' c = h c"
proof
  fix h h' :: heap and l e :: nat and xs ys :: "nat list"
  show "\<exists>h'. list_push h l e = Inr h' \<and> holds h' l (e # xs) \<and>
      (\<forall>c. c \<notin> set (nodes l (e # xs)) \<longrightarrow> h' c = h c)"
    if "holds h l xs" "e \<notin> set (nodes l xs)" "e \<noteq> 0"
    using list_push_ok that by (simp add: NULL_def)
  show "\<exists>h'. list_append h l e = Inr h' \<and> holds h' l (xs @ [e]) \<and>
      (\<forall>c. c \<notin> set (nodes l (xs @ [e])) \<longrightarrow> h' c = h c)"
    if "holds h l xs" "e \<notin> set (nodes l xs)" "e \<noteq> 0"
    using list_append_ok that by (simp add: NULL_def)
  show "\<exists>h'. list_remove h e = Inr h' \<and> holds h' l (xs @ ys) \<and>
      (\<forall>c. c \<notin> set (nodes l (xs @ e # ys)) \<longrightarrow> h' c = h c)"
    if "holds h l (xs @ e # ys)"
    using list_remove_ok [OF that] by blast
  show "holds h' l xs" if "holds h l xs" "\<And>c. c \<in> set (nodes l xs) \<Longrightarrow> h' c = h c"
    using that holds_frame [of l xs h' h] by blast
  show "set (nodes l (xs @ e # ys)) = insert e (set (nodes l (xs @ ys)))"
    by (auto simp: nodes_def)
  show "0 \<notin> set (nodes l xs)" if "holds h l xs" using that by (simp add: holds_def NULL_def)
qed

section \<open>Properties\<close>

text \<open>\<^verbatim>\<open>list_remove\<close> takes exactly one element out of the sequence a list holds,
  keeps the order of the others, leaves the element unlinked (so a second removal does
  nothing) and touches no node outside the list.\<close>

theorem list_remove_sequence:
  assumes "holds h l (xs @ e # ys)"
  shows "\<exists>h'. list_remove h e = Inr h' \<and> holds h' l (xs @ ys) \<and> list_remove h' e = Inr h' \<and>
    (\<forall>c. c \<notin> set (nodes l (xs @ e # ys)) \<longrightarrow> h' c = h c)"
  using list_remove_ok [OF assms] list_remove_unlinked by blast

definition sample_heap :: heap where
  "sample_heap = (\<lambda>_. \<lparr>prev = 0, next = 0\<rparr>)
     (100 := \<lparr>prev = 0, next = 200\<rparr>, 200 := \<lparr>prev = 100, next = 300\<rparr>,
      300 := \<lparr>prev = 200, next = 108\<rparr>, 108 := \<lparr>prev = 300, next = 0\<rparr>,
      400 := \<lparr>prev = 0, next = 408\<rparr>, 408 := \<lparr>prev = 400, next = 0\<rparr>)"

lemma sample_heap_holds: "holds sample_heap 100 [200, 300]" "holds sample_heap 400 []"
  by (simp_all add: holds_def nodes_def head_of_def tail_of_def sample_heap_def NULL_def)

theorem list_remove_sequence_witness:
  "\<exists>h'. list_remove sample_heap 300 = Inr h' \<and> holds h' 100 [200]"
  using list_remove_sequence [of sample_heap 100 "[200]" 300 "[]"] sample_heap_holds by auto

text \<open>moving a thread between queues: removing an element from one list and pushing it on
  another one, disjoint from the first, puts it at the front of the second and changes
  nothing else in either sequence.\<close>

theorem list_move_push:
  assumes "holds h m (ys @ e # zs)" and "holds h l xs"
    and "set (nodes m (ys @ e # zs)) \<inter> set (nodes l xs) = {}"
    and "set (nodes m (ys @ zs)) \<inter> set (nodes l (e # xs)) = {}"
  shows "\<exists>h' h''. list_remove h e = Inr h' \<and> list_push h' l e = Inr h'' \<and>
    holds h'' l (e # xs) \<and> holds h'' m (ys @ zs)"
  by (rule kl.move_push [OF assms])

theorem list_move_push_witness:
  "\<exists>h' h''. list_remove sample_heap 200 = Inr h' \<and> list_push h' 400 200 = Inr h'' \<and>
    holds h'' 400 [200] \<and> holds h'' 100 [300]"
  using list_move_push [of sample_heap 100 "[]" 200 "[300]" 400 "[]"] sample_heap_holds
  by (simp add: nodes_def head_of_def tail_of_def)

end
