(* ===== verification/IOQueue.thy ===== *)
theory IOQueue
  imports Prelude
begin

text \<open>
  \<^verbatim>\<open>kernel/device/ioqueue.c\<close>, the ring buffer between a producer and a consumer, and the
  transfer loops of \<^verbatim>\<open>kernel/device/pipe.c\<close> over it.

  A call that has to wait ends the running thread's turn.  The model gives such a call the
  outcome \<open>Waits\<close> (the thread is registered in \<open>consumer\<close> or \<open>producer\<close> and holds the
  side's lock) or \<open>Queues\<close> (another thread waits already, so the lock itself is contended);
  \<open>ioq_get_resume\<close> and \<open>ioq_put_resume\<close> are what the thread does when it runs again.
  Threads are numbers.  \<open>head\<close> and \<open>tail\<close> are the \<^verbatim>\<open>int32_t\<close> positions.
\<close>

section \<open>The code\<close>

definition bufsize :: int where
  "bufsize = 64"

record ioqueue =
  lock_consumer :: "nat option"   \<comment> \<open>the holder\<close>
  lock_producer :: "nat option"
  producer :: "nat option"
  consumer :: "nat option"
  buf :: "u8 list"
  head :: int
  tail :: int

definition ioqueue_init :: "ioqueue \<Rightarrow> ioqueue" where
  "ioqueue_init ioq = ioq\<lparr>lock_producer := None, lock_consumer := None,
     producer := None, consumer := None, head := 0, tail := 0\<rparr>"

definition next_pos :: "int \<Rightarrow> int" where
  "next_pos pos = (pos + 1) mod bufsize"

definition ioq_full :: "ioqueue \<Rightarrow> bool" where
  "ioq_full ioq \<longleftrightarrow> next_pos (head ioq) = tail ioq"

definition ioq_empty :: "ioqueue \<Rightarrow> bool" where
  "ioq_empty ioq \<longleftrightarrow> head ioq = tail ioq"

definition ioq_wait :: "nat option \<Rightarrow> nat \<Rightarrow> nat option cres" where
  "ioq_wait waiter running = andthen (assert_c (waiter = None)) (\<lambda>_. Inr (Some running))"

definition wakeup :: "nat option \<Rightarrow> (nat option \<times> nat) cres" where
  "wakeup waiter = (case waiter of None \<Rightarrow> Inl Assertion | Some t \<Rightarrow> Inr (None, t))"

datatype 'a outcome =
    Done 'a "nat option"   \<comment> \<open>the result, and the thread made ready by \<open>wakeup\<close>\<close>
  | Waits
  | Queues

definition ioq_getchar :: "ioqueue \<Rightarrow> nat \<Rightarrow> (ioqueue \<times> u8 outcome) cres" where
  "ioq_getchar ioq t =
     (if ioq_empty ioq
      then
        if lock_consumer ioq = None \<or> lock_consumer ioq = Some t
        then andthen (ioq_wait (consumer ioq) t) (\<lambda>w.
               Inr (ioq\<lparr>lock_consumer := Some t, consumer := w\<rparr>, Waits))
        else Inr (ioq, Queues)
      else
        andthen (rd (buf ioq) (nat (tail ioq))) (\<lambda>byte.
        let ioq = ioq\<lparr>tail := next_pos (tail ioq)\<rparr>
        in if producer ioq \<noteq> None
           then andthen (wakeup (producer ioq)) (\<lambda>(w, t').
                  Inr (ioq\<lparr>producer := w\<rparr>, Done byte (Some t')))
           else Inr (ioq, Done byte None)))"

definition ioq_putchar :: "ioqueue \<Rightarrow> nat \<Rightarrow> u8 \<Rightarrow> (ioqueue \<times> unit outcome) cres" where
  "ioq_putchar ioq t byte =
     (if ioq_full ioq
      then
        if lock_producer ioq = None \<or> lock_producer ioq = Some t
        then andthen (ioq_wait (producer ioq) t) (\<lambda>w.
               Inr (ioq\<lparr>lock_producer := Some t, producer := w\<rparr>, Waits))
        else Inr (ioq, Queues)
      else
        andthen (wr (buf ioq) (nat (head ioq)) byte) (\<lambda>b.
        let ioq = ioq\<lparr>buf := b, head := next_pos (head ioq)\<rparr>
        in if consumer ioq \<noteq> None
           then andthen (wakeup (consumer ioq)) (\<lambda>(w, t').
                  Inr (ioq\<lparr>consumer := w\<rparr>, Done () (Some t')))
           else Inr (ioq, Done () None)))"

text \<open>After the block: release the lock, test the loop condition again.\<close>

definition ioq_get_resume :: "ioqueue \<Rightarrow> nat \<Rightarrow> (ioqueue \<times> u8 outcome) cres" where
  "ioq_get_resume ioq t =
     andthen (assert_c (lock_consumer ioq = Some t)) (\<lambda>_.
     ioq_getchar (ioq\<lparr>lock_consumer := None\<rparr>) t)"

definition ioq_put_resume :: "ioqueue \<Rightarrow> nat \<Rightarrow> u8 \<Rightarrow> (ioqueue \<times> unit outcome) cres" where
  "ioq_put_resume ioq t byte =
     andthen (assert_c (lock_producer ioq = Some t)) (\<lambda>_.
     ioq_putchar (ioq\<lparr>lock_producer := None\<rparr>) t byte)"

definition ioq_length :: "ioqueue \<Rightarrow> int" where
  "ioq_length ioq =
     (if head ioq \<ge> tail ioq then head ioq - tail ioq
      else bufsize - (tail ioq - head ioq))"

text \<open>The loops of \<^verbatim>\<open>pipe_read\<close> and \<^verbatim>\<open>pipe_write\<close>: the bytes moved so far, and whether
  the loop ran to its end (\<open>None\<close>) or the thread had to wait in the middle.\<close>

fun read_loop :: "ioqueue \<Rightarrow> nat \<Rightarrow> nat \<Rightarrow> (ioqueue \<times> u8 list \<times> u8 outcome option) cres" where
  "read_loop ioq t 0 = Inr (ioq, [], None)"
| "read_loop ioq t (Suc n) =
     andthen (ioq_getchar ioq t) (\<lambda>(ioq, r).
       case r of
         Done byte _ \<Rightarrow> andthen (read_loop ioq t n) (\<lambda>(ioq, bs, w). Inr (ioq, byte # bs, w))
       | _ \<Rightarrow> Inr (ioq, [], Some r))"

fun write_loop :: "ioqueue \<Rightarrow> nat \<Rightarrow> u8 list \<Rightarrow> (ioqueue \<times> nat \<times> unit outcome option) cres" where
  "write_loop ioq t [] = Inr (ioq, 0, None)"
| "write_loop ioq t (b # bs) =
     andthen (ioq_putchar ioq t b) (\<lambda>(ioq, r).
       case r of
         Done _ _ \<Rightarrow> andthen (write_loop ioq t bs) (\<lambda>(ioq, n, w). Inr (ioq, Suc n, w))
       | _ \<Rightarrow> Inr (ioq, 0, Some r))"

definition pipe_read :: "ioqueue \<Rightarrow> nat \<Rightarrow> nat \<Rightarrow> (ioqueue \<times> u8 list \<times> u8 outcome option) cres" where
  "pipe_read ioq t count =
     (let ioq_len = nat (ioq_length ioq);
          size = (if ioq_len > count then count else ioq_len)
      in read_loop ioq t size)"

text \<open>\<open>data\<close> is the buffer, of which \<^verbatim>\<open>count\<close> bytes are asked for.\<close>

definition pipe_write ::
    "ioqueue \<Rightarrow> nat \<Rightarrow> u8 list \<Rightarrow> nat \<Rightarrow> (ioqueue \<times> nat \<times> unit outcome option) cres" where
  "pipe_write ioq t data count =
     (let ioq_left = nat (bufsize - ioq_length ioq);
          size = (if ioq_left > count then count else ioq_left)
      in andthen (if size \<le> length data then Inr () else Inl Wild) (\<lambda>_.
         write_loop ioq t (take size data)))"

section \<open>The queue a ring holds\<close>

definition ioq_wf :: "ioqueue \<Rightarrow> bool" where
  "ioq_wf q \<longleftrightarrow> length (buf q) = 64 \<and> 0 \<le> head q \<and> head q < bufsize \<and>
     0 \<le> tail q \<and> tail q < bufsize"

definition contents :: "ioqueue \<Rightarrow> u8 list" where
  "contents q = map (\<lambda>i. buf q ! nat ((tail q + int i) mod bufsize)) [0..<nat (ioq_length q)]"

lemma ioq_length_mod: "ioq_wf q \<Longrightarrow> ioq_length q = (head q - tail q) mod bufsize"
proof -
  assume w: "ioq_wf q"
  show ?thesis
  proof (cases "tail q \<le> head q")
    case True
    with w show ?thesis by (simp add: ioq_length_def ioq_wf_def)
  next
    case False
    with w have "(head q - tail q + bufsize) mod bufsize = head q - tail q + bufsize"
      by (intro mod_pos_pos_trivial) (auto simp: ioq_wf_def)
    with False show ?thesis by (simp add: ioq_length_def)
  qed
qed

lemma ioq_length_range: "ioq_wf q \<Longrightarrow> 0 \<le> ioq_length q \<and> ioq_length q < bufsize"
  by (auto simp: ioq_length_def ioq_wf_def)

lemma length_contents [simp]: "length (contents q) = nat (ioq_length q)"
  by (simp add: contents_def)

lemma capacity: "ioq_wf q \<Longrightarrow> length (contents q) \<le> 63"
  using ioq_length_range [of q] unfolding length_contents bufsize_def by linarith

lemma ioq_empty_iff: "ioq_wf q \<Longrightarrow> ioq_empty q \<longleftrightarrow> contents q = []"
  by (auto simp: ioq_empty_def contents_def ioq_length_def ioq_wf_def)

lemma ioq_full_length: "ioq_wf q \<Longrightarrow> ioq_full q \<longleftrightarrow> ioq_length q = 63"
proof -
  assume w: "ioq_wf q"
  then have "next_pos (head q) = (if head q = 63 then 0 else head q + 1)"
    by (auto simp: next_pos_def ioq_wf_def bufsize_def)
  with w show ?thesis by (auto simp: ioq_full_def ioq_length_def ioq_wf_def bufsize_def)
qed

lemma ioq_full_iff: "ioq_wf q \<Longrightarrow> ioq_full q \<longleftrightarrow> length (contents q) = 63"
  using ioq_full_length [of q] ioq_length_range [of q] by auto

lemma next_pos_range: "0 \<le> next_pos p \<and> next_pos p < bufsize"
  by (simp add: next_pos_def bufsize_def)

lemma slot_inj:
  assumes "0 \<le> i" "i < bufsize" "0 \<le> j" "j < bufsize" "(p + i) mod bufsize = (p + j) mod bufsize"
  shows "i = j"
proof -
  have "(p + i - p) mod bufsize = (p + j - p) mod bufsize"
    using assms(5) by (rule mod_diff_cong) simp
  with assms show ?thesis by simp
qed

lemma slot_end: "ioq_wf q \<Longrightarrow> (tail q + ioq_length q) mod bufsize = head q"
proof -
  assume w: "ioq_wf q"
  then have "(tail q + ioq_length q) mod bufsize = (tail q + (head q - tail q)) mod bufsize"
    by (simp only: ioq_length_mod mod_add_right_eq)
  with w show ?thesis by (simp add: ioq_wf_def)
qed

text \<open>Taking from a ring that is not empty, whoever waits on the other side.\<close>

lemma get_step:
  assumes w: "ioq_wf q" and c: "contents q = c # cs"
  shows "\<exists>q' r. ioq_getchar q t = Inr (q', Done c r) \<and> ioq_wf q' \<and> contents q' = cs \<and>
    r = producer q \<and> producer q' = None \<and> consumer q' = consumer q \<and>
    lock_consumer q' = lock_consumer q \<and> lock_producer q' = lock_producer q"
proof -
  let ?q = "q\<lparr>tail := next_pos (tail q), producer := None\<rparr>"
  have ne: "\<not> ioq_empty q" using ioq_empty_iff [OF w] c by simp
  have pos: "0 < ioq_length q" using c length_contents [of q] by (simp del: length_contents)
  have wf: "ioq_wf ?q" using w next_pos_range [of "tail q"] by (simp add: ioq_wf_def)
  have "ioq_length ?q = (head q - (tail q + 1)) mod bufsize"
    using ioq_length_mod [OF wf] by (simp add: next_pos_def mod_diff_right_eq)
  also have "\<dots> = ((head q - tail q) mod bufsize - 1) mod bufsize"
    by (simp add: mod_diff_left_eq algebra_simps)
  also have "\<dots> = (ioq_length q - 1) mod bufsize" using ioq_length_mod [OF w] by simp
  also have "\<dots> = ioq_length q - 1"
    using pos ioq_length_range [OF w] by (intro mod_pos_pos_trivial) auto
  finally have len: "nat (ioq_length q) = Suc (nat (ioq_length ?q))" using pos by simp
  have "contents q = buf q ! nat (tail q) # contents ?q"
  proof -
    have "[0..<nat (ioq_length q)] = 0 # map Suc [0..<nat (ioq_length ?q)]"
      by (simp only: len map_Suc_upt upt_conv_Cons zero_less_Suc)
    moreover have "(next_pos (tail q) + int i) mod bufsize = (tail q + int (Suc i)) mod bufsize" for i
    proof -
      have "tail q + 1 + int i = tail q + int (Suc i)" by simp
      then show ?thesis by (simp only: next_pos_def mod_add_left_eq)
    qed
    moreover have "tail q mod bufsize = tail q" using w by (simp add: ioq_wf_def)
    ultimately show ?thesis by (simp add: contents_def del: of_nat_Suc)
  qed
  with c have "buf q ! nat (tail q) = c" "contents ?q = cs" by auto
  moreover have "nat (tail q) < length (buf q)" using w by (auto simp: ioq_wf_def bufsize_def)
  then have "ioq_getchar q t = Inr (?q, Done (buf q ! nat (tail q)) (producer q))"
    using ne by (cases "producer q") (simp_all add: ioq_getchar_def wakeup_def Let_def)
  ultimately show ?thesis using wf by simp
qed

lemma put_step:
  assumes w: "ioq_wf q" and room: "length (contents q) < 63"
  shows "\<exists>q' r. ioq_putchar q t b = Inr (q', Done () r) \<and> ioq_wf q' \<and> contents q' = contents q @ [b] \<and>
    r = consumer q \<and> consumer q' = None \<and> producer q' = producer q \<and>
    lock_consumer q' = lock_consumer q \<and> lock_producer q' = lock_producer q"
proof -
  let ?q = "q\<lparr>buf := (buf q)[nat (head q) := b], head := next_pos (head q), consumer := None\<rparr>"
  have nf: "\<not> ioq_full q" using ioq_full_iff [OF w] room by simp
  have len63: "ioq_length q < 63" using room by simp
  have wf: "ioq_wf ?q" using w next_pos_range [of "head q"] by (simp add: ioq_wf_def)
  have "ioq_length ?q = (head q + 1 - tail q) mod bufsize"
    using ioq_length_mod [OF wf] by (simp add: next_pos_def mod_diff_left_eq)
  also have "\<dots> = ((head q - tail q) mod bufsize + 1) mod bufsize"
  proof -
    have "head q + 1 - tail q = (head q - tail q) + 1" by simp
    then show ?thesis by (simp only: mod_add_left_eq)
  qed
  also have "\<dots> = (ioq_length q + 1) mod bufsize" using ioq_length_mod [OF w] by simp
  also have "\<dots> = ioq_length q + 1"
    using len63 ioq_length_range [OF w] by (intro mod_pos_pos_trivial) (auto simp: bufsize_def)
  finally have len: "nat (ioq_length ?q) = Suc (nat (ioq_length q))"
    using ioq_length_range [OF w] by (simp add: nat_add_distrib)
  have old: "buf ?q ! nat ((tail q + int i) mod bufsize) = buf q ! nat ((tail q + int i) mod bufsize)"
    if "i < nat (ioq_length q)" for i
  proof -
    have "int i < ioq_length q" using that by linarith
    then have "(tail q + int i) mod bufsize \<noteq> (tail q + ioq_length q) mod bufsize"
      using ioq_length_range [OF w] slot_inj [of "int i" "ioq_length q" "tail q"] by auto
    then have "nat ((tail q + int i) mod bufsize) \<noteq> nat (head q)"
      using slot_end [OF w] w by (auto simp: ioq_wf_def bufsize_def nat_eq_iff)
    then show ?thesis by simp
  qed
  have new: "buf ?q ! nat ((tail q + int (nat (ioq_length q))) mod bufsize) = b"
    using slot_end [OF w] w ioq_length_range [OF w] by (simp add: ioq_wf_def bufsize_def)
  have "contents ?q = contents q @ [b]"
  proof -
    have "contents ?q = map (\<lambda>i. buf ?q ! nat ((tail q + int i) mod bufsize)) [0..<nat (ioq_length q)] @
        [buf ?q ! nat ((tail q + int (nat (ioq_length q))) mod bufsize)]"
      unfolding contents_def len upt_Suc by simp
    also have "\<dots> = contents q @ [b]"
      unfolding new contents_def using old by auto
    finally show ?thesis .
  qed
  moreover have "nat (head q) < length (buf q)" using w by (auto simp: ioq_wf_def bufsize_def)
  then have "ioq_putchar q t b = Inr (?q, Done () (consumer q))"
    using nf by (cases "consumer q") (simp_all add: ioq_putchar_def wakeup_def Let_def)
  ultimately show ?thesis using wf by simp
qed

lemma get_empty:
  assumes "ioq_wf q" "contents q = []" "lock_consumer q = None" "consumer q = None"
  shows "ioq_getchar q t = Inr (q\<lparr>lock_consumer := Some t, consumer := Some t\<rparr>, Waits)"
  using assms ioq_empty_iff [of q] by (simp add: ioq_getchar_def ioq_wait_def)

lemma put_full:
  assumes "ioq_wf q" "length (contents q) = 63" "lock_producer q = None" "producer q = None"
  shows "ioq_putchar q t b = Inr (q\<lparr>lock_producer := Some t, producer := Some t\<rparr>, Waits)"
  using assms ioq_full_iff [of q] by (simp add: ioq_putchar_def ioq_wait_def)

lemma contents_init: "contents (ioqueue_init q) = []"
  by (simp add: contents_def ioqueue_init_def ioq_length_def)

lemma ioq_wf_init: "length (buf q) = 64 \<Longrightarrow> ioq_wf (ioqueue_init q)"
  by (simp add: ioq_wf_def ioqueue_init_def bufsize_def)

section \<open>The contract of a byte queue\<close>

text \<open>
  The pipe and the keyboard driver see the ring as a bounded queue of bytes.  \<open>get\<close> and
  \<open>put\<close> answer the byte, or nothing when the caller has to wait.
\<close>

locale byte_queue =
  fixes wf :: "'q \<Rightarrow> bool"
    and seq :: "'q \<Rightarrow> 'b list"
    and cap :: nat
    and get :: "'q \<Rightarrow> ('q \<times> 'b option) cres"
    and put :: "'q \<Rightarrow> 'b \<Rightarrow> ('q \<times> unit option) cres"
  assumes get_some: "wf q \<Longrightarrow> seq q = c # cs \<Longrightarrow> \<exists>q'. get q = Inr (q', Some c) \<and> wf q' \<and> seq q' = cs"
    and put_some: "wf q \<Longrightarrow> length (seq q) < cap \<Longrightarrow>
        \<exists>q'. put q b = Inr (q', Some ()) \<and> wf q' \<and> seq q' = seq q @ [b]"
begin

lemma put_then_get_empty:
  assumes "wf q" and "seq q = []" and "0 < cap"
  shows "\<exists>q' q''. put q b = Inr (q', Some ()) \<and> get q' = Inr (q'', Some b) \<and> seq q'' = []"
proof -
  obtain q' where q': "put q b = Inr (q', Some ())" "wf q'" "seq q' = [b]"
    using put_some [OF assms(1), of b] assms(2,3) by auto
  moreover obtain q'' where "get q' = Inr (q'', Some b)" "seq q'' = []"
    using get_some [OF q'(2,3)] by auto
  ultimately show ?thesis by blast
qed

text \<open>The order is first in, first out.\<close>

lemma put_get_order:
  assumes "wf q" and "seq q = c # cs" and "length (seq q) < cap"
  shows "\<exists>q' q''. put q b = Inr (q', Some ()) \<and> get q' = Inr (q'', Some c) \<and> seq q'' = cs @ [b]"
proof -
  obtain q' where q': "put q b = Inr (q', Some ())" "wf q'" "seq q' = c # cs @ [b]"
    using put_some [OF assms(1,3), of b] assms(2) by auto
  moreover obtain q'' where "get q' = Inr (q'', Some c)" "seq q'' = cs @ [b]"
    using get_some [OF q'(2,3)] by auto
  ultimately show ?thesis by blast
qed

end

definition outcome_value :: "'a outcome \<Rightarrow> 'a option" where
  "outcome_value r = (case r of Done x _ \<Rightarrow> Some x | _ \<Rightarrow> None)"

lemma outcome_value_simps [simp]:
  "outcome_value (Done x w) = Some x" "outcome_value Waits = None" "outcome_value Queues = None"
  by (simp_all add: outcome_value_def)

definition get_of :: "nat \<Rightarrow> ioqueue \<Rightarrow> (ioqueue \<times> u8 option) cres" where
  "get_of t q = andthen (ioq_getchar q t) (\<lambda>(q, r). Inr (q, outcome_value r))"

definition put_of :: "nat \<Rightarrow> ioqueue \<Rightarrow> u8 \<Rightarrow> (ioqueue \<times> unit option) cres" where
  "put_of t q b = andthen (ioq_putchar q t b) (\<lambda>(q, r). Inr (q, outcome_value r))"

interpretation ring: byte_queue ioq_wf contents 63 "get_of t" "put_of t" for t
proof
  fix q c cs b
  show "\<exists>q'. get_of t q = Inr (q', Some c) \<and> ioq_wf q' \<and> contents q' = cs"
    if "ioq_wf q" "contents q = c # cs"
    using get_step [OF that, of t] by (auto simp: get_of_def)
  show "\<exists>q'. put_of t q b = Inr (q', Some ()) \<and> ioq_wf q' \<and> contents q' = contents q @ [b]"
    if "ioq_wf q" "length (contents q) < 63"
    using put_step [OF that, of t b] by (auto simp: put_of_def)
qed

section \<open>The pipe\<close>

lemma read_loop_ok:
  "ioq_wf q \<Longrightarrow> n \<le> length (contents q) \<Longrightarrow>
   \<exists>q'. read_loop q t n = Inr (q', take n (contents q), None) \<and> ioq_wf q' \<and>
     contents q' = drop n (contents q)"
proof (induction n arbitrary: q)
  case 0
  then show ?case by simp
next
  case (Suc n)
  then obtain c cs where c: "contents q = c # cs" by (cases "contents q") auto
  obtain q1 r where q1: "ioq_getchar q t = Inr (q1, Done c r)" "ioq_wf q1" "contents q1 = cs"
    using get_step [OF Suc.prems(1) c] by blast
  have "n \<le> length (contents q1)" using Suc.prems(2) c q1(3) by simp
  then obtain q2 where "read_loop q1 t n = Inr (q2, take n cs, None)" "ioq_wf q2"
    "contents q2 = drop n cs"
    using Suc.IH [OF q1(2)] q1(3) by auto
  with q1 c show ?case by auto
qed

lemma write_loop_ok:
  "ioq_wf q \<Longrightarrow> length (contents q) + length bs \<le> 63 \<Longrightarrow>
   \<exists>q'. write_loop q t bs = Inr (q', length bs, None) \<and> ioq_wf q' \<and>
     contents q' = contents q @ bs"
proof (induction bs arbitrary: q)
  case Nil
  then show ?case by simp
next
  case (Cons b bs)
  have "length (contents q) < 63" using Cons.prems(2) by simp
  then obtain q1 r where q1: "ioq_putchar q t b = Inr (q1, Done () r)" "ioq_wf q1"
    "contents q1 = contents q @ [b]"
    using put_step [OF Cons.prems(1)] by blast
  have "length (contents q1) + length bs \<le> 63" using Cons.prems(2) unfolding q1(3) by simp
  then obtain q2 where "write_loop q1 t bs = Inr (q2, length bs, None)" "ioq_wf q2"
    "contents q2 = contents q1 @ bs"
    using Cons.IH [OF q1(2)] by blast
  with q1 show ?case by auto
qed

text \<open>Filling the ring to the last slot and going on: the loop stops after the free slots.\<close>

lemma put_step_locks:
  assumes "ioq_wf q" "length (contents q) < 63" "lock_producer q = None" "producer q = None"
  obtains q' r where "ioq_putchar q t b = Inr (q', Done () r)" "ioq_wf q'"
    "contents q' = contents q @ [b]" "lock_producer q' = None" "producer q' = None"
  using put_step [OF assms(1,2), of t b] assms(3,4) by auto

lemma write_loop_full:
  "ioq_wf q \<Longrightarrow> lock_producer q = None \<Longrightarrow> producer q = None \<Longrightarrow>
   63 < length (contents q) + length bs \<Longrightarrow>
   \<exists>q'. write_loop q t bs = Inr (q', 63 - length (contents q), Some Waits) \<and>
     contents q' = contents q @ take (63 - length (contents q)) bs \<and> producer q' = Some t"
proof (induction bs arbitrary: q)
  case Nil
  then show ?case using capacity [of q] by simp
next
  case (Cons b bs)
  show ?case
  proof (cases "length (contents q) = 63")
    case True
    let ?q = "q\<lparr>lock_producer := Some t, producer := Some t\<rparr>"
    have "ioq_putchar q t b = Inr (?q, Waits)" using put_full Cons.prems True by blast
    moreover have "contents ?q = contents q" by (simp add: contents_def ioq_length_def)
    ultimately show ?thesis using True by simp
  next
    case False
    with capacity [OF Cons.prems(1)] have room: "length (contents q) < 63" by simp
    obtain q1 r where q1: "ioq_putchar q t b = Inr (q1, Done () r)" "ioq_wf q1"
      "contents q1 = contents q @ [b]" "lock_producer q1 = None" "producer q1 = None"
      by (rule put_step_locks [OF Cons.prems(1) room Cons.prems(2,3)])
    have "63 < length (contents q1) + length bs" using Cons.prems(4) unfolding q1(3) by simp
    then obtain q2 where q2: "write_loop q1 t bs = Inr (q2, 63 - length (contents q1), Some Waits)"
      "contents q2 = contents q1 @ take (63 - length (contents q1)) bs" "producer q2 = Some t"
      using Cons.IH [OF q1(2,4,5)] by blast
    have l1: "length (contents q1) = Suc (length (contents q))" unfolding q1(3) by simp
    have n: "63 - length (contents q) = Suc (63 - length (contents q1))" unfolding l1 using room by simp
    have "contents q2 = contents q @ take (63 - length (contents q)) (b # bs)"
      unfolding n take_Suc_Cons q2(2) using q1(3) by simp
    moreover have "write_loop q t (b # bs) = Inr (q2, 63 - length (contents q), Some Waits)"
      unfolding n using q1(1) q2(1) by simp
    ultimately show ?thesis using q2(3) by blast
  qed
qed

lemma pipe_read_ok:
  assumes "ioq_wf q"
  shows "\<exists>q'. pipe_read q t count = Inr (q', take count (contents q), None) \<and> ioq_wf q' \<and>
    contents q' = drop count (contents q)"
proof -
  let ?n = "if nat (ioq_length q) > count then count else nat (ioq_length q)"
  have n: "?n \<le> length (contents q)" by simp
  have "take ?n (contents q) = take count (contents q)" "drop ?n (contents q) = drop count (contents q)"
    by simp_all
  with read_loop_ok [OF assms n, of t] show ?thesis by (simp add: pipe_read_def Let_def)
qed

lemma bytes_left: "ioq_wf q \<Longrightarrow> nat (bufsize - ioq_length q) = 64 - length (contents q)"
  using ioq_length_range [of q] by (simp add: bufsize_def nat_diff_distrib)

lemma pipe_write_fits:
  assumes "ioq_wf q" "count \<le> length data" "length (contents q) + count < 64"
  shows "\<exists>q'. pipe_write q t data count = Inr (q', count, None) \<and> ioq_wf q' \<and>
    contents q' = contents q @ take count data"
proof -
  have "pipe_write q t data count = write_loop q t (take count data)"
  proof -
    have "count < 64 - length (contents q)" using assms(3) by linarith
    then show ?thesis
      unfolding pipe_write_def Let_def bytes_left [OF assms(1)] using assms(2) by (simp only: if_True andthen_Inr)
  qed
  moreover have "length (take count data) = count" using assms(2) by simp
  ultimately show ?thesis using write_loop_ok [OF assms(1), of "take count data" t] assms(3) by auto
qed

lemma pipe_write_blocks:
  assumes "ioq_wf q" "count \<le> length data" "64 \<le> length (contents q) + count"
    and "lock_producer q = None" "producer q = None"
  shows "\<exists>q'. pipe_write q t data count = Inr (q', 63 - length (contents q), Some Waits) \<and>
    contents q' = contents q @ take (63 - length (contents q)) data"
proof -
  let ?n = "64 - length (contents q)"
  have n: "?n \<le> count" using assms(3) by simp
  then have "pipe_write q t data count = write_loop q t (take ?n data)"
    unfolding pipe_write_def Let_def bytes_left [OF assms(1)] using assms(2) by simp
  moreover have "length (take ?n data) = ?n" using n assms(2) by simp
  then have "63 < length (contents q) + length (take ?n data)" using capacity [OF assms(1)] by simp
  moreover have "take (63 - length (contents q)) (take ?n data) = take (63 - length (contents q)) data"
    by (simp add: min_def)
  ultimately show ?thesis using write_loop_full [OF assms(1,4,5), of "take ?n data" t] by fastforce
qed

section \<open>Properties\<close>

text \<open>C20: what goes into a pipe comes out of it, in order: when the bytes fit, writing
  \<open>count\<close> of them and then reading back as many bytes as the pipe holds yields the old contents
  followed by the new bytes, leaves the pipe empty, and neither side waits.\<close>

theorem pipe_write_read:
  assumes "ioq_wf q" and "count \<le> length data" and "length (contents q) + count < 64"
  shows "\<exists>q' q''. pipe_write q t data count = Inr (q', count, None) \<and>
    pipe_read q' t' (length (contents q) + count) = Inr (q'', contents q @ take count data, None) \<and>
    contents q'' = []"
proof -
  obtain q' where q': "pipe_write q t data count = Inr (q', count, None)" "ioq_wf q'"
    "contents q' = contents q @ take count data"
    using pipe_write_fits [OF assms] by blast
  have "length (contents q') = length (contents q) + count"
    unfolding q'(3) using assms(2) by (simp del: length_contents)
  then show ?thesis
    using pipe_read_ok [OF q'(2), of t' "length (contents q) + count"] q'(1,3)
    by (auto simp del: length_contents)
qed

definition empty_ring :: ioqueue where
  "empty_ring = \<lparr>lock_consumer = None, lock_producer = None, producer = None, consumer = None,
     buf = replicate 64 0, head = 60, tail = 60\<rparr>"

lemma empty_ring [simp]: "ioq_wf empty_ring" "contents empty_ring = []"
  "lock_producer empty_ring = None" "producer empty_ring = None"
  by (simp_all add: empty_ring_def ioq_wf_def bufsize_def contents_def ioq_length_def)

theorem pipe_write_read_witness:
  "\<exists>q' q''. pipe_write empty_ring 1 [1, 2, 3, 4, 5, 6] 5 = Inr (q', 5, None) \<and>
    pipe_read q' 2 5 = Inr (q'', [1, 2, 3, 4, 5], None)"
  using pipe_write_read [of empty_ring 5 "[1, 2, 3, 4, 5, 6]" 1 2] by (simp del: length_contents) blast

text \<open>a write that asks for at least \<open>64 - length\<close> bytes always waits for a reader: the
  ring holds only 63 bytes, \<^verbatim>\<open>pipe_write\<close> counts 64, so it fills the ring, moves
  \<open>63 - length\<close> bytes and then blocks instead of returning a short count.\<close>

theorem pipe_write_waits:
  assumes "ioq_wf q" and "count \<le> length data" and "64 \<le> length (contents q) + count"
    and "lock_producer q = None" and "producer q = None"
  shows "\<exists>q'. pipe_write q t data count = Inr (q', 63 - length (contents q), Some Waits) \<and>
    contents q' = contents q @ take (63 - length (contents q)) data"
  using pipe_write_blocks [OF assms] .

theorem pipe_write_waits_witness:
  "\<exists>q'. pipe_write empty_ring 1 (replicate 80 7) 64 = Inr (q', 63, Some Waits)"
  using pipe_write_waits [of empty_ring 64 "replicate 80 7" 1] by (simp del: length_contents) blast

end
