(* ===== verification/CString.thy ===== *)
theory CString
  imports Prelude
begin

text \<open>
  \<^verbatim>\<open>kernel/memop/string.c\<close>: the byte and string routines the whole kernel uses.

  A pointer argument is the list of bytes from the pointed-to cell to the end of its
  object; running off that list is the fault \<open>Wild\<close>.  \<^verbatim>\<open>char\<close> is the signed char of
  the i386 ABI, so an ordering of characters is the signed one.  The two arguments of a
  copy are distinct objects.  \<open>ASSERT(p != NULL)\<close> always holds of such a pointer and is
  not repeated.
\<close>

section \<open>Blocks of bytes\<close>

fun memset_loop :: "u8 list \<Rightarrow> u8 \<Rightarrow> nat \<Rightarrow> u8 list cres" where
  "memset_loop dst v 0 = Inr dst"
| "memset_loop [] v (Suc n) = Inl Wild"
| "memset_loop (_ # dst) v (Suc n) = andthen (memset_loop dst v n) (\<lambda>r. Inr (v # r))"

definition memset :: "u8 list \<Rightarrow> u8 \<Rightarrow> nat \<Rightarrow> u8 list cres" where
  "memset dst v n = andthen (assert_c (0 < n)) (\<lambda>_. memset_loop dst v n)"

fun memcpy :: "u8 list \<Rightarrow> u8 list \<Rightarrow> nat \<Rightarrow> u8 list cres" where
  "memcpy dst src 0 = Inr dst"
| "memcpy (_ # dst) (b # src) (Suc n) = andthen (memcpy dst src n) (\<lambda>r. Inr (b # r))"
| "memcpy dst src (Suc n) = Inl Wild"

fun memcmp :: "u8 list \<Rightarrow> u8 list \<Rightarrow> nat \<Rightarrow> int cres" where
  "memcmp a b 0 = Inr 0"
| "memcmp (x # a) (y # b) (Suc n) =
     (if x \<noteq> y then Inr (if sint x > sint y then 1 else -1) else memcmp a b n)"
| "memcmp a b (Suc n) = Inl Wild"

section \<open>Strings\<close>

fun strlen :: "u8 list \<Rightarrow> nat cres" where
  "strlen [] = Inl Wild"
| "strlen (c # s) = (if c = 0 then Inr 0 else andthen (strlen s) (\<lambda>n. Inr (Suc n)))"

fun strcpy :: "u8 list \<Rightarrow> u8 list \<Rightarrow> u8 list cres" where
  "strcpy (_ # dst) (c # src) =
     (if c = 0 then Inr (c # dst) else andthen (strcpy dst src) (\<lambda>r. Inr (c # r)))"
| "strcpy dst src = Inl Wild"

fun strcmp :: "u8 list \<Rightarrow> u8 list \<Rightarrow> int cres" where
  "strcmp (a # as) (b # bs) =
     (if a \<noteq> 0 \<and> a = b then strcmp as bs
      else Inr (if sint a < sint b then -1 else if sint a > sint b then 1 else 0))"
| "strcmp as bs = Inl Wild"

text \<open>The pointer results of \<^verbatim>\<open>strchr\<close> and \<^verbatim>\<open>strrchr\<close> are offsets into the
  string; \<open>None\<close> is \<^verbatim>\<open>NULL\<close>.  \<^verbatim>\<open>*str==ch\<close> compares a promoted signed
  \<^verbatim>\<open>char\<close> with a promoted \<^verbatim>\<open>uint8_t\<close>.\<close>

definition char_eq :: "u8 \<Rightarrow> u8 \<Rightarrow> bool" where
  "char_eq c ch \<longleftrightarrow> sint c = uint ch"

fun strchr :: "u8 list \<Rightarrow> u8 \<Rightarrow> nat option cres" where
  "strchr [] ch = Inl Wild"
| "strchr (c # s) ch =
     (if c = 0 then Inr None else if char_eq c ch then Inr (Some 0)
      else andthen (strchr s ch) (\<lambda>r. Inr (map_option Suc r)))"

fun strrchr_loop :: "u8 list \<Rightarrow> u8 \<Rightarrow> nat \<Rightarrow> nat option \<Rightarrow> nat option cres" where
  "strrchr_loop [] ch i last_char = Inl Wild"
| "strrchr_loop (c # s) ch i last_char =
     (if c = 0 then Inr last_char
      else strrchr_loop s ch (Suc i) (if char_eq c ch then Some i else last_char))"

definition strrchr :: "u8 list \<Rightarrow> u8 \<Rightarrow> nat option cres" where
  "strrchr s ch = strrchr_loop s ch 0 None"

fun strcat :: "u8 list \<Rightarrow> u8 list \<Rightarrow> u8 list cres" where
  "strcat [] src = Inl Wild"
| "strcat (c # dst) src =
     (if c = 0 then strcpy (c # dst) src else andthen (strcat dst src) (\<lambda>r. Inr (c # r)))"

fun strchrs_loop :: "u8 list \<Rightarrow> u8 \<Rightarrow> nat \<Rightarrow> nat cres" where
  "strchrs_loop [] ch n = Inl Wild"
| "strchrs_loop (c # s) ch n =
     (if c = 0 then Inr n else strchrs_loop s ch (if char_eq c ch then Suc n else n))"

definition strchrs :: "u8 list \<Rightarrow> u8 \<Rightarrow> nat cres" where
  "strchrs s ch = strchrs_loop s ch 0"

section \<open>What the routines compute\<close>

text \<open>The string a buffer holds: the bytes before its first zero, when it has one.\<close>

definition terminated :: "u8 list \<Rightarrow> bool" where
  "terminated buf \<longleftrightarrow> 0 \<in> set buf"

definition cstr :: "u8 list \<Rightarrow> u8 list" where
  "cstr buf = takeWhile (\<lambda>c. c \<noteq> 0) buf"

lemma terminated_simps [simp]:
  "\<not> terminated []" "terminated (c # s) \<longleftrightarrow> c = 0 \<or> terminated s"
  by (auto simp: terminated_def)

lemma cstr_simps [simp]: "cstr [] = []" "cstr (c # s) = (if c = 0 then [] else c # cstr s)"
  by (simp_all add: cstr_def)

lemma zero_notin_cstr [simp]: "0 \<notin> set (cstr buf)"
  by (induction buf) auto

lemma cstr_append_zero [simp]: "0 \<notin> set s \<Longrightarrow> cstr (s @ 0 # t) = s"
  by (induction s) auto

lemma terminated_append_zero [simp]: "terminated (s @ 0 # t)"
  by (simp add: terminated_def)

lemma terminated_split: "terminated buf \<Longrightarrow> \<exists>t. buf = cstr buf @ 0 # t"
  by (induction buf) auto

lemma memset_loop_ok: "n \<le> length dst \<Longrightarrow> memset_loop dst v n = Inr (replicate n v @ drop n dst)"
  by (induction dst v n rule: memset_loop.induct) auto

lemma memset_ok:
  "0 < n \<Longrightarrow> n \<le> length dst \<Longrightarrow> memset dst v n = Inr (replicate n v @ drop n dst)"
  by (simp add: memset_def memset_loop_ok)

lemma memset_zero_size: "memset dst v 0 = Inl Assertion"
  by (simp add: memset_def)

lemma memcpy_ok:
  "n \<le> length dst \<Longrightarrow> n \<le> length src \<Longrightarrow> memcpy dst src n = Inr (take n src @ drop n dst)"
  by (induction dst src n rule: memcpy.induct) auto

lemma memcpy_length: "memcpy dst src n = Inr r \<Longrightarrow> length r = length dst"
  by (induction dst src n arbitrary: r rule: memcpy.induct) (auto simp: andthen_eq_Inr_iff)

lemma memcmp_zero_iff:
  "n \<le> length a \<Longrightarrow> n \<le> length b \<Longrightarrow> memcmp a b n = Inr 0 \<longleftrightarrow> take n a = take n b"
  by (induction a b n rule: memcmp.induct) auto

lemma memcmp_total: "n \<le> length a \<Longrightarrow> n \<le> length b \<Longrightarrow> \<exists>r. memcmp a b n = Inr r \<and> r \<in> {-1, 0, 1}"
  by (induction a b n rule: memcmp.induct) auto

lemma strlen_ok: "terminated s \<Longrightarrow> strlen s = Inr (length (cstr s))"
  by (induction s) auto

lemma strlen_unterminated: "\<not> terminated s \<Longrightarrow> strlen s = Inl Wild"
  by (induction s) auto

lemma strcpy_ok:
  "terminated src \<Longrightarrow> length (cstr src) < length dst \<Longrightarrow>
   strcpy dst src = Inr (cstr src @ 0 # drop (Suc (length (cstr src))) dst)"
  by (induction dst src rule: strcpy.induct) auto

lemma strcpy_overflow:
  "terminated src \<Longrightarrow> length dst \<le> length (cstr src) \<Longrightarrow> strcpy dst src = Inl Wild"
  by (induction dst src rule: strcpy.induct) (auto split: if_splits)

lemma strcmp_ok:
  "terminated a \<Longrightarrow> terminated b \<Longrightarrow> \<exists>r. strcmp a b = Inr r \<and> r \<in> {-1, 0, 1} \<and> (r = 0 \<longleftrightarrow> cstr a = cstr b)"
  by (induction a b rule: strcmp.induct) (auto simp: signed_word_eqI dest: sym)

lemma strcat_ok:
  "terminated dst \<Longrightarrow> terminated src \<Longrightarrow> length (cstr dst) + length (cstr src) < length dst \<Longrightarrow>
   strcat dst src = Inr (cstr dst @ cstr src @ 0 # drop (Suc (length (cstr dst) + length (cstr src))) dst)"
  by (induction dst) (auto simp: strcpy_ok)

lemma strchr_ok:
  "terminated s \<Longrightarrow> strchr s ch =
     Inr (if \<exists>c\<in>set (cstr s). char_eq c ch
          then Some (length (takeWhile (\<lambda>c. \<not> char_eq c ch) (cstr s))) else None)"
  by (induction s) auto

lemma strchrs_loop_ok:
  "terminated s \<Longrightarrow> strchrs_loop s ch n = Inr (n + length (filter (\<lambda>c. char_eq c ch) (cstr s)))"
  by (induction s arbitrary: n) auto

lemma strchrs_ok:
  "terminated s \<Longrightarrow> strchrs s ch = Inr (length (filter (\<lambda>c. char_eq c ch) (cstr s)))"
  by (simp add: strchrs_def strchrs_loop_ok)

lemma strrchr_loop_ok:
  "terminated s \<Longrightarrow> strrchr_loop s ch i l =
     Inr (if \<exists>c\<in>set (cstr s). char_eq c ch
          then Some (i + length (cstr s) - Suc (length (takeWhile (\<lambda>c. \<not> char_eq c ch) (rev (cstr s)))))
          else l)"
proof (induction s arbitrary: i l)
  case Nil
  then show ?case by simp
next
  case (Cons c s)
  let ?P = "\<lambda>c. \<not> char_eq c ch"
  show ?case
  proof (cases "\<exists>x\<in>set (cstr s). char_eq x ch")
    case True
    then have "takeWhile ?P (rev (cstr s) @ [c]) = takeWhile ?P (rev (cstr s))"
      by (metis (no_types, lifting) set_rev takeWhile_append1)
    with True Cons show ?thesis by auto
  next
    case False
    then have "takeWhile ?P (rev (cstr s) @ [c]) = rev (cstr s) @ takeWhile ?P [c]"
      by (subst takeWhile_append2) auto
    with False Cons show ?thesis by auto
  qed
qed

lemma strrchr_ok:
  "terminated s \<Longrightarrow> strrchr s ch =
     Inr (if \<exists>c\<in>set (cstr s). char_eq c ch
          then Some (length (cstr s) - Suc (length (takeWhile (\<lambda>c. \<not> char_eq c ch) (rev (cstr s)))))
          else None)"
  by (simp add: strrchr_def strrchr_loop_ok)

lemma char_eq_ascii: "uint ch < 128 \<Longrightarrow> char_eq c ch \<longleftrightarrow> c = ch"
proof -
  assume "uint ch < 128"
  moreover have "- 128 \<le> uint ch" by (rule order_trans [of _ 0]) simp_all
  ultimately have "sint ch = uint ch"
    by (simp add: sint_uint signed_take_bit_int_eq_self_iff)
  then show ?thesis unfolding char_eq_def by (metis signed_word_eqI)
qed

lemma strlen_strcpy:
  assumes "terminated src" and "length (cstr src) < length dst" and "strcpy dst src = Inr r"
  shows "terminated r \<and> cstr r = cstr src \<and> strlen r = strlen src"
  using assms by (auto simp: strcpy_ok strlen_ok)

end
