(* ===== verification/SM4.thy ===== *)
theory SM4
  imports SM4Tables CString
begin

text \<open>
  \<^verbatim>\<open>kernel/crypto/sm4.c\<close>: the SM4 block cipher, its PKCS7 padding and the ECB mode
  behind the shell's \<^verbatim>\<open>enc\<close> and \<^verbatim>\<open>dec\<close>.  The arrays \<^verbatim>\<open>K[36]\<close> and \<^verbatim>\<open>X[36]\<close>
  are filled in the order of their indices; the model's list is the part filled so far.
  Blocks, keys and round keys have their declared lengths (16 bytes, 32 words).
\<close>

section \<open>The code\<close>

definition rotl :: "u32 \<Rightarrow> nat \<Rightarrow> u32" where
  "rotl x n = push_bit n x OR drop_bit (32 - n) x"

definition T :: "u32 \<Rightarrow> u32" where
  "T X = T0 ! unat (ucast (drop_bit 24 X) :: u8) XOR T1 ! unat (ucast (drop_bit 16 X) :: u8) XOR
         T2 ! unat (ucast (drop_bit 8 X) :: u8) XOR T3 ! unat (ucast X :: u8)"

definition tau :: "u32 \<Rightarrow> u32" where
  "tau x =
     (let a0 = sbox ! unat (drop_bit 24 x AND 0xff); a1 = sbox ! unat (drop_bit 16 x AND 0xff);
          a2 = sbox ! unat (drop_bit 8 x AND 0xff); a3 = sbox ! unat (x AND 0xff)
      in push_bit 24 (ucast a0) OR push_bit 16 (ucast a1) OR push_bit 8 (ucast a2) OR ucast a3)"

definition L_prime :: "u32 \<Rightarrow> u32" where
  "L_prime x = x XOR rotl x 13 XOR rotl x 23"

definition T_prime :: "u32 \<Rightarrow> u32" where
  "T_prime x = L_prime (tau x)"

definition load_word :: "u8 list \<Rightarrow> nat \<Rightarrow> u32" where
  "load_word bs i = push_bit 24 (ucast (bs ! i)) OR push_bit 16 (ucast (bs ! (i + 1))) OR
     push_bit 8 (ucast (bs ! (i + 2))) OR ucast (bs ! (i + 3))"

definition store_word :: "u32 \<Rightarrow> u8 list" where
  "store_word x = [ucast (drop_bit 24 x AND 0xff), ucast (drop_bit 16 x AND 0xff),
     ucast (drop_bit 8 x AND 0xff), ucast (x AND 0xff)]"

fun key_loop :: "u32 list \<Rightarrow> nat \<Rightarrow> nat \<Rightarrow> u32 list" where
  "key_loop K i 0 = K"
| "key_loop K i (Suc n) =
     key_loop (K @ [K ! i XOR T_prime (K ! (i + 1) XOR K ! (i + 2) XOR K ! (i + 3) XOR CK ! i)])
       (i + 1) n"

definition SM4_KeySchedule :: "u8 list \<Rightarrow> u32 list" where
  "SM4_KeySchedule MK =
     (let K = [load_word MK 0 XOR FK ! 0, load_word MK 4 XOR FK ! 1,
               load_word MK 8 XOR FK ! 2, load_word MK 12 XOR FK ! 3]
      in drop 4 (key_loop K 0 32))"

text \<open>The rounds of both directions; \<open>key i\<close> is the round key of round \<open>i\<close>.\<close>

fun rounds :: "(nat \<Rightarrow> u32) \<Rightarrow> u32 list \<Rightarrow> nat \<Rightarrow> nat \<Rightarrow> u32 list" where
  "rounds key X i 0 = X"
| "rounds key X i (Suc n) =
     (let tmp = X ! (i + 1) XOR X ! (i + 2) XOR X ! (i + 3) XOR key i
      in rounds key (X @ [X ! i XOR T tmp]) (i + 1) n)"

definition SM4_Encrypt :: "u8 list \<Rightarrow> u32 list \<Rightarrow> u8 list" where
  "SM4_Encrypt plaintext rk =
     (let X = rounds (\<lambda>i. rk ! i) [load_word plaintext 0, load_word plaintext 4,
                load_word plaintext 8, load_word plaintext 12] 0 32
      in store_word (X ! 35) @ store_word (X ! 34) @ store_word (X ! 33) @ store_word (X ! 32))"

definition SM4_Decrypt :: "u8 list \<Rightarrow> u32 list \<Rightarrow> u8 list" where
  "SM4_Decrypt ciphertext rk =
     (let X = rounds (\<lambda>i. rk ! (31 - i)) [load_word ciphertext 0, load_word ciphertext 4,
                load_word ciphertext 8, load_word ciphertext 12] 0 32
      in store_word (X ! 35) @ store_word (X ! 34) @ store_word (X ! 33) @ store_word (X ! 32))"

text \<open>Lengths are \<^verbatim>\<open>uint32_t\<close>, so sums wrap.\<close>

definition PKCS7_Padding :: "u8 list \<Rightarrow> nat \<Rightarrow> nat \<Rightarrow> (u8 list \<times> nat) cres" where
  "PKCS7_Padding buffer inputLen bufferSize =
     (if bufferSize < (inputLen + 16) mod 2 ^ 32 then Inr (buffer, 0)
      else
        let pad = 16 - inputLen mod 16
        in andthen (memset (drop inputLen buffer) (of_nat pad) pad) (\<lambda>r.
           Inr (take inputLen buffer @ r, (inputLen + pad) mod 2 ^ 32)))"

definition PKCS7_Unpadding :: "u8 list \<Rightarrow> nat \<Rightarrow> nat cres" where
  "PKCS7_Unpadding buffer inputLen =
     (if inputLen = 0 then Inr 0
      else
        andthen (rd buffer (inputLen - 1)) (\<lambda>pad.
        if unat pad > 16 \<or> pad = 0 then Inr 0
        else Inr (nat ((int inputLen - int (unat pad)) mod 2 ^ 32))))"

text \<open>The loop over the 16-byte blocks of a buffer, each replaced in place.\<close>

fun block_loop :: "(u8 list \<Rightarrow> u8 list) \<Rightarrow> u8 list \<Rightarrow> nat \<Rightarrow> u8 list cres" where
  "block_loop f data 0 = Inr data"
| "block_loop f data (Suc n) =
     (if 16 \<le> length data
      then andthen (block_loop f (drop 16 data) n) (\<lambda>r. Inr (f (take 16 data) @ r))
      else Inl Wild)"

text \<open>The result, the buffer, and \<open>*outputLen\<close>; a pointer that may be \<^verbatim>\<open>NULL\<close> is an option.\<close>

definition SM4_ECB_Encrypt ::
    "u8 list option \<Rightarrow> nat \<Rightarrow> nat \<Rightarrow> nat option \<Rightarrow> u32 list option \<Rightarrow>
     (int \<times> u8 list option \<times> nat option) cres" where
  "SM4_ECB_Encrypt data dataLen bufferSize outputLen rk =
     (case (data, outputLen, rk) of
        (Some d, Some _, Some k) \<Rightarrow>
          let paddedLen = ((dataLen + 15) mod 2 ^ 32 div 16) * 16
          in if bufferSize < paddedLen then Inr (-2, data, outputLen)
             else andthen (PKCS7_Padding d dataLen bufferSize) (\<lambda>(d, paddedLen).
                  if paddedLen = 0 then Inr (-3, Some d, outputLen)
                  else andthen (block_loop (\<lambda>b. SM4_Encrypt b k) d (DIV_ROUND_UP paddedLen 16)) (\<lambda>d.
                       Inr (0, Some d, Some paddedLen)))
      | _ \<Rightarrow> Inr (-1, data, outputLen))"

definition SM4_ECB_Decrypt ::
    "u8 list option \<Rightarrow> nat \<Rightarrow> nat option \<Rightarrow> u32 list option \<Rightarrow>
     (int \<times> u8 list option \<times> nat option) cres" where
  "SM4_ECB_Decrypt data dataLen outputLen rk =
     (case (data, outputLen, rk) of
        (Some d, Some _, Some k) \<Rightarrow>
          if dataLen mod 16 \<noteq> 0 then Inr (-1, data, outputLen)
          else andthen (block_loop (\<lambda>b. SM4_Decrypt b k) d (dataLen div 16)) (\<lambda>d.
               andthen (PKCS7_Unpadding d dataLen) (\<lambda>unpadded_len.
               if unpadded_len = 0 then Inr (-2, Some d, outputLen)
               else Inr (0, Some d, Some unpadded_len)))
      | _ \<Rightarrow> Inr (-1, data, outputLen))"

section \<open>Bytes and words\<close>

lemma byte_of: "(ucast (x AND 0xff :: u32) :: u8) = ucast x"
proof -
  have "(0xff :: u32) = mask 8" by (simp add: mask_eq_exp_minus_1)
  then show ?thesis by (intro bit_u8_ext) (simp only: bit_simps, simp)
qed

lemma bit_u8_high [simp]: "8 \<le> n \<Longrightarrow> \<not> bit (a :: u8) n"
  using bit_imp_le_length [of a n] by auto

lemma bit_quad:
  fixes a b c d :: u8
  shows "bit (push_bit 24 (ucast a :: u32) OR push_bit 16 (ucast b) OR push_bit 8 (ucast c) OR ucast d) n \<longleftrightarrow>
    (if n < 8 then bit d n else if n < 16 then bit c (n - 8) else if n < 24 then bit b (n - 16)
     else n < 32 \<and> bit a (n - 24))"
proof -
  consider "n < 8" | "8 \<le> n" "n < 16" | "16 \<le> n" "n < 24" | "24 \<le> n" "n < 32" | "32 \<le> n"
    by linarith
  then show ?thesis by cases (simp_all add: bit_simps less_diff_conv2)
qed

lemma load_store_word: "load_word (store_word x) 0 = x"
proof (rule bit_word_eqI)
  fix n assume "n < LENGTH(32)"
  then consider "n < 8" | "8 \<le> n" "n < 16" | "16 \<le> n" "n < 24" | "24 \<le> n" "n < 32"
    by fastforce
  then show "bit (load_word (store_word x) 0) n = bit x n"
    unfolding load_word_def store_word_def byte_of bit_quad
    by cases (simp_all add: bit_quad bit_simps less_diff_conv2)
qed

lemma store_word_quad:
  fixes a b c d :: u8
  shows "store_word (push_bit 24 (ucast a) OR push_bit 16 (ucast b) OR push_bit 8 (ucast c) OR ucast d) =
    [a, b, c, d]"
proof -
  let ?w = "push_bit 24 (ucast a) OR push_bit 16 (ucast b) OR push_bit 8 (ucast c) OR ucast d :: u32"
  have q: "bit ?w n \<longleftrightarrow> (if n < 8 then bit d n else if n < 16 then bit c (n - 8)
      else if n < 24 then bit b (n - 16) else n < 32 \<and> bit a (n - 24))" for n
    by (rule bit_quad)
  define w where "w = ?w"
  note q [folded w_def]
  then have "(ucast (drop_bit 24 w) :: u8) = a" "(ucast (drop_bit 16 w) :: u8) = b"
    "(ucast (drop_bit 8 w) :: u8) = c" "(ucast w :: u8) = d"
    by (auto intro!: bit_u8_ext simp: bit_ucast_iff bit_drop_bit_eq)
  then show ?thesis by (simp add: store_word_def byte_of flip: w_def)
qed

lemma store_load_word:
  assumes "i + 3 < length bs"
  shows "store_word (load_word bs i) = take 4 (drop i bs)"
proof -
  have "take 4 (drop i bs) = [bs ! i, bs ! (i + 1), bs ! (i + 2), bs ! (i + 3)]"
    using assms by (intro nth_equalityI) (auto simp: less_Suc_eq numeral_eq_Suc)
  moreover have "store_word (load_word bs i) = [bs ! i, bs ! (i + 1), bs ! (i + 2), bs ! (i + 3)]"
    by (simp only: load_word_def store_word_quad)
  ultimately show ?thesis by simp
qed

section \<open>The rounds\<close>

lemma length_rounds [simp]: "length (rounds key X i n) = length X + n"
  by (induction key X i n rule: rounds.induct) (simp_all add: Let_def)

lemma rounds_prefix: "j < length X \<Longrightarrow> rounds key X i n ! j = X ! j"
  by (induction key X i n rule: rounds.induct) (simp_all add: Let_def nth_append)

lemma rounds_step:
  "length X = i + 4 \<Longrightarrow> m < n \<Longrightarrow> R = rounds key X i n \<Longrightarrow>
   R ! (i + m + 4) = R ! (i + m) XOR T (R ! (i + m + 1) XOR R ! (i + m + 2) XOR R ! (i + m + 3) XOR key (i + m))"
proof (induction key X i n arbitrary: m rule: rounds.induct)
  case (2 key X i n)
  let ?x = "X ! i XOR T (X ! (i + 1) XOR X ! (i + 2) XOR X ! (i + 3) XOR key i)"
  have R: "R = rounds key (X @ [?x]) (i + 1) n" using 2(4) by (simp add: Let_def)
  show ?case
  proof (cases m)
    case 0
    have "R ! j = (X @ [?x]) ! j" if "j \<le> i + 4" for j
      unfolding R using that 2(2) by (intro rounds_prefix) simp
    then show ?thesis using 0 2(2) by (simp add: nth_append)
  next
    case (Suc k)
    have "R ! (i + 1 + k + 4) = R ! (i + 1 + k) XOR
        T (R ! (i + 1 + k + 1) XOR R ! (i + 1 + k + 2) XOR R ! (i + 1 + k + 3) XOR key (i + 1 + k))"
      using 2(1) [OF refl _ _ R] 2(2,3) Suc by simp
    then show ?thesis using Suc by (simp add: ac_simps)
  qed
qed simp

text \<open>Running the rounds with the keys reversed on the reversed final state walks the
  states backwards.\<close>

lemma rounds_inverse:
  assumes X: "X = rounds (\<lambda>i. k i) [x0, x1, x2, x3] 0 32"
    and Y: "Y = rounds (\<lambda>i. k (31 - i)) [X ! 35, X ! 34, X ! 33, X ! 32] 0 32"
  shows "j < 36 \<Longrightarrow> Y ! j = X ! (35 - j)"
proof (induction j rule: less_induct)
  case (less j)
  show ?case
  proof (cases "j < 4")
    case True
    then have "Y ! j = [X ! 35, X ! 34, X ! 33, X ! 32] ! j" unfolding Y by (intro rounds_prefix) simp
    with True show ?thesis by (auto simp: less_Suc_eq numeral_eq_Suc)
  next
    case False
    define m where "m = j - 4"
    have m: "j = m + 4" "m < 32" using False less.prems by (simp_all add: m_def)
    have y: "Y ! (m + i) = X ! (35 - (m + i))" if "i < 4" for i
    proof -
      have "m + i < j" "m + i < 36" using that m by simp_all
      then show ?thesis by (rule less.IH)
    qed
    have Ym: "Y ! (m + 4) = Y ! m XOR T (Y ! (m + 1) XOR Y ! (m + 2) XOR Y ! (m + 3) XOR k (31 - m))"
      using rounds_step [OF _ m(2) Y] by simp
    have n: "31 - m < 32" by simp
    have Xm: "X ! (31 - m + 4) = X ! (31 - m) XOR
        T (X ! (31 - m + 1) XOR X ! (31 - m + 2) XOR X ! (31 - m + 3) XOR k (31 - m))"
      using rounds_step [OF _ n X] by simp
    have idx: "35 - (m + 0) = 31 - m + 4" "35 - (m + 1) = 31 - m + 3" "35 - (m + 2) = 31 - m + 2"
      "35 - (m + 3) = 31 - m + 1" "35 - (m + 4) = 31 - m" using m(2) by simp_all
    have lt: "(0::nat) < 4" "(1::nat) < 4" "(2::nat) < 4" "(3::nat) < 4" by simp_all
    note ys = y [OF lt(1), unfolded idx, unfolded add_0_right] y [OF lt(2), unfolded idx]
      y [OF lt(3), unfolded idx] y [OF lt(4), unfolded idx]
    have cancel: "(a XOR b) XOR b = a" for a b :: u32 by (simp add: xor.assoc)
    have rev3: "a XOR b XOR c XOR d = c XOR b XOR a XOR d" for a b c d :: u32 by (simp only: xor.commute xor.left_commute)
    have "Y ! (m + 4) = X ! (31 - m)"
      unfolding Ym ys Xm rev3 [of "X ! (31 - m + 3)"] cancel ..
    then show ?thesis unfolding m(1) idx .
  qed
qed

lemma load_words_append:
  "load_word (store_word a @ store_word b @ store_word c @ store_word d) 0 = a"
  "load_word (store_word a @ store_word b @ store_word c @ store_word d) 4 = b"
  "load_word (store_word a @ store_word b @ store_word c @ store_word d) 8 = c"
  "load_word (store_word a @ store_word b @ store_word c @ store_word d) 12 = d"
  using load_store_word [of a] load_store_word [of b] load_store_word [of c] load_store_word [of d]
  by (simp_all add: load_word_def store_word_def nth_append)

lemma length_store_word [simp]: "length (store_word x) = 4"
  by (simp add: store_word_def)

lemma length_SM4_Encrypt [simp]: "length (SM4_Encrypt b rk) = 16"
  by (simp add: SM4_Encrypt_def Let_def)

lemma length_SM4_Decrypt [simp]: "length (SM4_Decrypt b rk) = 16"
  by (simp add: SM4_Decrypt_def Let_def)

lemma four_words:
  assumes "length b = 16"
  shows "store_word (load_word b 0) @ store_word (load_word b 4) @ store_word (load_word b 8) @
    store_word (load_word b 12) = b"
proof -
  have 4: "take 4 (drop 12 b) = drop 12 b" using assms by simp
  have 3: "take 4 (drop 8 b) @ drop 12 b = drop 8 b"
    using append_take_drop_id [of 4 "drop 8 b"] by (simp only: drop_drop) simp
  have 2: "take 4 (drop 4 b) @ drop 8 b = drop 4 b"
    using append_take_drop_id [of 4 "drop 4 b"] by (simp only: drop_drop) simp
  have 1: "take 4 (drop 0 b) @ drop 4 b = b" by simp
  have "take 4 (drop 0 b) @ take 4 (drop 4 b) @ take 4 (drop 8 b) @ take 4 (drop 12 b) = b"
    by (simp only: 4 3 2 1)
  then show ?thesis using assms by (simp add: store_load_word)
qed

lemma decrypt_encrypt_block:
  assumes "length b = 16"
  shows "SM4_Decrypt (SM4_Encrypt b rk) rk = b"
proof -
  define X where "X = rounds (\<lambda>i. rk ! i) [load_word b 0, load_word b 4, load_word b 8, load_word b 12] 0 32"
  define Y where "Y = rounds (\<lambda>i. rk ! (31 - i)) [X ! 35, X ! 34, X ! 33, X ! 32] 0 32"
  have enc: "SM4_Encrypt b rk =
      store_word (X ! 35) @ store_word (X ! 34) @ store_word (X ! 33) @ store_word (X ! 32)"
    by (simp add: SM4_Encrypt_def X_def Let_def)
  have "Y ! 35 = X ! 0" "Y ! 34 = X ! 1" "Y ! 33 = X ! 2" "Y ! 32 = X ! 3"
    using rounds_inverse [OF X_def Y_def, of 35] rounds_inverse [OF X_def Y_def, of 34]
      rounds_inverse [OF X_def Y_def, of 33] rounds_inverse [OF X_def Y_def, of 32] by simp_all
  moreover have "X ! 0 = load_word b 0" "X ! 1 = load_word b 4" "X ! 2 = load_word b 8"
    "X ! 3 = load_word b 12"
    unfolding X_def by (simp_all add: rounds_prefix)
  moreover have "SM4_Decrypt (SM4_Encrypt b rk) rk =
      store_word (Y ! 35) @ store_word (Y ! 34) @ store_word (Y ! 33) @ store_word (Y ! 32)"
    by (simp add: SM4_Decrypt_def enc load_words_append Y_def Let_def)
  ultimately show ?thesis using four_words [OF assms] by simp
qed

section \<open>The mode and the padding\<close>

text \<open>What the ECB loops need of a cipher.\<close>

locale block_cipher =
  fixes enc :: "u8 list \<Rightarrow> u8 list" and dec :: "u8 list \<Rightarrow> u8 list"
  assumes enc_len: "length (enc b) = 16"
    and dec_enc: "length b = 16 \<Longrightarrow> dec (enc b) = b"
begin

lemma loops_inverse:
  "16 * n \<le> length data \<Longrightarrow>
   \<exists>c. block_loop enc data n = Inr c \<and> length c = length data \<and>
     drop (16 * n) c = drop (16 * n) data \<and> block_loop dec c n = Inr data"
proof (induction n arbitrary: data)
  case 0
  then show ?case by simp
next
  case (Suc n)
  then have l: "16 \<le> length data" "16 * n \<le> length (drop 16 data)" by simp_all
  then obtain c where c: "block_loop enc (drop 16 data) n = Inr c" "length c = length data - 16"
    "drop (16 * n) c = drop (16 * n) (drop 16 data)" "block_loop dec c n = Inr (drop 16 data)"
    using Suc.IH [of "drop 16 data"] by auto
  let ?e = "enc (take 16 data)"
  have "block_loop enc data (Suc n) = Inr (?e @ c)" using l c(1) by simp
  moreover have "length (?e @ c) = length data" using l c(2) enc_len by simp
  moreover have "drop (16 * Suc n) (?e @ c) = drop (16 * Suc n) data"
    using c(3) enc_len by (simp add: add.commute)
  moreover have "block_loop dec (?e @ c) (Suc n) = Inr data"
    using c(4) enc_len dec_enc [of "take 16 data"] l(1) by simp
  ultimately show ?case by blast
qed

end

interpretation sm4: block_cipher "\<lambda>b. SM4_Encrypt b rk" "\<lambda>b. SM4_Decrypt b rk" for rk
  by unfold_locales (simp_all add: decrypt_encrypt_block)

text \<open>The padded length is the next multiple of 16, and the last byte names the padding.\<close>

definition pad_of :: "nat \<Rightarrow> nat" where
  "pad_of n = 16 - n mod 16"

lemma pad_of_range: "0 < pad_of n" "pad_of n \<le> 16"
  by (simp_all add: pad_of_def)

lemma pad_of_multiple: "16 dvd n + pad_of n"
proof -
  have "n + pad_of n = 16 * (n div 16) + 16"
    using div_mult_mod_eq [of n 16] mod_less_divisor [of 16 n] unfolding pad_of_def by linarith
  then show ?thesis by (metis dvd_add dvd_refl dvd_triv_left)
qed

lemma PKCS7_Padding_ok:
  assumes "n + 16 \<le> cap" "cap \<le> length buffer" "cap < 2 ^ 32"
  shows "PKCS7_Padding buffer n cap =
    Inr (take n buffer @ replicate (pad_of n) (of_nat (pad_of n)) @ drop (n + pad_of n) buffer,
         n + pad_of n)"
proof -
  have "pad_of n \<le> length (drop n buffer)" using assms pad_of_range [of n] by simp
  then have "memset (drop n buffer) (of_nat (pad_of n)) (pad_of n) =
      Inr (replicate (pad_of n) (of_nat (pad_of n)) @ drop (n + pad_of n) buffer)"
    using pad_of_range [of n] by (subst memset_ok) (simp_all add: add.commute)
  then show ?thesis
    using assms pad_of_range [of n] by (simp add: PKCS7_Padding_def Let_def flip: pad_of_def)
qed

lemma PKCS7_Unpadding_ok:
  assumes "n < 2 ^ 31" "n \<le> length pre" "length buffer = length pre"
    and "buffer = take n pre @ replicate (pad_of n) (of_nat (pad_of n)) @ drop (n + pad_of n) pre"
  shows "PKCS7_Unpadding buffer (n + pad_of n) = Inr n"
proof -
  let ?p = "pad_of n"
  have l: "n + ?p \<le> length buffer"
    using assms(2,3) arg_cong [OF assms(4), of length] by simp
  have "\<not> n + ?p - 1 < n" "n + ?p - 1 - n < ?p" using pad_of_range [of n] by linarith+
  then have "buffer ! (n + ?p - 1) = of_nat ?p"
    using pad_of_range [of n] assms(2) by (subst assms(4)) (simp add: nth_append del: One_nat_def)
  moreover have "unat (of_nat ?p :: u8) = ?p"
    using pad_of_range [of n] by (simp add: unat_of_nat)
  moreover have "(of_nat ?p :: u8) \<noteq> 0"
    using \<open>unat (of_nat ?p :: u8) = ?p\<close> pad_of_range(1) [of n] by fastforce
  moreover have "nat (int n mod 4294967296) = n" using assms(1) by simp
  ultimately show ?thesis
    using pad_of_range [of n] l by (simp add: PKCS7_Unpadding_def)
qed

lemma ecb_roundtrip:
  assumes n: "n + 16 \<le> cap" "cap \<le> length d" "cap < 2 ^ 31"
  shows "\<exists>c d'. SM4_ECB_Encrypt (Some d) n cap (Some x) (Some rk) = Inr (0, Some c, Some (n + pad_of n)) \<and>
    SM4_ECB_Decrypt (Some c) (n + pad_of n) (Some y) (Some rk) =
      Inr (if n = 0 then (-2, Some d', Some y) else (0, Some d', Some n)) \<and>
    take n d' = take n d"
proof -
  let ?p = "pad_of n" and ?m = "n + pad_of n"
  let ?d = "take n d @ replicate ?p (of_nat ?p) @ drop ?m d"
  have len: "length ?d = length d" using n pad_of_range [of n] by simp
  have dvd: "16 dvd ?m" by (rule pad_of_multiple)
  obtain k where k: "?m = 16 * k" using dvd by (auto simp: dvd_def)
  have kl: "16 * k \<le> length ?d" unfolding len k [symmetric] using n pad_of_range [of n] by simp
  obtain c where c: "block_loop (\<lambda>b. SM4_Encrypt b rk) ?d k = Inr c"
    "block_loop (\<lambda>b. SM4_Decrypt b rk) c k = Inr ?d"
    using sm4.loops_inverse [OF kl, of rk] by blast
  have "DIV_ROUND_UP ?m 16 = k" unfolding k by (simp add: DIV_ROUND_UP_def)
  moreover have "(n + 15) mod 2 ^ 32 div 16 * 16 \<le> cap" using n by simp
  moreover have "PKCS7_Padding d n cap = Inr (?d, ?m)" using n by (intro PKCS7_Padding_ok) simp_all
  ultimately have enc: "SM4_ECB_Encrypt (Some d) n cap (Some x) (Some rk) = Inr (0, Some c, Some ?m)"
    using c(1) pad_of_range [of n] by (simp add: SM4_ECB_Encrypt_def Let_def)
  have "PKCS7_Unpadding ?d ?m = Inr n"
    by (rule PKCS7_Unpadding_ok [OF _ _ len refl]) (use n in simp_all)
  moreover have "?m div 16 = k" "?m mod 16 = 0" unfolding k by simp_all
  ultimately have "SM4_ECB_Decrypt (Some c) ?m (Some y) (Some rk) =
      Inr (if n = 0 then (-2, Some ?d, Some y) else (0, Some ?d, Some n))"
    using c(2) by (simp add: SM4_ECB_Decrypt_def)
  moreover have "take n ?d = take n d" using n by simp
  ultimately show ?thesis using enc by blast
qed

section \<open>Properties\<close>

text \<open>\<^verbatim>\<open>SM4_Decrypt\<close> inverts \<^verbatim>\<open>SM4_Encrypt\<close> on every 16-byte block, for any
  round keys.\<close>

theorem SM4_block_roundtrip:
  assumes "length b = 16"
  shows "SM4_Decrypt (SM4_Encrypt b rk) rk = b"
  using assms by (rule decrypt_encrypt_block)

theorem SM4_block_roundtrip_witness:
  "SM4_Decrypt (SM4_Encrypt (replicate 16 7) (SM4_KeySchedule (replicate 16 1)))
     (SM4_KeySchedule (replicate 16 1)) = replicate 16 7"
  by (rule SM4_block_roundtrip) simp

text \<open>C25: decrypting what \<^verbatim>\<open>SM4_ECB_Encrypt\<close> wrote gives the plaintext and its length
  back, except for the empty message: its one block of padding decrypts to length 0, which
  \<^verbatim>\<open>SM4_ECB_Decrypt\<close> reports as the error \<open>-2\<close>.  The buffer must have room for the
  padding.\<close>

theorem SM4_ECB_roundtrip:
  assumes "n + 16 \<le> cap" and "cap \<le> length d" and "cap < 2 ^ 31"
  shows "\<exists>c d'. SM4_ECB_Encrypt (Some d) n cap (Some x) (Some rk) = Inr (0, Some c, Some (n + pad_of n)) \<and>
    SM4_ECB_Decrypt (Some c) (n + pad_of n) (Some y) (Some rk) =
      Inr (if n = 0 then (-2, Some d', Some y) else (0, Some d', Some n)) \<and>
    take n d' = take n d"
  using assms by (rule ecb_roundtrip)

theorem SM4_ECB_roundtrip_witness:
  "\<exists>c d'. SM4_ECB_Encrypt (Some (replicate 40 9)) 20 40 (Some 0) (Some (replicate 32 1)) =
      Inr (0, Some c, Some 32) \<and>
    SM4_ECB_Decrypt (Some c) 32 (Some 0) (Some (replicate 32 1)) = Inr (0, Some d', Some 20) \<and>
    take 20 d' = replicate 20 9"
  using SM4_ECB_roundtrip [of 20 40 "replicate 40 9" 0 "replicate 32 1" 0] by (simp add: pad_of_def)

end
