(* ===== verification/SM4Spec.thy ===== *)
theory SM4Spec
  imports SM4
begin

text \<open>
  The optimised round function of \<^verbatim>\<open>sm4.c\<close> against the definition of the cipher: the
  tables \<open>T0 .. T3\<close> merge the substitution with the linear transformation \<open>L\<close>, and
  the constants \<open>CK\<close> follow the rule \<open>(4 i + j) * 7 mod 256\<close>.
\<close>

definition L :: "u32 \<Rightarrow> u32" where
  "L x = x XOR rotl x 2 XOR rotl x 10 XOR rotl x 18 XOR rotl x 24"

lemma rotl_xor: "rotl (x XOR y) n = rotl x n XOR rotl y n" if "n < 32"
proof (rule bit_word_eqI)
  fix i assume "i < LENGTH(32)"
  with that show "bit (rotl (x XOR y) n) i = bit (rotl x n XOR rotl y n) i"
    using bit_imp_le_length [of x "32 - n + i"] bit_imp_le_length [of y "32 - n + i"]
    by (cases "n \<le> i") (auto simp: rotl_def bit_simps)
qed

lemma L_xor: "L (x XOR y) = L x XOR L y"
  by (simp add: L_def rotl_xor ac_simps)

lemma table0: "map (\<lambda>b. L (push_bit 24 (ucast b))) sbox = T0"
  by (simp add: sbox_def T0_def L_def rotl_def)

lemma table1: "map (\<lambda>b. L (push_bit 16 (ucast b))) sbox = T1"
  by (simp add: sbox_def T1_def L_def rotl_def)

lemma table2: "map (\<lambda>b. L (push_bit 8 (ucast b))) sbox = T2"
  by (simp add: sbox_def T2_def L_def rotl_def)

lemma table3: "map (\<lambda>b. L (ucast b)) sbox = T3"
  by (simp add: sbox_def T3_def L_def rotl_def)

lemma length_sbox: "length sbox = 256"
  by (simp add: sbox_def)

lemma u8_index: "unat (b :: u8) < length sbox"
  using unsigned_less [of b] by (simp add: length_sbox)

lemma table_nth:
  "T0 ! unat (b :: u8) = L (push_bit 24 (ucast (sbox ! unat b)))"
  "T1 ! unat b = L (push_bit 16 (ucast (sbox ! unat b)))"
  "T2 ! unat b = L (push_bit 8 (ucast (sbox ! unat b)))"
  "T3 ! unat b = L (ucast (sbox ! unat b))"
  by (simp_all only: table0 [symmetric] table1 [symmetric] table2 [symmetric] table3 [symmetric]
      nth_map [OF u8_index])

lemma low_byte: "unat (x AND 0xff :: u32) = unat (ucast x :: u8)"
proof -
  have "(ucast (ucast x :: u8) :: u32) = x AND mask 8"
    by (rule bit_word_eqI) (simp add: bit_simps conj_commute)
  moreover have "unat (ucast (ucast x :: u8) :: u32) = unat (ucast x :: u8)"
    by (simp add: unsigned_ucast_eq unsigned_take_bit_eq)
  moreover have "(0xff :: u32) = mask 8" by (simp add: mask_eq_exp_minus_1)
  ultimately show ?thesis by simp
qed

lemma quad_xor:
  fixes a b c d :: u8
  shows "push_bit 24 (ucast a :: u32) OR push_bit 16 (ucast b) OR push_bit 8 (ucast c) OR ucast d =
    push_bit 24 (ucast a) XOR push_bit 16 (ucast b) XOR push_bit 8 (ucast c) XOR ucast d"
proof (rule bit_word_eqI)
  fix n assume "n < LENGTH(32)"
  then consider "n < 8" | "8 \<le> n" "n < 16" | "16 \<le> n" "n < 24" | "24 \<le> n" "n < 32"
    by fastforce
  then show "bit (push_bit 24 (ucast a :: u32) OR push_bit 16 (ucast b) OR push_bit 8 (ucast c) OR ucast d) n =
    bit (push_bit 24 (ucast a :: u32) XOR push_bit 16 (ucast b) XOR push_bit 8 (ucast c) XOR ucast d) n"
    by cases (simp_all add: bit_simps)
qed

text \<open>The constants of the key schedule.\<close>

lemma CK_rule:
  "CK = map (\<lambda>i. push_bit 24 (of_nat (4 * i * 7 mod 256)) OR push_bit 16 (of_nat ((4 * i + 1) * 7 mod 256)) OR
     push_bit 8 (of_nat ((4 * i + 2) * 7 mod 256)) OR of_nat ((4 * i + 3) * 7 mod 256)) [0..<32]"
  by (simp add: CK_def upt_rec)

section \<open>Properties\<close>

text \<open>C26: the table driven round function \<^verbatim>\<open>T\<close> computes the linear transformation
  \<open>L\<close> of the byte substitution \<open>tau\<close>, for every word: all 1024 table entries are the
  ones the cipher prescribes.\<close>

theorem T_is_L_tau: "T x = L (tau x)"
  unfolding T_def tau_def Let_def low_byte quad_xor L_xor table_nth ..

end
