(* ===== verification/SHA256.thy ===== *)
theory SHA256
  imports CString
begin

text \<open>
  \<^verbatim>\<open>kernel/crypto/sha256.c\<close>: the digest behind the shell's \<^verbatim>\<open>sha\<close>, and
  \<^verbatim>\<open>kernel/crypto/xor.c\<close>.

  \<open>SHA256\<close> takes the bytes of the opened file, its attribute flag and its size, as
  \<^verbatim>\<open>read\<close>, \<^verbatim>\<open>get_file_attr\<close> and \<^verbatim>\<open>getfilesize\<close> give them, and the
  indeterminate initial bytes of \<^verbatim>\<open>ctx.buffer\<close>.  A \<^verbatim>\<open>read\<close> at position \<open>p\<close> of
  \<open>n\<close> bytes returns the bytes from \<open>p\<close> on, at most \<open>n\<close>; none at the end.
\<close>

section \<open>The code\<close>

definition SHA256_ROTL :: "u32 \<Rightarrow> nat \<Rightarrow> u32" where
  "SHA256_ROTL a b = (drop_bit (32 - b) a AND drop_bit (31 - b) 0x7fffffff) OR push_bit b a"

definition SHA256_SR :: "u32 \<Rightarrow> nat \<Rightarrow> u32" where
  "SHA256_SR a b = drop_bit b a AND drop_bit (b - 1) 0x7fffffff"

definition SHA256_Ch :: "u32 \<Rightarrow> u32 \<Rightarrow> u32 \<Rightarrow> u32" where
  "SHA256_Ch x y z = (x AND y) XOR (NOT x AND z)"

definition SHA256_Maj :: "u32 \<Rightarrow> u32 \<Rightarrow> u32 \<Rightarrow> u32" where
  "SHA256_Maj x y z = (x AND y) XOR (x AND z) XOR (y AND z)"

definition SHA256_E0 :: "u32 \<Rightarrow> u32" where
  "SHA256_E0 x = SHA256_ROTL x 30 XOR SHA256_ROTL x 19 XOR SHA256_ROTL x 10"

definition SHA256_E1 :: "u32 \<Rightarrow> u32" where
  "SHA256_E1 x = SHA256_ROTL x 26 XOR SHA256_ROTL x 21 XOR SHA256_ROTL x 7"

definition SHA256_O0 :: "u32 \<Rightarrow> u32" where
  "SHA256_O0 x = SHA256_ROTL x 25 XOR SHA256_ROTL x 14 XOR SHA256_SR x 3"

definition SHA256_O1 :: "u32 \<Rightarrow> u32" where
  "SHA256_O1 x = SHA256_ROTL x 15 XOR SHA256_ROTL x 13 XOR SHA256_SR x 10"

text \<open>The table of the source, its words written in decimal.\<close>

definition SHA_K :: "u32 list" where
  "SHA_K = [
    1116352408, 1899447441, 3049323471, 3921009573,
    961987163, 1508970993, 2453635748, 2870763221,
    3624381080, 310598401, 607225278, 1426881987,
    1925078388, 2162078206, 2614888103, 3248222580,
    3835390401, 4022224774, 264347078, 604807628,
    770255983, 1249150122, 1555081692, 1996064986,
    2554220882, 2821834349, 2952996808, 3210313671,
    3336571891, 3584528711, 113926993, 338241895,
    666307205, 773529912, 1294757372, 1396182291,
    1695183700, 1986661051, 2177026350, 2456956037,
    2730485921, 2820302411, 3259730800, 3345764771,
    3516065817, 3600352804, 4094571909, 275423344,
    430227734, 506948616, 659060556, 883997877,
    958139571, 1322822218, 1537002063, 1747873779,
    1955562222, 2024104815, 2227730452, 2361852424,
    2428436474, 2756734187, 3204031479, 3329325298]"

record SHA256_CTX =
  state :: "u32 list"
  count :: u64
  buffer :: "u8 list"

definition sha256_init :: "SHA256_CTX \<Rightarrow> SHA256_CTX" where
  "sha256_init ctx = ctx\<lparr>state := [0x6a09e667, 0xbb67ae85, 0x3c6ef372, 0xa54ff53a,
     0x510e527f, 0x9b05688c, 0x1f83d9ab, 0x5be0cd19], count := 0\<rparr>"

text \<open>The message schedule \<^verbatim>\<open>W\<close>, filled in the order of its indices.\<close>

definition first_words :: "u8 list \<Rightarrow> u32 list" where
  "first_words data = map (\<lambda>i. push_bit 24 (ucast (data ! (i * 4))) OR
     push_bit 16 (ucast (data ! (i * 4 + 1))) OR push_bit 8 (ucast (data ! (i * 4 + 2))) OR
     ucast (data ! (i * 4 + 3))) [0..<16]"

fun more_words :: "u32 list \<Rightarrow> nat \<Rightarrow> nat \<Rightarrow> u32 list" where
  "more_words W i 0 = W"
| "more_words W i (Suc n) =
     more_words (W @ [SHA256_O1 (W ! (i - 2)) + W ! (i - 7) + SHA256_O0 (W ! (i - 15)) + W ! (i - 16)])
       (i + 1) n"

type_synonym vars = "u32 \<times> u32 \<times> u32 \<times> u32 \<times> u32 \<times> u32 \<times> u32 \<times> u32"

fun sha_rounds :: "u32 list \<Rightarrow> nat \<Rightarrow> nat \<Rightarrow> vars \<Rightarrow> vars" where
  "sha_rounds W i 0 v = v"
| "sha_rounds W i (Suc n) (A, B, C, D, E, F, G, H) =
     (let T1 = H + SHA256_E1 E + SHA256_Ch E F G + SHA_K ! i + W ! i;
          T2 = SHA256_E0 A + SHA256_Maj A B C
      in sha_rounds W (i + 1) n (T1 + T2, A, B, C, D + T1, E, F, G))"

definition sha256_transform :: "SHA256_CTX \<Rightarrow> u8 list \<Rightarrow> SHA256_CTX cres" where
  "sha256_transform ctx data =
     (if length data < 64 then Inl Wild
      else
        let W = more_words (first_words data) 16 48;
            s = state ctx;
            (A, B, C, D, E, F, G, H) =
              sha_rounds W 0 64 (s ! 0, s ! 1, s ! 2, s ! 3, s ! 4, s ! 5, s ! 6, s ! 7)
        in Inr (ctx\<lparr>state := [s ! 0 + A, s ! 1 + B, s ! 2 + C, s ! 3 + D,
                             s ! 4 + E, s ! 5 + F, s ! 6 + G, s ! 7 + H]\<rparr>))"

definition BUFFER_SIZE :: nat where
  "BUFFER_SIZE = 1024"

text \<open>\<open>transform_blocks\<close>: the inner loop over the full blocks of what was read.\<close>

fun transform_blocks :: "SHA256_CTX \<Rightarrow> u8 list \<Rightarrow> nat \<Rightarrow> SHA256_CTX cres" where
  "transform_blocks ctx bs 0 = Inr ctx"
| "transform_blocks ctx bs (Suc n) =
     andthen (sha256_transform ctx bs) (\<lambda>ctx. transform_blocks ctx (drop 64 bs) n)"

text \<open>\<^verbatim>\<open>MIN(BUFFER_SIZE, hash_size - total_read)\<close> is unsigned: the difference wraps.\<close>

definition u32_of :: "int \<Rightarrow> nat" where
  "u32_of i = nat (i mod 2 ^ 32)"

function read_blocks :: "u8 list \<Rightarrow> int \<Rightarrow> nat \<Rightarrow> SHA256_CTX \<Rightarrow> SHA256_CTX cres" where
  "read_blocks file hash_size total_read ctx =
     (let bytes = take (min BUFFER_SIZE (u32_of (hash_size - int total_read))) (drop total_read file);
          bytes_read = length bytes
      in if bytes_read = 0 then Inr ctx
         else
           let block_count = bytes_read div 64
           in andthen (transform_blocks ctx bytes block_count) (\<lambda>ctx.
              andthen (if bytes_read mod 64 \<noteq> 0
                       then memcpy (buffer ctx) (drop (block_count * 64) bytes) (bytes_read mod 64)
                       else Inr (buffer ctx)) (\<lambda>b.
              let ctx = ctx\<lparr>buffer := b, count := count ctx + of_nat bytes_read\<rparr>;
                  total_read = total_read + bytes_read
              in if total_read \<ge> u32_of hash_size then Inr ctx
                 else read_blocks file hash_size total_read ctx)))"
  by pat_completeness auto
termination
  by (relation "measure (\<lambda>(file, h, t, c). length file - t)") (auto simp: Let_def)

declare read_blocks.simps [simp del]

text \<open>Writing and clearing inside \<^verbatim>\<open>ctx.buffer\<close>, from index \<open>i\<close> on.\<close>

definition memset_at :: "u8 list \<Rightarrow> nat \<Rightarrow> u8 \<Rightarrow> nat \<Rightarrow> u8 list cres" where
  "memset_at buf i v n = andthen (memset (drop i buf) v n) (\<lambda>r. Inr (take i buf @ r))"

definition be64 :: "u64 \<Rightarrow> u8 list" where
  "be64 bits = map (\<lambda>k. ucast (drop_bit k bits AND 0xff)) [56, 48, 40, 32, 24, 16, 8, 0]"

definition store_be :: "u32 \<Rightarrow> u8 list" where
  "store_be w = [ucast (drop_bit 24 w AND 0xff), ucast (drop_bit 16 w AND 0xff),
     ucast (drop_bit 8 w AND 0xff), ucast (w AND 0xff)]"

definition sha256_finish :: "SHA256_CTX \<Rightarrow> u8 list cres" where
  "sha256_finish ctx =
     (let remaining = unat (count ctx mod 64)
      in andthen (wr (buffer ctx) remaining 0x80) (\<lambda>b.
      let remaining = remaining + 1
      in andthen
           (if remaining > 64 - 8
            then andthen (memset_at b remaining 0 (64 - remaining)) (\<lambda>b.
                 andthen (sha256_transform (ctx\<lparr>buffer := b\<rparr>) b) (\<lambda>ctx.
                 andthen (memset_at b 0 0 (64 - 8)) (\<lambda>b. Inr (ctx\<lparr>buffer := b\<rparr>))))
            else andthen (memset_at b remaining 0 (64 - remaining - 8)) (\<lambda>b.
                 Inr (ctx\<lparr>buffer := b\<rparr>))) (\<lambda>ctx.
      let bits = count ctx * 8;
          b = take 56 (buffer ctx) @ be64 bits
      in andthen (sha256_transform (ctx\<lparr>buffer := b\<rparr>) b) (\<lambda>ctx.
         Inr (concat (map store_be (state ctx)))))))"

text \<open>\<open>None\<close>: the file did not open and \<^verbatim>\<open>sha\<close> is left as it was.\<close>

definition SHA256 :: "u8 list option \<Rightarrow> bool \<Rightarrow> int \<Rightarrow> u8 list \<Rightarrow> u8 list option cres" where
  "SHA256 file hashed fsize garbage =
     (let ctx = sha256_init \<lparr>state = [], count = 0, buffer = garbage\<rparr>;
          hash_size = (if hashed then fsize - 32 else fsize)
      in case file of
           None \<Rightarrow> Inr None
         | Some f \<Rightarrow>
             andthen (read_blocks f hash_size 0 ctx) (\<lambda>ctx.
             andthen (sha256_finish ctx) (\<lambda>d. Inr (Some d))))"

text \<open>\<^verbatim>\<open>xor.c\<close>: \<^verbatim>\<open>key[i % key_len]\<close> divides by zero for the empty key.\<close>

fun xor_loop :: "u8 list \<Rightarrow> u8 list \<Rightarrow> nat \<Rightarrow> nat \<Rightarrow> nat \<Rightarrow> u8 list cres" where
  "xor_loop data key key_len i 0 = Inr data"
| "xor_loop data key key_len i (Suc n) =
     (if key_len = 0 then Inl DivZero
      else andthen (rd key (i mod key_len)) (\<lambda>k.
           andthen (rd data i) (\<lambda>d.
           xor_loop (data[i := d XOR k]) key key_len (i + 1) n)))"

definition encrypt_data :: "u8 list \<Rightarrow> nat \<Rightarrow> u8 list \<Rightarrow> u8 list cres" where
  "encrypt_data data len key =
     andthen (strlen key) (\<lambda>key_len. xor_loop data key key_len 0 len)"

definition decrypt_data :: "u8 list \<Rightarrow> nat \<Rightarrow> u8 list \<Rightarrow> u8 list cres" where
  "decrypt_data data len key = encrypt_data data len key"

section \<open>The digest it should compute\<close>

text \<open>The compression of one block, as a function of the chaining value.\<close>

definition compress :: "u32 list \<Rightarrow> u8 list \<Rightarrow> u32 list" where
  "compress s data =
     (let (A, B, C, D, E, F, G, H) =
            sha_rounds (more_words (first_words data) 16 48) 0 64
              (s ! 0, s ! 1, s ! 2, s ! 3, s ! 4, s ! 5, s ! 6, s ! 7)
      in [s ! 0 + A, s ! 1 + B, s ! 2 + C, s ! 3 + D, s ! 4 + E, s ! 5 + F, s ! 6 + G, s ! 7 + H])"

primrec fold_blocks :: "u32 list \<Rightarrow> u8 list \<Rightarrow> nat \<Rightarrow> u32 list" where
  "fold_blocks s bs 0 = s"
| "fold_blocks s bs (Suc n) = compress (fold_blocks s bs n) (take 64 (drop (64 * n) bs))"

definition H0 :: "u32 list" where
  "H0 = [0x6a09e667, 0xbb67ae85, 0x3c6ef372, 0xa54ff53a, 0x510e527f, 0x9b05688c, 0x1f83d9ab, 0x5be0cd19]"

text \<open>The padding of FIPS 180-4: a one bit, zeros, and the length in bits.\<close>

definition padded :: "u8 list \<Rightarrow> u8 list" where
  "padded m = m @ 0x80 # replicate ((119 - length m mod 64) mod 64) 0 @ be64 (of_nat (8 * length m))"

definition digest :: "u8 list \<Rightarrow> u8 list" where
  "digest m = concat (map store_be (fold_blocks H0 (padded m) (length (padded m) div 64)))"

lemma transform_compress:
  "64 \<le> length data \<Longrightarrow> sha256_transform ctx data = Inr (ctx\<lparr>state := compress (state ctx) data\<rparr>)"
  by (simp add: sha256_transform_def compress_def Let_def split: prod.splits)

lemma first_words_take: "first_words (take 64 data) = first_words data"
  unfolding first_words_def by (rule map_cong) auto

lemma compress_take: "compress s (take 64 data) = compress s data"
  by (simp add: compress_def first_words_take)

lemma fold_blocks_cong:
  "take (64 * n) xs = take (64 * n) ys \<Longrightarrow> fold_blocks s xs n = fold_blocks s ys n"
proof (induction n)
  case (Suc n)
  have "take (64 * n) xs = take (64 * n) ys"
    using arg_cong [OF Suc.prems, of "take (64 * n)"] by (simp add: min_def)
  moreover have "take 64 (drop (64 * n) xs) = take 64 (drop (64 * n) ys)"
    using arg_cong [OF Suc.prems, of "drop (64 * n)"] by (simp add: drop_take)
  ultimately show ?case using Suc.IH by simp
qed simp

lemma transform_blocks_ok:
  "64 * n \<le> length bs \<Longrightarrow> transform_blocks ctx bs n = Inr (ctx\<lparr>state := fold_blocks (state ctx) bs n\<rparr>)"
proof (induction n arbitrary: ctx bs)
  case (Suc n)
  have shift: "fold_blocks s bs (Suc n) = fold_blocks (compress s bs) (drop 64 bs) n" for s n
    by (induction n) (simp_all add: compress_take add.commute)
  have "64 * n \<le> length (drop 64 bs)" using Suc.prems by simp
  with Suc show ?case by (simp add: transform_compress shift del: fold_blocks.simps)
qed simp

lemma fold_blocks_add:
  "fold_blocks (fold_blocks s xs a) (drop (64 * a) xs) b = fold_blocks s xs (a + b)"
  by (induction b) (simp_all add: algebra_simps)

lemma u32_of_nat: "n < 2 ^ 32 \<Longrightarrow> u32_of (int n) = n"
  by (simp add: u32_of_def)

lemma read_blocks_ok:
  assumes "h \<le> length file" "h < 2 ^ 31"
  shows "t \<le> h \<Longrightarrow> 64 dvd t \<Longrightarrow> state ctx = fold_blocks H0 file (t div 64) \<Longrightarrow> count ctx = of_nat t \<Longrightarrow>
    length (buffer ctx) = 64 \<Longrightarrow>
    \<exists>c. read_blocks file (int h) t ctx = Inr c \<and> state c = fold_blocks H0 file (h div 64) \<and>
      count c = of_nat h \<and> length (buffer c) = 64 \<and>
      take (h mod 64) (buffer c) = take (h mod 64) (drop (h div 64 * 64) file)"
proof (induction "h - t" arbitrary: t ctx rule: less_induct)
  case less
  define n where "n = min 1024 (h - t)"
  define bytes where "bytes = take n (drop t file)"
  define k where "k = n div 64"
  have u: "u32_of (int h - int t) = h - t" "u32_of (int h) = h"
    using less.prems(1) assms(2) u32_of_nat [of "h - t"] u32_of_nat [of h] by (simp_all add: of_nat_diff)
  have nh: "n \<le> h - t" by (simp add: n_def)
  have len: "length bytes = n" unfolding bytes_def using nh assms(1) less.prems(1) by simp
  have bytes_read: "take (min BUFFER_SIZE (u32_of (int h - int t))) (drop t file) = bytes"
    by (simp only: u BUFFER_SIZE_def bytes_def n_def)
  show ?case
  proof (cases "h = t")
    case True
    then have "read_blocks file (int h) t ctx = Inr ctx"
      by (subst read_blocks.simps) (simp add: u32_of_def)
    with True less.prems show ?thesis by auto
  next
    case False
    with less.prems(1) have n0: "0 < n" by (simp add: n_def)
    have n_split: "n = 64 * k + n mod 64" unfolding k_def by (simp add: mult_div_mod_eq)
    then have k: "64 * k \<le> length bytes" unfolding len by linarith
    let ?c = "ctx\<lparr>state := fold_blocks (state ctx) bytes k\<rparr>"
    have tb: "transform_blocks ctx bytes k = Inr ?c" by (rule transform_blocks_ok [OF k])
    have tn: "(t + n) div 64 = t div 64 + k"
      using less.prems(2) unfolding k_def by (metis div_plus_div_distrib_dvd_left)
    have st: "fold_blocks (state ctx) bytes k = fold_blocks H0 file ((t + n) div 64)"
    proof -
      have "fold_blocks (state ctx) bytes k = fold_blocks (state ctx) (drop t file) k"
        unfolding bytes_def
        by (rule fold_blocks_cong) (simp only: take_take min.absorb1 [OF k [unfolded len]])
      also have "\<dots> = fold_blocks H0 file (t div 64 + k)"
        using less.prems(2,3) fold_blocks_add [of H0 "file" "t div 64" k] by simp
      finally show ?thesis by (simp only: tn)
    qed
    define b where "b = (if n mod 64 \<noteq> 0 then take (n mod 64) (drop (k * 64) bytes) @ drop (n mod 64) (buffer ctx)
              else buffer ctx)"
    have rest: "length (drop (k * 64) bytes) = n mod 64" using len n_split by simp
    have mc: "memcpy (buffer ctx) (drop (k * 64) bytes) (n mod 64) =
        Inr (take (n mod 64) (drop (k * 64) bytes) @ drop (n mod 64) (buffer ctx))"
    proof (rule memcpy_ok)
      show "n mod 64 \<le> length (buffer ctx)" unfolding less.prems(5) by (simp add: less_imp_le)
      show "n mod 64 \<le> length (drop (k * 64) bytes)" unfolding rest ..
    qed
    have cp: "(if n mod 64 \<noteq> 0 then memcpy (buffer ?c) (drop (k * 64) bytes) (n mod 64)
        else Inr (buffer ?c)) = Inr b"
      unfolding b_def using mc by simp
    let ?d = "?c\<lparr>buffer := b, count := count ctx + of_nat n\<rparr>"
    have step: "read_blocks file (int h) t ctx =
        (if t + n \<ge> h then Inr ?d else read_blocks file (int h) (t + n) ?d)"
      apply (subst read_blocks.simps)
      unfolding bytes_read Let_def len k_def [symmetric] tb andthen_Inr cp u(2)
      using n0 by simp
    have blen: "length b = 64" using less.prems(5) rest by (simp add: b_def)
    have cnt: "count ?d = of_nat (t + n)" using less.prems(4) by simp
    show ?thesis
    proof (cases "h - t \<le> 1024")
      case True
      then have n: "n = h - t" "t + n = h" using less.prems(1) by (simp_all add: n_def)
      have hm: "h mod 64 = n mod 64" using n(2) less.prems(2) by (metis mod_add_left_eq add_0 mod_0_imp_dvd dvd_imp_mod_0)
      have hk: "h div 64 * 64 = t + k * 64"
        using tn n(2) less.prems(2) by (simp add: algebra_simps)
      have "take (h mod 64) b = take (h mod 64) (drop (h div 64 * 64) file)"
      proof (cases "n mod 64 = 0")
        case False
        have "drop (k * 64) bytes = take (n - k * 64) (drop (t + k * 64) file)"
          unfolding bytes_def by (simp add: drop_take add.commute)
        moreover have "n - k * 64 = n mod 64" using n_split by linarith
        ultimately show ?thesis using False rest unfolding hm hk b_def by simp
      qed (simp add: hm)
      then show ?thesis using step n(2) cnt st blen by simp
    next
      case False
      then have n: "n = 1024" by (simp add: n_def)
      have dvd: "64 dvd t + n" unfolding n using less.prems(2) by simp
      have lt: "t + n < h" using False n by simp
      have "h - (t + n) < h - t" using lt n0 by simp
      from less.hyps [OF this _ dvd, of ?d] lt cnt st blen step show ?thesis by simp
    qed
  qed
qed

lemma memset_at_ok:
  "0 < n \<Longrightarrow> i + n \<le> length b \<Longrightarrow>
   memset_at b i v n = Inr (take i b @ replicate n v @ drop (i + n) b)"
  by (simp add: memset_at_def memset_ok add.commute)

lemma memset_at_zero: "memset_at b i v 0 = Inl Assertion"
  by (simp add: memset_at_def memset_zero_size)

lemma length_be64 [simp]: "length (be64 x) = 8"
  by (simp add: be64_def)

text \<open>The last one or two blocks of the padded message.\<close>

lemma padded_blocks:
  assumes "n = length m" "r = n mod 64" "n div 64 = q"
  shows "length (padded m) div 64 = q + (if r < 56 then 1 else 2)"
    and "fold_blocks H0 (padded m) q = fold_blocks H0 m q"
    and "drop (64 * q) (padded m) =
      drop (64 * q) m @ 0x80 # replicate ((119 - r) mod 64) 0 @ be64 (of_nat (8 * n))"
    and "length (drop (64 * q) m) = r"
proof -
  have n: "n = 64 * q + r" "r < 64" using assms(2,3) div_mult_mod_eq [of n 64] by simp_all
  show 4: "length (drop (64 * q) m) = r" using n assms(1) by simp
  show 3: "drop (64 * q) (padded m) =
      drop (64 * q) m @ 0x80 # replicate ((119 - r) mod 64) 0 @ be64 (of_nat (8 * n))"
    using n assms(1,2) by (simp add: padded_def)
  show "fold_blocks H0 (padded m) q = fold_blocks H0 m q"
    by (rule fold_blocks_cong) (use n assms(1) in \<open>simp add: padded_def\<close>)
  have z: "(119 - r) mod 64 = (if r < 56 then 55 - r else 119 - r)"
    using n(2) by (auto simp: mod_if)
  have "length (padded m) = 64 * q + r + 1 + (119 - r) mod 64 + 8"
    using n assms(1,2) by (simp add: padded_def)
  also have "\<dots> = 64 * (q + (if r < 56 then 1 else 2))" using n(2) z by auto
  finally show "length (padded m) div 64 = q + (if r < 56 then 1 else 2)" by simp
qed

lemma store_concat: "concat (map store_be s) = concat (map store_be t)" if "s = t"
  using that by simp

lemma finish_ok:
  assumes n: "n = length m" "n < 2 ^ 31" and q: "q = n div 64" and r: "r = n mod 64"
    and c: "state c = fold_blocks H0 m q" "count c = of_nat n" "length (buffer c) = 64"
      "take r (buffer c) = drop (64 * q) m"
  shows "sha256_finish c = (if r = 55 \<or> r = 63 then Inl Assertion else Inr (digest m))"
proof -
  have r64: "r < 64" using r by simp
  note pb = padded_blocks [OF n(1) r q [symmetric]]
  have cm: "unat (count c mod 64) = r"
  proof -
    have "unat (of_nat n mod 64 :: u64) = n mod 64"
      using n(2) by (simp add: unat_mod unat_of_nat)
    then show ?thesis using c(2) r by simp
  qed
  have bits: "count c * 8 = of_nat (8 * n)" using c(2) by simp
  let ?b = "(buffer c)[r := 0x80]"
  have tb: "take (Suc r) ?b = drop (64 * q) m @ [0x80]"
    using c(3,4) r64 by (simp add: take_Suc_conv_app_nth)
  show ?thesis
  proof (cases "r < 56")
    case True
    show ?thesis
    proof (cases "r = 55")
      case True
      then show ?thesis using cm c(3) by (simp add: sha256_finish_def memset_at_zero Let_def)
    next
      case False
      with True have r55: "r < 55" by simp
      let ?z = "take (Suc r) ?b @ replicate (55 - r) 0 @ drop 56 ?b"
      have ms: "memset_at ?b (Suc r) 0 (55 - r) = Inr ?z"
        using r55 c(3) by (subst memset_at_ok) simp_all
      let ?w = "take 56 ?z @ be64 (of_nat (8 * n))"
      have t56: "take 56 ?z = drop (64 * q) m @ 0x80 # replicate (55 - r) 0"
        unfolding tb using pb(4) Suc_diff_le [of r 55] r55 by simp
      have w: "?w = drop (64 * q) (padded m)"
        unfolding t56 pb(3) using r55 by (simp add: mod_if)
      have l64: "length ?w = 64" unfolding t56 using pb(4) r55 by simp
      have "sha256_finish c = Inr (concat (map store_be (compress (state c) ?w)))"
        using cm c(3) r55 ms l64
        by (simp add: sha256_finish_def Let_def bits transform_compress)
      also have "compress (state c) ?w = fold_blocks H0 (padded m) (length (padded m) div 64)"
        using pb(1,2) c(1) True l64 unfolding w by simp
      finally show ?thesis using False r55 by (simp add: digest_def)
    qed
  next
    case ge: False
    show ?thesis
    proof (cases "r = 63")
      case True
      then show ?thesis using cm c(3) by (simp add: sha256_finish_def memset_at_zero Let_def)
    next
      case False
      with ge r64 have r63: "56 \<le> r" "r < 63" by simp_all
      let ?z = "take (Suc r) ?b @ replicate (63 - r) 0"
      have ms: "memset_at ?b (Suc r) 0 (63 - r) = Inr ?z"
        using r63 c(3) by (subst memset_at_ok) simp_all
      have lz: "length ?z = 64" using r63 c(3) by simp
      have z: "?z = take 64 (drop (64 * q) (padded m))"
      proof -
        have e: "64 - r = Suc (63 - r)" "(119 - r) mod 64 = 119 - r" "min (63 - r) (119 - r) = 63 - r"
          "63 - r - (119 - r) = 0"
          using r63 by (simp_all add: Suc_diff_le)
        show ?thesis unfolding tb pb(3) e(2) using pb(4)
          by (simp only: append_assoc take_append e take_Suc_Cons take_replicate take_0 append_Nil2
              append_Cons append_Nil length_replicate) (use r63 in simp)
      qed
      let ?y = "replicate 56 0 @ drop 56 ?z"
      have ms2: "memset_at ?z 0 0 56 = Inr ?y"
        using lz by (subst memset_at_ok) simp_all
      let ?w = "replicate 56 0 @ be64 (of_nat (8 * n))"
      have w: "?w = drop 64 (drop (64 * q) (padded m))"
      proof -
        have e: "64 - r = Suc (63 - r)" "(119 - r) mod 64 = 119 - r" "119 - r - (63 - r) = 56"
          using r63 by (simp_all add: Suc_diff_le)
        show ?thesis unfolding pb(3) e(2) using pb(4) r63
          by (simp add: e)
      qed
      have fin: "sha256_finish c =
          Inr (concat (map store_be (compress (compress (state c) ?z) ?w)))"
        using cm c(3) r63 ms ms2 lz
        by (simp add: sha256_finish_def Let_def bits transform_compress)
      have two: "length (padded m) div 64 = Suc (Suc q)" using pb(1) ge by simp
      have d: "drop (64 * Suc q) (padded m) = drop 64 (drop (64 * q) (padded m))" by simp
      have "length ?w = 64" by simp
      then have "take 64 (drop (64 * Suc q) (padded m)) = ?w" unfolding d w [symmetric] by simp
      then have "compress (compress (state c) ?z) ?w =
          fold_blocks H0 (padded m) (length (padded m) div 64)"
        unfolding two fold_blocks.simps z using pb(2) c(1) by simp
      then show ?thesis using fin r63 by (simp add: digest_def)
    qed
  qed
qed

lemma SHA256_ok:
  assumes "h = (if hashed then fsize - 32 else fsize)" "0 \<le> h" "h < 2 ^ 31"
    "nat h \<le> length file" "length garbage = 64"
  shows "SHA256 (Some file) hashed fsize garbage =
    (if nat h mod 64 = 55 \<or> nat h mod 64 = 63 then Inl Assertion
     else Inr (Some (digest (take (nat h) file))))"
proof -
  let ?c0 = "sha256_init \<lparr>state = [], count = 0, buffer = garbage\<rparr>"
  let ?m = "take (nat h) file"
  have h: "int (nat h) = h" using assms(2) by simp
  have "nat h < 2 ^ 31" using assms(3) by simp
  then obtain c where c: "read_blocks file h 0 ?c0 = Inr c"
    "state c = fold_blocks H0 file (nat h div 64)" "count c = of_nat (nat h)" "length (buffer c) = 64"
    "take (nat h mod 64) (buffer c) = take (nat h mod 64) (drop (nat h div 64 * 64) file)"
    using read_blocks_ok [of "nat h" "file" 0 ?c0] assms(4,5) h
    by (auto simp: sha256_init_def H0_def)
  have "fold_blocks H0 file (nat h div 64) = fold_blocks H0 ?m (nat h div 64)"
    by (rule fold_blocks_cong) (simp add: min_def)
  moreover have "take (nat h mod 64) (drop (nat h div 64 * 64) file) = drop (64 * (nat h div 64)) ?m"
    by (simp add: drop_take minus_mult_div_eq_mod mult.commute)
  ultimately have "sha256_finish c = (if nat h mod 64 = 55 \<or> nat h mod 64 = 63 then Inl Assertion
      else Inr (digest ?m))"
    using c(2-5) assms(4) \<open>nat h < 2 ^ 31\<close> by (intro finish_ok [of "nat h"]) simp_all
  then show ?thesis using c(1) assms(1) by (simp add: SHA256_def)
qed

section \<open>The macros\<close>

lemma low_mask: "drop_bit (31 - b) (0x7fffffff :: u32) = mask b" if "b \<le> 31"
proof -
  have "(0x7fffffff :: u32) = mask 31" by (simp add: mask_eq_exp_minus_1)
  moreover have "drop_bit (31 - b) (mask 31 :: u32) = mask b"
    by (rule bit_word_eqI) (use that in \<open>auto simp: bit_simps\<close>)
  ultimately show ?thesis by simp
qed

text \<open>\<open>SHA256_ROTL\<close> moves bit \<open>i\<close> to bit \<open>i + b\<close>, around the word; \<open>SHA256_SR\<close>
  shifts right.\<close>

lemma bit_SHA256_ROTL:
  assumes "0 < b" "b < 32" "i < 32"
  shows "bit (SHA256_ROTL a b) i \<longleftrightarrow> bit a ((i + (32 - b)) mod 32)"
proof -
  have m: "drop_bit (31 - b) (0x7fffffff :: u32) = mask b" by (rule low_mask) (use assms in simp)
  show ?thesis
  proof (cases "i < b")
    case True
    then have "(i + (32 - b)) mod 32 = 32 - b + i" using assms by simp
    with True assms show ?thesis by (simp add: SHA256_ROTL_def m bit_simps)
  next
    case False
    then have "(i + (32 - b)) mod 32 = i - b" using assms by (simp add: mod_if)
    with False assms show ?thesis
      by (auto simp: SHA256_ROTL_def m bit_simps)
  qed
qed

lemma SHA256_SR_shift: "0 < b \<Longrightarrow> b < 32 \<Longrightarrow> SHA256_SR a b = drop_bit b a"
proof -
  assume b: "0 < b" "b < 32"
  then have e: "drop_bit (b - 1) (0x7fffffff :: u32) = mask (32 - b)"
    using low_mask [of "32 - b"] by simp
  show ?thesis
    unfolding SHA256_SR_def e using b bit_imp_le_length [of a]
    by (intro bit_word_eqI) (fastforce simp: bit_simps)
qed

section \<open>The exclusive-or cipher\<close>

lemma xor_loop_ok:
  "0 < kl \<Longrightarrow> kl \<le> length key \<Longrightarrow> i + n \<le> length d \<Longrightarrow>
   xor_loop d key kl i n = Inr (map (\<lambda>j. if i \<le> j \<and> j < i + n then d ! j XOR key ! (j mod kl) else d ! j)
     [0..<length d])"
proof (induction d key kl i n rule: xor_loop.induct)
  case (1 data key key_len i)
  have "(\<lambda>j. if i \<le> j \<and> j < i + 0 then data ! j XOR key ! (j mod key_len) else data ! j) = (!) data"
    by (rule ext) auto
  then show ?case by (simp only: xor_loop.simps map_nth)
next
  case (2 data key key_len i n)
  let ?k = "key ! (i mod key_len)"
  let ?d = "data[i := data ! i XOR ?k]"
  have k: "i mod key_len < length key" "i < length data"
    using mod_less_divisor [OF 2(2), of i] 2(3,4) by linarith+
  have "xor_loop data key key_len i (Suc n) = xor_loop ?d key key_len (i + 1) n" using 2(2) k by simp
  also have "\<dots> = Inr (map (\<lambda>j. if i + 1 \<le> j \<and> j < i + 1 + n then ?d ! j XOR key ! (j mod key_len) else ?d ! j)
     [0..<length ?d])"
  proof (rule 2(1))
    show "key_len \<noteq> 0" using 2(2) by simp
    show "i + 1 + n \<le> length ?d" using 2(4) by simp
  qed (use 2(2,3) k in simp_all)
  also have "\<dots> = Inr (map (\<lambda>j. if i \<le> j \<and> j < i + Suc n then data ! j XOR key ! (j mod key_len) else data ! j)
     [0..<length data])"
  proof -
    have "(if i + 1 \<le> j \<and> j < i + 1 + n then ?d ! j XOR key ! (j mod key_len) else ?d ! j) =
      (if i \<le> j \<and> j < i + Suc n then data ! j XOR key ! (j mod key_len) else data ! j)"
      if "j < length data" for j
      using k(2) by (cases "j = i") auto
    then have "map (\<lambda>j. if i + 1 \<le> j \<and> j < i + 1 + n then ?d ! j XOR key ! (j mod key_len) else ?d ! j)
        [0..<length ?d] =
      map (\<lambda>j. if i \<le> j \<and> j < i + Suc n then data ! j XOR key ! (j mod key_len) else data ! j)
        [0..<length data]"
      by simp
    then show ?thesis by (rule arg_cong)
  qed
  finally show ?case .
qed

section \<open>Properties\<close>

text \<open>C19: \<^verbatim>\<open>SHA256\<close> computes the digest of the hashed part of the file (all of it, or all
  but the 32 bytes a hashed file ends with), by the padding and block chaining of the standard,
  unless the length is 55 or 63 modulo 64: there \<^verbatim>\<open>memset\<close> is called with size 0, whose
  assertion stops the kernel.\<close>

theorem SHA256_digest:
  assumes "h = (if hashed then fsize - 32 else fsize)" and "0 \<le> h" and "h < 2 ^ 31"
    and "nat h \<le> length file" and "length garbage = 64"
  shows "SHA256 (Some file) hashed fsize garbage =
    (if nat h mod 64 = 55 \<or> nat h mod 64 = 63 then Inl Assertion
     else Inr (Some (digest (take (nat h) file))))"
  using assms by (rule SHA256_ok)

theorem SHA256_digest_witness:
  "SHA256 (Some (replicate 55 0)) False 55 (replicate 64 0) = Inl Assertion \<and>
   SHA256 (Some (replicate 40 1)) True 40 (replicate 64 0) = Inr (Some (digest (replicate 8 1)))"
proof
  have "SHA256 (Some (replicate 55 0)) False 55 (replicate 64 0) =
    (if nat 55 mod 64 = 55 \<or> nat 55 mod 64 = 63 then Inl Assertion
     else Inr (Some (digest (take (nat 55) (replicate 55 0)))))"
    by (rule SHA256_digest) (simp_all only: length_replicate, simp_all)
  then show "SHA256 (Some (replicate 55 0)) False 55 (replicate 64 0) = Inl Assertion"
    by (rule trans) simp
  have "SHA256 (Some (replicate 40 1)) True 40 (replicate 64 0) =
    (if nat 8 mod 64 = 55 \<or> nat 8 mod 64 = 63 then Inl Assertion
     else Inr (Some (digest (take (nat 8) (replicate 40 1)))))"
    by (rule SHA256_digest) (simp_all only: length_replicate, simp_all)
  then show "SHA256 (Some (replicate 40 1)) True 40 (replicate 64 0) = Inr (Some (digest (replicate 8 1)))"
    by (rule trans) simp
qed

text \<open>\<^verbatim>\<open>decrypt_data\<close> undoes \<^verbatim>\<open>encrypt_data\<close> for every nonempty key that fits
  its buffer, and changes only the first \<open>n\<close> bytes.\<close>

theorem xor_cipher_roundtrip:
  assumes "terminated key" and "cstr key \<noteq> []" and "n \<le> length d"
  shows "\<exists>e. encrypt_data d n key = Inr e \<and> drop n e = drop n d \<and> decrypt_data e n key = Inr d"
proof -
  let ?l = "length (cstr key)"
  have kl: "0 < ?l" "?l \<le> length key" using assms(2) by (simp_all add: cstr_def length_takeWhile_le)
  let ?f = "\<lambda>d::u8 list. map (\<lambda>j. if 0 \<le> j \<and> j < 0 + n then d ! j XOR key ! (j mod ?l) else d ! j) [0..<length d]"
  have enc: "encrypt_data d' n key = Inr (?f d')" if "n \<le> length d'" for d'
    using that kl xor_loop_ok [of ?l key 0 n d'] by (simp add: encrypt_data_def strlen_ok assms(1))
  have "?f (?f d) = d"
    by (rule nth_equalityI) (auto simp: xor.assoc)
  moreover have "drop n (?f d) = drop n d"
    by (rule nth_equalityI) auto
  ultimately show ?thesis
    using enc [OF assms(3)] enc [of "?f d"] assms(3) by (simp add: decrypt_data_def)
qed

theorem xor_cipher_roundtrip_witness:
  "\<exists>e. encrypt_data [1, 2, 3, 4] 3 [7, 9, 0] = Inr e \<and> decrypt_data e 3 [7, 9, 0] = Inr [1, 2, 3, 4]"
  using xor_cipher_roundtrip [of "[7, 9, 0]" 3 "[1, 2, 3, 4]"] by auto

end
