(* ===== verification/Bitmap.thy ===== *)
theory Bitmap
  imports CString
begin

text \<open>
  \<^verbatim>\<open>kernel/memop/bitmap.c\<close> and \<^verbatim>\<open>kernel/include/bitmap.h\<close>: the bitmaps behind the
  page pools, the virtual address ranges and the block and inode tables.

  \<open>bits\<close> is the memory from \<^verbatim>\<open>btmp->bits\<close> on; its first \<open>btmp_bytes_len\<close>
  bytes are the bitmap, what follows is other memory that a stray index would hit.
  Bit counts stay below \<open>2 ^ 32\<close> for every bitmap of the kernel (16 TB of pages), so the
  \<^verbatim>\<open>uint32_t\<close> counters are naturals; the one that wraps, \<^verbatim>\<open>bit_left\<close>, has its wrap
  written out.
\<close>

section \<open>The code\<close>

record bitmap =
  bits :: "u8 list"
  btmp_bytes_len :: nat

definition bitmap_init :: "bitmap \<Rightarrow> bitmap cres" where
  "bitmap_init b =
     andthen (memset (bits b) 0 (btmp_bytes_len b)) (\<lambda>bs. Inr (b\<lparr>bits := bs\<rparr>))"

text \<open>The C function returns the masked byte itself as a \<^verbatim>\<open>bool\<close>: zero or the mask, not 0 or 1.\<close>

definition bitmap_scan_test :: "bitmap \<Rightarrow> nat \<Rightarrow> u32 cres" where
  "bitmap_scan_test b bit_idx =
     (let byte_idx = bit_idx div 8; bit_odd = bit_idx mod 8
      in andthen (rd (bits b) byte_idx) (\<lambda>byte. Inr (ucast byte AND push_bit bit_odd 1)))"

text \<open>First loop of \<^verbatim>\<open>bitmap_scan\<close>: it reads the byte before it compares the index.\<close>

function scan_byte :: "u8 list \<Rightarrow> nat \<Rightarrow> nat \<Rightarrow> nat cres" where
  "scan_byte bs len idx_byte =
     (if idx_byte < length bs
      then if bs ! idx_byte = 0xff \<and> idx_byte < len
        then scan_byte bs len (idx_byte + 1) else Inr idx_byte
      else Inl Wild)"
  by pat_completeness auto
termination
  by (relation "measure (\<lambda>(bs, len, i). length bs - i)") auto

declare scan_byte.simps [simp del]

text \<open>Second loop: the first clear bit of a byte.\<close>

function scan_bit :: "u8 \<Rightarrow> nat \<Rightarrow> nat" where
  "scan_bit byte idx_bit =
     (if push_bit idx_bit 1 AND byte \<noteq> 0 then scan_bit byte (idx_bit + 1) else idx_bit)"
  by pat_completeness auto
termination
proof (relation "measure (\<lambda>(b, i). 8 - i)")
  show "wf (measure (\<lambda>(b :: u8, i). 8 - i))" by simp
next
  fix b :: u8 and i
  assume "push_bit i 1 AND b \<noteq> 0"
  then have "bit b i" by (metis and.commute mask_test)
  then have "i < 8" using bit_imp_le_length [of b i] by simp
  then show "((b, i + 1), (b, i)) \<in> measure (\<lambda>(b, i). 8 - i)" by simp
qed

declare scan_bit.simps [simp del]

text \<open>Third loop: \<^verbatim>\<open>while(bit_left-->0)\<close>.  The result is \<^verbatim>\<open>bit_idx_start\<close> and the value
  \<^verbatim>\<open>bit_left\<close> has after the loop: a failed test leaves it wrapped at \<open>2 ^ 32 - 1\<close>.\<close>

fun scan_run :: "bitmap \<Rightarrow> nat \<Rightarrow> nat \<Rightarrow> nat \<Rightarrow> nat \<Rightarrow> (int \<times> nat) cres" where
  "scan_run b cnt 0 next_bit count = Inr (-1, 2 ^ 32 - 1)"
| "scan_run b cnt (Suc bit_left) next_bit count =
     andthen (bitmap_scan_test b next_bit) (\<lambda>t.
       let count = (if t = 0 then count + 1 else 0)
       in if count = cnt then Inr (int next_bit - int cnt + 1, bit_left)
          else scan_run b cnt bit_left (next_bit + 1) count)"

definition bitmap_scan :: "bitmap \<Rightarrow> nat \<Rightarrow> int cres" where
  "bitmap_scan b cnt =
     andthen (scan_byte (bits b) (btmp_bytes_len b) 0) (\<lambda>idx_byte.
     andthen (assert_c (idx_byte < btmp_bytes_len b)) (\<lambda>_.
       if idx_byte = btmp_bytes_len b then Inr (-1)
       else
         let bit_idx_start = idx_byte * 8 + scan_bit (bits b ! idx_byte) 0
         in if cnt = 1 then Inr (int bit_idx_start)
            else
              andthen (scan_run b cnt (btmp_bytes_len b * 8 - bit_idx_start)
                         (bit_idx_start + 1) 1) (\<lambda>(start, bit_left).
              andthen (assert_c (bit_left \<noteq> 0)) (\<lambda>_. Inr start))))"

definition bitmap_set :: "bitmap \<Rightarrow> nat \<Rightarrow> int \<Rightarrow> bitmap cres" where
  "bitmap_set b bit_idx value =
     andthen (assert_c (value = 0 \<or> value = 1)) (\<lambda>_.
       let byte_idx = bit_idx div 8; bit_odd = bit_idx mod 8
       in andthen (rd (bits b) byte_idx) (\<lambda>byte.
          let byte' = (if value \<noteq> 0 then byte OR push_bit bit_odd 1
                       else byte AND NOT (push_bit bit_odd 1))
          in Inr (b\<lparr>bits := (bits b)[byte_idx := byte']\<rparr>)))"

section \<open>The set of allocated bits\<close>

definition bit_set :: "bitmap \<Rightarrow> nat \<Rightarrow> bool" where
  "bit_set b i \<longleftrightarrow> bit (bits b ! (i div 8)) (i mod 8)"

definition nbits :: "bitmap \<Rightarrow> nat" where
  "nbits b = 8 * btmp_bytes_len b"

definition allocated :: "bitmap \<Rightarrow> nat set" where
  "allocated b = {i. i < nbits b \<and> bit_set b i}"

text \<open>Well-formed: the whole bitmap is memory the model describes; \<open>bitmap_guarded\<close>:
  so is the byte after it, which both scan loops can read.\<close>

definition bitmap_wf :: "bitmap \<Rightarrow> bool" where
  "bitmap_wf b \<longleftrightarrow> btmp_bytes_len b \<le> length (bits b)"

definition bitmap_guarded :: "bitmap \<Rightarrow> bool" where
  "bitmap_guarded b \<longleftrightarrow> btmp_bytes_len b < length (bits b) \<and> nbits b < 2 ^ 31"

lemma bitmap_guarded_wf [simp]: "bitmap_guarded b \<Longrightarrow> bitmap_wf b"
  by (simp add: bitmap_guarded_def bitmap_wf_def)

lemma byte_in_range: "bitmap_wf b \<Longrightarrow> i < nbits b \<Longrightarrow> i div 8 < length (bits b)"
  by (auto simp: bitmap_wf_def nbits_def)

lemma finite_allocated [simp]: "finite (allocated b)"
  by (simp add: allocated_def)

subsection \<open>Single bits\<close>

lemma bitmap_scan_test_ok:
  "i div 8 < length (bits b) \<Longrightarrow>
   \<exists>t. bitmap_scan_test b i = Inr t \<and> (t = 0 \<longleftrightarrow> \<not> bit_set b i)"
proof -
  have "i mod 8 < 32" by (rule less_trans [of _ 8]) simp_all
  then have "\<not> 32 \<le> i mod 8" by simp
  then show "i div 8 < length (bits b) \<Longrightarrow> ?thesis"
    by (simp add: bitmap_scan_test_def bit_set_def and_exp_eq_0_iff_not_bit bit_ucast_iff Let_def)
qed

lemma bitmap_set_ok:
  assumes "v = 0 \<or> v = 1" and "i div 8 < length (bits b)"
  shows "\<exists>b'. bitmap_set b i v = Inr b' \<and> btmp_bytes_len b' = btmp_bytes_len b \<and>
     length (bits b') = length (bits b) \<and>
     (\<forall>j. j div 8 < length (bits b) \<longrightarrow> bit_set b' j = (if j = i then v = 1 else bit_set b j))"
proof -
  let ?byte = "bits b ! (i div 8)"
  let ?byte' = "if v \<noteq> 0 then ?byte OR push_bit (i mod 8) 1 else ?byte AND NOT (push_bit (i mod 8) 1)"
  let ?b' = "b\<lparr>bits := (bits b)[i div 8 := ?byte']\<rparr>"
  have "bitmap_set b i v = Inr ?b'"
    using assms by (auto simp: bitmap_set_def Let_def)
  moreover have "bit_set ?b' j = (if j = i then v = 1 else bit_set b j)"
    if "j div 8 < length (bits b)" for j
  proof (cases "j div 8 = i div 8")
    case True
    then have ji: "j = i \<longleftrightarrow> j mod 8 = i mod 8"
      by (metis div_mult_mod_eq)
    have bits8: "bit ?byte' n = (if n = i mod 8 then v \<noteq> 0 else bit ?byte n)" if "n < 8" for n
      using that by (auto simp: bit_simps)
    have "bit_set ?b' j = bit ?byte' (j mod 8)"
      using True assms(2) by (simp add: bit_set_def)
    also have "\<dots> = (if j mod 8 = i mod 8 then v \<noteq> 0 else bit ?byte (j mod 8))"
      by (rule bits8) simp
    finally show ?thesis using True ji assms(1) by (auto simp: bit_set_def)
  next
    case False
    then show ?thesis by (auto simp: bit_set_def)
  qed
  ultimately show ?thesis by auto
qed

subsection \<open>The three loops\<close>

lemma scan_byte_spec:
  "scan_byte bs len i = Inr j \<Longrightarrow>
   i \<le> j \<and> j < length bs \<and> (\<forall>k. i \<le> k \<longrightarrow> k < j \<longrightarrow> bs ! k = 0xff) \<and>
   (bs ! j \<noteq> 0xff \<or> len \<le> j) \<and> (i \<le> len \<longrightarrow> j \<le> len)"
proof (induction bs len i rule: scan_byte.induct)
  case (1 bs len i)
  show ?case
  proof (cases "i < length bs \<and> bs ! i = 0xff \<and> i < len")
    case True
    with 1 have "i + 1 \<le> j \<and> j < length bs \<and> (\<forall>k. i + 1 \<le> k \<longrightarrow> k < j \<longrightarrow> bs ! k = 0xff) \<and>
      (bs ! j \<noteq> 0xff \<or> len \<le> j) \<and> (i + 1 \<le> len \<longrightarrow> j \<le> len)"
      by (simp add: scan_byte.simps [of bs len i])
    then show ?thesis using True by (metis Suc_eq_plus1 Suc_leD Suc_leI le_neq_implies_less)
  next
    case False
    with "1.prems" show ?thesis
      by (auto simp: scan_byte.simps [of bs len i] split: if_splits)
  qed
qed

lemma scan_byte_total:
  "i \<le> len \<Longrightarrow> len < length bs \<Longrightarrow> \<exists>j. scan_byte bs len i = Inr j"
proof (induction bs len i rule: scan_byte.induct)
  case (1 bs len i)
  then show ?case by (auto simp: scan_byte.simps [of bs len i])
qed

lemma scan_bit_spec:
  "i \<le> scan_bit byte i \<and> \<not> bit byte (scan_bit byte i) \<and>
   (\<forall>m. i \<le> m \<longrightarrow> m < scan_bit byte i \<longrightarrow> bit byte m)"
proof (induction byte i rule: scan_bit.induct)
  case (1 byte i)
  have test: "push_bit i 1 AND byte \<noteq> 0 \<longleftrightarrow> bit byte i"
    using mask_test [of byte i] by (simp add: and.commute)
  show ?case
  proof (cases "bit byte i")
    case True
    with test have eq: "scan_bit byte i = scan_bit byte (i + 1)"
      by (subst scan_bit.simps) simp
    from 1 True test have IH: "i + 1 \<le> scan_bit byte (i + 1) \<and> \<not> bit byte (scan_bit byte (i + 1)) \<and>
       (\<forall>m. i + 1 \<le> m \<longrightarrow> m < scan_bit byte (i + 1) \<longrightarrow> bit byte m)" by simp
    have "bit byte m" if "i \<le> m" "m < scan_bit byte (i + 1)" for m
      using IH True that by (cases "m = i") auto
    with IH show ?thesis by (auto simp: eq)
  next
    case False
    with test have "scan_bit byte i = i" by (subst scan_bit.simps) simp
    with False show ?thesis by simp
  qed
qed

lemma byte_full_iff: "(byte :: u8) = 0xff \<longleftrightarrow> (\<forall>m<8. bit byte m)"
proof
  assume "\<forall>m<8. bit byte m"
  then have "byte = - 1" by (intro bit_word_eqI) simp
  then show "byte = 0xff" by simp
next
  assume "byte = 0xff"
  then have "byte = - 1" by simp
  then show "\<forall>m<8. bit byte m" by (simp only: bit_minus_1_iff possible_bit_word) simp
qed

text \<open>\<open>run_free b s n\<close>: the \<open>n\<close> bits from \<open>s\<close> on are clear.\<close>

definition run_free :: "bitmap \<Rightarrow> nat \<Rightarrow> nat \<Rightarrow> bool" where
  "run_free b s n \<longleftrightarrow> (\<forall>i. s \<le> i \<longrightarrow> i < s + n \<longrightarrow> \<not> bit_set b i)"

text \<open>What \<open>scan_run\<close> may answer: no run of \<open>cnt\<close> clear bits ends in \<open>(lo, hi]\<close>, or the
  first one that does, with \<open>l\<close> bits left behind it.\<close>

definition scan_outcome :: "bitmap \<Rightarrow> nat \<Rightarrow> nat \<Rightarrow> nat \<Rightarrow> int \<Rightarrow> nat \<Rightarrow> bool" where
  "scan_outcome b cnt lo hi s l \<longleftrightarrow>
     (s = -1 \<and> l = 2 ^ 32 - 1 \<and>
       (\<forall>st. lo < st + cnt \<longrightarrow> st + cnt \<le> hi \<longrightarrow> \<not> run_free b st cnt)) \<or>
     (\<exists>st. s = int st \<and> st + cnt + l = hi \<and> lo < st + cnt \<and> run_free b st cnt \<and>
       (\<forall>st'. lo < st' + cnt \<longrightarrow> st' < st \<longrightarrow> \<not> run_free b st' cnt))"

lemma scan_outcome_found:
  assumes "st + cnt + l = hi" and "lo < st + cnt" and "run_free b st cnt"
    and "\<And>st'. lo < st' + cnt \<Longrightarrow> st' < st \<Longrightarrow> \<not> run_free b st' cnt"
  shows "scan_outcome b cnt lo hi (int st) l"
  unfolding scan_outcome_def using assms by (intro disjI2 exI [of _ st]) simp

lemma scan_outcome_none:
  assumes "\<And>st. lo < st + cnt \<Longrightarrow> st + cnt \<le> hi \<Longrightarrow> \<not> run_free b st cnt"
  shows "scan_outcome b cnt lo hi (-1) (2 ^ 32 - 1)"
  unfolding scan_outcome_def using assms by (intro disjI1 conjI refl) simp

lemma scan_outcome_extend:
  assumes "scan_outcome b cnt (lo + 1) hi s l"
    and "\<And>st. st + cnt = lo + 1 \<Longrightarrow> \<not> run_free b st cnt"
  shows "scan_outcome b cnt lo hi s l"
proof -
  have *: "lo < st + cnt \<longleftrightarrow> lo + 1 < st + cnt \<or> st + cnt = lo + 1" for st by auto
  from assms(1) consider
    (none) "s = -1" "l = 2 ^ 32 - 1" "\<forall>st. lo + 1 < st + cnt \<longrightarrow> st + cnt \<le> hi \<longrightarrow> \<not> run_free b st cnt"
  | (some) st where "s = int st" "st + cnt + l = hi" "lo + 1 < st + cnt" "run_free b st cnt"
      "\<forall>st'. lo + 1 < st' + cnt \<longrightarrow> st' < st \<longrightarrow> \<not> run_free b st' cnt"
    unfolding scan_outcome_def by blast
  then show ?thesis
  proof cases
    case none
    then show ?thesis unfolding scan_outcome_def using assms(2) * by metis
  next
    case some
    have "\<forall>st'. lo < st' + cnt \<longrightarrow> st' < st \<longrightarrow> \<not> run_free b st' cnt"
      using some(5) assms(2) * by metis
    moreover have "lo < st + cnt" using some(3) by simp
    ultimately show ?thesis unfolding scan_outcome_def using some(1,2,4) by blast
  qed
qed

text \<open>The loop invariant: the last \<open>c\<close> bits before \<open>nb\<close> are the maximal clear run ending there.\<close>

definition run_inv :: "bitmap \<Rightarrow> nat \<Rightarrow> nat \<Rightarrow> bool" where
  "run_inv b nb c \<longleftrightarrow> c \<le> nb \<and> run_free b (nb - c) c \<and> (c < nb \<longrightarrow> bit_set b (nb - c - 1))"

lemma run_inv_clear: "run_inv b nb c \<Longrightarrow> \<not> bit_set b nb \<Longrightarrow> run_inv b (nb + 1) (c + 1)"
  by (auto simp: run_inv_def run_free_def less_Suc_eq)

lemma run_inv_set: "bit_set b nb \<Longrightarrow> run_inv b (nb + 1) 0"
  by (simp add: run_inv_def run_free_def)

lemma run_inv_no_run:
  assumes "run_inv b nb c" and "c < cnt" and "st + cnt = nb"
  shows "\<not> run_free b st cnt"
proof -
  from assms have "c < nb" by simp
  with assms(1) have "bit_set b (nb - c - 1)" by (simp add: run_inv_def)
  moreover have "st \<le> nb - c - 1" "nb - c - 1 < st + cnt" using assms \<open>c < nb\<close> by auto
  ultimately show ?thesis unfolding run_free_def by blast
qed

lemma scan_run_spec:
  assumes "c < cnt" and "run_inv b nb c"
    and "0 < left \<Longrightarrow> (nb + left - 1) div 8 < length (bits b)"
  shows "\<exists>s l. scan_run b cnt left nb c = Inr (s, l) \<and> scan_outcome b cnt nb (nb + left) s l"
  using assms
proof (induction left arbitrary: nb c)
  case 0
  have "scan_outcome b cnt nb (nb + 0) (-1) (2 ^ 32 - 1)"
    by (rule scan_outcome_none) simp
  then show ?case unfolding scan_run.simps by blast
next
  case (Suc left)
  have "nb div 8 \<le> (nb + Suc left - 1) div 8" by (rule div_le_mono) simp
  then have rng: "nb div 8 < length (bits b)" using Suc.prems(3) by (rule le_less_trans) simp
  obtain t where t: "bitmap_scan_test b nb = Inr t" "t = 0 \<longleftrightarrow> \<not> bit_set b nb"
    using bitmap_scan_test_ok [OF rng] by blast
  let ?c = "if t = 0 then c + 1 else 0"
  have inv: "run_inv b (nb + 1) ?c"
  proof (cases "t = 0")
    case True
    with t(2) show ?thesis using run_inv_clear [OF Suc.prems(2)] by simp
  next
    case False
    with t(2) show ?thesis using run_inv_set [of b nb] by simp
  qed
  show ?case
  proof (cases "?c = cnt")
    case True
    then have c: "t = 0" "cnt = c + 1" using Suc.prems(1) by (auto split: if_splits)
    have cn: "c \<le> nb" using Suc.prems(2) by (simp add: run_inv_def)
    have e: "int nb - int cnt + 1 = int (nb - c)" using c(2) cn by simp
    have run: "scan_run b cnt (Suc left) nb c = Inr (int (nb - c), left)"
      unfolding scan_run.simps t(1) andthen_Inr Let_def e using True by (simp only: refl if_True)
    have free: "run_free b (nb - c) cnt" using inv c by (simp add: run_inv_def)
    have "scan_outcome b cnt nb (nb + Suc left) (int (nb - c)) left"
      by (rule scan_outcome_found [OF _ _ free]) (use c(2) cn in linarith)+
    with run show ?thesis by blast
  next
    case False
    have cc: "?c < cnt" using False Suc.prems(1) by auto
    have rng': "0 < left \<Longrightarrow> (nb + 1 + left - 1) div 8 < length (bits b)"
    proof -
      have "nb + 1 + left - 1 = nb + Suc left - 1" by simp
      with Suc.prems(3) show ?thesis by (metis zero_less_Suc)
    qed
    obtain s l where
      run: "scan_run b cnt left (nb + 1) ?c = Inr (s, l)" and
      out: "scan_outcome b cnt (nb + 1) (nb + 1 + left) s l"
      using Suc.IH [OF cc inv rng'] by blast
    have "scan_outcome b cnt nb (nb + 1 + left) s l"
      using out run_inv_no_run [OF inv cc] by (rule scan_outcome_extend)
    then have "scan_outcome b cnt nb (nb + Suc left) s l" by simp
    moreover have "scan_run b cnt (Suc left) nb c = Inr (s, l)"
      unfolding scan_run.simps t(1) andthen_Inr Let_def using run False by simp
    ultimately show ?thesis by blast
  qed
qed

section \<open>What \<open>bitmap_scan\<close> finds\<close>

text \<open>The first clear bit of a guarded bitmap, as the first two loops compute it.\<close>

definition first_clear :: "bitmap \<Rightarrow> nat \<Rightarrow> bool" where
  "first_clear b p \<longleftrightarrow> p < nbits b \<and> \<not> bit_set b p \<and> (\<forall>q<p. bit_set b q)"

lemma full_byte_bits:
  assumes "bits b ! k = 0xff" and "q div 8 = k"
  shows "bit_set b q"
  using assms byte_full_iff [of "bits b ! k"] by (simp add: bit_set_def)

lemma scan_first_clear:
  assumes g: "bitmap_guarded b"
  shows "(\<exists>j<btmp_bytes_len b. scan_byte (bits b) (btmp_bytes_len b) 0 = Inr j \<and>
            first_clear b (j * 8 + scan_bit (bits b ! j) 0)) \<or>
         (scan_byte (bits b) (btmp_bytes_len b) 0 = Inr (btmp_bytes_len b) \<and>
            (\<forall>q<nbits b. bit_set b q))"
proof -
  let ?n = "btmp_bytes_len b"
  obtain j where j: "scan_byte (bits b) ?n 0 = Inr j"
    using scan_byte_total [of 0 ?n "bits b"] g by (auto simp: bitmap_guarded_def)
  note sp = scan_byte_spec [OF j, simplified]
  have before: "bit_set b q" if "q < 8 * j" for q
    using sp that by (intro full_byte_bits [of b "q div 8"]) auto
  show ?thesis
  proof (cases "j = ?n")
    case True
    then show ?thesis using j before by (auto simp: nbits_def)
  next
    case False
    with sp have jn: "j < ?n" and nf: "bits b ! j \<noteq> 0xff" by auto
    let ?m = "scan_bit (bits b ! j) 0"
    note sb = scan_bit_spec [of 0 "bits b ! j", simplified]
    have m8: "?m < 8"
    proof (rule ccontr)
      assume "\<not> ?m < 8"
      then have "\<forall>m<8. bit (bits b ! j) m" using sb by auto
      then show False using nf byte_full_iff by blast
    qed
    have "bit_set b q" if q: "q < j * 8 + ?m" for q
    proof (cases "q < 8 * j")
      case False
      then have "q = 8 * j + (q - 8 * j)" "q - 8 * j < ?m" using q by auto
      then have "q div 8 = j" "q mod 8 < ?m"
        using m8 by (metis div_mult_self4 div_less less_trans add.right_neutral zero_neq_numeral,
                     metis mod_mult_self4 mod_less less_trans)
      then show ?thesis using sb by (simp add: bit_set_def)
    qed (rule before)
    moreover have "\<not> bit_set b (j * 8 + ?m)" using sb m8 by (simp add: bit_set_def)
    moreover have "j * 8 + ?m < nbits b" using jn m8 by (simp add: nbits_def)
    ultimately show ?thesis using j jn by (auto simp: first_clear_def)
  qed
qed

lemma bitmap_scan_full:
  assumes "bitmap_guarded b" and "\<forall>q<nbits b. bit_set b q"
  shows "bitmap_scan b cnt = Inl Assertion"
  using scan_first_clear [OF assms(1)] assms(2)
  by (auto simp: bitmap_scan_def first_clear_def)

lemma bitmap_scan_one:
  assumes "bitmap_guarded b" and "first_clear b p"
  shows "bitmap_scan b 1 = Inr (int p)"
proof -
  from scan_first_clear [OF assms(1)] assms(2) obtain j where
    j: "j < btmp_bytes_len b" "scan_byte (bits b) (btmp_bytes_len b) 0 = Inr j"
      "first_clear b (j * 8 + scan_bit (bits b ! j) 0)"
    by (auto simp: first_clear_def)
  have "j * 8 + scan_bit (bits b ! j) 0 = p"
    using j(3) assms(2) by (metis first_clear_def linorder_neqE_nat)
  with j show ?thesis by (simp add: bitmap_scan_def Let_def)
qed

text \<open>The search of a run, once the first clear bit is known.\<close>

lemma bitmap_scan_many:
  assumes g: "bitmap_guarded b" and p: "first_clear b p" and cnt: "1 < cnt"
  shows "\<exists>s l. scan_outcome b cnt (p + 1) (nbits b + 1) s l \<and>
    bitmap_scan b cnt = (if l = 0 then Inl Assertion else Inr s)"
proof -
  from scan_first_clear [OF g] p obtain j where
    j: "j < btmp_bytes_len b" "scan_byte (bits b) (btmp_bytes_len b) 0 = Inr j"
      "first_clear b (j * 8 + scan_bit (bits b ! j) 0)"
    by (auto simp: first_clear_def)
  have eq: "j * 8 + scan_bit (bits b ! j) 0 = p"
    using j(3) p by (metis first_clear_def linorder_neqE_nat)
  have pn: "p < nbits b" using p by (simp add: first_clear_def)
  have inv: "run_inv b (p + 1) 1"
    using p by (auto simp: run_inv_def run_free_def first_clear_def less_Suc_eq)
  have "(p + 1 + (nbits b - p) - 1) div 8 < length (bits b)"
    using pn g by (simp add: bitmap_guarded_def nbits_def)
  then obtain s l where
    run: "scan_run b cnt (nbits b - p) (p + 1) 1 = Inr (s, l)" and
    out: "scan_outcome b cnt (p + 1) (p + 1 + (nbits b - p)) s l"
    using scan_run_spec [OF cnt inv, of "nbits b - p"] by blast
  have "p + 1 + (nbits b - p) = nbits b + 1" using pn by simp
  then have "scan_outcome b cnt (p + 1) (nbits b + 1) s l" using out by (simp only:)
  moreover have "bitmap_scan b cnt = (if l = 0 then Inl Assertion else Inr s)"
    using j(1,2) run cnt by (simp add: bitmap_scan_def eq Let_def nbits_def mult.commute)
  ultimately show ?thesis by blast
qed

lemma run_free_ge_first:
  assumes "first_clear b p" and "run_free b st cnt" and "0 < cnt"
  shows "p \<le> st"
proof (rule ccontr)
  assume "\<not> p \<le> st"
  then have "bit_set b st" using assms(1) by (simp add: first_clear_def)
  then show False using assms(2,3) by (auto simp: run_free_def)
qed

lemma first_clear_exists:
  assumes "q < nbits b" and "\<not> bit_set b q"
  obtains p where "first_clear b p"
proof -
  have "\<exists>p. \<not> bit_set b p \<and> (\<forall>r<p. \<not> \<not> bit_set b r)"
    using exists_least_iff [of "\<lambda>p. \<not> bit_set b p"] assms(2) by blast
  then obtain p where p: "\<not> bit_set b p" "\<forall>r<p. bit_set b r" by blast
  have "\<not> q < p" using p(2) assms(2) by blast
  with p assms(1) have "first_clear b p" unfolding first_clear_def by (metis less_trans not_less_iff_gr_or_eq)
  then show thesis by (rule that)
qed

lemma run_free_one [simp]: "run_free b st (Suc 0) \<longleftrightarrow> \<not> bit_set b st"
  by (auto simp: run_free_def less_Suc_eq_le)

lemma scan_first_fit:
  assumes g: "bitmap_guarded b" and cnt: "0 < cnt"
    and run: "st + cnt \<le> nbits b" "run_free b st cnt"
  shows "\<exists>s. s \<le> st \<and> bitmap_scan b cnt = Inr (int s) \<and> s + cnt \<le> nbits b \<and> run_free b s cnt \<and>
    (\<forall>j. j < s \<longrightarrow> \<not> run_free b j cnt)"
proof -
  have "st < nbits b" "\<not> bit_set b st" using cnt run by (auto simp: run_free_def)
  then obtain p where p: "first_clear b p" by (rule first_clear_exists)
  have pst: "p \<le> st" by (rule run_free_ge_first [OF p run(2) cnt])
  have low: "\<not> run_free b s' cnt" if "s' < p" for s'
    using run_free_ge_first [OF p _ cnt] that by force
  show ?thesis
  proof (cases "cnt = 1")
    case True
    then show ?thesis
      using bitmap_scan_one [OF g p] p pst low by (auto simp: first_clear_def)
  next
    case False
    with cnt have c2: "1 < cnt" by simp
    obtain s l where out: "scan_outcome b cnt (p + 1) (nbits b + 1) s l"
      and scan: "bitmap_scan b cnt = (if l = 0 then Inl Assertion else Inr s)"
      using bitmap_scan_many [OF g p c2] by blast
    have "p + 1 < st + cnt" using pst c2 by simp
    then have "\<not> (\<forall>st. p + 1 < st + cnt \<longrightarrow> st + cnt \<le> nbits b + 1 \<longrightarrow> \<not> run_free b st cnt)"
      using run by (meson le_SucI Suc_eq_plus1 trans_le_add1)
    then obtain s0 where s0: "s = int s0" "s0 + cnt + l = nbits b + 1" "run_free b s0 cnt"
      "\<forall>st'. p + 1 < st' + cnt \<longrightarrow> st' < s0 \<longrightarrow> \<not> run_free b st' cnt"
      using out unfolding scan_outcome_def by blast
    have least: "\<not> run_free b s' cnt" if "s' < s0" for s'
      using s0(4) low [of s'] that c2 by (cases "s' < p") auto
    have "s0 \<le> st" using least run(2) by (meson not_le)
    then have "l \<noteq> 0" "s0 + cnt \<le> nbits b" using s0(2) run(1) by auto
    then show ?thesis using scan s0(1,3) least \<open>s0 \<le> st\<close> by auto
  qed
qed

lemma scan_no_run:
  assumes g: "bitmap_guarded b" and cnt: "0 < cnt"
    and none: "\<And>st. st + cnt \<le> nbits b \<Longrightarrow> \<not> run_free b st cnt"
  shows "bitmap_scan b cnt =
    (if (\<forall>q<nbits b. bit_set b q) \<or> (\<exists>st. st + cnt = nbits b + 1 \<and> run_free b st cnt)
     then Inl Assertion else Inr (-1))"
proof (cases "\<forall>q<nbits b. bit_set b q")
  case True
  then show ?thesis using bitmap_scan_full [OF g] by simp
next
  case False
  then obtain p where p: "first_clear b p" using first_clear_exists by blast
  have "cnt \<noteq> 1"
    using none [of p] p by (auto simp: first_clear_def)
  with cnt have c2: "1 < cnt" by simp
  obtain s l where out: "scan_outcome b cnt (p + 1) (nbits b + 1) s l"
    and scan: "bitmap_scan b cnt = (if l = 0 then Inl Assertion else Inr s)"
    using bitmap_scan_many [OF g p c2] by blast
  show ?thesis
  proof (cases "\<exists>st. st + cnt = nbits b + 1 \<and> run_free b st cnt")
    case True
    then obtain st where st: "st + cnt = nbits b + 1" "run_free b st cnt" by blast
    have "p < nbits b" using p by (simp add: first_clear_def)
    then have "\<exists>st. s = int st \<and> st + cnt + l = nbits b + 1 \<and> run_free b st cnt"
      using out st unfolding scan_outcome_def by (metis add_less_cancel_right le_refl)
    then have "l = 0" using none by (metis add_cancel_right_right add_le_cancel_left le_SucE le_add1 Suc_eq_plus1)
    then show ?thesis using scan True by simp
  next
    case edge: False
    have "s = -1 \<and> l = 2 ^ 32 - 1"
    proof (rule ccontr)
      assume "\<not> ?thesis"
      then obtain st where "st + cnt + l = nbits b + 1" "run_free b st cnt"
        using out unfolding scan_outcome_def by blast
      then show False using none [of st] edge by (cases l) auto
    qed
    then show ?thesis using scan edge \<open>\<not> (\<forall>q<nbits b. bit_set b q)\<close> by simp
  qed
qed

section \<open>The interface of the bitmap's clients\<close>

text \<open>
  Page pools, virtual address ranges and the block and inode tables use a bitmap in one
  pattern: scan for a run, then set its bits one by one
  (\<^verbatim>\<open>palloc\<close> and \<^verbatim>\<open>vaddr_get\<close> of \<^verbatim>\<open>memory.c\<close>, \<^verbatim>\<open>inode_bitmap_alloc\<close> and
  \<^verbatim>\<open>block_bitmap_alloc\<close> of \<^verbatim>\<open>file.c\<close>).  \<open>set_range\<close> is the loop of that pattern.
\<close>

primrec set_range :: "('b \<Rightarrow> nat \<Rightarrow> int \<Rightarrow> 'b cres) \<Rightarrow> nat \<Rightarrow> int \<Rightarrow> nat \<Rightarrow> 'b \<Rightarrow> 'b cres" where
  "set_range put start v 0 b = Inr b"
| "set_range put start v (Suc n) b =
     andthen (put b start v) (set_range put (start + 1) v n)"

locale bit_pool =
  fixes scan :: "'b \<Rightarrow> nat \<Rightarrow> int cres"
    and put :: "'b \<Rightarrow> nat \<Rightarrow> int \<Rightarrow> 'b cres"
    and used :: "'b \<Rightarrow> nat set"
    and cap :: "'b \<Rightarrow> nat"
    and ok :: "'b \<Rightarrow> bool"
  assumes scan_free: "ok b \<Longrightarrow> 0 < n \<Longrightarrow> scan b n = Inr r \<Longrightarrow> r \<noteq> -1 \<Longrightarrow>
        0 \<le> r \<and> nat r + n \<le> cap b \<and> used b \<inter> {nat r..<nat r + n} = {}"
    and scan_finds: "ok b \<Longrightarrow> 0 < n \<Longrightarrow> st + n \<le> cap b \<Longrightarrow> used b \<inter> {st..<st + n} = {} \<Longrightarrow>
        \<exists>r. scan b n = Inr r \<and> r \<noteq> -1"
    and put_works: "ok b \<Longrightarrow> i < cap b \<Longrightarrow> v = 0 \<or> v = 1 \<Longrightarrow>
        \<exists>b'. put b i v = Inr b' \<and> ok b' \<and> cap b' = cap b \<and>
             used b' = (if v = 1 then insert i (used b) else used b - {i})"
    and used_cap: "ok b \<Longrightarrow> used b \<subseteq> {0..<cap b}"
begin

lemma set_range_works:
  "ok b \<Longrightarrow> start + n \<le> cap b \<Longrightarrow> v = 0 \<or> v = 1 \<Longrightarrow>
   \<exists>b'. set_range put start v n b = Inr b' \<and> ok b' \<and> cap b' = cap b \<and>
     used b' = (if v = 1 then used b \<union> {start..<start + n} else used b - {start..<start + n})"
proof (induction n arbitrary: b start)
  case 0
  then show ?case by auto
next
  case (Suc n)
  obtain c where c: "put b start v = Inr c" "ok c" "cap c = cap b"
    "used c = (if v = 1 then insert start (used b) else used b - {start})"
    using put_works [of b start v] Suc.prems by auto
  obtain d where d: "set_range put (start + 1) v n c = Inr d" "ok d" "cap d = cap c"
    "used d = (if v = 1 then used c \<union> {start + 1..<start + 1 + n}
               else used c - {start + 1..<start + 1 + n})"
    using Suc.IH [of c "start + 1"] Suc.prems c by auto
  have "{start..<start + Suc n} = insert start {start + 1..<start + 1 + n}" by auto
  then have "used d = (if v = 1 then used b \<union> {start..<start + Suc n}
                       else used b - {start..<start + Suc n})"
    using d(4) c(4) by auto
  moreover have "set_range put start v (Suc n) b = Inr d"
    unfolding set_range.simps c(1) andthen_Inr d(1) ..
  ultimately show ?case using d(2,3) c(3) by auto
qed

text \<open>Allocation hands out bits that were free and changes no other bit; giving them back
  restores the set.\<close>

lemma alloc_works:
  assumes "ok b" "0 < n" "scan b n = Inr r" "r \<noteq> -1"
  shows "\<exists>b'. set_range put (nat r) 1 n b = Inr b' \<and> ok b' \<and> cap b' = cap b \<and>
    nat r + n \<le> cap b \<and> used b \<inter> {nat r..<nat r + n} = {} \<and> used b' = used b \<union> {nat r..<nat r + n}"
  using scan_free [OF assms] set_range_works [OF assms(1), of "nat r" n 1] by auto

lemma alloc_free_restores:
  assumes "ok b" "0 < n" "scan b n = Inr r" "r \<noteq> -1"
  shows "\<exists>b' b''. set_range put (nat r) 1 n b = Inr b' \<and> set_range put (nat r) 0 n b' = Inr b'' \<and>
    used b'' = used b \<and> cap b'' = cap b"
proof -
  obtain c where c: "set_range put (nat r) 1 n b = Inr c" "ok c" "cap c = cap b"
    "nat r + n \<le> cap b" "used b \<inter> {nat r..<nat r + n} = {}"
    "used c = used b \<union> {nat r..<nat r + n}"
    using alloc_works [OF assms] by auto
  then obtain d where "set_range put (nat r) 0 n c = Inr d" "cap d = cap c"
    "used d = used c - {nat r..<nat r + n}"
    using set_range_works [of c "nat r" n 0] by auto
  with c show ?thesis by (intro exI [of _ c] exI [of _ d]) auto
qed

text \<open>Two allocations never overlap.\<close>

lemma alloc_disjoint:
  assumes "ok b" "0 < n" "scan b n = Inr r" "r \<noteq> -1"
    and "set_range put (nat r) 1 n b = Inr b'" "0 < m" "scan b' m = Inr q" "q \<noteq> -1"
  shows "{nat r..<nat r + n} \<inter> {nat q..<nat q + m} = {}"
proof -
  obtain c where "set_range put (nat r) 1 n b = Inr c" "ok c"
    "used c = used b \<union> {nat r..<nat r + n}"
    using alloc_works [OF assms(1-4)] by auto
  with assms(5) have b': "ok b'" "used b' = used b \<union> {nat r..<nat r + n}" by auto
  with scan_free [OF b'(1) assms(6-8)] show ?thesis by blast
qed

end

lemma allocated_run_free:
  "st + n \<le> nbits b \<Longrightarrow> allocated b \<inter> {st..<st + n} = {} \<longleftrightarrow> run_free b st n"
  by (force simp: allocated_def run_free_def)

lemma bitmap_scan_result:
  assumes "bitmap_guarded b" and "0 < n" and "bitmap_scan b n = Inr r" and "r \<noteq> -1"
  shows "0 \<le> r \<and> nat r + n \<le> nbits b \<and> run_free b (nat r) n"
proof -
  have "\<exists>st. st + n \<le> nbits b \<and> run_free b st n"
  proof (rule ccontr)
    assume "\<not> ?thesis"
    then have "bitmap_scan b n = Inl Assertion \<or> bitmap_scan b n = Inr (-1)"
      using scan_no_run [OF assms(1,2)] by presburger
    with assms(3,4) show False by simp
  qed
  then obtain st where st: "st + n \<le> nbits b" "run_free b st n" by blast
  from scan_first_fit [OF assms(1,2) this] assms(3) show ?thesis by auto
qed

lemma bitmap_set_allocated:
  assumes "bitmap_guarded b" and "i < nbits b" and "v = 0 \<or> v = 1"
  shows "\<exists>b'. bitmap_set b i v = Inr b' \<and> bitmap_guarded b' \<and> nbits b' = nbits b \<and>
    allocated b' = (if v = 1 then insert i (allocated b) else allocated b - {i})"
proof -
  have rng: "j div 8 < length (bits b)" if "j < nbits b" for j
    using assms(1) that by (intro byte_in_range) simp_all
  obtain b' where b': "bitmap_set b i v = Inr b'" "btmp_bytes_len b' = btmp_bytes_len b"
    "length (bits b') = length (bits b)"
    "\<forall>j. j div 8 < length (bits b) \<longrightarrow> bit_set b' j = (if j = i then v = 1 else bit_set b j)"
    using bitmap_set_ok [OF assms(3) rng [OF assms(2)]] by auto
  have "bitmap_guarded b'" "nbits b' = nbits b"
    using assms(1) b' by (simp_all add: bitmap_guarded_def nbits_def)
  moreover have "allocated b' = (if v = 1 then insert i (allocated b) else allocated b - {i})"
    using b'(4) rng assms(2,3) \<open>nbits b' = nbits b\<close> by (auto simp: allocated_def split: if_splits)
  ultimately show ?thesis using b'(1) by blast
qed

interpretation bm: bit_pool bitmap_scan bitmap_set allocated nbits bitmap_guarded
proof
  fix b :: bitmap and n r st i and v :: int
  show "0 \<le> r \<and> nat r + n \<le> nbits b \<and> allocated b \<inter> {nat r..<nat r + n} = {}"
    if "bitmap_guarded b" "0 < n" "bitmap_scan b n = Inr r" "r \<noteq> -1"
    using bitmap_scan_result [OF that] by (simp add: allocated_run_free)
  show "\<exists>r. bitmap_scan b n = Inr r \<and> r \<noteq> -1"
    if "bitmap_guarded b" "0 < n" "st + n \<le> nbits b" "allocated b \<inter> {st..<st + n} = {}"
    using scan_first_fit [OF that(1,2,3)] that(3,4) by (auto simp: allocated_run_free)
  show "\<exists>b'. bitmap_set b i v = Inr b' \<and> bitmap_guarded b' \<and> nbits b' = nbits b \<and>
      allocated b' = (if v = 1 then insert i (allocated b) else allocated b - {i})"
    if "bitmap_guarded b" "i < nbits b" "v = 0 \<or> v = 1"
    using bitmap_set_allocated [OF that] .
  show "allocated b \<subseteq> {0..<nbits b}" by (auto simp: allocated_def)
qed

lemma bitmap_init_ok:
  assumes "bitmap_guarded b" and "0 < btmp_bytes_len b"
  shows "\<exists>b'. bitmap_init b = Inr b' \<and> bitmap_guarded b' \<and> nbits b' = nbits b \<and> allocated b' = {}"
proof -
  let ?bs = "replicate (btmp_bytes_len b) 0 @ drop (btmp_bytes_len b) (bits b)"
  have "bitmap_init b = Inr (b\<lparr>bits := ?bs\<rparr>)"
    using assms by (simp add: bitmap_init_def memset_ok bitmap_guarded_def)
  moreover have "bitmap_guarded (b\<lparr>bits := ?bs\<rparr>)" "nbits (b\<lparr>bits := ?bs\<rparr>) = nbits b"
    using assms by (simp_all add: bitmap_guarded_def nbits_def)
  moreover have "allocated (b\<lparr>bits := ?bs\<rparr>) = {}"
  proof -
    have "\<not> bit_set (b\<lparr>bits := ?bs\<rparr>) i" if "i < nbits b" for i
      using that by (simp add: bit_set_def nbits_def nth_append less_mult_imp_div_less mult.commute)
    then show ?thesis by (auto simp: allocated_def nbits_def)
  qed
  ultimately show ?thesis by blast
qed

section \<open>Properties\<close>

text \<open>C16: \<^verbatim>\<open>bitmap_scan\<close> is first fit: when a run of \<open>cnt\<close> clear bits lies inside
  the bitmap, the scan returns the start of the lowest such run, which is clear and inside the
  bitmap.\<close>

theorem bitmap_scan_first_fit:
  assumes "bitmap_guarded b" and "0 < cnt" and "st + cnt \<le> nbits b" and "run_free b st cnt"
  shows "\<exists>s. s \<le> st \<and> bitmap_scan b cnt = Inr (int s) \<and> s + cnt \<le> nbits b \<and>
    run_free b s cnt \<and> (\<forall>j. j < s \<longrightarrow> \<not> run_free b j cnt)"
  using assms by (rule scan_first_fit)

theorem bitmap_scan_first_fit_witness:
  "\<exists>s. s \<le> 9 \<and> bitmap_scan \<lparr>bits = [0xff, 0x01, 0, 0], btmp_bytes_len = 3\<rparr> 2 = Inr (int s) \<and>
    run_free \<lparr>bits = [0xff, 0x01, 0, 0], btmp_bytes_len = 3\<rparr> s 2"
proof -
  let ?b = "\<lparr>bits = [0xff, 0x01, 0, 0], btmp_bytes_len = 3\<rparr>"
  have g: "bitmap_guarded ?b" by (simp add: bitmap_guarded_def nbits_def)
  have "\<not> bit_set ?b 9" "\<not> bit_set ?b 10" by (simp_all add: bit_set_def)
  moreover have "i = 9 \<or> i = 10" if "9 \<le> i" "i < 9 + 2" for i :: nat using that by arith
  ultimately have r: "run_free ?b 9 2" unfolding run_free_def by blast
  have "(9::nat) + 2 \<le> nbits ?b" by (simp add: nbits_def)
  from bitmap_scan_first_fit [OF g _ this r] show ?thesis by auto
qed

text \<open>C38: without such a run \<^verbatim>\<open>bitmap_scan\<close> answers \<open>-1\<close>, except that it stops the
  kernel in an assertion when every bit is set, or when the bits that would complete a run at
  the end include the one just past the bitmap.  The callers that test for \<open>-1\<close> never see it
  from a full bitmap.\<close>

theorem bitmap_scan_failure:
  assumes "bitmap_guarded b" and "0 < cnt"
    and "\<And>st. st + cnt \<le> nbits b \<Longrightarrow> \<not> run_free b st cnt"
  shows "bitmap_scan b cnt =
    (if (\<forall>q<nbits b. bit_set b q) \<or> (\<exists>st. st + cnt = nbits b + 1 \<and> run_free b st cnt)
     then Inl Assertion else Inr (-1))"
  using assms by (rule scan_no_run)

theorem bitmap_scan_failure_witness:
  "bitmap_scan \<lparr>bits = [0xff, 0], btmp_bytes_len = 1\<rparr> 1 = Inl Assertion"
proof -
  let ?b = "\<lparr>bits = [0xff, 0], btmp_bytes_len = 1\<rparr>"
  have g: "bitmap_guarded ?b" by (simp add: bitmap_guarded_def nbits_def)
  have full: "bit_set ?b q" if "q < nbits ?b" for q
    using that full_byte_bits [of ?b 0 q] by (simp add: nbits_def)
  have "\<not> run_free ?b st 1" if "st + 1 \<le> nbits ?b" for st
    using full [of st] that by simp
  from bitmap_scan_failure [OF g _ this] full show ?thesis by auto
qed

text \<open>a bitmap is a pool of bits: setting the run a scan returned makes exactly that run
  allocated, and clearing it afterwards gives the previous set back.\<close>

theorem bitmap_alloc_free:
  assumes "bitmap_guarded b" and "0 < n" and "bitmap_scan b n = Inr r" and "r \<noteq> -1"
  shows "\<exists>b' b''. set_range bitmap_set (nat r) 1 n b = Inr b' \<and>
    allocated b' = allocated b \<union> {nat r..<nat r + n} \<and>
    allocated b \<inter> {nat r..<nat r + n} = {} \<and>
    set_range bitmap_set (nat r) 0 n b' = Inr b'' \<and> allocated b'' = allocated b"
proof -
  obtain b' where b': "set_range bitmap_set (nat r) 1 n b = Inr b'"
    "allocated b' = allocated b \<union> {nat r..<nat r + n}" "allocated b \<inter> {nat r..<nat r + n} = {}"
    using bm.alloc_works [OF assms] by auto
  with bm.alloc_free_restores [OF assms] show ?thesis by auto
qed

theorem bitmap_alloc_free_witness:
  "\<exists>b' b''. set_range bitmap_set 1 1 1 \<lparr>bits = [1, 0], btmp_bytes_len = 1\<rparr> = Inr b' \<and>
    set_range bitmap_set 1 0 1 b' = Inr b'' \<and>
    allocated b'' = allocated \<lparr>bits = [1, 0], btmp_bytes_len = 1\<rparr>"
proof -
  let ?b = "\<lparr>bits = [1, 0], btmp_bytes_len = 1\<rparr>"
  have g: "bitmap_guarded ?b" by (simp add: bitmap_guarded_def nbits_def)
  have "first_clear ?b 1" by (simp add: first_clear_def nbits_def bit_set_def)
  then have "bitmap_scan ?b 1 = Inr 1" using bitmap_scan_one [OF g] by force
  from bitmap_alloc_free [OF g _ this] show ?thesis by auto
qed

end
