(* ===== verification/Sched.thy ===== *)
theory Sched
  imports Bitmap
begin

text \<open>
  \<^verbatim>\<open>kernel/thread/thread.c\<close> and \<^verbatim>\<open>kernel/device/timer.c\<close>: threads, the three level
  ready queue and the scheduler.

  Threads are numbers.  A queue is the sequence of threads its list holds (the list library is
  verified in KList); \<open>tag\<close> says which queue \<^verbatim>\<open>general_tag\<close> is linked in, if any,
  so linking a linked tag or popping an empty list, which would corrupt the links, is the
  fault \<open>Wild\<close>.

  \<^verbatim>\<open>switch_to\<close> suspends the running thread in the middle of a kernel function.  What that
  function still has to do when the thread runs again is the thread's \<open>cont\<close>; the functions
  below set it where the C code calls \<^verbatim>\<open>schedule\<close>, and \<open>resume\<close> performs it.
\<close>

section \<open>The state\<close>

datatype task_status =
  TASK_RUNNING | TASK_READY | TASK_BLOCKED | TASK_WAITING | TASK_HANGING | TASK_DIED

datatype level = First | Second | Third

instantiation level :: linorder
begin

fun rank :: "level \<Rightarrow> nat" where
  "rank First = 0" | "rank Second = 1" | "rank Third = 2"

definition less_eq_level :: "level \<Rightarrow> level \<Rightarrow> bool" where
  "l \<le> m \<longleftrightarrow> rank l \<le> rank m"

definition less_level :: "level \<Rightarrow> level \<Rightarrow> bool" where
  "l < m \<longleftrightarrow> rank l < rank m"

instance
proof
  fix l m k :: level
  show "l \<le> m \<Longrightarrow> m \<le> l \<Longrightarrow> l = m"
    by (cases l; cases m) (simp_all add: less_eq_level_def)
qed (auto simp: less_eq_level_def less_level_def)

end

text \<open>A semaphore is the one inside a lock, or the \<^verbatim>\<open>waiting_sema\<close> of a thread.\<close>

datatype sema_id = Lock_sema nat | Wait_sema nat

datatype queue = Ready level | Waiters sema_id

datatype cont =
    Running                \<comment> \<open>executing; nothing pending\<close>
  | Start                  \<comment> \<open>never ran: \<^verbatim>\<open>kernel_thread\<close> enables interrupts first\<close>
  | Iret                   \<comment> \<open>preempted by the timer: the handler returns to it\<close>
  | Restore bool           \<comment> \<open>\<^verbatim>\<open>intr_set_status(old_status)\<close> is next\<close>
  | Down sema_id bool      \<comment> \<open>in the loop of \<^verbatim>\<open>sema_down\<close>\<close>
  | Acquire nat bool       \<comment> \<open>in \<^verbatim>\<open>sema_down\<close>, called by \<^verbatim>\<open>lock_acquire\<close>\<close>

record task =
  pid :: int
  parent_pid :: int
  status :: task_status
  priority :: nat
  ticks :: u32
  elapsed_ticks :: u32
  pgdir :: bool                  \<comment> \<open>\<^verbatim>\<open>pgdir != NULL\<close>: a user process\<close>
  vaddr_bitmap :: bitmap
  v2p :: "nat \<Rightarrow> nat"            \<comment> \<open>\<^verbatim>\<open>addr_v2p\<close> under its page directory\<close>
  stack_magic :: u32
  tag :: "queue option"
  cont :: cont

record lock_state =
  holder :: "nat option"
  holder_repeat_nr :: nat

record sched =
  tasks :: "nat \<Rightarrow> task"
  queues :: "queue \<Rightarrow> nat list"
  all_list :: "nat list"
  cur :: nat                     \<comment> \<open>\<^verbatim>\<open>running_thread()\<close>\<close>
  idle_thread :: nat
  next_pid :: int
  intr :: bool                   \<comment> \<open>interrupts are on\<close>
  kticks :: u32
  active_dir :: "nat option"     \<comment> \<open>whose page directory \<^verbatim>\<open>cr3\<close> holds; \<open>None\<close> is the kernel's\<close>
  esp0 :: "nat option"           \<comment> \<open>whose kernel stack the TSS names\<close>
  user_pool :: bitmap
  user_pool_start :: nat
  semas :: "sema_id \<Rightarrow> u8"
  locks :: "nat \<Rightarrow> lock_state"

definition FIRST_PRIO :: nat where "FIRST_PRIO = 30"
definition SECOND_PRIO :: nat where "SECOND_PRIO = 20"
definition THIRD_PRIO :: nat where "THIRD_PRIO = 10"
definition FIRST_TICKS :: u32 where "FIRST_TICKS = 25"
definition SECOND_TICKS :: u32 where "SECOND_TICKS = 15"
definition THIRD_TICKS :: u32 where "THIRD_TICKS = 10"

section \<open>Queues of threads\<close>

definition upd :: "nat \<Rightarrow> (task \<Rightarrow> task) \<Rightarrow> sched \<Rightarrow> sched" where
  "upd t f s = s\<lparr>tasks := (tasks s)(t := f (tasks s t))\<rparr>"

definition tag_remove :: "nat \<Rightarrow> sched \<Rightarrow> sched" where
  "tag_remove t s = (case tag (tasks s t) of
       None \<Rightarrow> s
     | Some q \<Rightarrow> upd t (\<lambda>p. p\<lparr>tag := None\<rparr>)
                  (s\<lparr>queues := (queues s)(q := remove1 t (queues s q))\<rparr>))"

definition tag_push :: "queue \<Rightarrow> nat \<Rightarrow> sched \<Rightarrow> sched cres" where
  "tag_push q t s =
     (if tag (tasks s t) \<noteq> None then Inl Wild
      else Inr (upd t (\<lambda>p. p\<lparr>tag := Some q\<rparr>) (s\<lparr>queues := (queues s)(q := t # queues s q)\<rparr>)))"

definition tag_append :: "queue \<Rightarrow> nat \<Rightarrow> sched \<Rightarrow> sched cres" where
  "tag_append q t s =
     (if tag (tasks s t) \<noteq> None then Inl Wild
      else Inr (upd t (\<lambda>p. p\<lparr>tag := Some q\<rparr>) (s\<lparr>queues := (queues s)(q := queues s q @ [t])\<rparr>)))"

definition tag_pop :: "queue \<Rightarrow> sched \<Rightarrow> (nat \<times> sched) cres" where
  "tag_pop q s = (case queues s q of [] \<Rightarrow> Inl Wild | t # _ \<Rightarrow> Inr (t, tag_remove t s))"

definition in_queue :: "queue \<Rightarrow> nat \<Rightarrow> sched \<Rightarrow> bool" where
  "in_queue q t s \<longleftrightarrow> t \<in> set (queues s q)"

definition q_empty :: "queue \<Rightarrow> sched \<Rightarrow> bool" where
  "q_empty q s \<longleftrightarrow> queues s q = []"

text \<open>\<^verbatim>\<open>ASSERT(!elem_find(l, tag)); list_append(l, tag);\<close>\<close>

definition assert_append :: "queue \<Rightarrow> nat \<Rightarrow> sched \<Rightarrow> sched cres" where
  "assert_append q t s = andthen (assert_c (\<not> in_queue q t s)) (\<lambda>_. tag_append q t s)"

section \<open>The scheduler\<close>

definition thread_unblock_idle :: "nat \<Rightarrow> sched \<Rightarrow> sched cres" where
  "thread_unblock_idle t s =
     (if status (tasks s t) \<noteq> TASK_READY
      then andthen (assert_c (\<not> in_queue (Ready Third) t s)) (\<lambda>_.
           andthen (tag_push (Ready Third) t s) (\<lambda>s.
           Inr (upd t (\<lambda>p. p\<lparr>status := TASK_READY\<rparr>) s)))
      else Inr s)"

text \<open>The first branch of \<^verbatim>\<open>schedule\<close> for the running thread: it goes back to a ready queue,
  one level down when its time is used up.\<close>

definition requeue :: "nat \<Rightarrow> sched \<Rightarrow> sched cres" where
  "requeue c s =
     (let p = tasks s c;
          s = upd c (\<lambda>p. p\<lparr>status := TASK_READY\<rparr>) s
      in if ticks p = -1
         then
           if priority p = FIRST_PRIO
           then assert_append (Ready Second) c
                  (upd c (\<lambda>p. p\<lparr>priority := SECOND_PRIO, ticks := SECOND_TICKS\<rparr>) s)
           else if priority p = SECOND_PRIO
           then assert_append (Ready Third) c
                  (upd c (\<lambda>p. p\<lparr>priority := THIRD_PRIO, ticks := THIRD_TICKS\<rparr>) s)
           else assert_append (Ready Third) c
                  (upd c (\<lambda>p. p\<lparr>priority := THIRD_PRIO, ticks := THIRD_TICKS\<rparr>) s)
         else
           if priority p = FIRST_PRIO
           then assert_append (Ready First) c (upd c (\<lambda>p. p\<lparr>priority := FIRST_PRIO\<rparr>) s)
           else if priority p = SECOND_PRIO
           then assert_append (Ready Second) c (upd c (\<lambda>p. p\<lparr>priority := SECOND_PRIO\<rparr>) s)
           else assert_append (Ready Third) c (upd c (\<lambda>p. p\<lparr>priority := THIRD_PRIO\<rparr>) s))"

text \<open>Giving a dead process's pages back to the user pool.\<close>

definition USER_VADDR_START :: nat where "USER_VADDR_START = 0x8048000"
definition USER_STACK3_VADDR :: nat where "USER_STACK3_VADDR = 0xc0000000 - 0x1000"

function release_pages :: "bitmap \<Rightarrow> (nat \<Rightarrow> nat) \<Rightarrow> nat \<Rightarrow> nat \<Rightarrow> bitmap \<Rightarrow> bitmap cres" where
  "release_pages vbm tab start vaddr pool =
     (if vaddr < USER_STACK3_VADDR + PG_SIZE
      then
        andthen (bitmap_scan_test vbm ((vaddr - USER_VADDR_START) div PG_SIZE)) (\<lambda>used.
        andthen
          (if used = 1
           then let phyaddr = tab vaddr
                in if phyaddr \<noteq> 0
                   then bitmap_set pool (nat ((int phyaddr - int start) mod 2 ^ 32) div PG_SIZE) 0
                   else Inr pool
           else Inr pool) (\<lambda>pool.
        release_pages vbm tab start (vaddr + 0x1000) pool))
      else Inr pool)"
  by pat_completeness auto
termination
  by (relation "measure (\<lambda>(b, m, st, v, p). USER_STACK3_VADDR + PG_SIZE - v)") auto

declare release_pages.simps [simp del]

definition process_activate :: "nat \<Rightarrow> sched \<Rightarrow> sched" where
  "process_activate t s =
     (if pgdir (tasks s t) then s\<lparr>active_dir := Some t, esp0 := Some t\<rparr>
      else s\<lparr>active_dir := None\<rparr>)"

definition retire :: "nat \<Rightarrow> sched \<Rightarrow> sched cres" where
  "retire c s =
     (let s = (if status (tasks s c) = TASK_BLOCKED then upd c (\<lambda>p. p\<lparr>priority := THIRD_PRIO\<rparr>) s else s)
      in if status (tasks s c) = TASK_DIED
         then
           let s = tag_remove c s
           in if pgdir (tasks s c)
              then andthen (release_pages (vaddr_bitmap (tasks s c)) (v2p (tasks s c))
                      (user_pool_start s) USER_VADDR_START (user_pool s)) (\<lambda>b.
                   Inr (s\<lparr>user_pool := b\<rparr>))
              else Inr s
         else Inr s)"

definition schedule :: "sched \<Rightarrow> sched cres" where
  "schedule s =
     andthen (assert_c (\<not> intr s)) (\<lambda>_.
     let c = cur s
     in andthen
          (if q_empty (Ready First) s \<and> q_empty (Ready Second) s \<and> q_empty (Ready Third) s
           then thread_unblock_idle (idle_thread s) s else Inr s) (\<lambda>s.
        andthen
          (if \<not> q_empty (Ready First) s then tag_pop (Ready First) s
           else if \<not> q_empty (Ready Second) s then tag_pop (Ready Second) s
           else tag_pop (Ready Third) s) (\<lambda>(nxt, s).
        andthen
          (if status (tasks s c) = TASK_RUNNING then requeue c s else retire c s) (\<lambda>s.
        let s = upd nxt (\<lambda>p. p\<lparr>status := TASK_RUNNING\<rparr>) s
        in Inr ((process_activate nxt s)\<lparr>cur := nxt\<rparr>)))))"

section \<open>The operations of a thread\<close>

text \<open>\<open>block_as k\<close> is \<^verbatim>\<open>thread_block\<close> with \<open>k\<close> left to do afterwards.\<close>

definition block_as :: "cont \<Rightarrow> task_status \<Rightarrow> sched \<Rightarrow> sched cres" where
  "block_as k stat s =
     (let s = s\<lparr>intr := False\<rparr>
      in andthen (assert_c (stat = TASK_BLOCKED \<or> stat = TASK_WAITING \<or> stat = TASK_HANGING)) (\<lambda>_.
         schedule (upd (cur s) (\<lambda>p. p\<lparr>status := stat, cont := k\<rparr>) s)))"

definition thread_block :: "task_status \<Rightarrow> sched \<Rightarrow> sched cres" where
  "thread_block stat s = block_as (Restore (intr s)) stat s"

definition thread_unblock :: "nat \<Rightarrow> sched \<Rightarrow> sched cres" where
  "thread_unblock t s =
     (let st = status (tasks s t)
      in andthen (assert_c (st = TASK_BLOCKED \<or> st = TASK_WAITING \<or> st = TASK_HANGING)) (\<lambda>_.
         if st \<noteq> TASK_READY
         then andthen (tag_push (Ready First) t
                (upd t (\<lambda>p. p\<lparr>priority := FIRST_PRIO, ticks := FIRST_TICKS\<rparr>) (tag_remove t s))) (\<lambda>s.
              Inr (upd t (\<lambda>p. p\<lparr>status := TASK_READY\<rparr>) s))
         else Inr s))"

definition thread_yield :: "sched \<Rightarrow> sched cres" where
  "thread_yield s =
     (let c = cur s; old_status = intr s; s = s\<lparr>intr := False\<rparr>
      in andthen (assert_append (Ready First) c s) (\<lambda>s.
         schedule (upd c (\<lambda>p. p\<lparr>priority := FIRST_PRIO, status := TASK_READY,
                                cont := Restore old_status\<rparr>) s)))"

definition intr_timer_handler :: "sched \<Rightarrow> sched cres" where
  "intr_timer_handler s =
     (let c = cur s; s = s\<lparr>intr := False\<rparr>
      in andthen (assert_c (stack_magic (tasks s c) = 0x20240825)) (\<lambda>_.
         let s = (upd c (\<lambda>p. p\<lparr>elapsed_ticks := elapsed_ticks p + 1\<rparr>) s)\<lparr>kticks := kticks s + 1\<rparr>;
             preempt = (\<lambda>s. schedule (upd c (\<lambda>p. p\<lparr>cont := Iret\<rparr>) s));
             return = (\<lambda>s. Inr (s\<lparr>intr := True\<rparr>))
         in if ticks (tasks s c) = 0
            then preempt (upd c (\<lambda>p. p\<lparr>ticks := -1\<rparr>) s)
            else
              let s = upd c (\<lambda>p. p\<lparr>ticks := ticks p - 1\<rparr>) s; prio = priority (tasks s c)
              in if prio = FIRST_PRIO then return s
                 else if prio = SECOND_PRIO
                 then if \<not> q_empty (Ready First) s then preempt s else return s
                 else if prio = THIRD_PRIO
                 then if \<not> q_empty (Ready First) s \<or> \<not> q_empty (Ready Second) s
                      then preempt s else return s
                 else return s))"

section \<open>The invariant\<close>

text \<open>Queues and tags agree, and no thread is queued twice.\<close>

definition links :: "sched \<Rightarrow> bool" where
  "links s \<longleftrightarrow> (\<forall>q. distinct (queues s q)) \<and> (\<forall>q t. t \<in> set (queues s q) \<longleftrightarrow> tag (tasks s t) = Some q)"

text \<open>A thread's status fits its queue.\<close>

definition task_ok :: "task \<Rightarrow> bool" where
  "task_ok p \<longleftrightarrow> (case tag p of
       None \<Rightarrow> status p \<noteq> TASK_READY
     | Some (Ready _) \<Rightarrow> status p = TASK_READY
     | Some (Waiters _) \<Rightarrow> status p = TASK_BLOCKED)"

text \<open>The memory a thread's death needs: its address bitmap covers the user space, and its
  pages lie in the user pool.\<close>

definition mem_ok :: "sched \<Rightarrow> bool" where
  "mem_ok s \<longleftrightarrow> (\<forall>t. stack_magic (tasks s t) = 0x20240825 \<and>
     (pgdir (tasks s t) \<longrightarrow> 94199 \<le> length (bits (vaddr_bitmap (tasks s t))) \<and>
       (\<forall>v. v2p (tasks s t) v \<noteq> 0 \<longrightarrow>
         nat ((int (v2p (tasks s t) v) - int (user_pool_start s)) mod 2 ^ 32) div PG_SIZE div 8
           < length (bits (user_pool s)))))"

definition sched_wf :: "sched \<Rightarrow> bool" where
  "sched_wf s \<longleftrightarrow> links s \<and> mem_ok s \<and> (\<forall>t. task_ok (tasks s t)) \<and>
     (\<forall>t. status (tasks s t) = TASK_RUNNING \<longrightarrow> t = cur s) \<and>
     (\<forall>k. tag (tasks s (idle_thread s)) \<noteq> Some (Waiters k))"

text \<open>Between two kernel operations the current thread is also the running one.\<close>

definition sched_inv :: "sched \<Rightarrow> bool" where
  "sched_inv s \<longleftrightarrow> sched_wf s \<and> status (tasks s (cur s)) = TASK_RUNNING"

lemma upd_sel [simp]:
  "tasks (upd t f s) = (tasks s)(t := f (tasks s t))" "queues (upd t f s) = queues s"
  "cur (upd t f s) = cur s" "idle_thread (upd t f s) = idle_thread s" "intr (upd t f s) = intr s"
  "user_pool (upd t f s) = user_pool s" "user_pool_start (upd t f s) = user_pool_start s"
  "semas (upd t f s) = semas s" "locks (upd t f s) = locks s" "all_list (upd t f s) = all_list s"
  "kticks (upd t f s) = kticks s" "next_pid (upd t f s) = next_pid s"
  by (simp_all add: upd_def)

lemma links_upd [simp]: "tag (f (tasks s t)) = tag (tasks s t) \<Longrightarrow> links (upd t f s) = links s"
proof -
  assume "tag (f (tasks s t)) = tag (tasks s t)"
  then have "tag (tasks (upd t f s) u) = tag (tasks s u)" for u by simp
  then show ?thesis by (simp only: links_def upd_sel)
qed

lemma in_queue_tag: "links s \<Longrightarrow> in_queue q t s \<longleftrightarrow> tag (tasks s t) = Some q"
  by (simp add: links_def in_queue_def)

lemma tag_remove_sel [simp]:
  "tasks (tag_remove t s) = (tasks s)(t := (tasks s t)\<lparr>tag := None\<rparr>)"
  "cur (tag_remove t s) = cur s" "idle_thread (tag_remove t s) = idle_thread s"
  "intr (tag_remove t s) = intr s" "user_pool (tag_remove t s) = user_pool s"
  "user_pool_start (tag_remove t s) = user_pool_start s"
  "semas (tag_remove t s) = semas s" "locks (tag_remove t s) = locks s"
  "all_list (tag_remove t s) = all_list s"
  by (auto simp: tag_remove_def split: option.splits)

lemma queues_tag_remove:
  "links s \<Longrightarrow> queues (tag_remove t s) q = remove1 t (queues s q)"
  by (auto simp: tag_remove_def links_def remove1_idem split: option.splits)

lemma links_tag_remove: "links s \<Longrightarrow> links (tag_remove t s)"
  by (auto simp: links_def queues_tag_remove)

text \<open>A push or an append of an unlinked thread.\<close>

lemma tag_push_ok:
  assumes "tag (tasks s t) = None" and "links s"
  obtains s' where "tag_push q t s = Inr s'" "links s'"
    "tasks s' = (tasks s)(t := (tasks s t)\<lparr>tag := Some q\<rparr>)" "queues s' = (queues s)(q := t # queues s q)"
    "cur s' = cur s" "idle_thread s' = idle_thread s" "intr s' = intr s" "user_pool s' = user_pool s"
    "user_pool_start s' = user_pool_start s" "semas s' = semas s" "locks s' = locks s"
    "all_list s' = all_list s"
proof -
  let ?s = "upd t (\<lambda>p. p\<lparr>tag := Some q\<rparr>) (s\<lparr>queues := (queues s)(q := t # queues s q)\<rparr>)"
  have "tag_push q t s = Inr ?s" using assms(1) by (simp add: tag_push_def)
  moreover have "links ?s" using assms by (auto simp: links_def)
  ultimately show thesis by (rule that) simp_all
qed

lemma tag_append_ok:
  assumes "tag (tasks s t) = None" and "links s"
  obtains s' where "tag_append q t s = Inr s'" "links s'"
    "tasks s' = (tasks s)(t := (tasks s t)\<lparr>tag := Some q\<rparr>)" "queues s' = (queues s)(q := queues s q @ [t])"
    "cur s' = cur s" "idle_thread s' = idle_thread s" "intr s' = intr s" "user_pool s' = user_pool s"
    "user_pool_start s' = user_pool_start s" "semas s' = semas s" "locks s' = locks s"
    "all_list s' = all_list s"
proof -
  let ?s = "upd t (\<lambda>p. p\<lparr>tag := Some q\<rparr>) (s\<lparr>queues := (queues s)(q := queues s q @ [t])\<rparr>)"
  have "tag_append q t s = Inr ?s" using assms(1) by (simp add: tag_append_def)
  moreover have "links ?s" using assms by (auto simp: links_def)
  ultimately show thesis by (rule that) simp_all
qed

section \<open>The scheduler keeps the invariant\<close>

text \<open>What no scheduling step changes.\<close>

definition same_sync :: "sched \<Rightarrow> sched \<Rightarrow> bool" where
  "same_sync s s' \<longleftrightarrow> semas s' = semas s \<and> locks s' = locks s \<and> all_list s' = all_list s \<and>
     idle_thread s' = idle_thread s \<and> (\<forall>t. cont (tasks s' t) = cont (tasks s t)) \<and>
     (\<forall>t. pid (tasks s' t) = pid (tasks s t) \<and> parent_pid (tasks s' t) = parent_pid (tasks s t))"

lemma same_sync_refl [simp]: "same_sync s s"
  by (simp add: same_sync_def)

lemma same_sync_trans: "same_sync s s' \<Longrightarrow> same_sync s' s'' \<Longrightarrow> same_sync s s''"
  by (simp add: same_sync_def)

text \<open>The state between taking the next thread off its queue and switching to it.\<close>

definition mid :: "nat \<Rightarrow> sched \<Rightarrow> bool" where
  "mid n s \<longleftrightarrow> links s \<and> mem_ok s \<and> tag (tasks s n) = None \<and> status (tasks s n) = TASK_READY \<and>
     (\<forall>t. t \<noteq> n \<longrightarrow> task_ok (tasks s t)) \<and> (\<forall>t. status (tasks s t) = TASK_RUNNING \<longrightarrow> t = cur s) \<and>
     (\<forall>k. tag (tasks s (idle_thread s)) \<noteq> Some (Waiters k))"

lemma mem_ok_cong:
  assumes "mem_ok s" and "user_pool s' = user_pool s" "user_pool_start s' = user_pool_start s"
    and "\<And>t. stack_magic (tasks s' t) = stack_magic (tasks s t) \<and> pgdir (tasks s' t) = pgdir (tasks s t) \<and>
      vaddr_bitmap (tasks s' t) = vaddr_bitmap (tasks s t) \<and> v2p (tasks s' t) = v2p (tasks s t)"
  shows "mem_ok s'"
  using assms by (simp add: mem_ok_def)

lemma task_ok_READY: "task_ok p \<Longrightarrow> status p = TASK_READY \<Longrightarrow> \<exists>l. tag p = Some (Ready l)"
  by (auto simp: task_ok_def split: option.splits queue.splits)

lemma task_ok_RUNNING: "task_ok p \<Longrightarrow> status p = TASK_RUNNING \<Longrightarrow> tag p = None"
  by (auto simp: task_ok_def split: option.splits queue.splits)

lemma task_okI_Ready: "tag p = Some (Ready l) \<Longrightarrow> status p = TASK_READY \<Longrightarrow> task_ok p"
  by (simp add: task_ok_def)

lemma task_okI_Waiters: "tag p = Some (Waiters k) \<Longrightarrow> status p = TASK_BLOCKED \<Longrightarrow> task_ok p"
  by (simp add: task_ok_def)

lemma task_okI_None: "tag p = None \<Longrightarrow> status p \<noteq> TASK_READY \<Longrightarrow> task_ok p"
  by (simp add: task_ok_def)

lemmas task_okI = task_okI_Ready task_okI_Waiters task_okI_None

lemma task_ok_same: "task_ok p \<Longrightarrow> tag p' = tag p \<Longrightarrow> status p' = status p \<Longrightarrow> task_ok p'"
  by (auto simp: task_ok_def split: option.splits queue.splits)

lemma task_ok_Ready: "task_ok p \<Longrightarrow> tag p = Some (Ready l) \<Longrightarrow> status p = TASK_READY"
  by (simp add: task_ok_def)

lemma unblock_idle_ok:
  assumes wf: "sched_wf s" and e: "q_empty (Ready First) s" "q_empty (Ready Second) s" "q_empty (Ready Third) s"
  shows "\<exists>s'. thread_unblock_idle (idle_thread s) s = Inr s' \<and> sched_wf s' \<and> same_sync s s' \<and>
    cur s' = cur s \<and> intr s' = intr s \<and> queues s' = (queues s)(Ready Third := [idle_thread s]) \<and>
    (cur s \<noteq> idle_thread s \<longrightarrow> tasks s' (cur s) = tasks s (cur s))"
proof -
  let ?i = "idle_thread s"
  have l: "links s" "task_ok (tasks s ?i)" using wf by (simp_all add: sched_wf_def)
  have "queues s (Ready lv) = []" for lv
    using e by (cases lv) (simp_all add: q_empty_def)
  then have nr: "tag (tasks s t) \<noteq> Some (Ready lv)" for t lv
    using l(1) unfolding links_def by (metis empty_iff list.set(1))
  have ti: "tag (tasks s ?i) = None"
  proof (rule ccontr)
    assume "tag (tasks s ?i) \<noteq> None"
    then obtain q where q: "tag (tasks s ?i) = Some q" by blast
    have "tag (tasks s ?i) \<noteq> Some (Waiters k)" for k using wf by (simp add: sched_wf_def)
    with q nr [of ?i] show False by (cases q) auto
  qed
  then have st: "status (tasks s ?i) \<noteq> TASK_READY" using l(2) by (simp add: task_ok_def)
  obtain s1 where s1: "tag_push (Ready Third) ?i s = Inr s1" "links s1"
    "tasks s1 = (tasks s)(?i := (tasks s ?i)\<lparr>tag := Some (Ready Third)\<rparr>)"
    "queues s1 = (queues s)(Ready Third := ?i # queues s (Ready Third))"
    "cur s1 = cur s" "idle_thread s1 = idle_thread s" "intr s1 = intr s" "user_pool s1 = user_pool s"
    "user_pool_start s1 = user_pool_start s" "semas s1 = semas s" "locks s1 = locks s"
    "all_list s1 = all_list s"
    by (rule tag_push_ok [OF ti l(1), of "Ready Third"])
  let ?s = "upd ?i (\<lambda>p. p\<lparr>status := TASK_READY\<rparr>) s1"
  have un: "thread_unblock_idle ?i s = Inr ?s"
    using st s1(1) nr in_queue_tag [OF l(1)] by (simp add: thread_unblock_idle_def)
  have "mem_ok ?s"
    by (rule mem_ok_cong [of s]) (use wf s1 in \<open>auto simp: sched_wf_def\<close>)
  moreover have "task_ok (tasks ?s t)" for t
  proof (cases "t = ?i")
    case True
    then show ?thesis using s1(3) by (intro task_okI_Ready [of _ Third]) simp_all
  next
    case False
    then show ?thesis using wf s1(3) by (simp add: sched_wf_def)
  qed
  moreover have "status (tasks ?s t) = TASK_RUNNING \<longrightarrow> t = cur s" for t
    using wf s1(3) by (cases "t = ?i") (simp_all add: sched_wf_def)
  ultimately have "sched_wf ?s"
    using s1 wf by (simp add: sched_wf_def)
  moreover have "same_sync s ?s" using s1 by (simp add: same_sync_def)
  moreover have "queues ?s = (queues s)(Ready Third := [?i])" using s1(4) e(3) by (simp add: q_empty_def)
  moreover have "cur s \<noteq> ?i \<longrightarrow> tasks ?s (cur s) = tasks s (cur s)"
    using s1(3) by simp
  ultimately show ?thesis using s1 un by (intro exI [of _ ?s]) simp
qed

lemma pop_ok:
  assumes wf: "sched_wf s" and q: "queues s (Ready lv) = n # ts"
  shows "\<exists>s'. tag_pop (Ready lv) s = Inr (n, s') \<and> mid n s' \<and> same_sync s s' \<and> cur s' = cur s \<and>
    intr s' = intr s \<and> status (tasks s' (cur s)) = status (tasks s (cur s)) \<and>
    queues s' = (queues s)(Ready lv := ts)"
proof -
  let ?s = "tag_remove n s"
  have l: "links s" using wf by (simp add: sched_wf_def)
  have tn: "tag (tasks s n) = Some (Ready lv)" using l q unfolding links_def by (metis list.set_intros(1))
  have "status (tasks s n) = TASK_READY" using wf tn task_ok_Ready by (auto simp: sched_wf_def)
  moreover have "links ?s" using l by (rule links_tag_remove)
  moreover have "mem_ok ?s"
    by (rule mem_ok_cong [of s]) (use wf in \<open>auto simp: sched_wf_def\<close>)
  ultimately have "mid n ?s" using wf by (auto simp: mid_def sched_wf_def)
  moreover have "queues ?s = (queues s)(Ready lv := ts)"
    using tn q by (auto simp: tag_remove_def)
  moreover have "same_sync s ?s" by (auto simp: same_sync_def)
  ultimately show ?thesis using q by (simp add: tag_pop_def)
qed

lemma assert_append_mid:
  assumes "mid n s" "c = cur s" "c \<noteq> n" "tag (tasks s c) = None" "s1 = upd c f s"
    and f: "tag (f (tasks s c)) = None" "status (f (tasks s c)) = TASK_READY"
      "stack_magic (f (tasks s c)) = stack_magic (tasks s c)" "pgdir (f (tasks s c)) = pgdir (tasks s c)"
      "vaddr_bitmap (f (tasks s c)) = vaddr_bitmap (tasks s c)" "v2p (f (tasks s c)) = v2p (tasks s c)"
      "cont (f (tasks s c)) = cont (tasks s c)" "pid (f (tasks s c)) = pid (tasks s c)"
      "parent_pid (f (tasks s c)) = parent_pid (tasks s c)"
  shows "\<exists>s'. assert_append (Ready lv) c s1 = Inr s' \<and> mid n s' \<and> same_sync s s' \<and>
    (\<forall>t. status (tasks s' t) \<noteq> TASK_RUNNING) \<and> cur s' = cur s \<and> intr s' = intr s \<and>
    queues s' = (queues s)(Ready lv := queues s (Ready lv) @ [c])"
proof -
  have l1: "links s1" using assms(1,4,5) f(1) by (simp add: mid_def)
  have t1: "tag (tasks s1 c) = None" using assms(5) f(1) by simp
  obtain s' where s': "tag_append (Ready lv) c s1 = Inr s'" "links s'"
    "tasks s' = (tasks s1)(c := (tasks s1 c)\<lparr>tag := Some (Ready lv)\<rparr>)"
    "queues s' = (queues s1)(Ready lv := queues s1 (Ready lv) @ [c])"
    "cur s' = cur s1" "idle_thread s' = idle_thread s1" "intr s' = intr s1"
    "user_pool s' = user_pool s1" "user_pool_start s' = user_pool_start s1"
    "semas s' = semas s1" "locks s' = locks s1" "all_list s' = all_list s1"
    by (rule tag_append_ok [OF t1 l1])
  have "assert_append (Ready lv) c s1 = Inr s'"
    using s'(1) in_queue_tag [OF l1] t1 by (simp add: assert_append_def)
  moreover have "mem_ok s'"
    by (rule mem_ok_cong [of s]) (use assms(1,5) f s' in \<open>auto simp: mid_def\<close>)
  then have "mid n s'"
    using assms s' f by (auto simp: mid_def task_ok_def)
  moreover have "same_sync s s'" using s' assms(5) f by (auto simp: same_sync_def)
  moreover have "\<forall>t. status (tasks s' t) \<noteq> TASK_RUNNING"
    using assms(1,2,3,5) f s'(3) by (auto simp: mid_def)
  ultimately show ?thesis using s' assms(5) by auto
qed

text \<open>The level a used up or interrupted time slice sends a thread to.\<close>

definition requeue_level :: "task \<Rightarrow> level" where
  "requeue_level p =
     (if ticks p = -1 then (if priority p = FIRST_PRIO then Second else Third)
      else if priority p = FIRST_PRIO then First
      else if priority p = SECOND_PRIO then Second else Third)"

lemma requeue_ok:
  assumes "mid n s" "c = cur s" "status (tasks s c) = TASK_RUNNING"
  shows "\<exists>s'. requeue c s = Inr s' \<and> mid n s' \<and> same_sync s s' \<and>
    (\<forall>t. status (tasks s' t) \<noteq> TASK_RUNNING) \<and> cur s' = cur s \<and> intr s' = intr s \<and>
    queues s' = (queues s)(Ready (requeue_level (tasks s c)) :=
      queues s (Ready (requeue_level (tasks s c))) @ [c])"
proof -
  have cn: "c \<noteq> n" using assms by (auto simp: mid_def)
  then have tc: "tag (tasks s c) = None" using assms(1,3) task_ok_RUNNING by (auto simp: mid_def)
  have uu: "upd c g (upd c f s) = upd c (\<lambda>p. g (f p)) s" for f g by (simp add: upd_def)
  note * = assert_append_mid [OF assms(1,2) cn tc refl]
  show ?thesis
    unfolding requeue_def Let_def uu
    using *[of "\<lambda>p. p\<lparr>status := TASK_READY, priority := SECOND_PRIO, ticks := SECOND_TICKS\<rparr>" Second]
      *[of "\<lambda>p. p\<lparr>status := TASK_READY, priority := THIRD_PRIO, ticks := THIRD_TICKS\<rparr>" Third]
      *[of "\<lambda>p. p\<lparr>status := TASK_READY, priority := FIRST_PRIO\<rparr>" First]
      *[of "\<lambda>p. p\<lparr>status := TASK_READY, priority := SECOND_PRIO\<rparr>" Second]
      *[of "\<lambda>p. p\<lparr>status := TASK_READY, priority := THIRD_PRIO\<rparr>" Third]
    by (cases "ticks (tasks s c) = -1"; cases "priority (tasks s c) = FIRST_PRIO";
        cases "priority (tasks s c) = SECOND_PRIO") (simp_all add: tc requeue_level_def)
qed

subsection \<open>Freeing the pages of a dead process\<close>

lemma bitmap_set_clear:
  assumes "i div 8 < length (bits b)"
  shows "\<exists>b'. bitmap_set b i 0 = Inr b' \<and> length (bits b') = length (bits b) \<and>
    btmp_bytes_len b' = btmp_bytes_len b \<and>
    (\<forall>j. j div 8 < length (bits b) \<longrightarrow> bit_set b' j = (j \<noteq> i \<and> bit_set b j))"
  using bitmap_set_ok [of 0 i b] assms by auto

lemma release_pages_total:
  assumes "94199 \<le> length (bits vbm)" "USER_VADDR_START \<le> vaddr"
    and "\<And>v. tab v \<noteq> 0 \<Longrightarrow>
      nat ((int (tab v) - int start) mod 2 ^ 32) div PG_SIZE div 8 < length (bits pool)"
  shows "\<exists>p. release_pages vbm tab start vaddr pool = Inr p \<and> length (bits p) = length (bits pool)"
  using assms
proof (induction vbm tab start vaddr pool rule: release_pages.induct)
  case (1 vbm tab start vaddr pool)
  show ?case
  proof (cases "vaddr < USER_STACK3_VADDR + PG_SIZE")
    case True
    have "(vaddr - USER_VADDR_START) div PG_SIZE div 8 < length (bits vbm)"
    proof -
      have "vaddr - USER_VADDR_START < 3086712832"
        using True "1.prems"(2) by (simp add: USER_STACK3_VADDR_def USER_VADDR_START_def PG_SIZE_def)
      then have "(vaddr - USER_VADDR_START) div 32768 < 94199" by (simp add: less_mult_imp_div_less)
      then show ?thesis using "1.prems"(1) by (simp add: PG_SIZE_def flip: div_mult2_eq)
    qed
    then obtain u where u: "bitmap_scan_test vbm ((vaddr - USER_VADDR_START) div PG_SIZE) = Inr u"
      using bitmap_scan_test_ok by blast
    have le: "USER_VADDR_START \<le> vaddr + 0x1000" using "1.prems"(2) by simp
    show ?thesis
    proof (cases "u = 1 \<and> tab vaddr \<noteq> 0")
      case True
      then obtain b where b: "bitmap_set pool (nat ((int (tab vaddr) - int start) mod 2 ^ 32) div PG_SIZE) 0 = Inr b"
        "length (bits b) = length (bits pool)"
        using bitmap_set_clear "1.prems"(3) by blast
      have "\<exists>p. release_pages vbm tab start (vaddr + 0x1000) b = Inr p \<and> length (bits p) = length (bits b)"
        by (rule "1.IH" [OF _ u _ "1.prems"(1) le]) (use \<open>vaddr < _\<close> True b "1.prems"(3) in \<open>simp_all add: Let_def\<close>)
      then show ?thesis
        using u b True \<open>vaddr < _\<close> by (subst release_pages.simps) (auto simp: Let_def)
    next
      case False
      have "\<exists>p. release_pages vbm tab start (vaddr + 0x1000) pool = Inr p \<and> length (bits p) = length (bits pool)"
        by (rule "1.IH" [OF _ u _ "1.prems"(1) le]) (use \<open>vaddr < _\<close> False "1.prems"(3) in \<open>auto simp: Let_def\<close>)
      then show ?thesis
        using u False \<open>vaddr < _\<close> by (subst release_pages.simps) (auto simp: Let_def)
    qed
  next
    case False
    then show ?thesis by (subst release_pages.simps) simp
  qed
qed

lemma retire_ok:
  assumes "mid n s" "c = cur s" "status (tasks s c) \<noteq> TASK_RUNNING"
    and "status (tasks s c) = TASK_DIED \<Longrightarrow> tag (tasks s c) = None"
  shows "\<exists>s'. retire c s = Inr s' \<and> mid n s' \<and> same_sync s s' \<and>
    (\<forall>t. status (tasks s' t) \<noteq> TASK_RUNNING) \<and> cur s' = cur s \<and> intr s' = intr s \<and> queues s' = queues s"
proof -
  have nrun: "\<forall>t. status (tasks s t) \<noteq> TASK_RUNNING" using assms by (auto simp: mid_def)
  show ?thesis
  proof (cases "status (tasks s c) = TASK_DIED")
    case True
    then have tc: "tag (tasks s c) = None" using assms(4) by simp
    then have tr: "tag_remove c s = s" by (simp add: tag_remove_def)
    show ?thesis
    proof (cases "pgdir (tasks s c)")
      case pg: True
      have m: "mem_ok s" using assms(1) by (simp add: mid_def)
      then have "\<exists>p. release_pages (vaddr_bitmap (tasks s c)) (v2p (tasks s c)) (user_pool_start s)
          USER_VADDR_START (user_pool s) = Inr p \<and> length (bits p) = length (bits (user_pool s))"
        using pg by (intro release_pages_total) (simp_all add: mem_ok_def)
      then obtain p where p: "release_pages (vaddr_bitmap (tasks s c)) (v2p (tasks s c)) (user_pool_start s)
          USER_VADDR_START (user_pool s) = Inr p" "length (bits p) = length (bits (user_pool s))" by blast
      let ?s = "s\<lparr>user_pool := p\<rparr>"
      have "mem_ok ?s" using m p(2) by (simp add: mem_ok_def)
      then have "mid n ?s" using assms(1) by (simp add: mid_def links_def)
      moreover have "retire c s = Inr ?s" using True pg p(1) tr by (simp add: retire_def Let_def)
      moreover have "same_sync s ?s" by (simp add: same_sync_def)
      ultimately show ?thesis using nrun by auto
    next
      case False
      then show ?thesis using True tr assms(1) nrun by (simp add: retire_def Let_def)
    qed
  next
    case nd: False
    show ?thesis
    proof (cases "status (tasks s c) = TASK_BLOCKED")
      case True
      let ?s = "upd c (\<lambda>p. p\<lparr>priority := THIRD_PRIO\<rparr>) s"
      have cn: "c \<noteq> n" using True assms(1) by (auto simp: mid_def)
      have "mem_ok ?s"
        by (rule mem_ok_cong [of s]) (use assms(1) in \<open>auto simp: mid_def\<close>)
      moreover have "task_ok (tasks ?s t)" if "t \<noteq> n" for t
        by (rule task_ok_same [of "tasks s t"]) (use assms(1) that in \<open>simp_all add: mid_def\<close>)
      ultimately have "mid n ?s" using assms(1) cn by (auto simp: mid_def)
      moreover have "same_sync s ?s" by (simp add: same_sync_def)
      moreover have "\<forall>t. status (tasks ?s t) \<noteq> TASK_RUNNING" using nrun by simp
      moreover have "retire c s = Inr ?s" using True by (simp add: retire_def Let_def)
      ultimately show ?thesis by (intro exI [of _ ?s]) simp
    next
      case False
      then show ?thesis using nd assms(1) nrun by (simp add: retire_def Let_def)
    qed
  qed
qed

subsection \<open>One scheduling decision\<close>

text \<open>The thread that runs next: the head of the highest level that is not empty, or the idle
  thread when all are.\<close>

definition next_thread :: "sched \<Rightarrow> nat" where
  "next_thread s =
     (if queues s (Ready First) \<noteq> [] then hd (queues s (Ready First))
      else if queues s (Ready Second) \<noteq> [] then hd (queues s (Ready Second))
      else if queues s (Ready Third) \<noteq> [] then hd (queues s (Ready Third))
      else idle_thread s)"

lemma finish_switch:
  assumes m: "mid n s" and r: "\<forall>t. status (tasks s t) \<noteq> TASK_RUNNING"
    and s': "s' = (process_activate n (upd n (\<lambda>p. p\<lparr>status := TASK_RUNNING\<rparr>) s))\<lparr>cur := n\<rparr>"
  shows "sched_inv s' \<and> same_sync s s' \<and> cur s' = n \<and> intr s' = intr s \<and> queues s' = queues s"
proof -
  have t': "tasks s' = (tasks s)(n := (tasks s n)\<lparr>status := TASK_RUNNING\<rparr>)"
    and f: "queues s' = queues s" "cur s' = n" "intr s' = intr s" "idle_thread s' = idle_thread s"
      "user_pool s' = user_pool s" "user_pool_start s' = user_pool_start s"
      "semas s' = semas s" "locks s' = locks s" "all_list s' = all_list s"
    unfolding s' by (simp_all add: process_activate_def)
  have "mem_ok s'"
    by (rule mem_ok_cong [of s]) (use m t' f in \<open>auto simp: mid_def\<close>)
  moreover have "tag (tasks s' t) = tag (tasks s t)" for t unfolding t' by simp
  then have "links s'" using m by (simp add: mid_def links_def f(1))
  moreover have "task_ok (tasks s' t)" for t
  proof (cases "t = n")
    case True
    then show ?thesis unfolding t' using m by (intro task_okI_None) (simp_all add: mid_def)
  next
    case False
    then show ?thesis unfolding t' using m by (simp add: mid_def)
  qed
  moreover have "status (tasks s' t) = TASK_RUNNING \<longrightarrow> t = cur s'" for t
    unfolding t' f(2) using r by simp
  moreover have "tag (tasks s' (idle_thread s')) \<noteq> Some (Waiters k)" for k
    using m \<open>\<And>t. tag (tasks s' t) = tag (tasks s t)\<close> by (simp add: mid_def f(4))
  moreover have "status (tasks s' (cur s')) = TASK_RUNNING" unfolding t' f(2) by simp
  ultimately have "sched_inv s'" unfolding sched_inv_def sched_wf_def by blast
  moreover have "same_sync s s'" using t' f by (simp add: same_sync_def)
  ultimately show ?thesis using f by simp
qed

text \<open>What a decision makes of the queues, apart from the requeued thread.\<close>

definition waiters_same :: "sched \<Rightarrow> sched \<Rightarrow> bool" where
  "waiters_same s s' \<longleftrightarrow> (\<forall>k. queues s' (Waiters k) = queues s (Waiters k))"

lemma after_pop:
  assumes m: "mid n s" and d: "status (tasks s (cur s)) = TASK_DIED \<Longrightarrow> tag (tasks s (cur s)) = None"
  shows "\<exists>s1. (if status (tasks s (cur s)) = TASK_RUNNING then requeue (cur s) s else retire (cur s) s) = Inr s1 \<and>
    mid n s1 \<and> same_sync s s1 \<and> (\<forall>t. status (tasks s1 t) \<noteq> TASK_RUNNING) \<and> cur s1 = cur s \<and>
    intr s1 = intr s \<and> waiters_same s s1"
proof (cases "status (tasks s (cur s)) = TASK_RUNNING")
  case True
  then show ?thesis using requeue_ok [OF m refl True] by (auto simp: waiters_same_def)
next
  case False
  then show ?thesis using retire_ok [OF m refl False d] by (auto simp: waiters_same_def)
qed

lemma popped:
  assumes wf: "sched_wf s" and ne: "queues s (Ready First) \<noteq> [] \<or> queues s (Ready Second) \<noteq> [] \<or> queues s (Ready Third) \<noteq> []"
  shows "\<exists>s'. (if \<not> q_empty (Ready First) s then tag_pop (Ready First) s
           else if \<not> q_empty (Ready Second) s then tag_pop (Ready Second) s
           else tag_pop (Ready Third) s) = Inr (next_thread s, s') \<and> mid (next_thread s) s' \<and>
    same_sync s s' \<and> cur s' = cur s \<and> intr s' = intr s \<and>
    status (tasks s' (cur s)) = status (tasks s (cur s)) \<and> waiters_same s s'"
proof -
  define lv where "lv = (if queues s (Ready First) \<noteq> [] then First
     else if queues s (Ready Second) \<noteq> [] then Second else Third)"
  have "queues s (Ready lv) \<noteq> []" using ne by (auto simp: lv_def)
  then obtain n ts where q: "queues s (Ready lv) = n # ts" by (cases "queues s (Ready lv)") auto
  then have n: "n = next_thread s" by (auto simp: lv_def next_thread_def split: if_splits)
  have pop: "(if \<not> q_empty (Ready First) s then tag_pop (Ready First) s
           else if \<not> q_empty (Ready Second) s then tag_pop (Ready Second) s
           else tag_pop (Ready Third) s) = tag_pop (Ready lv) s"
    by (simp add: lv_def q_empty_def)
  show ?thesis unfolding pop
    using pop_ok [OF wf q] unfolding n by (auto simp: waiters_same_def)
qed

lemma schedule_ok:
  assumes wf: "sched_wf s" and i: "\<not> intr s"
    and d: "status (tasks s (cur s)) = TASK_DIED \<Longrightarrow> tag (tasks s (cur s)) = None"
  shows "\<exists>s'. schedule s = Inr s' \<and> sched_inv s' \<and> same_sync s s' \<and> cur s' = next_thread s \<and>
    intr s' = intr s \<and> waiters_same s s'"
proof -
  let ?e = "q_empty (Ready First) s \<and> q_empty (Ready Second) s \<and> q_empty (Ready Third) s"
  have "\<exists>s1. (if ?e then thread_unblock_idle (idle_thread s) s else Inr s) = Inr s1 \<and> sched_wf s1 \<and>
    same_sync s s1 \<and> cur s1 = cur s \<and> intr s1 = intr s \<and> waiters_same s s1 \<and>
    (queues s1 (Ready First) \<noteq> [] \<or> queues s1 (Ready Second) \<noteq> [] \<or> queues s1 (Ready Third) \<noteq> []) \<and>
    next_thread s1 = next_thread s \<and>
    (status (tasks s1 (cur s)) = TASK_DIED \<longrightarrow> tag (tasks s1 (cur s)) = None)"
  proof (cases ?e)
    case True
    then obtain s1 where s1: "thread_unblock_idle (idle_thread s) s = Inr s1" "sched_wf s1"
      "same_sync s s1" "cur s1 = cur s" "intr s1 = intr s"
      "queues s1 = (queues s)(Ready Third := [idle_thread s])"
      "cur s \<noteq> idle_thread s \<longrightarrow> tasks s1 (cur s) = tasks s (cur s)"
      using unblock_idle_ok [OF wf] by blast
    have "links s1" using s1(2) by (simp add: sched_wf_def)
    moreover have "idle_thread s \<in> set (queues s1 (Ready Third))" using s1(6) by simp
    ultimately have "tag (tasks s1 (idle_thread s)) = Some (Ready Third)" unfolding links_def by blast
    then have "status (tasks s1 (idle_thread s)) = TASK_READY"
      using s1(2) task_ok_Ready by (auto simp: sched_wf_def)
    then have "status (tasks s1 (cur s)) = TASK_DIED \<longrightarrow> tag (tasks s1 (cur s)) = None"
      using s1(7) d by (cases "cur s = idle_thread s") auto
    moreover have "next_thread s1 = next_thread s"
      using True s1(6) by (simp add: next_thread_def q_empty_def)
    moreover have "waiters_same s s1" using s1(6) by (simp add: waiters_same_def)
    ultimately show ?thesis using True s1(1-6) by (intro exI [of _ s1]) simp
  next
    case False
    then show ?thesis using wf d by (intro exI [of _ s]) (auto simp: q_empty_def waiters_same_def)
  qed
  then obtain s1 where s1: "(if ?e then thread_unblock_idle (idle_thread s) s else Inr s) = Inr s1"
    "sched_wf s1" "same_sync s s1" "cur s1 = cur s" "intr s1 = intr s" "waiters_same s s1"
    "queues s1 (Ready First) \<noteq> [] \<or> queues s1 (Ready Second) \<noteq> [] \<or> queues s1 (Ready Third) \<noteq> []"
    "next_thread s1 = next_thread s"
    "status (tasks s1 (cur s)) = TASK_DIED \<longrightarrow> tag (tasks s1 (cur s)) = None"
    by blast
  obtain s2 where s2: "(if \<not> q_empty (Ready First) s1 then tag_pop (Ready First) s1
           else if \<not> q_empty (Ready Second) s1 then tag_pop (Ready Second) s1
           else tag_pop (Ready Third) s1) = Inr (next_thread s1, s2)" "mid (next_thread s1) s2"
    "same_sync s1 s2" "cur s2 = cur s1" "intr s2 = intr s1"
    "status (tasks s2 (cur s1)) = status (tasks s1 (cur s1))" "waiters_same s1 s2"
    using popped [OF s1(2,7)] by blast
  have d2: "tag (tasks s2 (cur s2)) = None" if "status (tasks s2 (cur s2)) = TASK_DIED"
  proof (rule ccontr)
    assume "tag (tasks s2 (cur s2)) \<noteq> None"
    moreover have "cur s2 \<noteq> next_thread s1" using that s2(2) by (auto simp: mid_def)
    ultimately have "task_ok (tasks s2 (cur s2))" using s2(2) by (simp add: mid_def)
    with that \<open>tag (tasks s2 (cur s2)) \<noteq> None\<close> show False
      by (auto simp: task_ok_def split: option.splits queue.splits)
  qed
  obtain s3 where s3: "(if status (tasks s2 (cur s2)) = TASK_RUNNING then requeue (cur s2) s2
      else retire (cur s2) s2) = Inr s3" "mid (next_thread s1) s3" "same_sync s2 s3"
    "\<forall>t. status (tasks s3 t) \<noteq> TASK_RUNNING" "cur s3 = cur s2" "intr s3 = intr s2" "waiters_same s2 s3"
    using after_pop [OF s2(2) d2] by blast
  let ?s = "(process_activate (next_thread s1) (upd (next_thread s1) (\<lambda>p. p\<lparr>status := TASK_RUNNING\<rparr>) s3))
              \<lparr>cur := next_thread s1\<rparr>"
  note fin = finish_switch [OF s3(2,4) refl]
  have c: "cur s2 = cur s" using s2(4) s1(4) by simp
  have "schedule s = Inr ?s"
    unfolding schedule_def Let_def using i s3(1) unfolding c
    by (simp add: s1(1) s2(1))
  moreover have "same_sync s ?s"
    using fin same_sync_trans [OF s1(3) same_sync_trans [OF s2(3) s3(3)]] same_sync_trans by blast
  moreover have "waiters_same s ?s"
    using fin s1(6) s2(7) s3(7) by (simp add: waiters_same_def)
  ultimately show ?thesis using fin s1(5,8) s2(5) s3(6) by (intro exI [of _ ?s]) simp
qed

section \<open>The operations keep the invariant\<close>

text \<open>A change of one thread that leaves its queue alone and fits it.\<close>

lemma sched_wf_upd:
  assumes wf: "links s" "mem_ok s" "\<And>t. t \<noteq> c \<Longrightarrow> task_ok (tasks s t)"
      "\<And>t. status (tasks s t) = TASK_RUNNING \<Longrightarrow> t = cur s"
      "\<And>k. tag (tasks s (idle_thread s)) \<noteq> Some (Waiters k)"
    and f: "tag (f (tasks s c)) = tag (tasks s c)" "task_ok (f (tasks s c))"
      "status (f (tasks s c)) = TASK_RUNNING \<Longrightarrow> c = cur s"
      "stack_magic (f (tasks s c)) = stack_magic (tasks s c)" "pgdir (f (tasks s c)) = pgdir (tasks s c)"
      "vaddr_bitmap (f (tasks s c)) = vaddr_bitmap (tasks s c)" "v2p (f (tasks s c)) = v2p (tasks s c)"
  shows "sched_wf (upd c f s)"
proof -
  have "mem_ok (upd c f s)" by (rule mem_ok_cong [OF wf(2)]) (use f in auto)
  moreover have "links (upd c f s)" using wf(1) f(1) by simp
  moreover have "task_ok (tasks (upd c f s) t)" for t using wf(3) f(2) by simp
  moreover have "status (tasks (upd c f s) t) = TASK_RUNNING \<longrightarrow> t = cur (upd c f s)" for t
    using wf(4) [of t] f(3) by simp
  moreover have "tag (tasks (upd c f s) (idle_thread s)) \<noteq> Some (Waiters k)" for k
    using wf(5) [of k] f(1) by (cases "idle_thread s = c") simp_all
  ultimately show ?thesis unfolding sched_wf_def by simp
qed

lemma sched_wf_intr [simp]: "sched_wf (s\<lparr>intr := b\<rparr>) = sched_wf s"
  by (simp add: sched_wf_def links_def mem_ok_def)

lemma sched_inv_intr [simp]: "sched_inv (s\<lparr>intr := b\<rparr>) = sched_inv s"
  by (simp add: sched_inv_def)

lemma sched_invD:
  assumes "sched_inv s"
  shows "sched_wf s" "links s" "mem_ok s" "task_ok (tasks s t)" "tag (tasks s (cur s)) = None"
    "status (tasks s t) = TASK_RUNNING \<longleftrightarrow> t = cur s"
    "tag (tasks s (idle_thread s)) \<noteq> Some (Waiters k)" "stack_magic (tasks s t) = 0x20240825"
  using assms task_ok_RUNNING by (auto simp: sched_inv_def sched_wf_def mem_ok_def)

text \<open>What changes besides the current thread's pending work: nothing a lock sees.\<close>

definition blocks_to :: "sched \<Rightarrow> sched \<Rightarrow> cont \<Rightarrow> sched \<Rightarrow> bool" where
  "blocks_to s0 s k s' \<longleftrightarrow> sched_inv s' \<and> \<not> intr s' \<and> cur s' = next_thread s0 \<and> semas s' = semas s \<and>
     locks s' = locks s \<and> all_list s' = all_list s \<and> idle_thread s' = idle_thread s \<and>
     (\<forall>t. cont (tasks s' t) = (if t = cur s then k else cont (tasks s t))) \<and> waiters_same s s'"

lemma block_as_ok:
  assumes wf: "links s" "mem_ok s" "\<And>t. t \<noteq> cur s \<Longrightarrow> task_ok (tasks s t)"
      "\<And>t. status (tasks s t) = TASK_RUNNING \<Longrightarrow> t = cur s"
      "\<And>k. tag (tasks s (idle_thread s)) \<noteq> Some (Waiters k)"
    and st: "stat \<in> {TASK_BLOCKED, TASK_WAITING, TASK_HANGING}"
      "tag (tasks s (cur s)) = None \<or> (stat = TASK_BLOCKED \<and> (\<exists>k. tag (tasks s (cur s)) = Some (Waiters k)))"
  shows "\<exists>s'. block_as k stat s = Inr s' \<and> blocks_to s s k s'"
proof -
  let ?f = "\<lambda>p. p\<lparr>status := stat, cont := k\<rparr>"
  let ?s = "upd (cur s) ?f (s\<lparr>intr := False\<rparr>)"
  have "task_ok (?f (tasks s (cur s)))"
    using st by (auto intro: task_okI)
  then have wf1: "sched_wf (upd (cur s) ?f s)"
    using wf st by (intro sched_wf_upd) auto
  moreover have "?s = (upd (cur s) ?f s)\<lparr>intr := False\<rparr>" by (simp add: upd_def)
  ultimately have wf2: "sched_wf ?s" by simp
  have nd: "status (tasks ?s (cur ?s)) \<noteq> TASK_DIED" using st(1) by auto
  have "next_thread ?s = next_thread s" by (simp add: next_thread_def)
  then obtain s' where s': "schedule ?s = Inr s'" "sched_inv s'" "same_sync ?s s'" "cur s' = next_thread s"
    "intr s' = intr ?s" "waiters_same ?s s'"
    using schedule_ok [OF wf2] nd by auto
  have "block_as k stat s = Inr s'" using st(1) s'(1) by (auto simp: block_as_def Let_def)
  moreover have "blocks_to s s k s'"
    using s'(2-6) by (auto simp: blocks_to_def same_sync_def waiters_same_def)
  ultimately show ?thesis by blast
qed

lemma thread_block_ok:
  assumes "sched_inv s" "stat \<in> {TASK_BLOCKED, TASK_WAITING, TASK_HANGING}"
  shows "\<exists>s'. thread_block stat s = Inr s' \<and> blocks_to s s (Restore (intr s)) s'"
  unfolding thread_block_def
  using sched_invD [OF assms(1)] assms(2) by (intro block_as_ok) auto

lemma thread_yield_ok:
  assumes inv: "sched_inv s"
  shows "\<exists>s' s1. thread_yield s = Inr s' \<and> blocks_to s1 s (Restore (intr s)) s' \<and>
    queues s1 = (queues s)(Ready First := queues s (Ready First) @ [cur s])"
proof -
  let ?r = "s\<lparr>intr := False\<rparr>"
  note i = sched_invD [OF inv]
  have l0: "links ?r" using i(2) by (simp add: links_def)
  have t0: "tag (tasks ?r (cur s)) = None" using i(5) by simp
  obtain s1 where s1: "tag_append (Ready First) (cur s) ?r = Inr s1" "links s1"
    "tasks s1 = (tasks ?r)(cur s := (tasks ?r (cur s))\<lparr>tag := Some (Ready First)\<rparr>)"
    "queues s1 = (queues ?r)(Ready First := queues ?r (Ready First) @ [cur s])"
    "cur s1 = cur ?r" "idle_thread s1 = idle_thread ?r" "intr s1 = intr ?r"
    "user_pool s1 = user_pool ?r" "user_pool_start s1 = user_pool_start ?r"
    "semas s1 = semas ?r" "locks s1 = locks ?r" "all_list s1 = all_list ?r"
    by (rule tag_append_ok [OF t0 l0, of "Ready First"])
  let ?f = "\<lambda>p. p\<lparr>priority := FIRST_PRIO, status := TASK_READY, cont := Restore (intr s)\<rparr>"
  let ?s = "upd (cur s) ?f s1"
  have m1: "mem_ok s1" by (rule mem_ok_cong [OF i(3)]) (use s1 in auto)
  have wf: "sched_wf ?s"
  proof (rule sched_wf_upd [OF s1(2) m1])
    show "task_ok (tasks s1 t)" if "t \<noteq> cur s" for t using that s1(3) i(4) by simp
    show "t = cur s1" if "status (tasks s1 t) = TASK_RUNNING" for t
      using that s1(3,5) i(6) [of t] by (cases "t = cur s") simp_all
    show "tag (tasks s1 (idle_thread s1)) \<noteq> Some (Waiters k)" for k
      using i(7) [of k] s1(3,6) by (cases "idle_thread s = cur s") simp_all
    show "task_ok (?f (tasks s1 (cur s)))" by (rule task_okI_Ready [of _ First]) (simp_all add: s1(3))
  qed simp_all
  have nd: "status (tasks ?s (cur ?s)) \<noteq> TASK_DIED" using s1(5) by simp
  have "\<not> intr ?s" using s1(7) by simp
  then obtain s' where s': "schedule ?s = Inr s'" "sched_inv s'" "same_sync ?s s'" "cur s' = next_thread ?s"
    "intr s' = intr ?s" "waiters_same ?s s'"
    using schedule_ok [OF wf] nd by blast
  have aa: "assert_append (Ready First) (cur s) ?r = Inr s1"
    unfolding assert_append_def in_queue_tag [OF l0] t0 s1(1) by simp
  have "thread_yield s = Inr s'"
    unfolding thread_yield_def Let_def aa andthen_Inr by (rule s'(1))
  moreover have "next_thread ?s = next_thread s1" using s1(6) by (simp add: next_thread_def)
  then have "blocks_to s1 s (Restore (intr s)) s'"
    using s' s1 by (auto simp: blocks_to_def same_sync_def waiters_same_def)
  ultimately show ?thesis using s1(4) by (intro exI [of _ s'] exI [of _ s1]) simp
qed

lemma thread_unblock_wf:
  assumes wf: "sched_wf s" and st: "status (tasks s t) \<in> {TASK_BLOCKED, TASK_WAITING, TASK_HANGING}"
  shows "\<exists>s'. thread_unblock t s = Inr s' \<and> sched_wf s' \<and> cur s' = cur s \<and> intr s' = intr s \<and>
    semas s' = semas s \<and> locks s' = locks s \<and> all_list s' = all_list s \<and>
    idle_thread s' = idle_thread s \<and> (\<forall>u. cont (tasks s' u) = cont (tasks s u)) \<and>
    (\<forall>u. pid (tasks s' u) = pid (tasks s u)) \<and> (\<forall>u. u \<noteq> t \<longrightarrow> tasks s' u = tasks s u) \<and>
    (\<forall>q. queues s' q = (if q = Ready First then t # queues s q else remove1 t (queues s q)))"
proof -
  have l: "links s" and m: "mem_ok s" and ok: "\<And>u. task_ok (tasks s u)"
    and run: "\<And>u. status (tasks s u) = TASK_RUNNING \<Longrightarrow> u = cur s"
    and idl: "\<And>k. tag (tasks s (idle_thread s)) \<noteq> Some (Waiters k)"
    using wf by (simp_all add: sched_wf_def)
  let ?f = "\<lambda>p. p\<lparr>priority := FIRST_PRIO, ticks := FIRST_TICKS\<rparr>"
  let ?r = "upd t ?f (tag_remove t s)"
  have l0: "links ?r" using links_tag_remove [OF l] by simp
  have t0: "tag (tasks ?r t) = None" by simp
  have nf: "t \<notin> set (queues s (Ready lv))" for lv
    using l ok [of t] st task_ok_Ready by (auto simp: links_def)
  have q0: "queues ?r q = remove1 t (queues s q)" for q using queues_tag_remove [OF l] by simp
  obtain s1 where s1: "tag_push (Ready First) t ?r = Inr s1" "links s1"
    "tasks s1 = (tasks ?r)(t := (tasks ?r t)\<lparr>tag := Some (Ready First)\<rparr>)"
    "queues s1 = (queues ?r)(Ready First := t # queues ?r (Ready First))"
    "cur s1 = cur ?r" "idle_thread s1 = idle_thread ?r" "intr s1 = intr ?r"
    "user_pool s1 = user_pool ?r" "user_pool_start s1 = user_pool_start ?r"
    "semas s1 = semas ?r" "locks s1 = locks ?r" "all_list s1 = all_list ?r"
    by (rule tag_push_ok [OF t0 l0, of "Ready First"])
  let ?v = "upd t (\<lambda>p. p\<lparr>status := TASK_READY\<rparr>) s1"
  have "thread_unblock t s = Inr ?v" using st s1(1) by (auto simp: thread_unblock_def Let_def)
  moreover have m1: "mem_ok s1" by (rule mem_ok_cong [OF m]) (use s1 in auto)
  have "sched_wf ?v"
  proof (rule sched_wf_upd [OF s1(2) m1])
    show "task_ok (tasks s1 u)" if "u \<noteq> t" for u using that s1(3) ok by simp
    show "u = cur s1" if "status (tasks s1 u) = TASK_RUNNING" for u
    proof (cases "u = t")
      case True
      with that s1(3) st show ?thesis by auto
    next
      case False
      with that s1(3) have "status (tasks s u) = TASK_RUNNING" by simp
      from run [OF this] show ?thesis using s1(5) by simp
    qed
    show "tag (tasks s1 (idle_thread s1)) \<noteq> Some (Waiters k)" for k
      using idl [of k] s1(3,6) by (cases "idle_thread s = t") simp_all
    show "task_ok ((tasks s1 t)\<lparr>status := TASK_READY\<rparr>)"
      by (rule task_okI_Ready [of _ First]) (simp_all add: s1(3))
  qed simp_all
  moreover have "queues ?v q = (if q = Ready First then t # queues s q else remove1 t (queues s q))" for q
    using s1(4) q0 nf [of First] by (simp add: remove1_idem)
  ultimately show ?thesis using s1 by (intro exI [of _ ?v]) simp
qed

text \<open>An update of one thread that neither moves it nor changes its status.\<close>

definition keeps_place :: "(task \<Rightarrow> task) \<Rightarrow> bool" where
  "keeps_place f \<longleftrightarrow> (\<forall>p. tag (f p) = tag p \<and> status (f p) = status p \<and> stack_magic (f p) = stack_magic p \<and>
     pgdir (f p) = pgdir p \<and> vaddr_bitmap (f p) = vaddr_bitmap p \<and> v2p (f p) = v2p p)"

lemma sched_wf_keeps:
  assumes "keeps_place f" "sched_wf s"
  shows "sched_wf (upd c f s)"
proof (rule sched_wf_upd)
  show "task_ok (f (tasks s c))"
    by (rule task_ok_same [of "tasks s c"]) (use assms in \<open>simp_all add: keeps_place_def sched_wf_def\<close>)
qed (use assms in \<open>auto simp: keeps_place_def sched_wf_def\<close>)

lemma sched_inv_keeps:
  assumes "keeps_place f" "sched_inv s"
  shows "sched_inv (upd c f s)"
  using sched_wf_keeps [OF assms(1)] assms by (auto simp: sched_inv_def keeps_place_def)

lemma preempt_ok:
  assumes "sched_inv s" "\<not> intr s"
  shows "\<exists>s'. schedule (upd (cur s) (\<lambda>p. p\<lparr>cont := Iret\<rparr>) s) = Inr s' \<and> blocks_to s s Iret s'"
proof -
  let ?s = "upd (cur s) (\<lambda>p. p\<lparr>cont := Iret\<rparr>) s"
  have "sched_inv ?s" by (rule sched_inv_keeps [OF _ assms(1)]) (simp add: keeps_place_def)
  then have wf: "sched_wf ?s" and r: "status (tasks ?s (cur ?s)) \<noteq> TASK_DIED" by (simp_all add: sched_inv_def)
  have "\<not> intr ?s" using assms(2) by simp
  then obtain s' where s': "schedule ?s = Inr s'" "sched_inv s'" "same_sync ?s s'" "cur s' = next_thread ?s"
    "intr s' = intr ?s" "waiters_same ?s s'"
    using schedule_ok [OF wf] r by blast
  moreover have "next_thread ?s = next_thread s" by (simp add: next_thread_def)
  ultimately show ?thesis using assms(2)
    by (intro exI [of _ s']) (auto simp: blocks_to_def same_sync_def waiters_same_def)
qed

text \<open>A tick only counts, or it preempts the thread.\<close>

definition ticked :: "sched \<Rightarrow> u32 \<Rightarrow> sched" where
  "ticked s n = (upd (cur s) (\<lambda>p. p\<lparr>elapsed_ticks := elapsed_ticks p + 1, ticks := n\<rparr>)
     (s\<lparr>intr := False, kticks := kticks s + 1\<rparr>))"

lemma sched_inv_kticks [simp]: "sched_inv (s\<lparr>kticks := n\<rparr>) = sched_inv s"
  by (simp add: sched_inv_def sched_wf_def links_def mem_ok_def)

lemma ticked_ok: "sched_inv s \<Longrightarrow> sched_inv (ticked s n) \<and> \<not> intr (ticked s n)"
  using sched_inv_keeps [of "\<lambda>p. p\<lparr>elapsed_ticks := elapsed_ticks p + 1, ticks := n\<rparr>"
      "s\<lparr>intr := False, kticks := kticks s + 1\<rparr>" "cur s"]
  by (simp add: ticked_def keeps_place_def)

lemma ticked_sel [simp]:
  "queues (ticked s n) = queues s" "cur (ticked s n) = cur s" "semas (ticked s n) = semas s"
  "locks (ticked s n) = locks s" "all_list (ticked s n) = all_list s" "idle_thread (ticked s n) = idle_thread s"
  "cont (tasks (ticked s n) t) = cont (tasks s t)" "priority (tasks (ticked s n) t) = priority (tasks s t)"
  by (simp_all add: ticked_def)

definition preempts :: "sched \<Rightarrow> bool" where
  "preempts s \<longleftrightarrow> (let p = tasks s (cur s) in ticks p = 0 \<or>
     (priority p = SECOND_PRIO \<and> queues s (Ready First) \<noteq> []) \<or>
     (priority p = THIRD_PRIO \<and> (queues s (Ready First) \<noteq> [] \<or> queues s (Ready Second) \<noteq> [])))"

lemma timer_cases:
  assumes inv: "sched_inv s"
  shows "intr_timer_handler s =
    (let s1 = ticked s (ticks (tasks s (cur s)) - 1)
     in if preempts s then schedule (upd (cur s) (\<lambda>p. p\<lparr>cont := Iret\<rparr>) s1)
        else Inr (s1\<lparr>intr := True\<rparr>))"
proof -
  have m: "stack_magic (tasks s (cur s)) = 0x20240825" using sched_invD [OF inv] by simp
  have uu: "upd c g (upd c f s) = upd c (\<lambda>p. g (f p)) s" for f g c and s :: sched by (simp add: upd_def)
  have prios: "FIRST_PRIO \<noteq> SECOND_PRIO" "FIRST_PRIO \<noteq> THIRD_PRIO" "SECOND_PRIO \<noteq> THIRD_PRIO"
    by (simp_all add: FIRST_PRIO_def SECOND_PRIO_def THIRD_PRIO_def)
  have kt: "(upd c f r)\<lparr>kticks := n\<rparr> = upd c f (r\<lparr>kticks := n\<rparr>)" for c f n and r :: sched by (simp add: upd_def)
  have tick: "upd (cur s) (\<lambda>p. p\<lparr>ticks := ticks p - 1\<rparr>)
      (upd (cur s) (\<lambda>p. p\<lparr>elapsed_ticks := elapsed_ticks p + 1\<rparr>) (s\<lparr>intr := False, kticks := kticks s + 1\<rparr>)) =
      ticked s (ticks (tasks s (cur s)) - 1)"
    "ticks (tasks s (cur s)) = 0 \<Longrightarrow> upd (cur s) (\<lambda>p. p\<lparr>ticks := -1\<rparr>)
      (upd (cur s) (\<lambda>p. p\<lparr>elapsed_ticks := elapsed_ticks p + 1\<rparr>) (s\<lparr>intr := False, kticks := kticks s + 1\<rparr>)) =
      ticked s (ticks (tasks s (cur s)) - 1)"
    unfolding uu by (simp_all add: ticked_def upd_def)
  show ?thesis
    unfolding intr_timer_handler_def Let_def preempts_def q_empty_def
    using m prios by (simp add: kt tick)
qed

lemma timer_ok:
  assumes inv: "sched_inv s"
  shows "\<exists>s'. intr_timer_handler s = Inr s' \<and> sched_inv s' \<and>
    (if preempts s then blocks_to s s Iret s'
     else s' = (ticked s (ticks (tasks s (cur s)) - 1))\<lparr>intr := True\<rparr>)"
proof (cases "preempts s")
  case True
  let ?s = "ticked s (ticks (tasks s (cur s)) - 1)"
  obtain s' where s': "schedule (upd (cur ?s) (\<lambda>p. p\<lparr>cont := Iret\<rparr>) ?s) = Inr s'" "blocks_to ?s ?s Iret s'"
    using preempt_ok ticked_ok [OF inv] by blast
  have "blocks_to s s Iret s'"
    using s'(2) by (simp add: blocks_to_def waiters_same_def next_thread_def)
  then show ?thesis using s'(1) True timer_cases [OF inv] by (simp add: blocks_to_def Let_def)
next
  case False
  then show ?thesis using timer_cases [OF inv] ticked_ok [OF inv] by (simp add: Let_def)
qed

subsection \<open>Which pages a dead process gives back\<close>

lemma scan_test_one:
  assumes "bitmap_scan_test b i = Inr 1"
  shows "i mod 8 = 0"
proof (rule ccontr)
  assume "i mod 8 \<noteq> 0"
  from assms obtain byte :: u8 where "ucast byte AND push_bit (i mod 8) 1 = (1 :: u32)"
    by (auto simp: bitmap_scan_test_def andthen_eq_Inr_iff Let_def)
  then have "bit (ucast byte AND push_bit (i mod 8) 1 :: u32) 0" by simp
  then show False using \<open>i mod 8 \<noteq> 0\<close> by (simp add: bit_simps)
qed

definition pool_index :: "(nat \<Rightarrow> nat) \<Rightarrow> nat \<Rightarrow> nat \<Rightarrow> nat" where
  "pool_index tab start v = nat ((int (tab v) - int start) mod 2 ^ 32) div PG_SIZE"

lemma bitmap_set_clear_Inr:
  assumes "bitmap_set b i 0 = Inr b'" and "bit_set b j" and "j div 8 < length (bits b)" and "j \<noteq> i"
  shows "bit_set b' j \<and> length (bits b') = length (bits b)"
proof -
  have "i div 8 < length (bits b)"
    using assms(1) by (auto simp: bitmap_set_def Let_def andthen_eq_Inr_iff rd_eq_Inr)
  from bitmap_set_clear [OF this] assms show ?thesis by auto
qed

lemma release_pages_keeps:
  "release_pages vbm tab start vaddr pool = Inr p \<Longrightarrow> bit_set pool j \<Longrightarrow> j div 8 < length (bits pool) \<Longrightarrow>
   (\<And>v. (v - USER_VADDR_START) div PG_SIZE mod 8 = 0 \<Longrightarrow> pool_index tab start v \<noteq> j) \<Longrightarrow> bit_set p j"
proof (induction vbm tab start vaddr pool rule: release_pages.induct)
  case (1 vbm tab start vaddr pool)
  show ?case
  proof (cases "vaddr < USER_STACK3_VADDR + PG_SIZE")
    case True
    from "1.prems"(1) True obtain u b where
      u: "bitmap_scan_test vbm ((vaddr - USER_VADDR_START) div PG_SIZE) = Inr u"
      and b: "(if u = 1
           then let phyaddr = tab vaddr
                in if phyaddr \<noteq> 0
                   then bitmap_set pool (nat ((int phyaddr - int start) mod 2 ^ 32) div PG_SIZE) 0
                   else Inr pool
           else Inr pool) = Inr b"
      and r: "release_pages vbm tab start (vaddr + 0x1000) b = Inr p"
      by (subst (asm) release_pages.simps) (simp only: if_True andthen_eq_Inr_iff, blast)
    have "bit_set b j \<and> length (bits b) = length (bits pool)"
    proof (cases "u = 1 \<and> tab vaddr \<noteq> 0")
      case True
      then have "(vaddr - USER_VADDR_START) div PG_SIZE mod 8 = 0" using u scan_test_one by simp
      then have "pool_index tab start vaddr \<noteq> j" by (rule "1.prems"(4))
      moreover have "bitmap_set pool (pool_index tab start vaddr) 0 = Inr b"
        using b True by (simp add: pool_index_def Let_def)
      ultimately show ?thesis using bitmap_set_clear_Inr "1.prems"(2,3) by blast
    next
      case False
      then have "b = pool" using b by (auto simp: Let_def split: if_splits)
      then show ?thesis using "1.prems"(2) by simp
    qed
    then have bj: "bit_set b j" "j div 8 < length (bits b)" using "1.prems"(3) by auto
    show ?thesis by (rule "1.IH" [OF True u b r bj "1.prems"(4)])
  next
    case False
    then have "p = pool" using "1.prems"(1) by (subst (asm) release_pages.simps) simp
    then show ?thesis using "1.prems"(2) by simp
  qed
qed

section \<open>Properties\<close>

definition sample_task :: task where
  "sample_task = \<lparr>pid = 0, parent_pid = 0, status = TASK_DIED, priority = 10, ticks = 3, elapsed_ticks = 0,
     pgdir = False, vaddr_bitmap = \<lparr>bits = [], btmp_bytes_len = 0\<rparr>, v2p = (\<lambda>_. 0),
     stack_magic = 0x20240825, tag = None, cont = Running\<rparr>"

text \<open>Thread 0 runs, thread 1 is the idle thread, thread 2 waits in the second level.\<close>

definition sample_sched :: sched where
  "sample_sched = \<lparr>
     tasks = (\<lambda>_. sample_task)
       (0 := sample_task\<lparr>status := TASK_RUNNING\<rparr>,
        1 := sample_task\<lparr>status := TASK_READY, tag := Some (Ready Third)\<rparr>,
        2 := sample_task\<lparr>status := TASK_READY, tag := Some (Ready Second)\<rparr>),
     queues = (\<lambda>_. [])(Ready Third := [1], Ready Second := [2]),
     all_list = [0, 1, 2], cur = 0, idle_thread = 1, next_pid = 3, intr = False, kticks = 0,
     active_dir = None, esp0 = None, user_pool = \<lparr>bits = [], btmp_bytes_len = 0\<rparr>, user_pool_start = 0,
     semas = (\<lambda>_. 1), locks = (\<lambda>_. \<lparr>holder = None, holder_repeat_nr = 0\<rparr>)\<rparr>"

lemma sample_sched_inv: "sched_inv sample_sched"
  by (auto simp: sched_inv_def sched_wf_def links_def mem_ok_def task_ok_def sample_sched_def sample_task_def)

text \<open>C1: \<^verbatim>\<open>schedule\<close> always finds a thread to run and keeps every queue and status
  consistent: the next thread is the first one of the highest level that is not empty, and the idle
  thread when all three levels are empty.\<close>

theorem schedule_runs_highest:
  assumes "sched_inv s" and "\<not> intr s"
  shows "\<exists>s'. schedule s = Inr s' \<and> sched_inv s' \<and>
    (\<forall>lv. queues s (Ready lv) \<noteq> [] \<and> (\<forall>m. m < lv \<longrightarrow> queues s (Ready m) = []) \<longrightarrow>
       cur s' = hd (queues s (Ready lv))) \<and>
    ((\<forall>lv. queues s (Ready lv) = []) \<longrightarrow> cur s' = idle_thread s)"
proof -
  have wf: "sched_wf s" and nd: "status (tasks s (cur s)) \<noteq> TASK_DIED"
    using assms(1) by (simp_all add: sched_inv_def)
  obtain s' where s': "schedule s = Inr s'" "sched_inv s'" "cur s' = next_thread s"
    using schedule_ok [OF wf assms(2)] nd by blast
  have "next_thread s = hd (queues s (Ready lv))"
    if "queues s (Ready lv) \<noteq> []" "\<And>m. m < lv \<Longrightarrow> queues s (Ready m) = []" for lv
    using that(1) that(2) [of First] that(2) [of Second]
    by (cases lv) (simp_all add: next_thread_def less_level_def)
  then show ?thesis using s' by (auto simp: next_thread_def)
qed

theorem schedule_runs_highest_witness:
  "\<exists>s'. schedule sample_sched = Inr s' \<and> sched_inv s' \<and> cur s' = 2"
proof -
  have i: "\<not> intr sample_sched" by (simp add: sample_sched_def)
  have q: "queues sample_sched (Ready Second) = [2]" "queues sample_sched (Ready First) = []"
    by (simp_all add: sample_sched_def)
  have "queues sample_sched (Ready m) = []" if "m < Second" for m
    using that q(2) by (cases m) (simp_all add: less_level_def)
  moreover obtain s' where s': "schedule sample_sched = Inr s'" "sched_inv s'"
    "\<forall>lv. queues sample_sched (Ready lv) \<noteq> [] \<and> (\<forall>m. m < lv \<longrightarrow> queues sample_sched (Ready m) = []) \<longrightarrow>
       cur s' = hd (queues sample_sched (Ready lv))"
    using schedule_runs_highest [OF sample_sched_inv i] by blast
  ultimately have "cur s' = hd (queues sample_sched (Ready Second))"
    using s'(3) [rule_format, of Second] q(1) by simp
  with s' q(1) show ?thesis by simp
qed

text \<open>C3: the timer interrupt never breaks the scheduler's state and never faults; it
  takes the processor away exactly when the time slice is used up or a higher level has a ready
  thread, and otherwise returns with interrupts on.\<close>

theorem timer_keeps_invariant:
  assumes "sched_inv s"
  shows "\<exists>s'. intr_timer_handler s = Inr s' \<and> sched_inv s' \<and>
    (if preempts s then cur s' = next_thread s \<and> cont (tasks s' (cur s)) = Iret
     else cur s' = cur s \<and> intr s')"
  using timer_ok [OF assms] by (auto simp: blocks_to_def)

theorem timer_keeps_invariant_witness:
  "\<exists>s'. intr_timer_handler sample_sched = Inr s' \<and> sched_inv s' \<and> cur s' = 2"
proof -
  have "preempts sample_sched"
    by (simp add: preempts_def sample_sched_def sample_task_def THIRD_PRIO_def)
  moreover have "next_thread sample_sched = 2" by (simp add: next_thread_def sample_sched_def)
  ultimately show ?thesis using timer_keeps_invariant [OF sample_sched_inv] by auto
qed

text \<open>C35: when a process dies, \<^verbatim>\<open>schedule\<close> returns to the user pool only pages
  whose index in the address space is a multiple of 8: the test compares the masked byte with 1.
  Every other page of the process stays allocated.\<close>

theorem release_pages_leaks:
  assumes "release_pages vbm tab start vaddr pool = Inr p"
    and "bit_set pool j" and "j div 8 < length (bits pool)"
    and "\<And>v. (v - USER_VADDR_START) div PG_SIZE mod 8 = 0 \<Longrightarrow> pool_index tab start v \<noteq> j"
  shows "bit_set p j"
  using assms by (rule release_pages_keeps)

text \<open>A process whose only page is the one of index 1 keeps it.\<close>

theorem release_pages_leaks_witness:
  "\<exists>p. release_pages \<lparr>bits = 2 # replicate 94198 0, btmp_bytes_len = 94199\<rparr>
      (\<lambda>v. if v = 0x8049000 then 0x1000 else 0) 0 USER_VADDR_START \<lparr>bits = [2], btmp_bytes_len = 1\<rparr> = Inr p \<and>
    bit_set p 1"
proof -
  let ?t = "\<lambda>v::nat. if v = 0x8049000 then 0x1000 else 0 :: nat"
  let ?p = "\<lparr>bits = [2], btmp_bytes_len = 1\<rparr> :: bitmap"
  let ?v = "\<lparr>bits = 2 # replicate 94198 0, btmp_bytes_len = 94199\<rparr> :: bitmap"
  have l: "94199 \<le> length (bits ?v)" by (simp only: bitmap.simps length_Cons length_replicate)
  have m: "nat ((int (?t v) - int 0) mod 2 ^ 32) div PG_SIZE div 8 < length (bits ?p)" if "?t v \<noteq> 0" for v
    using that by (simp add: PG_SIZE_def split: if_splits)
  have "\<exists>p. release_pages ?v ?t 0 USER_VADDR_START ?p = Inr p \<and> length (bits p) = length (bits ?p)"
    by (rule release_pages_total [OF l order.refl]) (rule m)
  then obtain p where p: "release_pages ?v ?t 0 USER_VADDR_START ?p = Inr p" by (elim exE conjE)
  have "bit_set p 1"
  proof (rule release_pages_leaks [OF p])
    show "bit_set ?p 1" "1 div 8 < length (bits ?p)" by (simp_all add: bit_set_def)
    show "pool_index ?t 0 v \<noteq> 1" if "(v - USER_VADDR_START) div PG_SIZE mod 8 = 0" for v
      using that by (auto simp: pool_index_def PG_SIZE_def USER_VADDR_START_def)
  qed
  with p show ?thesis by blast
qed

end
