(* ===== verification/Sync.thy ===== *)
theory Sync
  imports Sched
begin

text \<open>
  \<^verbatim>\<open>kernel/thread/sync.c\<close>, semaphores and locks, and the rest of
  \<^verbatim>\<open>kernel/thread/thread.c\<close>: creating, waiting for and ending threads.

  The loop of \<^verbatim>\<open>sema_down\<close> tests the value, queues the thread and blocks; the test is
  repeated when the thread runs again.  One pass is \<open>down_then\<close>: it either takes the semaphore
  and goes on with what follows the loop, or switches to another thread and leaves the loop
  pending as the thread's \<open>cont\<close>.
\<close>

section \<open>Semaphores and locks\<close>

definition sema_init :: "sema_id \<Rightarrow> u8 \<Rightarrow> sched \<Rightarrow> sched" where
  "sema_init k v s = s\<lparr>semas := (semas s)(k := v), queues := (queues s)(Waiters k := [])\<rparr>"

definition lock_init :: "nat \<Rightarrow> sched \<Rightarrow> sched" where
  "lock_init l s = sema_init (Lock_sema l) 1
     (s\<lparr>locks := (locks s)(l := \<lparr>holder = None, holder_repeat_nr = 0\<rparr>)\<rparr>)"

definition down_then :: "cont \<Rightarrow> sema_id \<Rightarrow> (sched \<Rightarrow> sched cres) \<Rightarrow> sched \<Rightarrow> sched cres" where
  "down_then kont k rest s =
     (if semas s k = 0
      then
        let c = cur s
        in andthen
             (if \<not> in_queue (Waiters k) c s then tag_append (Waiters k) c (tag_remove c s) else Inr s)
             (block_as kont TASK_BLOCKED)
      else rest (s\<lparr>semas := (semas s)(k := semas s k - 1)\<rparr>))"

definition intr_set_status :: "bool \<Rightarrow> sched \<Rightarrow> sched cres" where
  "intr_set_status b s = Inr (s\<lparr>intr := b\<rparr>)"

definition sema_down :: "sema_id \<Rightarrow> sched \<Rightarrow> sched cres" where
  "sema_down k s =
     (let old_status = intr s
      in down_then (Down k old_status) k (intr_set_status old_status) (s\<lparr>intr := False\<rparr>))"

definition sema_up :: "sema_id \<Rightarrow> sched \<Rightarrow> sched cres" where
  "sema_up k s =
     (let old_status = intr s; s = s\<lparr>intr := False\<rparr>
      in andthen
           (if \<not> q_empty (Waiters k) s
            then andthen (tag_pop (Waiters k) s) (\<lambda>(t, s). thread_unblock t s)
            else Inr s) (\<lambda>s.
         intr_set_status old_status (s\<lparr>semas := (semas s)(k := semas s k + 1)\<rparr>)))"

text \<open>What \<^verbatim>\<open>lock_acquire\<close> does once it has the semaphore.\<close>

definition take_lock :: "nat \<Rightarrow> bool \<Rightarrow> sched \<Rightarrow> sched cres" where
  "take_lock l old_status s =
     andthen (assert_c (holder_repeat_nr (locks s l) = 0)) (\<lambda>_.
     intr_set_status old_status
       (s\<lparr>locks := (locks s)(l := \<lparr>holder = Some (cur s), holder_repeat_nr = 1\<rparr>)\<rparr>))"

definition lock_acquire :: "nat \<Rightarrow> sched \<Rightarrow> sched cres" where
  "lock_acquire l s =
     (let old_status = intr s; s = s\<lparr>intr := False\<rparr>
      in if holder (locks s l) \<noteq> Some (cur s)
         then down_then (Acquire l old_status) (Lock_sema l) (take_lock l old_status) s
         else intr_set_status old_status
                (s\<lparr>locks := (locks s)(l := (locks s l)
                     \<lparr>holder_repeat_nr := holder_repeat_nr (locks s l) + 1\<rparr>)\<rparr>))"

text \<open>The early return of a nested release leaves interrupts off.\<close>

definition lock_release :: "nat \<Rightarrow> sched \<Rightarrow> sched cres" where
  "lock_release l s =
     (let old_status = intr s; s = s\<lparr>intr := False\<rparr>
      in andthen (assert_c (holder (locks s l) = Some (cur s))) (\<lambda>_.
         if holder_repeat_nr (locks s l) > 1
         then Inr (s\<lparr>locks := (locks s)(l := (locks s l)
                \<lparr>holder_repeat_nr := holder_repeat_nr (locks s l) - 1\<rparr>)\<rparr>)
         else
           andthen (assert_c (holder_repeat_nr (locks s l) = 1)) (\<lambda>_.
           andthen (sema_up (Lock_sema l)
             (s\<lparr>locks := (locks s)(l := \<lparr>holder = None, holder_repeat_nr = 0\<rparr>)\<rparr>))
             (intr_set_status old_status))))"

section \<open>Running on after a switch\<close>

definition resume :: "sched \<Rightarrow> sched cres" where
  "resume s =
     (let k = cont (tasks s (cur s)); s = upd (cur s) (\<lambda>p. p\<lparr>cont := Running\<rparr>) s
      in case k of
           Running \<Rightarrow> Inr s
         | Start \<Rightarrow> intr_set_status True s
         | Iret \<Rightarrow> intr_set_status True s
         | Restore b \<Rightarrow> intr_set_status b s
         | Down k b \<Rightarrow> down_then (Down k b) k (intr_set_status b) s
         | Acquire l b \<Rightarrow> down_then (Acquire l b) (Lock_sema l) (take_lock l b) s)"

section \<open>The life of a thread\<close>

text \<open>\<^verbatim>\<open>next_pid\<close> is an \<^verbatim>\<open>int16_t\<close>.  Every caller runs with interrupts off, so
  \<^verbatim>\<open>pid_lock\<close> is always free and taking it has no effect that stays.\<close>

definition allocate_pid :: "sched \<Rightarrow> int \<times> sched" where
  "allocate_pid s =
     (let n = sint (word_of_int (next_pid s + 1) :: 16 word) in (n, s\<lparr>next_pid := n\<rparr>))"

definition init_thread :: "nat \<Rightarrow> bool \<Rightarrow> nat \<Rightarrow> sched \<Rightarrow> sched" where
  "init_thread t is_main prio s =
     (let (n, s) = allocate_pid s;
          p = \<lparr>pid = n, parent_pid = pid (tasks s (cur s)),
               status = (if is_main then TASK_RUNNING else TASK_READY),
               priority = prio mod 256, ticks = of_nat prio, elapsed_ticks = 0, pgdir = False,
               vaddr_bitmap = \<lparr>bits = [], btmp_bytes_len = 0\<rparr>, v2p = (\<lambda>_. 0),
               stack_magic = 0x20240825, tag = None, cont = (if is_main then Running else Start)\<rparr>
      in sema_init (Wait_sema t) 0 (s\<lparr>tasks := (tasks s)(t := p)\<rparr>))"

definition thread_start :: "nat \<Rightarrow> nat \<Rightarrow> sched \<Rightarrow> sched cres" where
  "thread_start t prio s =
     (let old_status = intr s; s = init_thread t False prio (s\<lparr>intr := False\<rparr>)
      in andthen (assert_c (t \<notin> set (all_list s))) (\<lambda>_.
         let s = s\<lparr>all_list := all_list s @ [t]\<rparr>
         in andthen
              (if prio = FIRST_PRIO then assert_append (Ready First) t s
               else if prio = SECOND_PRIO then assert_append (Ready Second) t s
               else assert_append (Ready Third) t s)
              (intr_set_status old_status)))"

definition thread_wait :: "sched \<Rightarrow> sched cres" where
  "thread_wait s = sema_down (Wait_sema (cur s)) s"

fun wake_parents :: "int \<Rightarrow> nat list \<Rightarrow> sched \<Rightarrow> sched cres" where
  "wake_parents ppid [] s = Inr s"
| "wake_parents ppid (t # ts) s =
     andthen (if pid (tasks s t) = ppid then sema_up (Wait_sema t) s else Inr s) (wake_parents ppid ts)"

definition thread_exit :: "sched \<Rightarrow> sched cres" where
  "thread_exit s =
     (let c = cur s; s = tag_remove c (s\<lparr>intr := False\<rparr>);
          s = upd c (\<lambda>p. p\<lparr>status := TASK_DIED\<rparr>) s
      in andthen
           (if parent_pid (tasks s c) \<noteq> -1
            then wake_parents (parent_pid (tasks s c)) (all_list s) s else Inr s)
           schedule)"

text \<open>One round of \<^verbatim>\<open>thread_cleaner\<close> over the list of all threads, as far as the
  scheduler sees it: dead threads leave every list.\<close>

fun clean_threads :: "nat list \<Rightarrow> sched \<Rightarrow> sched" where
  "clean_threads [] s = s"
| "clean_threads (t # ts) s =
     clean_threads ts
       (if status (tasks s t) = TASK_DIED
        then tag_remove t (s\<lparr>all_list := remove1 t (all_list s)\<rparr>) else s)"

section \<open>The system\<close>

text \<open>
  One step of the running thread: it goes on after a switch, is interrupted by the timer, or makes
  one of the calls.  The idle thread only blocks itself.
\<close>

inductive step :: "sched \<Rightarrow> sched \<Rightarrow> bool" where
  step_resume: "resume s = Inr s' \<Longrightarrow> step s s'"
| step_timer: "cont (tasks s (cur s)) = Running \<Longrightarrow> intr s \<Longrightarrow> intr_timer_handler s = Inr s' \<Longrightarrow> step s s'"
| step_block: "cont (tasks s (cur s)) = Running \<Longrightarrow> stat \<in> {TASK_BLOCKED, TASK_WAITING, TASK_HANGING} \<Longrightarrow>
    thread_block stat s = Inr s' \<Longrightarrow> step s s'"
| step_unblock: "cont (tasks s (cur s)) = Running \<Longrightarrow>
    status (tasks s t) \<in> {TASK_BLOCKED, TASK_WAITING, TASK_HANGING} \<Longrightarrow> thread_unblock t s = Inr s' \<Longrightarrow> step s s'"
| step_yield: "cont (tasks s (cur s)) = Running \<Longrightarrow> thread_yield s = Inr s' \<Longrightarrow> step s s'"
| step_acquire: "cont (tasks s (cur s)) = Running \<Longrightarrow> cur s \<noteq> idle_thread s \<Longrightarrow>
    lock_acquire l s = Inr s' \<Longrightarrow> step s s'"
| step_release: "cont (tasks s (cur s)) = Running \<Longrightarrow> holder (locks s l) = Some (cur s) \<Longrightarrow>
    lock_release l s = Inr s' \<Longrightarrow> step s s'"
| step_wait: "cont (tasks s (cur s)) = Running \<Longrightarrow> cur s \<noteq> idle_thread s \<Longrightarrow> thread_wait s = Inr s' \<Longrightarrow> step s s'"
| step_exit: "cont (tasks s (cur s)) = Running \<Longrightarrow> cur s \<noteq> idle_thread s \<Longrightarrow> thread_exit s = Inr s' \<Longrightarrow> step s s'"

text \<open>A lock is free with its semaphore at 1, or held, with the semaphore at 0.\<close>

definition lock_ok :: "u8 \<Rightarrow> lock_state \<Rightarrow> bool" where
  "lock_ok v l \<longleftrightarrow> (case holder l of
       None \<Rightarrow> v = 1 \<and> holder_repeat_nr l = 0
     | Some _ \<Rightarrow> v = 0 \<and> 0 < holder_repeat_nr l)"

definition waits :: "cont \<Rightarrow> bool" where
  "waits k \<longleftrightarrow> (case k of Down _ _ \<Rightarrow> True | Acquire _ _ \<Rightarrow> True | _ \<Rightarrow> False)"

definition sys_inv :: "sched \<Rightarrow> bool" where
  "sys_inv s \<longleftrightarrow> sched_inv s \<and> (\<forall>l. lock_ok (semas s (Lock_sema l)) (locks s l)) \<and>
     \<not> waits (cont (tasks s (idle_thread s))) \<and>
     (\<forall>t l b. cont (tasks s t) \<noteq> Down (Lock_sema l) b)"

section \<open>What the operations do\<close>

text \<open>The lock table changes only as a free lock taken by the caller or by its holder.\<close>

definition own_ok :: "sched \<Rightarrow> sched \<Rightarrow> bool" where
  "own_ok s s' \<longleftrightarrow> (\<forall>l t. holder (locks s l) = Some t \<longrightarrow>
     holder (locks s' l) = Some t \<or> (t = cur s \<and> holder (locks s' l) = None))"

definition good_step :: "sched \<Rightarrow> sched \<Rightarrow> bool" where
  "good_step s s' \<longleftrightarrow> sys_inv s' \<and> own_ok s s'"

lemma own_ok_same [simp]: "locks s' = locks s \<Longrightarrow> own_ok s s'"
  by (simp add: own_ok_def)

lemma sched_inv_semas [simp]: "sched_inv (s\<lparr>semas := v\<rparr>) = sched_inv s"
  "sched_wf (s\<lparr>semas := v\<rparr>) = sched_wf s"
  by (simp_all add: sched_inv_def sched_wf_def links_def mem_ok_def)

lemma sched_inv_locks [simp]: "sched_inv (s\<lparr>locks := v\<rparr>) = sched_inv s"
  "sched_wf (s\<lparr>locks := v\<rparr>) = sched_wf s"
  by (simp_all add: sched_inv_def sched_wf_def links_def mem_ok_def)

lemma sys_inv_intr [simp]: "sys_inv (s\<lparr>intr := b\<rparr>) = sys_inv s"
  by (simp add: sys_inv_def)

text \<open>Switching away leaves the locks and semaphores alone.\<close>

lemma sys_inv_blocks:
  assumes "sys_inv s" and "blocks_to s1 s k s'" and "waits k \<Longrightarrow> cur s \<noteq> idle_thread s"
    and "\<And>l b. k \<noteq> Down (Lock_sema l) b"
  shows "good_step s s'"
  using assms by (auto simp: good_step_def sys_inv_def blocks_to_def)

lemma down_blocks:
  assumes inv: "sched_inv s" and z: "semas s k = 0" and ni: "cur s \<noteq> idle_thread s"
  shows "\<exists>s' s1. down_then kont k rest s = Inr s' \<and> blocks_to s1 s1 kont s' \<and>
    semas s1 = semas s \<and> locks s1 = locks s \<and> all_list s1 = all_list s \<and> idle_thread s1 = idle_thread s \<and>
    cur s1 = cur s \<and> (\<forall>t. cont (tasks s1 t) = cont (tasks s t)) \<and>
    queues s1 = (queues s)(Waiters k := queues s (Waiters k) @ [cur s])"
proof -
  note i = sched_invD [OF inv]
  have tr: "tag_remove (cur s) s = s" using i(5) by (simp add: tag_remove_def)
  have nq: "\<not> in_queue (Waiters k) (cur s) s" using in_queue_tag [OF i(2)] i(5) by simp
  obtain s1 where s1: "tag_append (Waiters k) (cur s) s = Inr s1" "links s1"
    "tasks s1 = (tasks s)(cur s := (tasks s (cur s))\<lparr>tag := Some (Waiters k)\<rparr>)"
    "queues s1 = (queues s)(Waiters k := queues s (Waiters k) @ [cur s])"
    "cur s1 = cur s" "idle_thread s1 = idle_thread s" "intr s1 = intr s"
    "user_pool s1 = user_pool s" "user_pool_start s1 = user_pool_start s"
    "semas s1 = semas s" "locks s1 = locks s" "all_list s1 = all_list s"
    by (rule tag_append_ok [OF i(5) i(2), of "Waiters k"])
  have m1: "mem_ok s1" by (rule mem_ok_cong [OF i(3)]) (use s1 in auto)
  have "\<exists>s'. block_as kont TASK_BLOCKED s1 = Inr s' \<and> blocks_to s1 s1 kont s'"
  proof (rule block_as_ok [OF s1(2) m1])
    show "task_ok (tasks s1 t)" if "t \<noteq> cur s1" for t using that s1(3,5) i(4) by simp
    show "t = cur s1" if "status (tasks s1 t) = TASK_RUNNING" for t
      using that s1(3,5) i(6) [of t] by (cases "t = cur s") simp_all
    show "tag (tasks s1 (idle_thread s1)) \<noteq> Some (Waiters j)" for j
      using i(7) [of j] s1(3,6) ni by simp
    show "tag (tasks s1 (cur s1)) = None \<or>
        TASK_BLOCKED = TASK_BLOCKED \<and> (\<exists>k. tag (tasks s1 (cur s1)) = Some (Waiters k))"
      using s1(3,5) by simp
  qed simp
  then obtain s' where s': "block_as kont TASK_BLOCKED s1 = Inr s'" "blocks_to s1 s1 kont s'" by blast
  have "down_then kont k rest s = Inr s'"
    using z nq tr s1(1) s'(1) by (simp add: down_then_def Let_def)
  moreover have "cont (tasks s1 t) = cont (tasks s t)" for t using s1(3) by simp
  ultimately show ?thesis using s'(2) s1(4-6,10-12) by blast
qed

lemma down_waits:
  assumes inv: "sys_inv s" and z: "semas s k = 0" and ni: "cur s \<noteq> idle_thread s"
    and nl: "\<And>l b. kont \<noteq> Down (Lock_sema l) b"
  shows "\<exists>s'. down_then kont k rest s = Inr s' \<and> good_step s s'"
proof -
  have si: "sched_inv s" using inv by (simp add: sys_inv_def)
  obtain s' s1 where s': "down_then kont k rest s = Inr s'" "blocks_to s1 s1 kont s'"
    "semas s1 = semas s" "locks s1 = locks s" "idle_thread s1 = idle_thread s"
    "cur s1 = cur s" "\<forall>t. cont (tasks s1 t) = cont (tasks s t)"
    using down_blocks [OF si z ni] by blast
  have "sys_inv s'"
    using inv s'(2-) ni nl by (auto simp: sys_inv_def blocks_to_def)
  moreover have "own_ok s s'" using s'(2,4) by (simp add: blocks_to_def)
  ultimately show ?thesis using s'(1) by (auto simp: good_step_def)
qed

lemma sema_up_wf:
  assumes wf: "sched_wf s"
  shows "\<exists>s'. sema_up k s = Inr s' \<and> sched_wf s' \<and> cur s' = cur s \<and> intr s' = intr s \<and>
    semas s' = (semas s)(k := semas s k + 1) \<and> locks s' = locks s \<and> all_list s' = all_list s \<and>
    idle_thread s' = idle_thread s \<and> (\<forall>u. cont (tasks s' u) = cont (tasks s u)) \<and>
    (\<forall>u. status (tasks s u) \<noteq> TASK_BLOCKED \<longrightarrow> tasks s' u = tasks s u)"
proof (cases "queues s (Waiters k)")
  case Nil
  then show ?thesis using wf
    by (intro exI [of _ "s\<lparr>semas := (semas s)(k := semas s k + 1)\<rparr>"])
       (simp add: sema_up_def q_empty_def Let_def intr_set_status_def)
next
  case (Cons t ts)
  let ?i = "s\<lparr>intr := False\<rparr>" and ?r = "tag_remove t (s\<lparr>intr := False\<rparr>)"
  have l: "links s" and ok: "\<And>u. task_ok (tasks s u)" using wf by (simp_all add: sched_wf_def)
  have tt: "tag (tasks s t) = Some (Waiters k)" using l Cons unfolding links_def by (metis list.set_intros(1))
  have tb: "status (tasks s t) = TASK_BLOCKED" using ok [of t] tt by (simp add: task_ok_def)
  have li: "links ?i" using l by (simp add: links_def)
  have "mem_ok ?r" by (rule mem_ok_cong [of s]) (use wf in \<open>auto simp: sched_wf_def\<close>)
  moreover have "task_ok (tasks ?r u)" for u
    using ok [of u] tb by (cases "u = t") (simp_all add: task_okI_None)
  moreover have "status (tasks ?r u) = TASK_RUNNING \<longrightarrow> u = cur ?r" for u
    using wf tb by (cases "u = t") (simp_all add: sched_wf_def)
  moreover have "tag (tasks ?r (idle_thread ?r)) \<noteq> Some (Waiters j)" for j
    using wf by (cases "idle_thread s = t") (simp_all add: sched_wf_def)
  ultimately have wr: "sched_wf ?r" using links_tag_remove [OF li] unfolding sched_wf_def by blast
  have st: "status (tasks ?r t) \<in> {TASK_BLOCKED, TASK_WAITING, TASK_HANGING}" using tb by simp
  obtain s1 where s1: "thread_unblock t ?r = Inr s1" "sched_wf s1" "cur s1 = cur s" "intr s1 = False"
    "semas s1 = semas s" "locks s1 = locks s" "all_list s1 = all_list s" "idle_thread s1 = idle_thread s"
    "\<forall>u. cont (tasks s1 u) = cont (tasks ?r u)" "\<forall>u. u \<noteq> t \<longrightarrow> tasks s1 u = tasks ?r u"
    using thread_unblock_wf [OF wr st] by auto
  let ?v = "s1\<lparr>semas := (semas s1)(k := semas s1 k + 1), intr := intr s\<rparr>"
  have "tag_pop (Waiters k) ?i = Inr (t, ?r)" using Cons by (simp add: tag_pop_def)
  then have "sema_up k s = Inr ?v"
    using Cons s1(1) by (simp add: sema_up_def q_empty_def Let_def intr_set_status_def)
  moreover have "sched_wf ?v" using s1(2) by simp
  moreover have "cont (tasks s1 u) = cont (tasks s u)" for u using s1(9) by simp
  moreover have "tasks s1 u = tasks s u" if "status (tasks s u) \<noteq> TASK_BLOCKED" for u
    using that tb s1(10) by (cases "u = t") simp_all
  ultimately show ?thesis using s1 by (intro exI [of _ ?v]) simp
qed

section \<open>Every operation succeeds and keeps the system's invariant\<close>

lemma sys_invD:
  assumes "sys_inv s"
  shows "sched_inv s" "lock_ok (semas s (Lock_sema l)) (locks s l)" "\<not> waits (cont (tasks s (idle_thread s)))"
    "cont (tasks s t) \<noteq> Down (Lock_sema l) b" "sched_wf s" "status (tasks s (cur s)) = TASK_RUNNING"
  using assms by (simp_all add: sys_inv_def sched_inv_def)

lemma good_upd_cont:
  assumes "sys_inv s"
  shows "sys_inv (upd (cur s) (\<lambda>p. p\<lparr>cont := Running\<rparr>) s)"
proof -
  have "sched_inv (upd (cur s) (\<lambda>p. p\<lparr>cont := Running\<rparr>) s)"
    by (rule sched_inv_keeps) (use assms in \<open>simp_all add: sys_inv_def keeps_place_def\<close>)
  then show ?thesis using assms by (simp add: sys_inv_def waits_def)
qed

lemma take_wait_sema:
  assumes inv: "sys_inv s" and k: "\<And>l. k \<noteq> Lock_sema l"
  shows "\<exists>s'. intr_set_status b (s\<lparr>semas := (semas s)(k := semas s k - 1)\<rparr>) = Inr s' \<and> good_step s s'"
proof -
  have "(semas (s\<lparr>semas := (semas s)(k := v)\<rparr>)) (Lock_sema l) = semas s (Lock_sema l)" for l v
    using k [of l] by auto
  then have "good_step s (s\<lparr>semas := (semas s)(k := semas s k - 1), intr := b\<rparr>)"
    using inv by (simp add: good_step_def sys_inv_def)
  then show ?thesis by (simp add: intr_set_status_def)
qed

lemma down_wait_sema_ok:
  assumes inv: "sys_inv s" and ni: "cur s \<noteq> idle_thread s" and k: "\<And>l. k \<noteq> Lock_sema l"
  shows "\<exists>s'. down_then (Down k b) k (intr_set_status b) s = Inr s' \<and> good_step s s'"
proof (cases "semas s k = 0")
  case True
  show ?thesis by (rule down_waits [OF inv True ni]) (use k in auto)
next
  case False
  then show ?thesis using take_wait_sema [OF inv k] by (simp add: down_then_def)
qed

lemma down_lock_ok:
  assumes inv: "sys_inv s" and ni: "cur s \<noteq> idle_thread s"
  shows "\<exists>s'. down_then (Acquire l b) (Lock_sema l) (take_lock l b) s = Inr s' \<and> good_step s s'"
proof (cases "semas s (Lock_sema l) = 0")
  case True
  show ?thesis by (rule down_waits [OF inv True ni]) auto
next
  case False
  have ok: "lock_ok (semas s (Lock_sema l)) (locks s l)" using sys_invD(2) [OF inv] .
  with False have free: "holder (locks s l) = None" "holder_repeat_nr (locks s l) = 0" "semas s (Lock_sema l) = 1"
    by (auto simp: lock_ok_def split: option.splits)
  let ?v = "s\<lparr>semas := (semas s)(Lock_sema l := 0),
      locks := (locks s)(l := \<lparr>holder = Some (cur s), holder_repeat_nr = 1\<rparr>), intr := b\<rparr>"
  have "down_then (Acquire l b) (Lock_sema l) (take_lock l b) s = Inr ?v"
    using free by (simp add: down_then_def take_lock_def intr_set_status_def)
  moreover have "good_step s ?v"
    using inv free by (auto simp: good_step_def sys_inv_def lock_ok_def own_ok_def)
  ultimately show ?thesis by blast
qed

lemma good_step_intr: "good_step (s\<lparr>intr := b\<rparr>) s' = good_step s s'"
  by (simp add: good_step_def own_ok_def)

lemma lock_acquire_ok:
  assumes inv: "sys_inv s" and ni: "cur s \<noteq> idle_thread s"
  shows "\<exists>s'. lock_acquire l s = Inr s' \<and> good_step s s'"
proof (cases "holder (locks s l) = Some (cur s)")
  case True
  have ok: "lock_ok (semas s (Lock_sema l)) (locks s l)" using sys_invD(2) [OF inv] .
  let ?v = "s\<lparr>locks := (locks s)(l := (locks s l)\<lparr>holder_repeat_nr := holder_repeat_nr (locks s l) + 1\<rparr>)\<rparr>"
  have "lock_acquire l s = Inr ?v"
    using True by (simp add: lock_acquire_def intr_set_status_def Let_def)
  moreover have "lock_ok (semas s (Lock_sema m)) (locks ?v m)" for m
    using sys_invD(2) [OF inv, of m] ok True by (cases "m = l") (simp_all add: lock_ok_def)
  then have "sys_inv ?v" using inv by (simp add: sys_inv_def)
  then have "good_step s ?v" by (simp add: good_step_def own_ok_def)
  ultimately show ?thesis by blast
next
  case False
  have i: "sys_inv (s\<lparr>intr := False\<rparr>)" "cur (s\<lparr>intr := False\<rparr>) \<noteq> idle_thread (s\<lparr>intr := False\<rparr>)"
    using inv ni by simp_all
  show ?thesis using down_lock_ok [OF i, of l "intr s"] False
    by (simp add: lock_acquire_def Let_def good_step_intr)
qed

lemma lock_release_ok:
  assumes inv: "sys_inv s" and h: "holder (locks s l) = Some (cur s)"
  shows "\<exists>s'. lock_release l s = Inr s' \<and> good_step s s' \<and> cur s' = cur s \<and>
    (if holder_repeat_nr (locks s l) > 1
     then locks s' l = \<lparr>holder = Some (cur s), holder_repeat_nr = holder_repeat_nr (locks s l) - 1\<rparr> \<and> \<not> intr s'
     else holder (locks s' l) = None \<and> intr s' = intr s)"
proof (cases "holder_repeat_nr (locks s l) > 1")
  case True
  have ok: "lock_ok (semas s (Lock_sema l)) (locks s l)" using sys_invD(2) [OF inv] .
  let ?v = "s\<lparr>intr := False, locks := (locks s)(l := (locks s l)\<lparr>holder_repeat_nr := holder_repeat_nr (locks s l) - 1\<rparr>)\<rparr>"
  have "lock_release l s = Inr ?v"
    using True h by (simp add: lock_release_def Let_def)
  moreover have "sys_inv ?v"
    using inv ok True h by (auto simp: sys_inv_def lock_ok_def)
  then have "good_step s ?v" using h by (auto simp: good_step_def own_ok_def)
  ultimately show ?thesis using True h by (intro exI [of _ ?v]) simp
next
  case False
  have ok: "lock_ok (semas s (Lock_sema l)) (locks s l)" using sys_invD(2) [OF inv] .
  with False h have one: "holder_repeat_nr (locks s l) = 1" "semas s (Lock_sema l) = 0"
    by (auto simp: lock_ok_def)
  let ?r = "s\<lparr>intr := False, locks := (locks s)(l := \<lparr>holder = None, holder_repeat_nr = 0\<rparr>)\<rparr>"
  have wr: "sched_wf ?r" using sys_invD(5) [OF inv] by simp
  obtain s1 where s1: "sema_up (Lock_sema l) ?r = Inr s1" "sched_wf s1" "cur s1 = cur s"
    "semas s1 = (semas s)(Lock_sema l := 1)" "locks s1 = locks ?r" "idle_thread s1 = idle_thread s"
    "\<forall>u. cont (tasks s1 u) = cont (tasks s u)"
    "\<forall>u. status (tasks s u) \<noteq> TASK_BLOCKED \<longrightarrow> tasks s1 u = tasks s u"
    using sema_up_wf [OF wr, of "Lock_sema l"] one(2) by auto
  let ?v = "s1\<lparr>intr := intr s\<rparr>"
  have "lock_release l s = Inr ?v"
    using False h one s1(1) by (simp add: lock_release_def Let_def intr_set_status_def)
  moreover have "sched_inv ?v"
    using s1(2,3,8) sys_invD(6) [OF inv] by (simp add: sched_inv_def)
  then have "sys_inv ?v"
    using inv s1(4-7) by (auto simp: sys_inv_def lock_ok_def)
  moreover have "own_ok s ?v" using s1(5) h by (auto simp: own_ok_def)
  moreover have "cur ?v = cur s" "holder (locks ?v l) = None" "intr ?v = intr s" using s1(3,5) by simp_all
  ultimately show ?thesis using False by (intro exI [of _ ?v]) (simp add: good_step_def)
qed

lemma resume_ok:
  assumes inv: "sys_inv s"
  shows "\<exists>s'. resume s = Inr s' \<and> good_step s s'"
proof -
  let ?r = "upd (cur s) (\<lambda>p. p\<lparr>cont := Running\<rparr>) s"
  have r: "sys_inv ?r" by (rule good_upd_cont [OF inv])
  have g: "good_step s s'" if "good_step ?r s'" for s' using that by (simp add: good_step_def own_ok_def)
  have self: "good_step ?r (?r\<lparr>intr := b\<rparr>)" "good_step ?r ?r" for b using r by (simp_all add: good_step_def)
  have ni: "cur ?r \<noteq> idle_thread ?r" if "waits (cont (tasks s (cur s)))"
    using that sys_invD(3) [OF inv] by auto
  show ?thesis
  proof (cases "cont (tasks s (cur s))")
    case (Down k b)
    have k: "k \<noteq> Lock_sema l" for l using sys_invD(4) [OF inv] Down by metis
    have "cur ?r \<noteq> idle_thread ?r" by (rule ni) (simp add: Down waits_def)
    then obtain s' where "down_then (Down k b) k (intr_set_status b) ?r = Inr s'" "good_step ?r s'"
      using down_wait_sema_ok [OF r _ k] by blast
    with Down g show ?thesis by (intro exI [of _ s']) (simp add: resume_def Let_def)
  next
    case (Acquire l b)
    have "cur ?r \<noteq> idle_thread ?r" by (rule ni) (simp add: Acquire waits_def)
    then obtain s' where "down_then (Acquire l b) (Lock_sema l) (take_lock l b) ?r = Inr s'" "good_step ?r s'"
      using down_lock_ok [OF r] by blast
    with Acquire g show ?thesis by (intro exI [of _ s']) (simp add: resume_def Let_def)
  qed (use self g in \<open>auto simp: resume_def Let_def intr_set_status_def\<close>)
qed

lemma timer_step_ok:
  assumes inv: "sys_inv s"
  shows "\<exists>s'. intr_timer_handler s = Inr s' \<and> good_step s s'"
proof -
  obtain s' where s': "intr_timer_handler s = Inr s'" "sched_inv s'"
    "if preempts s then blocks_to s s Iret s'
     else s' = (ticked s (ticks (tasks s (cur s)) - 1))\<lparr>intr := True\<rparr>"
    using timer_ok [OF sys_invD(1) [OF inv]] by blast
  have "good_step s s'"
  proof (cases "preempts s")
    case True
    with s'(3) have "blocks_to s s Iret s'" by simp
    then show ?thesis by (rule sys_inv_blocks [OF inv]) (auto simp: waits_def)
  next
    case False
    with s'(3) have e: "s' = (ticked s (ticks (tasks s (cur s)) - 1))\<lparr>intr := True\<rparr>" by simp
    then have "sys_inv s'" using inv s'(2) by (simp add: sys_inv_def)
    with e show ?thesis by (simp add: good_step_def own_ok_def)
  qed
  with s'(1) show ?thesis by blast
qed

lemma block_step_ok:
  assumes inv: "sys_inv s" and st: "stat \<in> {TASK_BLOCKED, TASK_WAITING, TASK_HANGING}"
  shows "\<exists>s'. thread_block stat s = Inr s' \<and> good_step s s'"
proof -
  obtain s' where s': "thread_block stat s = Inr s'" "blocks_to s s (Restore (intr s)) s'"
    using thread_block_ok [OF sys_invD(1) [OF inv] st] by blast
  have "good_step s s'" by (rule sys_inv_blocks [OF inv s'(2)]) (auto simp: waits_def)
  with s'(1) show ?thesis by blast
qed

lemma yield_step_ok:
  assumes inv: "sys_inv s"
  shows "\<exists>s'. thread_yield s = Inr s' \<and> good_step s s'"
proof -
  obtain s' s1 where s': "thread_yield s = Inr s'" "blocks_to s1 s (Restore (intr s)) s'"
    using thread_yield_ok [OF sys_invD(1) [OF inv]] by blast
  have "good_step s s'" by (rule sys_inv_blocks [OF inv s'(2)]) (auto simp: waits_def)
  with s'(1) show ?thesis by blast
qed

lemma unblock_step_ok:
  assumes inv: "sys_inv s" and st: "status (tasks s t) \<in> {TASK_BLOCKED, TASK_WAITING, TASK_HANGING}"
  shows "\<exists>s'. thread_unblock t s = Inr s' \<and> good_step s s'"
proof -
  obtain s' where s': "thread_unblock t s = Inr s'" "sched_wf s'" "cur s' = cur s"
    "semas s' = semas s" "locks s' = locks s" "idle_thread s' = idle_thread s"
    "\<forall>u. cont (tasks s' u) = cont (tasks s u)" "\<forall>u. u \<noteq> t \<longrightarrow> tasks s' u = tasks s u"
    using thread_unblock_wf [OF sys_invD(5) [OF inv] st] by blast
  have "t \<noteq> cur s" using st sys_invD(6) [OF inv] by auto
  then have "sched_inv s'" using s'(2,3,8) sys_invD(6) [OF inv] by (simp add: sched_inv_def)
  then have "good_step s s'" using inv s' by (simp add: good_step_def sys_inv_def)
  with s'(1) show ?thesis by blast
qed

lemma wait_step_ok:
  assumes inv: "sys_inv s" and ni: "cur s \<noteq> idle_thread s"
  shows "\<exists>s'. thread_wait s = Inr s' \<and> good_step s s'"
proof -
  have "sys_inv (s\<lparr>intr := False\<rparr>)" "cur (s\<lparr>intr := False\<rparr>) \<noteq> idle_thread (s\<lparr>intr := False\<rparr>)"
    using inv ni by simp_all
  then have "\<exists>s'. down_then (Down (Wait_sema (cur s)) (intr s)) (Wait_sema (cur s)) (intr_set_status (intr s))
      (s\<lparr>intr := False\<rparr>) = Inr s' \<and> good_step (s\<lparr>intr := False\<rparr>) s'"
    by (rule down_wait_sema_ok) simp
  then show ?thesis by (simp add: thread_wait_def sema_down_def Let_def good_step_intr)
qed

text \<open>Between the death mark and the switch the current thread does not run.\<close>

definition dying :: "sched \<Rightarrow> sched \<Rightarrow> bool" where
  "dying s s' \<longleftrightarrow> sched_wf s' \<and> \<not> intr s' \<and> cur s' = cur s \<and> locks s' = locks s \<and>
     (\<forall>l. semas s' (Lock_sema l) = semas s (Lock_sema l)) \<and> idle_thread s' = idle_thread s \<and>
     (\<forall>u. cont (tasks s' u) = cont (tasks s u)) \<and>
     status (tasks s' (cur s)) = TASK_DIED \<and> tag (tasks s' (cur s)) = None"

lemma wake_parents_ok:
  "dying s s1 \<Longrightarrow> \<exists>s2. wake_parents ppid ts s1 = Inr s2 \<and> dying s s2"
proof (induction ts arbitrary: s1)
  case Nil
  then show ?case by simp
next
  case (Cons t ts)
  show ?case
  proof (cases "pid (tasks s1 t) = ppid")
    case True
    have wf: "sched_wf s1" using Cons.prems by (simp add: dying_def)
    obtain s2 where s2: "sema_up (Wait_sema t) s1 = Inr s2" "sched_wf s2" "cur s2 = cur s1"
      "intr s2 = intr s1" "semas s2 = (semas s1)(Wait_sema t := semas s1 (Wait_sema t) + 1)"
      "locks s2 = locks s1" "idle_thread s2 = idle_thread s1" "\<forall>u. cont (tasks s2 u) = cont (tasks s1 u)"
      "\<forall>u. status (tasks s1 u) \<noteq> TASK_BLOCKED \<longrightarrow> tasks s2 u = tasks s1 u"
      using sema_up_wf [OF wf] by blast
    have "dying s s2" using Cons.prems s2 by (simp add: dying_def)
    then show ?thesis using Cons.IH True s2(1) by simp
  next
    case False
    then show ?thesis using Cons by simp
  qed
qed

lemma exit_step_ok:
  assumes inv: "sys_inv s"
  shows "\<exists>s'. thread_exit s = Inr s' \<and> good_step s s'"
proof -
  note i = sched_invD [OF sys_invD(1) [OF inv]]
  let ?c = "cur s"
  let ?r = "upd ?c (\<lambda>p. p\<lparr>status := TASK_DIED\<rparr>) (s\<lparr>intr := False\<rparr>)"
  have "sched_wf ?r"
  proof (rule sched_wf_upd)
    show "task_ok ((tasks (s\<lparr>intr := False\<rparr>) ?c)\<lparr>status := TASK_DIED\<rparr>)"
      by (rule task_okI_None) (use i(5) in simp_all)
    show "links (s\<lparr>intr := False\<rparr>)" "mem_ok (s\<lparr>intr := False\<rparr>)"
      using i(2,3) by (simp_all add: links_def mem_ok_def)
  qed (use i(4,6,7) in simp_all)
  then have d: "dying s ?r" using i(5) by (simp add: dying_def)
  have tr: "tag_remove ?c (s\<lparr>intr := False\<rparr>) = s\<lparr>intr := False\<rparr>"
    using i(5) by (simp add: tag_remove_def)
  obtain s1 where s1: "(if parent_pid (tasks ?r ?c) \<noteq> -1
      then wake_parents (parent_pid (tasks ?r ?c)) (all_list ?r) ?r else Inr ?r) = Inr s1" "dying s s1"
    using wake_parents_ok [OF d] d by (cases "parent_pid (tasks ?r ?c) = -1") auto
  have "sched_wf s1" "\<not> intr s1" "tag (tasks s1 (cur s1)) = None" using s1(2) by (simp_all add: dying_def)
  then obtain s' where s': "schedule s1 = Inr s'" "sched_inv s'" "same_sync s1 s'"
    using schedule_ok [of s1] by blast
  have "thread_exit s = Inr s'"
    unfolding thread_exit_def Let_def tr s1(1) andthen_Inr by (rule s'(1))
  moreover have "sys_inv s'" using inv s1(2) s'(2,3) by (simp add: sys_inv_def dying_def same_sync_def)
  moreover have "own_ok s s'" using s1(2) s'(3) by (simp add: dying_def same_sync_def)
  ultimately show ?thesis by (auto simp: good_step_def)
qed

lemma goodI: "\<exists>s2. r = Inr s2 \<and> good_step s s2 \<Longrightarrow> r = Inr s' \<Longrightarrow> good_step s s'"
  by auto

lemma step_good: "step s s' \<Longrightarrow> sys_inv s \<Longrightarrow> good_step s s'"
proof (induction rule: step.induct)
  case (step_resume s s')
  then show ?case using goodI [OF resume_ok] by blast
next
  case (step_timer s s')
  then show ?case using goodI [OF timer_step_ok] by blast
next
  case (step_block s stat s')
  then show ?case using goodI [OF block_step_ok] by blast
next
  case (step_unblock s t s')
  then show ?case using goodI [OF unblock_step_ok] by blast
next
  case (step_yield s s')
  then show ?case using goodI [OF yield_step_ok] by blast
next
  case (step_acquire s l s')
  then show ?case using goodI [OF lock_acquire_ok] by blast
next
  case (step_release s l s')
  then show ?case using lock_release_ok [of s l] by auto
next
  case (step_wait s s')
  then show ?case using goodI [OF wait_step_ok] by blast
next
  case (step_exit s s')
  then show ?case using goodI [OF exit_step_ok] by blast
qed

section \<open>Properties\<close>

inductive_cases stepE: "step s s'"

lemma sample_sys_inv: "sys_inv sample_sched"
  using sample_sched_inv by (simp add: sys_inv_def lock_ok_def waits_def) (simp add: sample_sched_def sample_task_def)

lemma sample_sched_simps:
  "cur sample_sched = 0" "idle_thread sample_sched = 1" "intr sample_sched = False"
  "semas sample_sched k = 1" "locks sample_sched l = \<lparr>holder = None, holder_repeat_nr = 0\<rparr>"
  "cont (tasks sample_sched t) = Running"
  by (simp_all add: sample_sched_def sample_task_def)




lemma sample_held:
  "sys_inv (sample_sched\<lparr>semas := (semas sample_sched)(Lock_sema 5 := 0),
    locks := (locks sample_sched)(5 := \<lparr>holder = Some 0, holder_repeat_nr = n + 1\<rparr>)\<rparr>)"
  using sample_sys_inv by (simp add: sys_inv_def lock_ok_def)


text \<open>releasing a lock the running thread has taken more than once only counts
  down, and returns with interrupts off whatever they were before; releasing the last level frees
  the lock and restores them.\<close>

theorem lock_release_interrupts:
  assumes "sys_inv s" and "holder (locks s l) = Some (cur s)"
  shows "\<exists>s'. lock_release l s = Inr s' \<and>
    (if holder_repeat_nr (locks s l) > 1
     then locks s' l = \<lparr>holder = Some (cur s), holder_repeat_nr = holder_repeat_nr (locks s l) - 1\<rparr> \<and> \<not> intr s'
     else holder (locks s' l) = None \<and> intr s' = intr s)"
  using lock_release_ok [OF assms] by blast

theorem lock_release_interrupts_witness:
  "\<exists>s s'. intr s \<and> holder_repeat_nr (locks s 5) = 2 \<and> lock_release 5 s = Inr s' \<and> \<not> intr s'"
proof -
  let ?s = "sample_sched\<lparr>semas := (semas sample_sched)(Lock_sema 5 := 0),
    locks := (locks sample_sched)(5 := \<lparr>holder = Some 0, holder_repeat_nr = 1 + 1\<rparr>), intr := True\<rparr>"
  have "sys_inv ?s" using sample_held [of 1] by (simp only: sys_inv_intr)
  moreover have "holder (locks ?s 5) = Some (cur ?s)" by (simp add: sample_sched_simps)
  ultimately obtain s' where s': "lock_release 5 ?s = Inr s'"
    "if holder_repeat_nr (locks ?s 5) > 1
     then locks s' 5 = \<lparr>holder = Some (cur ?s), holder_repeat_nr = holder_repeat_nr (locks ?s 5) - 1\<rparr> \<and> \<not> intr s'
     else holder (locks s' 5) = None \<and> intr s' = intr ?s"
    using lock_release_interrupts by blast
  then have "\<not> intr s'" by simp
  with s'(1) show ?thesis by (intro exI [of _ ?s] exI [of _ s']) simp
qed

end
