(* ===== verification/Words.thy ===== *)
theory Words
  imports Prelude
begin

text \<open>
  Little endian words in byte buffers: how the i386 lays out the \<^verbatim>\<open>uint32_t\<close> arrays and the
  structures the kernel casts its sector buffers to.  A word the kernel only computes with
  modulo \<open>2 ^ 32\<close> is a natural number below that bound.
\<close>

section \<open>One word\<close>

definition le_bytes :: "nat \<Rightarrow> u8 list" where
  "le_bytes n = [of_nat n, of_nat (n div 256), of_nat (n div 65536), of_nat (n div 16777216)]"

definition le_word :: "u8 \<Rightarrow> u8 \<Rightarrow> u8 \<Rightarrow> u8 \<Rightarrow> nat" where
  "le_word a b c d = unat a + 256 * unat b + 65536 * unat c + 16777216 * unat d"

lemma unat_u8_of_nat: "unat (of_nat m :: u8) = m mod 256"
  by (simp add: unat_of_nat)

lemma unat_u8_less: "unat (x :: u8) < 256"
  using unsigned_less [of x] by simp

lemma split256: "(n :: nat) = n mod 256 + 256 * (n div 256)"
  by simp

lemma le_word_bytes:
  assumes "n < 2 ^ 32"
  shows "le_word (of_nat n) (of_nat (n div 256)) (of_nat (n div 65536)) (of_nat (n div 16777216)) = n"
proof -
  have d: "n div 65536 = n div 256 div 256" "n div 16777216 = n div 256 div 256 div 256"
    by (simp_all add: div_mult2_eq [symmetric])
  have "n div 16777216 < 256" using assms by (simp add: less_mult_imp_div_less)
  then have "n div 256 div 256 div 256 mod 256 = n div 256 div 256 div 256" using d(2) by simp
  then show ?thesis
    unfolding le_word_def unat_u8_of_nat d
    using split256 [of n] split256 [of "n div 256"] split256 [of "n div 256 div 256"] by linarith
qed

lemma le_word_less: "le_word a b c d < 2 ^ 32"
  using unat_u8_less [of a] unat_u8_less [of b] unat_u8_less [of c] unat_u8_less [of d]
  by (simp add: le_word_def)

lemma le_bytes_word: "le_bytes (le_word a b c d) = [a, b, c, d]"
proof -
  note u = unat_u8_less
  have eq: "of_nat m = x" if "m mod 256 = unat x" for m and x :: u8
    using that by (simp add: word_unat_eq_iff unat_u8_of_nat)
  have dm: "(x + 256 * y) mod 256 = x" "(x + 256 * y) div 256 = y" if "x < 256" for x y :: nat
    using that by simp_all
  have e: "le_word a b c d = unat a + 256 * (unat b + 256 * (unat c + 256 * unat d))"
    by (simp add: le_word_def)
  note 1 = dm [OF u [of a], of "unat b + 256 * (unat c + 256 * unat d)", folded e]
  note 2 = dm [OF u [of b], of "unat c + 256 * unat d"]
  note 3 = dm [OF u [of c], of "unat d"]
  have "le_word a b c d div 65536 = le_word a b c d div 256 div 256"
    "le_word a b c d div 16777216 = le_word a b c d div 256 div 256 div 256"
    by (simp_all add: div_mult2_eq [symmetric])
  then have q: "le_word a b c d div 256 mod 256 = unat b" "le_word a b c d div 65536 mod 256 = unat c"
    "le_word a b c d div 16777216 mod 256 = unat d"
    using 1 2 3 u [of d] by (simp_all only: mod_less)
  show ?thesis
    unfolding le_bytes_def eq [OF 1(1)] eq [OF q(1)] eq [OF q(2)] eq [OF q(3)] ..
qed

section \<open>Arrays of words\<close>

lemma four_dvd_Suc4: "4 dvd Suc (Suc (Suc (Suc n))) \<longleftrightarrow> 4 dvd n"
proof -
  have "Suc (Suc (Suc (Suc n))) = n + 4" by simp
  then show ?thesis by (simp only: dvd_add_triv_right_iff)
qed

fun words_of :: "u8 list \<Rightarrow> nat list" where
  "words_of (a # b # c # d # bs) = le_word a b c d # words_of bs"
| "words_of bs = []"

definition bytes_of :: "nat list \<Rightarrow> u8 list" where
  "bytes_of ws = concat (map le_bytes ws)"

lemma bytes_of_simps [simp]:
  "bytes_of [] = []" "bytes_of (w # ws) = le_bytes w @ bytes_of ws" "bytes_of (vs @ ws) = bytes_of vs @ bytes_of ws"
  by (simp_all add: bytes_of_def)

lemma length_le_bytes [simp]: "length (le_bytes n) = 4"
  by (simp add: le_bytes_def)

lemma length_bytes_of [simp]: "length (bytes_of ws) = 4 * length ws"
  by (induction ws) simp_all

lemma words_of_bytes_of_append:
  "\<forall>w \<in> set ws. w < 2 ^ 32 \<Longrightarrow> words_of (bytes_of ws @ bs) = ws @ words_of bs"
  by (induction ws) (simp_all add: le_bytes_def le_word_bytes)

lemma words_of_bytes_of [simp]: "\<forall>w \<in> set ws. w < 2 ^ 32 \<Longrightarrow> words_of (bytes_of ws) = ws"
  using words_of_bytes_of_append [of ws "[]"] by simp

lemma bytes_of_words_of: "4 dvd length bs \<Longrightarrow> bytes_of (words_of bs) = bs"
proof (induction bs rule: words_of.induct)
  case (1 a b c d bs)
  then have "4 dvd length bs" by (simp add: four_dvd_Suc4)
  with 1 show ?case by (simp add: le_bytes_word)
qed (auto dest: dvd_imp_le)

lemma length_words_of: "length (words_of bs) = length bs div 4"
  by (induction bs rule: words_of.induct) auto

lemma words_of_less: "w \<in> set (words_of bs) \<Longrightarrow> w < 2 ^ 32"
  using le_word_less by (induction bs rule: words_of.induct) auto

lemma words_of_append: "4 dvd length bs \<Longrightarrow> words_of (bs @ cs) = words_of bs @ words_of cs"
proof (induction bs rule: words_of.induct)
  case (1 a b c d bs)
  then have "4 dvd length bs" by (simp add: four_dvd_Suc4)
  with 1 show ?case by simp
qed (auto dest: dvd_imp_le)

lemma words_of_replicate_0: "words_of (replicate (4 * n) 0) = replicate n 0"
proof (induction n)
  case (Suc n)
  have "replicate (4 * Suc n) 0 = 0 # 0 # 0 # 0 # (replicate (4 * n) 0 :: u8 list)"
    by (simp add: numeral_eq_Suc)
  then show ?case using Suc by (simp add: le_word_def)
qed simp

section \<open>Pieces of a buffer\<close>

text \<open>\<^verbatim>\<open>memcpy(buf+off, src, strlen(src))\<close> into a buffer, and reading such a piece.\<close>

definition put_at :: "'a list \<Rightarrow> nat \<Rightarrow> 'a list \<Rightarrow> 'a list cres" where
  "put_at buf off src =
     (if off + length src \<le> length buf then Inr (take off buf @ src @ drop (off + length src) buf) else Inl Wild)"

definition get_at :: "'a list \<Rightarrow> nat \<Rightarrow> nat \<Rightarrow> 'a list cres" where
  "get_at buf off n = (if off + n \<le> length buf then Inr (take n (drop off buf)) else Inl Wild)"

lemma put_at_length: "put_at buf off src = Inr b \<Longrightarrow> length b = length buf"
  by (auto simp: put_at_def split: if_splits)

lemma get_put_same: "put_at buf off src = Inr b \<Longrightarrow> get_at b off (length src) = Inr src"
  by (auto simp: put_at_def get_at_def split: if_splits)

lemma put_at_nth:
  assumes "put_at buf off src = Inr b" and "i < length buf"
  shows "b ! i = (if off \<le> i \<and> i < off + length src then src ! (i - off) else buf ! i)"
  using assms by (auto simp: put_at_def nth_append min_def split: if_splits)

end
