(* ===== verification/Ide.thy ===== *)
theory Ide
  imports Words
begin

text \<open>
  \<^verbatim>\<open>kernel/device/ide.c\<close>: reading and writing runs of sectors, and the search for
  partitions.

  A disk is the function from sector numbers to the 512 bytes of each sector.  The controller is
  hardware: the code reaches it through the task file registers, which \<open>select_sector\<close> fills,
  and the data port.  What the code relies on is written out in \<open>selected\<close> and
  \<open>announced\<close>: a transfer starts at the 28 bit block address of the registers, and its
  sector count register announces 256 sectors when it is zero.  Waiting for the interrupt, the
  channel's lock and the failure of a command (a \<^verbatim>\<open>PANIC\<close>) are not part of the model.
\<close>

type_synonym sectors = "nat \<Rightarrow> u8 list"

definition SECTOR_SIZE :: nat where "SECTOR_SIZE = 512"
definition max_lba :: nat where "max_lba = 163839"

section \<open>Sector transfers\<close>

record regs =
  sect_cnt :: u8
  lba_l :: u8
  lba_m :: u8
  lba_h :: u8
  reg_dev :: u8

definition select_sector :: "nat \<Rightarrow> nat \<Rightarrow> nat \<Rightarrow> regs cres" where
  "select_sector dev_no lba sec_cnt =
     andthen (assert_c (lba \<le> max_lba)) (\<lambda>_.
     Inr \<lparr>sect_cnt = of_nat sec_cnt, lba_l = of_nat lba, lba_m = of_nat (lba div 2 ^ 8),
          lba_h = of_nat (lba div 2 ^ 16),
          reg_dev = 0xa0 OR 0x40 OR (if dev_no = 1 then 0x30 else 0) OR of_nat (lba div 2 ^ 24)\<rparr>)"

definition selected :: "regs \<Rightarrow> nat" where
  "selected r = unat (lba_l r) + 2 ^ 8 * unat (lba_m r) + 2 ^ 16 * unat (lba_h r) +
     2 ^ 24 * unat (reg_dev r AND 0x0f)"

definition announced :: "u8 \<Rightarrow> nat" where
  "announced c = (if c = 0 then 256 else unat c)"

text \<open>\<^verbatim>\<open>insw\<close> and \<^verbatim>\<open>outsw\<close> at the data port: no more sectors than announced.\<close>

definition read_from_sector :: "sectors \<Rightarrow> regs \<Rightarrow> u8 \<Rightarrow> u8 list cres" where
  "read_from_sector d r sec_cnt =
     (let n = announced sec_cnt
      in if n \<le> announced (sect_cnt r) then Inr (concat (map d [selected r..<selected r + n])) else Inl Wild)"

fun store_sectors :: "sectors \<Rightarrow> nat \<Rightarrow> u8 list \<Rightarrow> nat \<Rightarrow> sectors" where
  "store_sectors d lba buf 0 = d"
| "store_sectors d lba buf (Suc n) =
     store_sectors (d(lba := take SECTOR_SIZE buf)) (lba + 1) (drop SECTOR_SIZE buf) n"

definition write2sector :: "sectors \<Rightarrow> regs \<Rightarrow> u8 list \<Rightarrow> u8 \<Rightarrow> sectors cres" where
  "write2sector d r buf sec_cnt =
     (let n = announced sec_cnt
      in if n \<le> announced (sect_cnt r) \<and> n * SECTOR_SIZE \<le> length buf
         then Inr (store_sectors d (selected r) buf n) else Inl Wild)"

function sector_read_loop :: "sectors \<Rightarrow> nat \<Rightarrow> nat \<Rightarrow> nat \<Rightarrow> nat \<Rightarrow> u8 list \<Rightarrow> u8 list cres" where
  "sector_read_loop d dev_no lba sec_cnt secs_done buf =
     (if secs_done < sec_cnt
      then
        let secs_op = (if secs_done + 256 \<le> sec_cnt then 256 else sec_cnt - secs_done)
        in andthen (select_sector dev_no ((lba + secs_done) mod 2 ^ 32) secs_op) (\<lambda>r.
           andthen (read_from_sector d r (of_nat secs_op)) (\<lambda>bs.
           sector_read_loop d dev_no lba sec_cnt (secs_done + secs_op) (buf @ bs)))
      else Inr buf)"
  by pat_completeness auto
termination
  by (relation "measure (\<lambda>(d, v, l, n, k, b). n - k)") (auto split: if_splits)

declare sector_read_loop.simps [simp del]

definition ide_read :: "sectors \<Rightarrow> nat \<Rightarrow> nat \<Rightarrow> nat \<Rightarrow> u8 list cres" where
  "ide_read d dev_no lba sec_cnt =
     andthen (assert_c (lba \<le> max_lba)) (\<lambda>_.
     andthen (assert_c (sec_cnt > 0)) (\<lambda>_.
     sector_read_loop d dev_no lba sec_cnt 0 []))"

text \<open>\<^verbatim>\<open>ide_write\<close> passes \<^verbatim>\<open>secs_done\<close>, not \<^verbatim>\<open>secs_op\<close>, as the sector count.\<close>

function sector_write_loop :: "sectors \<Rightarrow> nat \<Rightarrow> nat \<Rightarrow> u8 list \<Rightarrow> nat \<Rightarrow> nat \<Rightarrow> sectors cres" where
  "sector_write_loop d dev_no lba buf sec_cnt secs_done =
     (if secs_done < sec_cnt
      then
        let secs_op = (if secs_done + 256 \<le> sec_cnt then 256 else sec_cnt - secs_done)
        in andthen (select_sector dev_no ((lba + secs_done) mod 2 ^ 32) secs_done) (\<lambda>r.
           andthen (write2sector d r (drop (secs_done * SECTOR_SIZE) buf) (of_nat secs_op)) (\<lambda>d.
           sector_write_loop d dev_no lba buf sec_cnt (secs_done + secs_op)))
      else Inr d)"
  by pat_completeness auto
termination
  by (relation "measure (\<lambda>(d, v, l, b, n, k). n - k)") (auto split: if_splits)

declare sector_write_loop.simps [simp del]

definition ide_write :: "sectors \<Rightarrow> nat \<Rightarrow> nat \<Rightarrow> u8 list \<Rightarrow> nat \<Rightarrow> sectors cres" where
  "ide_write d dev_no lba buf sec_cnt =
     andthen (assert_c (lba \<le> max_lba)) (\<lambda>_.
     andthen (assert_c (sec_cnt > 0)) (\<lambda>_.
     sector_write_loop d dev_no lba buf sec_cnt 0))"

section \<open>Partitions\<close>

text \<open>An entry of the table at byte 446 of a boot sector, and a partition found.\<close>

record partition_table_entry =
  fs_type :: u8
  p_start_lba :: nat
  p_sec_cnt :: nat

definition entry_of :: "u8 list \<Rightarrow> partition_table_entry" where
  "entry_of bs = \<lparr>fs_type = bs ! 4, p_start_lba = words_of bs ! 2, p_sec_cnt = words_of bs ! 3\<rparr>"

definition partition_table :: "u8 list \<Rightarrow> partition_table_entry list" where
  "partition_table sector = map (\<lambda>i. entry_of (take 16 (drop (446 + 16 * i) sector))) [0..<4]"

record part_info =
  start_lba :: nat
  sec_cnt :: nat
  part_name :: "u8 list"

datatype part_ref = Prim nat | Logic nat

record part_scan =
  ext_lba_base :: nat
  p_no :: nat
  l_no :: nat
  prim_parts :: "part_info list"
  logic_parts :: "part_info list"
  partition_list :: "part_ref list"

text \<open>\<^verbatim>\<open>sprintf(name, "%s%d", hd->name, n+1)\<close> for the small numbers that occur.\<close>

definition part_label :: "u8 list \<Rightarrow> nat \<Rightarrow> u8 list" where
  "part_label hd_name n = hd_name @ [of_nat (48 + (n + 1)), 0]"

definition add_primary :: "u8 list \<Rightarrow> nat \<Rightarrow> partition_table_entry \<Rightarrow> part_scan \<Rightarrow> part_scan cres" where
  "add_primary hd_name ext_lba p st =
     andthen (wr (prim_parts st) (p_no st)
       \<lparr>start_lba = (ext_lba + p_start_lba p) mod 2 ^ 32, sec_cnt = p_sec_cnt p,
        part_name = part_label hd_name (p_no st)\<rparr>) (\<lambda>ps.
     let st = st\<lparr>prim_parts := ps, partition_list := partition_list st @ [Prim (p_no st)],
                 p_no := p_no st + 1\<rparr>
     in andthen (assert_c (p_no st \<le> 4)) (\<lambda>_. Inr st))"

text \<open>The name of a logical partition is stored in a primary one.\<close>

definition add_logic :: "u8 list \<Rightarrow> nat \<Rightarrow> partition_table_entry \<Rightarrow> part_scan \<Rightarrow> part_scan cres" where
  "add_logic hd_name ext_lba p st =
     andthen (rd (logic_parts st) (l_no st)) (\<lambda>q.
     andthen (wr (logic_parts st) (l_no st)
       (q\<lparr>start_lba := (ext_lba + p_start_lba p) mod 2 ^ 32, sec_cnt := p_sec_cnt p\<rparr>)) (\<lambda>ls.
     andthen (rd (prim_parts st) (p_no st)) (\<lambda>r.
     andthen (wr (prim_parts st) (p_no st) (r\<lparr>part_name := part_label hd_name (l_no st)\<rparr>)) (\<lambda>ps.
     Inr (st\<lparr>logic_parts := ls, prim_parts := ps, partition_list := partition_list st @ [Logic (l_no st)],
             l_no := l_no st + 1\<rparr>)))))"

text \<open>The loop over one table; \<open>rec\<close> scans the table of an extended partition.\<close>

fun scan_table :: "(nat \<Rightarrow> part_scan \<Rightarrow> part_scan cres option) \<Rightarrow> u8 list \<Rightarrow> nat \<Rightarrow>
    partition_table_entry list \<Rightarrow> part_scan \<Rightarrow> part_scan cres option" where
  "scan_table rec hd_name ext_lba [] st = Some (Inr st)"
| "scan_table rec hd_name ext_lba (p # ps) st =
     (if fs_type p = 0x5
      then
        case (if ext_lba_base st \<noteq> 0 then rec ((p_start_lba p + ext_lba_base st) mod 2 ^ 32) st
              else rec (p_start_lba p) (st\<lparr>ext_lba_base := p_start_lba p\<rparr>)) of
          None \<Rightarrow> None
        | Some (Inl e) \<Rightarrow> Some (Inl e)
        | Some (Inr st) \<Rightarrow> scan_table rec hd_name ext_lba ps st
      else if fs_type p \<noteq> 0
      then
        if ext_lba = 0
        then case add_primary hd_name ext_lba p st of
            Inl e \<Rightarrow> Some (Inl e)
          | Inr st \<Rightarrow> scan_table rec hd_name ext_lba ps st
        else case add_logic hd_name ext_lba p st of
            Inl e \<Rightarrow> Some (Inl e)
          | Inr st \<Rightarrow> if l_no st \<ge> 8 then Some (Inr st) else scan_table rec hd_name ext_lba ps st
      else scan_table rec hd_name ext_lba ps st)"

text \<open>The recursion follows the disk's data; \<open>None\<close> is running out of the fuel of the first
  argument.\<close>

fun partition_scan :: "nat \<Rightarrow> sectors \<Rightarrow> nat \<Rightarrow> u8 list \<Rightarrow> nat \<Rightarrow> part_scan \<Rightarrow> part_scan cres option" where
  "partition_scan 0 d dev_no hd_name ext_lba st = None"
| "partition_scan (Suc fuel) d dev_no hd_name ext_lba st =
     (case ide_read d dev_no ext_lba 1 of
        Inl e \<Rightarrow> Some (Inl e)
      | Inr bs \<Rightarrow> scan_table (partition_scan fuel d dev_no hd_name) hd_name ext_lba (partition_table bs) st)"

text \<open>The identification strings come with the bytes of each pair swapped.  The callers' lengths
  are 20 and 40, below the range of the \<^verbatim>\<open>uint8_t\<close> counter.\<close>

fun swap_pairs :: "u8 list \<Rightarrow> u8 list" where
  "swap_pairs (a # b # s) = b # a # swap_pairs s"
| "swap_pairs s = s"

definition swap_pairs_bytes :: "u8 list \<Rightarrow> nat \<Rightarrow> u8 list cres" where
  "swap_pairs_bytes src len = 
     (if len + len mod 2 \<le> length src then Inr (swap_pairs (take (len + len mod 2) src) @ [0]) else Inl Wild)"

section \<open>Whole transfers\<close>

lemma selected_select:
  assumes "lba \<le> max_lba"
  obtains r where "select_sector v lba c = Inr r" "selected r = lba" "sect_cnt r = of_nat c"
proof -
  let ?r = "\<lparr>sect_cnt = of_nat c, lba_l = of_nat lba, lba_m = of_nat (lba div 2 ^ 8), lba_h = of_nat (lba div 2 ^ 16),
    reg_dev = 0xa0 OR 0x40 OR (if v = 1 then 0x30 else 0) OR of_nat (lba div 2 ^ 24)\<rparr> :: regs"
  have small: "lba div 2 ^ 24 = 0" "lba div 2 ^ 16 < 256" using assms by (simp_all add: max_lba_def)
  have "reg_dev ?r AND 0x0f = 0" using small(1) by simp
  moreover have "lba div 2 ^ 16 = lba div 256 div 256" by (simp add: div_mult2_eq [symmetric])
  moreover have e: "lba mod 256 + 256 * (lba div 256 mod 256) + 65536 * (lba div 256 div 256) = lba"
    using split256 [of lba] split256 [of "lba div 256"] by linarith
  ultimately have "selected ?r = lba"
    using small e by (simp add: selected_def unat_u8_of_nat)
  moreover have "select_sector v lba c = Inr ?r" using assms by (simp add: select_sector_def)
  moreover have "sect_cnt ?r = of_nat c" by (rule regs.select_convs)
  ultimately show thesis by (intro that)
qed

lemma announced_of_nat: "0 < n \<Longrightarrow> n \<le> 256 \<Longrightarrow> announced (of_nat n) = n"
proof (cases "n = 256")
  case False
  assume "0 < n" "n \<le> 256"
  with False have "unat (of_nat n :: u8) = n" by (simp add: unat_u8_of_nat)
  with \<open>0 < n\<close> show ?thesis by (auto simp: announced_def)
qed (simp add: announced_def)

lemma announced_le: "announced c \<le> 256"
  using unat_u8_less [of c] by (simp add: announced_def)

text \<open>Every chunk but the last has 256 sectors, so the count \<^verbatim>\<open>secs_done\<close> is 0 in the 8 bit
  register and announces 256 sectors.\<close>

lemma announced_256_multiple: "announced (of_nat (256 * k)) = 256"
proof -
  have "(of_nat (256 * k) :: u8) = 0" by (simp only: word_unat_eq_iff unat_u8_of_nat) simp
  then show ?thesis by (simp add: announced_def)
qed

lemma upt_split: "i \<le> j \<Longrightarrow> j \<le> k \<Longrightarrow> [i..<k] = [i..<j] @ [j..<k]"
  using upt_add_eq_append [of i j "k - j"] by simp

lemma sector_read_loop_ok:
  assumes "k \<le> n" and "lba + n \<le> max_lba + 1"
  shows "sector_read_loop d v lba n k buf = Inr (buf @ concat (map d [lba + k..<lba + n]))"
  using assms
proof (induction d v lba n k buf rule: sector_read_loop.induct)
  case (1 d v lba n k buf)
  show ?case
  proof (cases "k < n")
    case True
    define m where "m = (if k + 256 \<le> n then 256 else n - k)"
    have m: "0 < m" "m \<le> 256" "k + m \<le> n" using True by (auto simp: m_def)
    have le: "lba + k \<le> max_lba" using 1(3) True by simp
    then have md: "(lba + k) mod 2 ^ 32 = lba + k" by (simp add: max_lba_def)
    obtain r where r: "select_sector v (lba + k) m = Inr r" "selected r = lba + k" "sect_cnt r = of_nat m"
      by (rule selected_select [OF le])
    have rs: "read_from_sector d r (of_nat m) = Inr (concat (map d [lba + k..<lba + k + m]))"
      using m r by (simp add: read_from_sector_def announced_of_nat)
    have "sector_read_loop d v lba n (k + m) (buf @ concat (map d [lba + k..<lba + k + m])) =
      Inr ((buf @ concat (map d [lba + k..<lba + k + m])) @ concat (map d [lba + (k + m)..<lba + n]))"
      by (rule 1(1) [OF True m_def]) (use r rs md m 1(3) in auto)
    then have "sector_read_loop d v lba n k buf =
      Inr ((buf @ concat (map d [lba + k..<lba + k + m])) @ concat (map d [lba + (k + m)..<lba + n]))"
      using True r(1) rs md by (subst sector_read_loop.simps) (simp add: m_def [symmetric] Let_def)
    moreover have "[lba + k..<lba + n] = [lba + k..<lba + k + m] @ [lba + k + m..<lba + n]"
      using m(3) by (intro upt_split) auto
    ultimately show ?thesis by (simp add: add.assoc)
  next
    case False
    then show ?thesis using 1(2) by (subst sector_read_loop.simps) simp
  qed
qed

lemma ide_read_ok:
  assumes "0 < n" and "lba + n \<le> max_lba + 1"
  shows "ide_read d v lba n = Inr (concat (map d [lba..<lba + n]))"
  using assms sector_read_loop_ok [of 0 n lba d v "[]"] by (simp add: ide_read_def)

lemma ide_read_1 [simp]: "lba \<le> max_lba \<Longrightarrow> ide_read d v lba (Suc 0) = Inr (d lba)"
  using ide_read_ok [of 1 lba d v] by simp

lemma ide_read_bad [simp]: "max_lba < lba \<Longrightarrow> ide_read d v lba n = Inl Assertion"
  by (simp add: ide_read_def)

lemma store_sectors_apply:
  "store_sectors d lba buf n x =
    (if lba \<le> x \<and> x < lba + n then take SECTOR_SIZE (drop ((x - lba) * SECTOR_SIZE) buf) else d x)"
proof (induction n arbitrary: d lba buf)
  case (Suc n)
  have "(x - Suc lba) * SECTOR_SIZE + SECTOR_SIZE = (x - lba) * SECTOR_SIZE" if "Suc lba \<le> x"
    using that by (metis Suc_diff_Suc Suc_le_lessD add.commute mult_Suc)
  then show ?case by (auto simp: Suc)
qed auto

lemma store_sectors_add:
  "store_sectors d lba buf (m + n) = store_sectors (store_sectors d lba buf m) (lba + m) (drop (m * SECTOR_SIZE) buf) n"
proof (induction m arbitrary: d lba buf)
  case (Suc m)
  show ?case by (simp add: Suc add.commute fun_upd_def)
qed simp

lemma sector_write_loop_ok:
  assumes "256 dvd k \<or> k = n" "k \<le> n" and "lba + n \<le> max_lba + 1" and "n * SECTOR_SIZE \<le> length buf"
  shows "sector_write_loop d v lba buf n k =
    Inr (store_sectors d (lba + k) (drop (k * SECTOR_SIZE) buf) (n - k))"
  using assms
proof (induction d v lba buf n k rule: sector_write_loop.induct)
  case (1 d v lba buf n k)
  show ?case
  proof (cases "k < n")
    case True
    define m where "m = (if k + 256 \<le> n then 256 else n - k)"
    have m: "0 < m" "m \<le> 256" "k + m \<le> n" using True by (auto simp: m_def)
    have le: "lba + k \<le> max_lba" using 1(4) True by simp
    then have md: "(lba + k) mod 2 ^ 32 = lba + k" by (simp add: max_lba_def)
    obtain r where r: "select_sector v (lba + k) k = Inr r" "selected r = lba + k" "sect_cnt r = of_nat k"
      by (rule selected_select [OF le])
    obtain j where "k = 256 * j" using 1(2) True by auto
    then have an: "announced (sect_cnt r) = 256" using r(3) announced_256_multiple by simp
    let ?b = "drop (k * SECTOR_SIZE) buf"
    have "m * SECTOR_SIZE \<le> n * SECTOR_SIZE - k * SECTOR_SIZE"
      using m(3) by (simp add: diff_mult_distrib [symmetric] SECTOR_SIZE_def)
    then have "m * SECTOR_SIZE \<le> length ?b" using 1(5) by simp
    then have ws: "write2sector d r ?b (of_nat m) = Inr (store_sectors d (lba + k) ?b m)"
      using m r an by (simp add: write2sector_def announced_of_nat)
    have "256 dvd k + m \<or> k + m = n" using 1(2) True by (auto simp: m_def)
    then have "sector_write_loop (store_sectors d (lba + k) ?b m) v lba buf n (k + m) =
      Inr (store_sectors (store_sectors d (lba + k) ?b m) (lba + (k + m)) (drop ((k + m) * SECTOR_SIZE) buf) (n - (k + m)))"
      by (intro 1(1) [OF True m_def]) (use r ws md m 1(4,5) in auto)
    moreover have "store_sectors d (lba + k) ?b (m + (n - (k + m))) =
      store_sectors (store_sectors d (lba + k) ?b m) (lba + (k + m)) (drop ((k + m) * SECTOR_SIZE) buf) (n - (k + m))"
      by (simp add: store_sectors_add add.assoc add.commute algebra_simps)
    moreover have "m + (n - (k + m)) = n - k" using m(3) by simp
    moreover have "sector_write_loop d v lba buf n k =
      sector_write_loop (store_sectors d (lba + k) ?b m) v lba buf n (k + m)"
      using True r(1) ws md by (subst sector_write_loop.simps) (simp add: m_def [symmetric] Let_def)
    ultimately show ?thesis by simp
  next
    case False
    then show ?thesis using 1(3) by (subst sector_write_loop.simps) simp
  qed
qed

lemma ide_write_ok:
  assumes "0 < n" and "lba + n \<le> max_lba + 1" and "n * SECTOR_SIZE \<le> length buf"
  shows "ide_write d v lba buf n = Inr (store_sectors d lba buf n)"
  using assms sector_write_loop_ok [of 0 n lba buf d v] by (simp add: ide_write_def)

lemma ide_write_1 [simp]:
  "lba \<le> max_lba \<Longrightarrow> SECTOR_SIZE \<le> length buf \<Longrightarrow>
    ide_write d v lba buf (Suc 0) = Inr (d(lba := take SECTOR_SIZE buf))"
  using ide_write_ok [of 1 lba buf d v] by simp

section \<open>The search for partitions\<close>

definition is_ext :: "partition_table_entry \<Rightarrow> bool" where
  "is_ext p \<longleftrightarrow> fs_type p = 0x5"

lemma add_base: "add_primary nm x p st = Inr st' \<Longrightarrow> ext_lba_base st' = ext_lba_base st"
  "add_logic nm x p st = Inr st' \<Longrightarrow> ext_lba_base st' = ext_lba_base st"
  by (auto simp: add_primary_def add_logic_def andthen_eq_Inr_iff Let_def)

lemma scan_table_returns:
  assumes "\<And>p st. p \<in> set ps \<Longrightarrow> is_ext p \<Longrightarrow> ext_lba_base st = b \<Longrightarrow>
      (\<exists>r. rec ((p_start_lba p + b) mod 2 ^ 32) st = Some r \<and> (\<forall>s'. r = Inr s' \<longrightarrow> ext_lba_base s' = b))"
    and "b \<noteq> 0" and "ext_lba_base st = b"
  shows "\<exists>r. scan_table rec nm x ps st = Some r \<and> (\<forall>s'. r = Inr s' \<longrightarrow> ext_lba_base s' = b)"
  using assms
proof (induction ps arbitrary: st)
  case Nil
  then show ?case by simp
next
  case (Cons p ps)
  have IH: "\<exists>r. scan_table rec nm x ps s1 = Some r \<and> (\<forall>s'. r = Inr s' \<longrightarrow> ext_lba_base s' = b)"
    if "ext_lba_base s1 = b" for s1
    by (rule Cons.IH) (use Cons.prems that in auto)
  show ?case
  proof (cases "is_ext p")
    case True
    obtain r where r: "rec ((p_start_lba p + b) mod 2 ^ 32) st = Some r" "\<And>s'. r = Inr s' \<Longrightarrow> ext_lba_base s' = b"
      using Cons.prems(1) [of p st] True Cons.prems(3) by auto
    then show ?thesis
      using True Cons.prems(2,3) IH by (cases r) (auto simp: is_ext_def)
  next
    case False
    consider e where "(if x = 0 then add_primary nm x p st else add_logic nm x p st) = Inl e"
      | s1 where "(if x = 0 then add_primary nm x p st else add_logic nm x p st) = Inr s1" "ext_lba_base s1 = b"
      using add_base Cons.prems(3) by (cases "if x = 0 then add_primary nm x p st else add_logic nm x p st") (auto split: if_splits)
    then show ?thesis
    proof cases
      case 1
      with False IH [OF Cons.prems(3)] show ?thesis by (auto simp: is_ext_def split: if_splits)
    next
      case 2
      with False IH [OF Cons.prems(3)] IH [OF 2(2)] show ?thesis by (auto simp: is_ext_def split: if_splits)
    qed
  qed
qed

text \<open>The extended partition's chain: every link leads to a later sector.\<close>

definition chain_forward :: "sectors \<Rightarrow> nat \<Rightarrow> nat set \<Rightarrow> bool" where
  "chain_forward d b X \<longleftrightarrow> (\<forall>x \<in> X. x \<le> max_lba \<longrightarrow> (\<forall>p \<in> set (partition_table (d x)). is_ext p \<longrightarrow>
     (p_start_lba p + b) mod 2 ^ 32 \<in> X \<and> x < (p_start_lba p + b) mod 2 ^ 32))"

lemma chain_returns:
  assumes "chain_forward d b X" and "b \<noteq> 0" and "x \<in> X" and "ext_lba_base st = b" and "max_lba + 1 < x + fuel" "0 < fuel"
  shows "\<exists>r. partition_scan fuel d v nm x st = Some r \<and> (\<forall>s'. r = Inr s' \<longrightarrow> ext_lba_base s' = b)"
  using assms(3-6)
proof (induction fuel arbitrary: x st)
  case 0
  then show ?case by simp
next
  case (Suc fuel)
  show ?case
  proof (cases "x \<le> max_lba")
    case True
    have "\<exists>r. scan_table (partition_scan fuel d v nm) nm x (partition_table (d x)) st = Some r \<and>
        (\<forall>s'. r = Inr s' \<longrightarrow> ext_lba_base s' = b)"
    proof (rule scan_table_returns [OF _ assms(2) Suc.prems(2)])
      fix p and s1 :: part_scan
      assume p: "p \<in> set (partition_table (d x))" "is_ext p" "ext_lba_base s1 = b"
      have "(p_start_lba p + b) mod 2 ^ 32 \<in> X" "x < (p_start_lba p + b) mod 2 ^ 32"
        using assms(1) p True Suc.prems(1) by (auto simp: chain_forward_def)
      then show "\<exists>r. partition_scan fuel d v nm ((p_start_lba p + b) mod 2 ^ 32) s1 = Some r \<and>
          (\<forall>s'. r = Inr s' \<longrightarrow> ext_lba_base s' = b)"
        using Suc.prems(3) p(3) True by (intro Suc.IH) auto
    qed
    with True show ?thesis by simp
  qed simp
qed

lemma scan_table_plain:
  assumes "\<not> (\<exists>p \<in> set ps. is_ext p)"
  shows "\<exists>r. scan_table rec nm x ps st = Some r"
  using assms
proof (induction ps arbitrary: st)
  case (Cons p ps)
  then have IH: "\<exists>r. scan_table rec nm x ps s1 = Some r" and np: "fs_type p \<noteq> 5" for s1
    by (auto simp: is_ext_def)
  then show ?case by (auto split: sum.splits)
qed simp

lemma scan_mbr_table:
  assumes "filter is_ext ps = [q]" and "ext_lba_base st = 0" "p_start_lba q = b"
    and "\<And>s1. ext_lba_base s1 = b \<Longrightarrow> \<exists>r. rec b s1 = Some r"
  shows "\<exists>r. scan_table rec nm x ps st = Some r"
  using assms(1,2)
proof (induction ps arbitrary: st)
  case (Cons p ps)
  show ?case
  proof (cases "is_ext p")
    case True
    with Cons.prems(1) have p: "p = q" "\<not> (\<exists>p \<in> set ps. is_ext p)" by (auto simp: filter_empty_conv)
    obtain r where r: "rec b (st\<lparr>ext_lba_base := b\<rparr>) = Some r" using assms(4) by fastforce
    show ?thesis
    proof (cases r)
      case (Inl e)
      then show ?thesis using True r Cons.prems(2) p(1) assms(3) by (simp add: is_ext_def)
    next
      case (Inr s1)
      then show ?thesis using True r Cons.prems(2) p assms(3) scan_table_plain [OF p(2), of rec nm x s1]
        by (simp add: is_ext_def)
    qed
  next
    case False
    then have f: "filter is_ext ps = [q]" using Cons.prems(1) by simp
    have IH: "\<exists>r. scan_table rec nm x ps s1 = Some r" if "ext_lba_base s1 = 0" for s1
      by (rule Cons.IH [OF f that])
    with False Cons.prems(2) add_base show ?thesis
      by (fastforce simp: is_ext_def split: sum.splits)
  qed
qed simp

section \<open>Properties\<close>




text \<open>A boot record whose first entry is an extended partition at sector \<open>a\<close>, all other
  entries empty.\<close>

definition sample_mbr :: "u8 \<Rightarrow> u8 list" where
  "sample_mbr a = replicate 446 0 @ [0, 0, 0, 0, 5, 0, 0, 0, a, 0, 0, 0, 9, 0, 0, 0] @ replicate 50 0"

lemma entry_of_bytes:
  "entry_of [b0, b1, b2, b3, b4, b5, b6, b7, b8, b9, b10, b11, b12, b13, b14, b15] =
    \<lparr>fs_type = b4, p_start_lba = le_word b8 b9 b10 b11, p_sec_cnt = le_word b12 b13 b14 b15\<rparr>"
  by (simp add: entry_of_def)

lemma replicate_16: "replicate 16 x = [x, x, x, x, x, x, x, x, x, x, x, x, x, x, x, x]"
  by (simp add: numeral_eq_Suc)

lemma entry_of_zeros: "entry_of (replicate 16 0) = \<lparr>fs_type = 0, p_start_lba = 0, p_sec_cnt = 0\<rparr>"
  unfolding replicate_16 entry_of_bytes by (simp add: le_word_def)

lemma sample_mbr_table:
  "partition_table (sample_mbr a) = \<lparr>fs_type = 5, p_start_lba = unat a, p_sec_cnt = 9\<rparr> #
    replicate 3 \<lparr>fs_type = 0, p_start_lba = 0, p_sec_cnt = 0\<rparr>"
proof -
  have e: "[0..<4] = [0, 1, 2, 3 :: nat]" by (simp add: upt_rec)
  have "drop 446 (sample_mbr a) = [0, 0, 0, 0, 5, 0, 0, 0, a, 0, 0, 0, 9, 0, 0, 0] @ replicate 50 0"
    by (simp add: sample_mbr_def)
  then have "drop (446 + n) (sample_mbr a) =
      drop n ([0, 0, 0, 0, 5, 0, 0, 0, a, 0, 0, 0, 9, 0, 0, 0] @ replicate 50 0)" for n
    by (metis add.commute drop_drop)
  then show ?thesis
    by (simp add: partition_table_def e entry_of_zeros entry_of_bytes le_word_def numeral_3_eq_3)
qed

lemma empty_table:
  "partition_table (replicate 512 0) = replicate 4 \<lparr>fs_type = 0, p_start_lba = 0, p_sec_cnt = 0\<rparr>"
proof -
  have e: "[0..<4] = [0, 1, 2, 3 :: nat]" by (simp add: upt_rec)
  have "replicate 4 x = [x, x, x, x]" for x :: partition_table_entry by (simp add: numeral_eq_Suc)
  then show ?thesis by (simp add: partition_table_def e entry_of_zeros)
qed


text \<open>a partition table that names itself as the next link of the chain keeps the scan
  running for ever: no number of nested calls is enough.\<close>

theorem partition_scan_cycle:
  assumes "x \<le> max_lba" and "partition_table (d x) = p # ps" and "is_ext p" and "b \<noteq> 0"
    and "(p_start_lba p + b) mod 2 ^ 32 = x" and "ext_lba_base st = b"
  shows "partition_scan fuel d v nm x st = None"
  using assms(6)
proof (induction fuel arbitrary: st)
  case (Suc fuel)
  then show ?case using assms(1-5) by (simp add: is_ext_def)
qed simp

theorem partition_scan_cycle_witness:
  "\<forall>fuel. partition_scan fuel ((\<lambda>_. [])(7 := sample_mbr 0)) 1 [] 7
    \<lparr>ext_lba_base = 7, p_no = 0, l_no = 0, prim_parts = [], logic_parts = [], partition_list = []\<rparr> = None"
  by (intro allI partition_scan_cycle
    [where b = 7 and p = "\<lparr>fs_type = 5, p_start_lba = 0, p_sec_cnt = 9\<rparr>"
       and ps = "replicate 3 \<lparr>fs_type = 0, p_start_lba = 0, p_sec_cnt = 0\<rparr>"])
     (simp_all add: sample_mbr_table is_ext_def max_lba_def)

end
