(* ===== verification/FsBase.thy ===== *)
theory FsBase
  imports Bitmap Ide IOQueue
begin

text \<open>
  The state of the file system (\<^verbatim>\<open>kernel/fs\<close>, \<^verbatim>\<open>kernel/include/{super_block,inode,dir,file,fs}.h\<close>)
  and what all its parts use: the bitmaps of inodes and blocks, the open file tables and pipes.

  An object in a page of its own is known by the page's address.  The pages \<open>get_kernel_pages(1)\<close>
  can still hand out are the list \<open>pages\<close>, the blocks \<open>sys_malloc\<close> can hand out the list
  \<open>heap\<close>; a block a function takes and frees again stays in the list.  Fresh memory is zero.  The
  functions run to their end one after the other, the page directories and interrupts they switch
  are those of the caller, and the messages they print are left out.
\<close>

section \<open>Data\<close>

record super_block =
  magic :: nat
  sb_sec_cnt :: nat
  inode_cnt :: nat
  part_lba_base :: nat
  block_bitmap_lba :: nat
  block_bitmap_sects :: nat
  inode_bitmap_lba :: nat
  inode_bitmap_sects :: nat
  inode_table_lba :: nat
  inode_table_sects :: nat
  data_struct_lba :: nat
  root_inode_no :: nat
  dir_entry_size :: nat

record inode =
  i_no :: nat
  i_size :: nat
  i_open_cnts :: nat
  flags :: u32
  i_sectors :: "nat list"

text \<open>An open directory: the page of its inode and the page it lies in itself, \<open>None\<close> for the
  global \<open>root_dir\<close>.\<close>

record dir =
  dir_inode :: nat
  dir_page :: "nat option"

datatype fd_object = Nothing | Inode_at nat | Pipe_at nat

record open_file =
  fd_pos :: nat
  fd_flag :: nat
  fd_inode :: fd_object

record fs =
  disk :: sectors
  hd_no :: nat
  part_lba :: nat
  sb :: super_block
  block_bitmap :: bitmap
  inode_bitmap :: bitmap
  open_inodes :: "nat list"
  inodes :: "nat \<Rightarrow> inode option"
  pipes :: "nat \<Rightarrow> ioqueue option"
  root_inode :: nat
  file_table :: "open_file list"
  fd_table :: "int list"
  pages :: "nat list"
  heap :: "nat list"

definition INODE_WRITE_DENY :: u32 where "INODE_WRITE_DENY = 0x1"
definition O_RDONLY :: nat where "O_RDONLY = 0"
definition O_WRONLY :: nat where "O_WRONLY = 1"
definition O_RDWR :: nat where "O_RDWR = 2"
definition O_CREAT :: nat where "O_CREAT = 4"
definition PIPE_FLAG :: nat where "PIPE_FLAG = 1"
definition MAX_FILE_OPEN :: nat where "MAX_FILE_OPEN = 32"
definition MAX_FILES_OPEN_PER_PROC :: nat where "MAX_FILES_OPEN_PER_PROC = 8"

text \<open>Conversions to \<open>int32_t\<close> and \<open>uint32_t\<close>, and the test of one flag bit.\<close>

definition int32 :: "int \<Rightarrow> int" where "int32 z = (z + 2 ^ 31) mod 2 ^ 32 - 2 ^ 31"
definition uint32 :: "int \<Rightarrow> nat" where "uint32 z = nat (z mod 2 ^ 32)"
definition has_flag :: "nat \<Rightarrow> nat \<Rightarrow> bool" where "has_flag x f \<longleftrightarrow> (x div f) mod 2 = 1"

lemma int32_id [simp]: "- (2 ^ 31) \<le> z \<Longrightarrow> z < 2 ^ 31 \<Longrightarrow> int32 z = z"
  by (simp add: int32_def)

lemma uint32_id [simp]: "0 \<le> z \<Longrightarrow> z < 2 ^ 32 \<Longrightarrow> uint32 z = nat z"
  by (simp add: uint32_def)

section \<open>Memory and disk\<close>

definition get_kernel_page :: "fs \<Rightarrow> nat option \<times> fs" where
  "get_kernel_page s = (case pages s of [] \<Rightarrow> (None, s) | p # ps \<Rightarrow> (Some p, s\<lparr>pages := ps\<rparr>))"

text \<open>A page the code uses without a test for \<^verbatim>\<open>NULL\<close>.\<close>

definition need_page :: "fs \<Rightarrow> (nat \<times> fs) cres" where
  "need_page s = (case get_kernel_page s of (None, s) \<Rightarrow> Inl Wild | (Some p, s) \<Rightarrow> Inr (p, s))"

text \<open>\<^verbatim>\<open>mfree_page(PF_KERNEL, p, 1)\<close>: only a whole page can be freed; freeing a free page
  again changes nothing.\<close>

definition mfree_page :: "nat \<Rightarrow> fs \<Rightarrow> fs cres" where
  "mfree_page p s =
     andthen (assert_c (p mod 4096 = 0)) (\<lambda>_.
     Inr (if p \<in> set (pages s) then s else s\<lparr>pages := p # pages s\<rparr>))"

definition heap_ok :: "fs \<Rightarrow> bool" where
  "heap_ok s \<longleftrightarrow> heap s \<noteq> []"

definition dread :: "nat \<Rightarrow> nat \<Rightarrow> fs \<Rightarrow> u8 list cres" where
  "dread lba n s = ide_read (disk s) (hd_no s) lba n"

definition dwrite :: "nat \<Rightarrow> u8 list \<Rightarrow> nat \<Rightarrow> fs \<Rightarrow> fs cres" where
  "dwrite lba bs n s = andthen (ide_write (disk s) (hd_no s) lba bs n) (\<lambda>d. Inr (s\<lparr>disk := d\<rparr>))"

definition deref :: "nat \<Rightarrow> fs \<Rightarrow> inode cres" where
  "deref h s = (case inodes s h of None \<Rightarrow> Inl Wild | Some i \<Rightarrow> Inr i)"

definition put_inode :: "nat \<Rightarrow> inode \<Rightarrow> fs \<Rightarrow> fs" where
  "put_inode h i s = s\<lparr>inodes := (inodes s)(h := Some i)\<rparr>"

section \<open>Bitmaps of inodes and blocks\<close>

definition inode_bitmap_alloc :: "fs \<Rightarrow> (int \<times> fs) cres" where
  "inode_bitmap_alloc s =
     andthen (bitmap_scan (inode_bitmap s) 1) (\<lambda>bit_idx.
       if bit_idx = -1 then Inr (-1, s)
       else andthen (bitmap_set (inode_bitmap s) (nat bit_idx) 1) (\<lambda>b.
            Inr (int32 bit_idx, s\<lparr>inode_bitmap := b\<rparr>)))"

definition inode_bitmap_dealloc :: "nat \<Rightarrow> fs \<Rightarrow> (int \<times> fs) cres" where
  "inode_bitmap_dealloc bit_idx s =
     (if bit_idx = 2 ^ 32 - 1 then Inr (-1, s)
      else andthen (bitmap_set (inode_bitmap s) bit_idx 0) (\<lambda>b.
           Inr (int32 (int bit_idx), s\<lparr>inode_bitmap := b\<rparr>)))"

definition block_bitmap_alloc :: "fs \<Rightarrow> (int \<times> fs) cres" where
  "block_bitmap_alloc s =
     andthen (bitmap_scan (block_bitmap s) 1) (\<lambda>bit_idx.
       if bit_idx = -1 then Inr (-1, s)
       else andthen (bitmap_set (block_bitmap s) (nat bit_idx) 1) (\<lambda>b.
            Inr (int32 (int (data_struct_lba (sb s)) + bit_idx), s\<lparr>block_bitmap := b\<rparr>)))"

definition block_bitmap_dealloc :: "nat \<Rightarrow> fs \<Rightarrow> (int \<times> fs) cres" where
  "block_bitmap_dealloc bit_idx s =
     (if bit_idx = 2 ^ 32 - 1 then Inr (-1, s)
      else andthen (bitmap_set (block_bitmap s) bit_idx 0) (\<lambda>b.
           Inr (int32 (int (data_struct_lba (sb s)) + int bit_idx), s\<lparr>block_bitmap := b\<rparr>)))"

datatype bitmap_type = INODE_BITMAP | BLOCK_BITMAP

text \<open>One sector of the bitmap, the one that holds the bit, goes to the disk.\<close>

definition bitmap_sync :: "nat \<Rightarrow> bitmap_type \<Rightarrow> fs \<Rightarrow> fs cres" where
  "bitmap_sync bit_idx btmp s =
     (let off_sec = bit_idx div 4096; off_size = off_sec * SECTOR_SIZE
      in case btmp of
           INODE_BITMAP \<Rightarrow>
             dwrite ((inode_bitmap_lba (sb s) + off_sec) mod 2 ^ 32) (drop off_size (bits (inode_bitmap s))) 1 s
         | BLOCK_BITMAP \<Rightarrow>
             dwrite ((block_bitmap_lba (sb s) + off_sec) mod 2 ^ 32) (drop off_size (bits (block_bitmap s))) 1 s)"

text \<open>The index a block has in the bitmap: \<^verbatim>\<open>block - cur_part->sb->data_struct_lba\<close>.\<close>

definition block_index :: "nat \<Rightarrow> fs \<Rightarrow> nat" where
  "block_index lba s = uint32 (int lba - int (data_struct_lba (sb s)))"

section \<open>The open file tables\<close>

function free_slot_from :: "open_file list \<Rightarrow> nat \<Rightarrow> int" where
  "free_slot_from ft fd_idx =
     (if fd_idx < MAX_FILE_OPEN
      then if fd_inode (ft ! fd_idx) = Nothing then int fd_idx else free_slot_from ft (fd_idx + 1)
      else -1)"
  by pat_completeness auto
termination
  by (relation "measure (\<lambda>(ft, i). MAX_FILE_OPEN - i)") auto

declare free_slot_from.simps [simp del]

definition get_free_slot_in_global :: "fs \<Rightarrow> int" where
  "get_free_slot_in_global s = free_slot_from (file_table s) 3"

function fd_install_from :: "int list \<Rightarrow> int \<Rightarrow> nat \<Rightarrow> int \<times> int list" where
  "fd_install_from ft global_fd_idx local_fd_idx =
     (if local_fd_idx < MAX_FILES_OPEN_PER_PROC
      then if ft ! local_fd_idx = -1 then (int local_fd_idx, ft[local_fd_idx := global_fd_idx])
           else fd_install_from ft global_fd_idx (local_fd_idx + 1)
      else (-1, ft))"
  by pat_completeness auto
termination
  by (relation "measure (\<lambda>(ft, g, i). MAX_FILES_OPEN_PER_PROC - i)") auto

declare fd_install_from.simps [simp del]

definition pcb_fd_install :: "int \<Rightarrow> fs \<Rightarrow> int \<times> fs" where
  "pcb_fd_install global_fd_idx s =
     (let (fd, ft) = fd_install_from (fd_table s) global_fd_idx 3 in (fd, s\<lparr>fd_table := ft\<rparr>))"

text \<open>Both the argument and the result are \<^verbatim>\<open>uint32_t\<close>: the failure \<open>-1\<close> is \<open>2 ^ 32 - 1\<close>.\<close>

definition fd_local2global :: "nat \<Rightarrow> fs \<Rightarrow> nat" where
  "fd_local2global local_fd s =
     (if local_fd \<ge> MAX_FILES_OPEN_PER_PROC then 2 ^ 32 - 1 else uint32 (fd_table s ! local_fd))"

definition is_pipe :: "nat \<Rightarrow> fs \<Rightarrow> bool cres" where
  "is_pipe local_fd s =
     andthen (rd (file_table s) (fd_local2global local_fd s)) (\<lambda>f. Inr (fd_flag f = PIPE_FLAG))"

definition set_file :: "nat \<Rightarrow> open_file \<Rightarrow> fs \<Rightarrow> fs cres" where
  "set_file fd f s = andthen (wr (file_table s) fd f) (\<lambda>ft. Inr (s\<lparr>file_table := ft\<rparr>))"

text \<open>\<^verbatim>\<open>sys_pipe\<close> initialises the queue before it tests the page for \<^verbatim>\<open>NULL\<close>, and uses
  the result of \<^verbatim>\<open>get_free_slot_in_global\<close> untested.  A fresh page is zero.\<close>

definition zero_ioqueue :: ioqueue where
  "zero_ioqueue = \<lparr>lock_consumer = None, lock_producer = None, producer = None, consumer = None,
     buf = replicate 64 0, head = 0, tail = 0\<rparr>"

definition sys_pipe :: "fs \<Rightarrow> ((int \<times> int) \<times> fs) cres" where
  "sys_pipe s =
     (let global_fd = get_free_slot_in_global s
      in andthen (need_page s) (\<lambda>(p, s).
         andthen (set_file (uint32 global_fd) \<lparr>fd_pos = 2, fd_flag = PIPE_FLAG, fd_inode = Pipe_at p\<rparr>
           (s\<lparr>pipes := (pipes s)(p := Some (ioqueue_init zero_ioqueue))\<rparr>)) (\<lambda>s.
         let (fd0, s) = pcb_fd_install global_fd s; (fd1, s) = pcb_fd_install global_fd s
         in Inr ((fd0, fd1), s))))"

end
