(* ===== verification/Inode.thy ===== *)
theory Inode
  imports FsBase
begin

text \<open>
  \<^verbatim>\<open>kernel/fs/inode.c\<close>: the inode table on the disk and the open inodes in memory.

  An inode takes 76 bytes: four words, thirteen block addresses and the two pointers of its list
  tag, which are zero on the disk.  Some inodes lie across two sectors.
\<close>

section \<open>The code\<close>

definition inode_len :: nat where "inode_len = 76"

definition inode_bytes :: "inode \<Rightarrow> u8 list" where
  "inode_bytes i = bytes_of ([i_no i, i_size i, i_open_cnts i, unat (flags i)] @ i_sectors i @ [0, 0])"

definition inode_of_words :: "nat list \<Rightarrow> inode" where
  "inode_of_words ws =
     \<lparr>i_no = ws ! 0, i_size = ws ! 1, i_open_cnts = ws ! 2, flags = of_nat (ws ! 3),
      i_sectors = take 13 (drop 4 ws)\<rparr>"

record inode_position =
  two_sec :: bool
  sec_lba :: nat
  off_size :: nat

definition inode_locate :: "fs \<Rightarrow> nat \<Rightarrow> inode_position cres" where
  "inode_locate s inode_no =
     andthen (assert_c (inode_no < 4096)) (\<lambda>_.
     let off_size = inode_no * inode_len;
         off_sec = off_size div SECTOR_SIZE;
         off_size_in_sec = off_size mod SECTOR_SIZE
     in Inr \<lparr>two_sec = (off_size_in_sec + inode_len > SECTOR_SIZE),
             sec_lba = (inode_table_lba (sb s) + off_sec) mod 2 ^ 32,
             off_size = off_size_in_sec\<rparr>)"

text \<open>The sectors an inode lies in, read into a buffer of \<open>io_len\<close> bytes.\<close>

definition read_position :: "inode_position \<Rightarrow> nat \<Rightarrow> fs \<Rightarrow> u8 list cres" where
  "read_position pos io_len s =
     (let n = (if two_sec pos then 2 else 1)
      in if io_len < n * SECTOR_SIZE then Inl Wild else dread (sec_lba pos) n s)"

definition write_position :: "inode_position \<Rightarrow> u8 list \<Rightarrow> fs \<Rightarrow> fs cres" where
  "write_position pos bs s = dwrite (sec_lba pos) bs (if two_sec pos then 2 else 1) s"

text \<open>\<^verbatim>\<open>inode_sync\<close> keeps the number in a \<^verbatim>\<open>uint8_t\<close>.\<close>

definition inode_sync :: "inode \<Rightarrow> nat \<Rightarrow> fs \<Rightarrow> fs cres" where
  "inode_sync i io_len s =
     (let inode_no = i_no i mod 2 ^ 8
      in andthen (inode_locate s inode_no) (\<lambda>pos.
         let pure_inode = i\<lparr>i_open_cnts := 0, flags := flags i AND NOT INODE_WRITE_DENY\<rparr>
         in andthen (read_position pos io_len s) (\<lambda>inode_buf.
            andthen (put_at inode_buf (off_size pos) (inode_bytes pure_inode)) (\<lambda>inode_buf.
            write_position pos inode_buf s))))"

fun find_open :: "nat \<Rightarrow> nat list \<Rightarrow> fs \<Rightarrow> nat option cres" where
  "find_open inode_no [] s = Inr None"
| "find_open inode_no (h # hs) s =
     andthen (deref h s) (\<lambda>i. if i_no i = inode_no then Inr (Some h) else find_open inode_no hs s)"

definition inode_open :: "nat \<Rightarrow> fs \<Rightarrow> (nat \<times> fs) cres" where
  "inode_open inode_no s =
     andthen (find_open inode_no (open_inodes s) s) (\<lambda>found.
       case found of
         Some h \<Rightarrow>
           andthen (deref h s) (\<lambda>i.
           Inr (h, put_inode h (i\<lparr>i_open_cnts := (i_open_cnts i + 1) mod 2 ^ 32\<rparr>) s))
       | None \<Rightarrow>
           andthen (inode_locate s inode_no) (\<lambda>pos.
           andthen (need_page s) (\<lambda>(h, s).
           andthen (need_page s) (\<lambda>(inode_buf, s).
           andthen (read_position pos 4096 s) (\<lambda>bs.
           andthen (get_at bs (off_size pos) inode_len) (\<lambda>bs.
           let s = put_inode h (inode_of_words (words_of bs)\<lparr>i_open_cnts := 1\<rparr>) s
           in andthen (mfree_page inode_buf (s\<lparr>open_inodes := h # open_inodes s\<rparr>)) (\<lambda>s. Inr (h, s))))))))"

definition inode_close :: "nat \<Rightarrow> fs \<Rightarrow> fs cres" where
  "inode_close h s =
     andthen (deref h s) (\<lambda>i.
       if i_no i = 0 then Inr s
       else
         let i = i\<lparr>i_open_cnts := uint32 (int (i_open_cnts i) - 1)\<rparr>; s = put_inode h i s
         in if i_open_cnts i = 0
            then
              andthen (need_page (s\<lparr>open_inodes := remove1 h (open_inodes s)\<rparr>)) (\<lambda>(io_buf, s).
              andthen (inode_sync i 4096 s) (\<lambda>s.
              andthen (mfree_page io_buf s) (\<lambda>s.
              mfree_page h (s\<lparr>inodes := (inodes s)(h := None)\<rparr>))))
            else Inr s)"

definition inode_init :: "nat \<Rightarrow> inode \<Rightarrow> inode" where
  "inode_init inode_no new_inode =
     new_inode\<lparr>i_no := inode_no, i_size := 0, i_open_cnts := 0, flags := 0, i_sectors := replicate 13 0\<rparr>"

definition inode_delete :: "nat \<Rightarrow> nat \<Rightarrow> fs \<Rightarrow> fs cres" where
  "inode_delete inode_no io_len s =
     andthen (assert_c (inode_no < 4096)) (\<lambda>_.
     andthen (inode_locate s inode_no) (\<lambda>pos.
     andthen (read_position pos io_len s) (\<lambda>inode_buf.
     andthen (put_at inode_buf (off_size pos) (replicate inode_len 0)) (\<lambda>inode_buf.
     andthen (write_position pos inode_buf s) (\<lambda>s.
     andthen (inode_bitmap_dealloc inode_no s) (\<lambda>(_, s).
     bitmap_sync inode_no INODE_BITMAP s))))))"

end
