(* ===== verification/Dir.thy ===== *)
theory Dir
  imports Inode
begin

text \<open>
  \<^verbatim>\<open>kernel/fs/dir.c\<close>: directories, files of 32 byte entries, sixteen to a block.

  A name takes 24 bytes; a name of exactly 24 characters has no terminating zero, and comparing it
  runs on into the number behind it, as it does here.
\<close>

section \<open>Entries\<close>

definition FT_UNKNOWN :: nat where "FT_UNKNOWN = 0"
definition FT_REGULAR :: nat where "FT_REGULAR = 1"
definition FT_DIRECTORY :: nat where "FT_DIRECTORY = 2"
definition MAX_FILE_NAME_LEN :: nat where "MAX_FILE_NAME_LEN = 24"
definition BLOCK_SIZE :: nat where "BLOCK_SIZE = 512"

record dir_entry =
  filename :: "u8 list"
  e_i_no :: nat
  f_type :: nat

definition entry_bytes :: "dir_entry \<Rightarrow> u8 list" where
  "entry_bytes e = filename e @ le_bytes (e_i_no e) @ le_bytes (f_type e)"

definition entry_len :: nat where "entry_len = 32"

definition entry_at :: "u8 list \<Rightarrow> nat \<Rightarrow> dir_entry" where
  "entry_at bs i =
     (let e = take entry_len (drop (i * entry_len) bs); ws = words_of (drop 24 e)
      in \<lparr>filename = take 24 e, e_i_no = ws ! 0, f_type = ws ! 1\<rparr>)"

section \<open>The blocks of a directory\<close>

text \<open>\<^verbatim>\<open>all_blocks\<close>: the twelve addresses in the inode, then the 128 of the indirect
  block, if there is one.  What follows in the array is zero.\<close>

definition load_blocks :: "nat \<Rightarrow> inode \<Rightarrow> fs \<Rightarrow> nat list cres" where
  "load_blocks len i s =
     (let direct = take 12 (i_sectors i)
      in if i_sectors i ! 12 \<noteq> 0
         then andthen (dread (i_sectors i ! 12) 1 s) (\<lambda>bs.
              Inr (direct @ words_of bs @ replicate (len - 140) 0))
         else Inr (direct @ replicate (len - 12) 0))"

section \<open>Looking a name up\<close>

definition dir_open :: "nat \<Rightarrow> fs \<Rightarrow> (dir \<times> fs) cres" where
  "dir_open inode_no s =
     andthen (need_page s) (\<lambda>(p, s).
     andthen (inode_open inode_no s) (\<lambda>(h, s).
     Inr (\<lparr>dir_inode = h, dir_page = Some p\<rparr>, s)))"

definition open_root_dir :: "fs \<Rightarrow> fs cres" where
  "open_root_dir s = andthen (inode_open (root_inode_no (sb s)) s) (\<lambda>(h, s). Inr (s\<lparr>root_inode := h\<rparr>))"

definition root_dir :: "fs \<Rightarrow> dir" where
  "root_dir s = \<lparr>dir_inode = root_inode s, dir_page = None\<rparr>"

definition dir_close :: "dir \<Rightarrow> fs \<Rightarrow> fs cres" where
  "dir_close d s =
     (case dir_page d of
        None \<Rightarrow> Inr s
      | Some p \<Rightarrow> andthen (inode_close (dir_inode d) s) (mfree_page p))"

text \<open>The inner loop over one block; \<open>page\<close> is the whole buffer page.\<close>

function search_block :: "u8 list \<Rightarrow> nat \<Rightarrow> u8 list \<Rightarrow> nat \<Rightarrow> dir_entry option cres" where
  "search_block page dir_entry_cnt name dir_entry_idx =
     (if dir_entry_idx < dir_entry_cnt
      then
        andthen (strcmp (drop (dir_entry_idx * entry_len) page) name) (\<lambda>c.
          if c = 0 then Inr (Some (entry_at page dir_entry_idx))
          else search_block page dir_entry_cnt name (dir_entry_idx + 1))
      else Inr None)"
  by pat_completeness auto
termination
  by (relation "measure (\<lambda>(p, n, m, i). n - i)") auto

declare search_block.simps [simp del]

fun search_blocks :: "nat list \<Rightarrow> nat \<Rightarrow> u8 list \<Rightarrow> fs \<Rightarrow> dir_entry option cres" where
  "search_blocks [] dir_entry_cnt name s = Inr None"
| "search_blocks (b # bs) dir_entry_cnt name s =
     (if b = 0 then search_blocks bs dir_entry_cnt name s
      else
        andthen (dread b 1 s) (\<lambda>sec.
        andthen (search_block (sec @ replicate (4096 - SECTOR_SIZE) 0) dir_entry_cnt name 0) (\<lambda>r.
          case r of Some e \<Rightarrow> Inr (Some e) | None \<Rightarrow> search_blocks bs dir_entry_cnt name s)))"

text \<open>A hit frees the block list twice and the sector buffer never.  The copy out takes
  \<open>dir_entry_size\<close> bytes, the size of an entry on every disk the code formats; with another size in
  the super block it would not be an entry.\<close>

definition search_dir_entry :: "dir \<Rightarrow> u8 list \<Rightarrow> fs \<Rightarrow> (dir_entry option \<times> fs) cres" where
  "search_dir_entry pdir name s =
     andthen (need_page s) (\<lambda>(all_blocks, s).
     andthen (deref (dir_inode pdir) s) (\<lambda>i.
     andthen (load_blocks 140 i s) (\<lambda>blocks.
     andthen (need_page s) (\<lambda>(data_buf, s).
       if dir_entry_size (sb s) = 0 then Inl DivZero
       else if dir_entry_size (sb s) \<noteq> entry_len then Inl Wild
       else
         andthen (search_blocks blocks (SECTOR_SIZE div dir_entry_size (sb s)) name s) (\<lambda>r.
           case r of
             Some e \<Rightarrow>
               andthen (mfree_page all_blocks s) (\<lambda>s.
               andthen (mfree_page all_blocks s) (\<lambda>s. Inr (Some e, s)))
           | None \<Rightarrow>
               andthen (mfree_page data_buf s) (\<lambda>s.
               andthen (mfree_page all_blocks s) (\<lambda>s. Inr (None, s))))))))"

section \<open>Adding a name\<close>

definition create_dir_entry :: "u8 list \<Rightarrow> nat \<Rightarrow> nat \<Rightarrow> dir_entry \<Rightarrow> dir_entry cres" where
  "create_dir_entry name inode_no file_type p_de =
     andthen (strlen name) (\<lambda>n.
     andthen (assert_c (n \<le> MAX_FILE_NAME_LEN)) (\<lambda>_.
     andthen (memcpy (filename p_de) name n) (\<lambda>f.
     Inr \<lparr>filename = f, e_i_no = inode_no, f_type = file_type\<rparr>)))"

text \<open>The first free entry of a block: \<open>None\<close> when all are taken.\<close>

function free_entry :: "u8 list \<Rightarrow> nat \<Rightarrow> nat \<Rightarrow> nat option" where
  "free_entry sec dir_entry_per_sec dir_entry_idx =
     (if dir_entry_idx < dir_entry_per_sec
      then if f_type (entry_at sec dir_entry_idx) = FT_UNKNOWN then Some dir_entry_idx
           else free_entry sec dir_entry_per_sec (dir_entry_idx + 1)
      else None)"
  by pat_completeness auto
termination
  by (relation "measure (\<lambda>(s, n, i). n - i)") auto

declare free_entry.simps [simp del]

text \<open>Trying one block: the entry is put into it when it has room.\<close>

definition try_block :: "nat \<Rightarrow> nat \<Rightarrow> dir_entry \<Rightarrow> fs \<Rightarrow> (bool \<times> fs) cres" where
  "try_block h b p_de s =
     andthen (dread b 1 s) (\<lambda>io_buf.
       case free_entry io_buf (SECTOR_SIZE div dir_entry_size (sb s)) 0 of
         Some k \<Rightarrow>
           andthen (put_at io_buf (k * entry_len) (entry_bytes p_de)) (\<lambda>io_buf.
           andthen (dwrite b io_buf 1 s) (\<lambda>s.
           andthen (deref h s) (\<lambda>i.
           Inr (True, put_inode h (i\<lparr>i_size := (i_size i + dir_entry_size (sb s)) mod 2 ^ 32\<rparr>) s))))
       | None \<Rightarrow> Inr (False, s))"

definition set_sector :: "nat \<Rightarrow> nat \<Rightarrow> nat \<Rightarrow> fs \<Rightarrow> fs cres" where
  "set_sector h k v s =
     andthen (deref h s) (\<lambda>i. Inr (put_inode h (i\<lparr>i_sectors := (i_sectors i)[k := v]\<rparr>) s))"

text \<open>Giving the directory its block number \<open>block_idx\<close>; the result is the block list, or
  \<open>None\<close> when the disk is full.\<close>

definition new_block :: "nat \<Rightarrow> nat \<Rightarrow> nat list \<Rightarrow> fs \<Rightarrow> (nat list option \<times> fs) cres" where
  "new_block h block_idx all_blocks s =
     andthen (block_bitmap_alloc s) (\<lambda>(block_lba, s).
       if block_lba = -1 then Inr (None, s)
       else
         let lba = uint32 block_lba
         in andthen (bitmap_sync (block_index lba s) BLOCK_BITMAP s) (\<lambda>s.
            if block_idx < 12
            then andthen (set_sector h block_idx lba s) (\<lambda>s. Inr (Some (all_blocks[block_idx := lba]), s))
            else
              andthen (deref h s) (\<lambda>i.
              if i_sectors i ! 12 = 0
              then
                andthen (set_sector h 12 lba s) (\<lambda>s.
                andthen (block_bitmap_alloc s) (\<lambda>(block_lba2, s).
                  if block_lba2 = -1
                  then andthen (bitmap_set (block_bitmap s) (block_index lba s) 0) (\<lambda>b.
                       andthen (set_sector h 12 0 (s\<lparr>block_bitmap := b\<rparr>)) (\<lambda>s. Inr (None, s)))
                  else
                    let lba2 = uint32 block_lba2; all_blocks = all_blocks[12 := lba2]
                    in andthen (bitmap_sync (block_index lba2 s) BLOCK_BITMAP s) (\<lambda>s.
                       andthen (dwrite lba (bytes_of (take 128 (drop 12 all_blocks))) 1 s) (\<lambda>s.
                       Inr (Some all_blocks, s)))))
              else Inr (Some (all_blocks[block_idx := lba]), s))))"

text \<open>The loop over the first thirteen blocks, which adds missing ones, and the loop over the
  rest, which does not look whether there is a block: for a zero address it uses sector 0.\<close>

function sync_first :: "nat \<Rightarrow> dir_entry \<Rightarrow> nat list \<Rightarrow> nat \<Rightarrow> fs \<Rightarrow> (bool option \<times> fs) cres" where
  "sync_first h p_de all_blocks block_idx s =
     (if block_idx < 13
      then
        if all_blocks ! block_idx = 0
        then
          andthen (new_block h block_idx all_blocks s) (\<lambda>(r, s).
            case r of
              None \<Rightarrow> Inr (Some False, s)
            | Some all_blocks \<Rightarrow>
                andthen (put_at (replicate SECTOR_SIZE 0) 0 (entry_bytes p_de)) (\<lambda>io_buf.
                andthen (dwrite (all_blocks ! block_idx) io_buf 1 s) (\<lambda>s. Inr (Some True, s))))
        else
          andthen (try_block h (all_blocks ! block_idx) p_de s) (\<lambda>(done, s).
            if done then Inr (Some True, s) else sync_first h p_de all_blocks (block_idx + 1) s)
      else Inr (None, s))"
  by pat_completeness auto
termination
  by (relation "measure (\<lambda>(h, e, bs, i, s). 13 - i)") auto

declare sync_first.simps [simp del]

fun sync_rest :: "nat \<Rightarrow> dir_entry \<Rightarrow> nat list \<Rightarrow> fs \<Rightarrow> (bool \<times> fs) cres" where
  "sync_rest h p_de [] s = Inr (False, s)"
| "sync_rest h p_de (b # bs) s =
     andthen (try_block h b p_de s) (\<lambda>(done, s).
       if done then Inr (True, s) else sync_rest h p_de bs s)"

definition sync_dir_entry :: "dir \<Rightarrow> dir_entry \<Rightarrow> fs \<Rightarrow> (bool \<times> fs) cres" where
  "sync_dir_entry parent_dir p_de s =
     (let h = dir_inode parent_dir
      in andthen (deref h s) (\<lambda>i.
         if dir_entry_size (sb s) = 0 then Inl DivZero
         else if dir_entry_size (sb s) \<noteq> entry_len then Inl Wild
         else
           andthen (assert_c (i_size i mod dir_entry_size (sb s) = 0)) (\<lambda>_.
           andthen (load_blocks 140 i s) (\<lambda>all_blocks.
           andthen (sync_first h p_de all_blocks 0 s) (\<lambda>(r, s).
             case r of
               Some done \<Rightarrow> Inr (done, s)
             | None \<Rightarrow> sync_rest h p_de (drop 13 all_blocks) s)))))"

end
