(* ===== verification/File.thy ===== *)
theory File
  imports Dir
begin

text \<open>
  \<^verbatim>\<open>kernel/fs/file.c\<close>: creating, opening, closing, reading, writing and truncating
  files, and \<open>dir_create\<close> of \<^verbatim>\<open>kernel/fs/dir.c\<close>, which repeats \<open>file_create\<close>.

  A file has twelve direct blocks and up to 128 more through the indirect block number 12.  The
  operations work on the inode of an open file, given by its page.
\<close>

section \<open>Blocks of a file\<close>

text \<open>\<open>None\<close> stands for the return of \<open>-1\<close> when the disk is full.  The block list is a
  page of 1024 words.\<close>

definition zero_block :: "nat \<Rightarrow> fs \<Rightarrow> fs cres" where
  "zero_block lba s = andthen (dread lba 1 s) (\<lambda>_. dwrite lba (replicate BLOCK_SIZE 0) 1 s)"

definition indirect_bytes :: "nat list \<Rightarrow> u8 list" where
  "indirect_bytes all_blocks = bytes_of (take 128 (drop 12 all_blocks))"

definition fill_direct :: "nat \<Rightarrow> nat \<Rightarrow> nat list \<Rightarrow> fs \<Rightarrow> (nat list option \<times> fs) cres" where
  "fill_direct h k all_blocks s =
     andthen (block_bitmap_alloc s) (\<lambda>(block_idx, s).
       if block_idx = -1 then Inr (None, s)
       else
         let lba = uint32 block_idx
         in andthen (set_sector h k lba s) (\<lambda>s.
            andthen (zero_block lba s) (\<lambda>s.
            andthen (bitmap_sync (block_index lba s) BLOCK_BITMAP s) (\<lambda>s.
            Inr (Some (all_blocks[k := lba]), s)))))"

text \<open>The first block behind the direct ones comes with the indirect block.  The loop over the
  later blocks of a write swaps the two (\<open>swapped\<close>): it puts the list into the data block, clears
  the indirect block and leaves it so.\<close>

definition fill_first :: "bool \<Rightarrow> nat \<Rightarrow> nat list \<Rightarrow> fs \<Rightarrow> ((nat list \<times> nat) option \<times> fs) cres" where
  "fill_first swapped h all_blocks s =
     andthen (block_bitmap_alloc s) (\<lambda>(block_idx, s).
     andthen (block_bitmap_alloc s) (\<lambda>(secondary_block_idx, s).
       if block_idx = -1 \<or> secondary_block_idx = -1 then Inr (None, s)
       else
         let first = uint32 block_idx; second = uint32 secondary_block_idx;
             (data, secondary_lba) = (if swapped then (second, first) else (first, second));
             all_blocks = take 12 all_blocks @ data # replicate 127 0 @ drop 140 all_blocks
         in andthen (dwrite second (indirect_bytes all_blocks) 1 s) (\<lambda>s.
            andthen (set_sector h 12 secondary_lba s) (\<lambda>s.
            andthen (zero_block first s) (\<lambda>s.
            andthen (bitmap_sync (block_index first s) BLOCK_BITMAP s) (\<lambda>s.
            andthen (bitmap_sync (block_index second s) BLOCK_BITMAP s) (\<lambda>s.
            Inr (Some (all_blocks, secondary_lba), s))))))))"

definition fill_indirect :: "nat \<Rightarrow> nat list \<Rightarrow> nat \<Rightarrow> fs \<Rightarrow> (nat list option \<times> fs) cres" where
  "fill_indirect k all_blocks secondary_lba s =
     andthen (block_bitmap_alloc s) (\<lambda>(block_idx, s).
       if block_idx = -1 then Inr (None, s)
       else
         let lba = uint32 block_idx; all_blocks = all_blocks[k := lba]
         in andthen (dwrite secondary_lba (indirect_bytes all_blocks) 1 s) (\<lambda>s.
            andthen (zero_block lba s) (\<lambda>s.
            andthen (bitmap_sync (block_index lba s) BLOCK_BITMAP s) (\<lambda>s.
            Inr (Some all_blocks, s)))))"

definition ensure_block :: "bool \<Rightarrow> nat \<Rightarrow> nat \<Rightarrow> nat list \<times> nat \<Rightarrow> fs \<Rightarrow>
    ((nat list \<times> nat) option \<times> fs) cres" where
  "ensure_block swapped h k bl s =
     (let (all_blocks, secondary_lba) = bl
      in andthen (rd all_blocks k) (\<lambda>b.
         if b \<noteq> 0 then Inr (Some (all_blocks, secondary_lba), s)
         else if k < 12
         then andthen (fill_direct h k all_blocks s) (\<lambda>(r, s).
              Inr (map_option (\<lambda>bs. (bs, secondary_lba)) r, s))
         else if k = 12 then fill_first swapped h all_blocks s
         else andthen (fill_indirect k all_blocks secondary_lba s) (\<lambda>(r, s).
              Inr (map_option (\<lambda>bs. (bs, secondary_lba)) r, s))))"

section \<open>Writing\<close>

text \<open>First loop: every block before the one at the offset.\<close>

function write_before :: "nat \<Rightarrow> nat \<Rightarrow> nat \<Rightarrow> nat list \<times> nat \<Rightarrow> fs \<Rightarrow>
    ((nat list \<times> nat) option \<times> fs) cres" where
  "write_before h block_start blocks_passed bl s =
     (if blocks_passed < block_start
      then
        andthen (ensure_block False h blocks_passed bl s) (\<lambda>(r, s).
          case r of
            None \<Rightarrow> Inr (None, s)
          | Some bl \<Rightarrow> write_before h block_start (blocks_passed + 1) bl s)
      else Inr (Some bl, s))"
  by pat_completeness auto
termination
  by (relation "measure (\<lambda>(h, n, k, bl, s). n - k)") auto

declare write_before.simps [simp del]

text \<open>Reading a block, replacing a piece of it, writing it back.\<close>

definition patch_block :: "nat \<Rightarrow> nat \<Rightarrow> u8 list \<Rightarrow> fs \<Rightarrow> fs cres" where
  "patch_block lba off piece s =
     andthen (dread lba 1 s) (\<lambda>io_buf.
     andthen (put_at io_buf off piece) (\<lambda>io_buf.
     dwrite lba io_buf 1 s))"

text \<open>Last loop: whole blocks from \<open>data\<close> on, \<open>needToWrite\<close> bytes.  The result is
  the number of bytes passed.\<close>

function write_rest :: "nat \<Rightarrow> nat \<Rightarrow> nat list \<times> nat \<Rightarrow> u8 list \<Rightarrow> nat \<Rightarrow> nat \<Rightarrow> fs \<Rightarrow>
    (nat option \<times> fs) cres" where
  "write_rest h blocks_passed bl data needToWrite bytes_passed s =
     (if needToWrite > 0
      then
        andthen (ensure_block True h blocks_passed bl s) (\<lambda>(r, s).
          case r of
            None \<Rightarrow> Inr (None, s)
          | Some bl \<Rightarrow>
              let writeSize = (if needToWrite \<ge> BLOCK_SIZE then BLOCK_SIZE else needToWrite)
              in andthen (get_at data 0 writeSize) (\<lambda>piece.
                 andthen (patch_block (fst bl ! blocks_passed) 0 piece s) (\<lambda>s.
                 write_rest h (blocks_passed + 1) bl (drop writeSize data) (needToWrite - writeSize)
                   (bytes_passed + writeSize) s)))
      else Inr (Some bytes_passed, s))"
  by pat_completeness auto
termination
  by (relation "measure (\<lambda>(h, k, bl, d, n, p, s). n)") (auto simp: BLOCK_SIZE_def)

declare write_rest.simps [simp del]

text \<open>The body of \<open>file_write\<close> between the two allocations and their release.\<close>

definition write_blocks :: "nat \<Rightarrow> u8 list \<Rightarrow> nat \<Rightarrow> nat \<Rightarrow> fs \<Rightarrow> (nat option \<times> fs) cres" where
  "write_blocks h data offset bsize s =
     andthen (deref h s) (\<lambda>i.
     andthen (load_blocks 1024 i s) (\<lambda>all_blocks.
     let block_start = offset div BLOCK_SIZE; in_block_offset = offset mod BLOCK_SIZE
     in andthen (write_before h block_start 0 (all_blocks, i_sectors i ! 12) s) (\<lambda>(r, s).
        case r of
          None \<Rightarrow> Inr (None, s)
        | Some bl \<Rightarrow>
            andthen (ensure_block False h block_start bl s) (\<lambda>(r, s).
              case r of
                None \<Rightarrow> Inr (None, s)
              | Some bl \<Rightarrow>
                  let writeSize = (if bsize \<ge> BLOCK_SIZE - in_block_offset
                                   then BLOCK_SIZE - in_block_offset else bsize)
                  in andthen (get_at data 0 writeSize) (\<lambda>piece.
                     andthen (patch_block (fst bl ! block_start) in_block_offset piece s) (\<lambda>s.
                     write_rest h (block_start + 1) bl (drop writeSize data) (bsize - writeSize)
                       (block_start * BLOCK_SIZE + writeSize) s))))))"

definition file_write :: "nat \<Rightarrow> u8 list \<Rightarrow> nat \<Rightarrow> nat \<Rightarrow> fs \<Rightarrow> (int \<times> fs) cres" where
  "file_write h data offset bsize s =
     (if (bsize + offset) mod 2 ^ 32 > BLOCK_SIZE * 140 then Inr (-1, s)
      else
        case get_kernel_page s of
          (None, s) \<Rightarrow> Inr (-1, s)
        | (Some io_buf, s) \<Rightarrow>
            andthen (need_page s) (\<lambda>(all_blocks, s).
            andthen (write_blocks h data offset bsize s) (\<lambda>(r, s).
              case r of
                None \<Rightarrow>
                  andthen (mfree_page io_buf s) (\<lambda>s.
                  andthen (mfree_page all_blocks s) (\<lambda>s. Inr (-1, s)))
              | Some bytes_passed \<Rightarrow>
                  andthen (deref h s) (\<lambda>i.
                  let n = (offset + bsize) mod 2 ^ 32;
                      i = i\<lparr>i_size := (if n \<ge> i_size i then n else i_size i)\<rparr>;
                      s = put_inode h i s
                  in andthen (inode_sync i 4096 s) (\<lambda>s.
                     andthen (mfree_page io_buf s) (\<lambda>s.
                     andthen (mfree_page all_blocks s) (\<lambda>s.
                     Inr (int32 (int bytes_passed - int offset), s))))))))"

section \<open>Reading\<close>

text \<open>Here the list of blocks stops at the first zero address.\<close>

definition load_until :: "inode \<Rightarrow> fs \<Rightarrow> nat list cres" where
  "load_until i s =
     (let ds = takeWhile (\<lambda>b. b \<noteq> 0) (take 13 (i_sectors i))
      in if length ds = 13
         then andthen (dread (ds ! 12) 1 s) (\<lambda>bs. Inr (take 12 ds @ words_of bs))
         else Inr (ds @ replicate (140 - length ds) 0))"

text \<open>The bytes read after the first piece, or \<open>None\<close> at a block that is missing.\<close>

function read_rest :: "nat list \<Rightarrow> nat \<Rightarrow> nat \<Rightarrow> fs \<Rightarrow> u8 list option cres" where
  "read_rest all_blocks blocks_passed left_to_read s =
     (if left_to_read > 0
      then
        andthen (rd all_blocks blocks_passed) (\<lambda>b.
          if b = 0 then Inr None
          else
            let read_in_block = (if left_to_read \<ge> BLOCK_SIZE then BLOCK_SIZE else left_to_read)
            in andthen (dread b 1 s) (\<lambda>io_buf.
               andthen (get_at io_buf 0 read_in_block) (\<lambda>piece.
               andthen (read_rest all_blocks (blocks_passed + 1) (left_to_read - read_in_block) s) (\<lambda>r.
               Inr (map_option (\<lambda>bs. piece @ bs) r)))))
      else Inr (Some []))"
  by pat_completeness auto
termination
  by (relation "measure (\<lambda>(bs, k, n, s). n)") (auto simp: BLOCK_SIZE_def)

declare read_rest.simps [simp del]

text \<open>The return value, and the bytes stored at \<^verbatim>\<open>buf\<close> when it is not \<open>-1\<close>.\<close>

definition file_read :: "nat \<Rightarrow> nat \<Rightarrow> nat \<Rightarrow> fs \<Rightarrow> (int \<times> u8 list) cres" where
  "file_read h offset bsize s =
     andthen (deref h s) (\<lambda>i.
       if offset \<ge> i_size i then Inr (-1, [])
       else
         andthen (load_until i s) (\<lambda>all_blocks.
         let in_block_offset = offset mod BLOCK_SIZE;
             left_to_read = (if (offset + bsize) mod 2 ^ 32 > i_size i then i_size i - offset else bsize);
             blocks_passed = offset div BLOCK_SIZE
         in andthen (rd all_blocks blocks_passed) (\<lambda>b.
            if b = 0 then Inr (-1, [])
            else if \<not> heap_ok s then Inl Wild
            else
              let read_in_block = (if left_to_read \<ge> BLOCK_SIZE - in_block_offset
                                   then BLOCK_SIZE - in_block_offset else left_to_read)
              in andthen (dread b 1 s) (\<lambda>io_buf.
                 andthen (get_at io_buf in_block_offset read_in_block) (\<lambda>piece.
                 andthen (read_rest all_blocks (blocks_passed + 1) (left_to_read - read_in_block) s) (\<lambda>r.
                 case r of None \<Rightarrow> Inr (-1, []) | Some bs \<Rightarrow> Inr (int32 (int (length (piece @ bs))), piece @ bs)))))))"

end
