(* ===== verification/FileSpec.thy ===== *)
theory FileSpec
  imports File
begin

text \<open>
  Files as sequences of bytes: \<^verbatim>\<open>file_write\<close> and \<^verbatim>\<open>file_read\<close> against the contents a file
  has as a function of the position, for the part of a file its direct blocks hold.
\<close>

section \<open>The layout of a partition\<close>

text \<open>Every sector is complete; the data area lies on the disk behind the bitmap of its blocks
  and behind the table of inodes, and the bitmap in memory covers its sectors.\<close>

definition fs_ok :: "fs \<Rightarrow> bool" where
  "fs_ok s \<longleftrightarrow> (\<forall>x. length (disk s x) = 512) \<and> bitmap_guarded (block_bitmap s) \<and>
     data_struct_lba (sb s) + nbits (block_bitmap s) \<le> max_lba + 1 \<and>
     (\<forall>r. r < nbits (block_bitmap s) \<longrightarrow> block_bitmap_lba (sb s) + r div 4096 < data_struct_lba (sb s) \<and>
        r div 4096 * 512 + 512 \<le> length (bits (block_bitmap s))) \<and>
     inode_table_lba (sb s) + 608 \<le> data_struct_lba (sb s) \<and> data_struct_lba (sb s) \<le> max_lba"

definition free_blocks :: "fs \<Rightarrow> nat set" where
  "free_blocks s = {0..<nbits (block_bitmap s)} - allocated (block_bitmap s)"

text \<open>A block that is in use.\<close>

definition used_block :: "fs \<Rightarrow> nat \<Rightarrow> bool" where
  "used_block s b \<longleftrightarrow> data_struct_lba (sb s) \<le> b \<and> b - data_struct_lba (sb s) \<in> allocated (block_bitmap s)"

definition missing :: "inode \<Rightarrow> nat set" where
  "missing i = {k. k < 12 \<and> i_sectors i ! k = 0}"

text \<open>A file without an indirect block whose blocks are its own, on a disk with room for the
  direct blocks it does not have yet.\<close>

definition direct_file :: "fs \<Rightarrow> nat \<Rightarrow> inode \<Rightarrow> bool" where
  "direct_file s h i \<longleftrightarrow> fs_ok s \<and> inodes s h = Some i \<and> length (i_sectors i) = 13 \<and> i_sectors i ! 12 = 0 \<and>
     (\<forall>k<12. i_sectors i ! k \<noteq> 0 \<longrightarrow> used_block s (i_sectors i ! k)) \<and>
     (\<forall>j<12. \<forall>k<12. i_sectors i ! j \<noteq> 0 \<longrightarrow> i_sectors i ! j = i_sectors i ! k \<longrightarrow> j = k) \<and>
     card (missing i) \<le> card (free_blocks s)"

text \<open>The byte at a position; a block that is missing reads as zeros.\<close>

definition fbyte :: "fs \<Rightarrow> inode \<Rightarrow> nat \<Rightarrow> u8" where
  "fbyte s i p = (let b = i_sectors i ! (p div 512) in if b = 0 then 0 else disk s b ! (p mod 512))"

text \<open>What an operation on the blocks of one file leaves alone: everything but the disk, the block
  bitmap and the inode of the file; and on the disk every block in use by others.\<close>

definition frame :: "nat \<Rightarrow> inode \<Rightarrow> fs \<Rightarrow> inode \<Rightarrow> fs \<Rightarrow> bool" where
  "frame h i s i' s' \<longleftrightarrow>
     s' = s\<lparr>disk := disk s', block_bitmap := block_bitmap s', inodes := (inodes s)(h := Some i')\<rparr> \<and>
     nbits (block_bitmap s') = nbits (block_bitmap s) \<and>
     allocated (block_bitmap s) \<subseteq> allocated (block_bitmap s') \<and>
     i' = i\<lparr>i_sectors := i_sectors i'\<rparr> \<and>
     (\<forall>k<12. i_sectors i ! k \<noteq> 0 \<longrightarrow> i_sectors i' ! k = i_sectors i ! k) \<and>
     (\<forall>x. used_block s x \<and> (\<forall>k<12. i_sectors i ! k \<noteq> x) \<longrightarrow>
        disk s' x = disk s x \<and> (\<forall>k<12. i_sectors i' ! k \<noteq> x))"

lemma frameD:
  assumes "frame h i s i' s'"
  shows "sb s' = sb s" "hd_no s' = hd_no s" "inodes s' = (inodes s)(h := Some i')" "pages s' = pages s"
    "heap_ok s' = heap_ok s" "inode_bitmap s' = inode_bitmap s" "file_table s' = file_table s"
    "i_size i' = i_size i" "i_no i' = i_no i" "flags i' = flags i" "i_open_cnts i' = i_open_cnts i"
    "open_inodes s' = open_inodes s" "fd_table s' = fd_table s"
proof -
  have s': "s' = s\<lparr>disk := disk s', block_bitmap := block_bitmap s', inodes := (inodes s)(h := Some i')\<rparr>"
    and i': "i' = i\<lparr>i_sectors := i_sectors i'\<rparr>" using assms by (simp_all add: frame_def)
  show "sb s' = sb s" "hd_no s' = hd_no s" "inodes s' = (inodes s)(h := Some i')" "pages s' = pages s"
    "heap_ok s' = heap_ok s" "inode_bitmap s' = inode_bitmap s" "file_table s' = file_table s"
    "open_inodes s' = open_inodes s" "fd_table s' = fd_table s"
    by (subst s', simp add: heap_ok_def)+
  show "i_size i' = i_size i" "i_no i' = i_no i" "flags i' = flags i" "i_open_cnts i' = i_open_cnts i"
    by (subst i', simp)+
qed

lemma used_block_mono:
  "frame h i s i' s' \<Longrightarrow> used_block s b \<Longrightarrow> used_block s' b"
  using frameD(1) [of h i s i' s'] by (auto simp: used_block_def frame_def)

lemma frame_refl: "inodes s h = Some i \<Longrightarrow> frame h i s i s"
  by (auto simp: frame_def fun_upd_idem)

lemma frame_trans:
  assumes 1: "frame h i s i1 s1" and 2: "frame h i1 s1 i2 s2"
  shows "frame h i s i2 s2"
proof -
  have e1: "s1 = s\<lparr>disk := disk s1, block_bitmap := block_bitmap s1, inodes := (inodes s)(h := Some i1)\<rparr>"
    "i1 = i\<lparr>i_sectors := i_sectors i1\<rparr>" using 1 by (simp_all add: frame_def)
  have e2: "s2 = s1\<lparr>disk := disk s2, block_bitmap := block_bitmap s2, inodes := (inodes s1)(h := Some i2)\<rparr>"
    "i2 = i1\<lparr>i_sectors := i_sectors i2\<rparr>" using 2 by (simp_all add: frame_def)
  have "s2 = s\<lparr>disk := disk s2, block_bitmap := block_bitmap s2, inodes := (inodes s)(h := Some i2)\<rparr>"
    by (subst e2(1), subst e1(1)) (simp add: frameD(3) [OF 1])
  moreover have "i2 = i\<lparr>i_sectors := i_sectors i2\<rparr>" by (subst e2(2), subst e1(2)) simp
  moreover have "disk s2 x = disk s x \<and> (\<forall>k<12. i_sectors i2 ! k \<noteq> x)"
    if x: "used_block s x" "\<forall>k<12. i_sectors i ! k \<noteq> x" for x
  proof -
    have "disk s1 x = disk s x" "\<forall>k<12. i_sectors i1 ! k \<noteq> x" using 1 x by (auto simp: frame_def)
    with used_block_mono [OF 1 x(1)] 2 show ?thesis by (auto simp: frame_def)
  qed
  ultimately show ?thesis using 1 2 by (auto simp: frame_def)
qed

section \<open>Single steps\<close>

lemma dread_1 [simp]: "lba \<le> max_lba \<Longrightarrow> dread lba (Suc 0) s = Inr (disk s lba)"
  by (simp add: dread_def)

lemma dwrite_1 [simp]:
  "lba \<le> max_lba \<Longrightarrow> 512 \<le> length bs \<Longrightarrow>
    dwrite lba bs (Suc 0) s = Inr (s\<lparr>disk := (disk s)(lba := take 512 bs)\<rparr>)"
  by (simp add: dwrite_def SECTOR_SIZE_def)

lemma used_block_le: "fs_ok s \<Longrightarrow> used_block s b \<Longrightarrow> b \<le> max_lba \<and> 0 < b"
  by (auto simp: fs_ok_def used_block_def allocated_def)

lemma fs_ok_disk:
  "fs_ok s \<Longrightarrow> length bs = 512 \<Longrightarrow> fs_ok (s\<lparr>disk := (disk s)(lba := bs)\<rparr>)"
  by (simp add: fs_ok_def)

text \<open>Allocation finds a free block when there is one.\<close>

lemma block_alloc_ok:
  assumes ok: "fs_ok s" and free: "free_blocks s \<noteq> {}"
  obtains r b where "block_bitmap_alloc s = Inr (int (data_struct_lba (sb s) + r), s\<lparr>block_bitmap := b\<rparr>)"
    "r \<in> free_blocks s" "bitmap_guarded b" "nbits b = nbits (block_bitmap s)"
    "length (bits b) = length (bits (block_bitmap s))"
    "allocated b = insert r (allocated (block_bitmap s))"
proof -
  let ?b = "block_bitmap s"
  have g: "bitmap_guarded ?b" using ok by (simp add: fs_ok_def)
  obtain st where st: "st < nbits ?b" "st \<notin> allocated ?b" using free unfolding free_blocks_def by fastforce
  then obtain z where z: "bitmap_scan ?b 1 = Inr z" "z \<noteq> -1"
    using bm.scan_finds [OF g, of 1 st] by auto
  have zf: "0 \<le> z" "nat z + 1 \<le> nbits ?b" "allocated ?b \<inter> {nat z..<nat z + 1} = {}"
    using bm.scan_free [OF g _ z(1) z(2)] by simp_all
  have nz: "nat z \<notin> allocated ?b" using zf(3) by simp
  obtain b where b: "bitmap_set ?b (nat z) 1 = Inr b" "bitmap_guarded b" "nbits b = nbits ?b"
    "allocated b = insert (nat z) (allocated ?b)"
    using bm.put_works [OF g, of "nat z" 1] zf(2) by auto
  have "length (bits b) = length (bits ?b)"
    using b(1) by (auto simp: bitmap_set_def andthen_eq_Inr_iff Let_def)
  moreover have "data_struct_lba (sb s) + nat z \<le> max_lba" using ok zf(2) by (simp add: fs_ok_def)
  then have "int32 (int (data_struct_lba (sb s)) + z) = int (data_struct_lba (sb s) + nat z)"
    using zf(1) by (simp add: max_lba_def)
  then have "block_bitmap_alloc s = Inr (int (data_struct_lba (sb s) + nat z), s\<lparr>block_bitmap := b\<rparr>)"
    using z b(1) by (simp add: block_bitmap_alloc_def)
  moreover have "nat z \<in> free_blocks s" using zf(2) nz by (simp add: free_blocks_def)
  ultimately show thesis using that b(2-4) by blast
qed

lemma bitmap_sync_ok:
  assumes ok: "fs_ok s" and r: "r < nbits (block_bitmap s)"
  obtains x bs where "bitmap_sync r BLOCK_BITMAP s = Inr (s\<lparr>disk := (disk s)(x := bs)\<rparr>)"
    "x < data_struct_lba (sb s)" "length bs = 512"
proof -
  let ?x = "block_bitmap_lba (sb s) + r div 4096" and ?d = "drop (r div 4096 * 512) (bits (block_bitmap s))"
  have x: "?x < data_struct_lba (sb s)" "data_struct_lba (sb s) \<le> max_lba" and l: "512 \<le> length ?d"
    using ok r by (auto simp: fs_ok_def)
  then have "bitmap_sync r BLOCK_BITMAP s = Inr (s\<lparr>disk := (disk s)(?x := take 512 ?d)\<rparr>)"
    by (simp add: bitmap_sync_def Let_def SECTOR_SIZE_def max_lba_def)
  then show thesis using that x(1) l by simp
qed

lemma direct_fileD:
  assumes "direct_file s h i"
  shows "fs_ok s" "inodes s h = Some i" "length (i_sectors i) = 13" "i_sectors i ! 12 = 0"
    "\<And>k. k < 12 \<Longrightarrow> i_sectors i ! k \<noteq> 0 \<Longrightarrow> used_block s (i_sectors i ! k)"
    "\<And>j k. j < 12 \<Longrightarrow> k < 12 \<Longrightarrow> i_sectors i ! j \<noteq> 0 \<Longrightarrow> i_sectors i ! j = i_sectors i ! k \<Longrightarrow> j = k"
    "card (missing i) \<le> card (free_blocks s)"
  using assms unfolding direct_file_def by blast+

lemma finite_free [simp]: "finite (free_blocks s)" "finite (missing i)"
  by (simp_all add: free_blocks_def missing_def)

text \<open>A new direct block: the contents stay, because the block is zeroed.\<close>

lemma fill_direct_ok:
  assumes f: "direct_file s h i" and k: "k < 12" "i_sectors i ! k = 0"
  obtains lba i' s' where "fill_direct h k bl s = Inr (Some (bl[k := lba]), s')" "i' = i\<lparr>i_sectors := (i_sectors i)[k := lba]\<rparr>"
    "lba \<noteq> 0" "direct_file s' h i'" "frame h i s i' s'" "\<And>p. p < 6144 \<Longrightarrow> fbyte s' i' p = fbyte s i p"
proof -
  note fD = direct_fileD [OF f]
  have km: "k \<in> missing i" using k by (simp add: missing_def)
  then have "0 < card (missing i)" by (auto simp: card_gt_0_iff)
  then have "free_blocks s \<noteq> {}" using fD(7) by auto
  then obtain r b where al: "block_bitmap_alloc s = Inr (int (data_struct_lba (sb s) + r), s\<lparr>block_bitmap := b\<rparr>)"
    and r: "r \<in> free_blocks s" and b: "bitmap_guarded b" "nbits b = nbits (block_bitmap s)"
    "length (bits b) = length (bits (block_bitmap s))" "allocated b = insert r (allocated (block_bitmap s))"
    using block_alloc_ok [OF fD(1)] by blast
  define lba where "lba = data_struct_lba (sb s) + r"
  have rn: "r < nbits (block_bitmap s)" "r \<notin> allocated (block_bitmap s)" using r by (auto simp: free_blocks_def)
  have lb: "lba \<le> max_lba" "data_struct_lba (sb s) \<le> lba" "0 < lba" "lba < 2 ^ 31"
    using fD(1) rn by (auto simp: fs_ok_def lba_def max_lba_def)
  define i' where "i' = i\<lparr>i_sectors := (i_sectors i)[k := lba]\<rparr>"
  define s1 where "s1 = s\<lparr>block_bitmap := b, inodes := (inodes s)(h := Some i'), disk := (disk s)(lba := replicate 512 0)\<rparr>"
  have ok1: "fs_ok s1"
    using fD(1) b by (simp add: fs_ok_def s1_def)
  have ix: "block_index lba s1 = r" using lb(4) by (simp add: block_index_def lba_def s1_def)
  have rn1: "r < nbits (block_bitmap s1)" using rn b by (simp add: s1_def)
  obtain x bs where sy: "bitmap_sync r BLOCK_BITMAP s1 = Inr (s1\<lparr>disk := (disk s1)(x := bs)\<rparr>)"
    and x: "x < data_struct_lba (sb s1)" "length bs = 512"
    using bitmap_sync_ok [OF ok1 rn1] by blast
  define s' where "s' = s1\<lparr>disk := (disk s1)(x := bs)\<rparr>"
  have u: "uint32 (int lba) = lba" using lb(4) by simp
  have "int lba \<noteq> -1" by simp
  then have run: "fill_direct h k bl s = Inr (Some (bl[k := lba]), s')"
    using al lb(1) fD(2) ix sy unfolding fill_direct_def lba_def [symmetric]
    by (simp add: u Let_def set_sector_def deref_def put_inode_def zero_block_def BLOCK_SIZE_def s1_def i'_def s'_def)
  have sbs: "sb s' = sb s" "sb s1 = sb s" by (simp_all add: s'_def s1_def)
  have nl: "i_sectors i ! j \<noteq> lba" if "j < 12" for j
    using fD(5) [OF that] lb(3) rn(2) by (auto simp: used_block_def lba_def)
  have nx: "x \<noteq> y" if "used_block s y \<or> y = lba" for y
    using x(1) that lb(2) by (auto simp: used_block_def s1_def)
  have sec: "i_sectors i' ! j = (if j = k then lba else i_sectors i ! j)" if "j < 12" for j
    using that fD(3) k by (simp add: i'_def)
  have fr: "frame h i s i' s'"
    unfolding frame_def
  proof (intro conjI allI impI)
    show "s' = s\<lparr>disk := disk s', block_bitmap := block_bitmap s', inodes := (inodes s)(h := Some i')\<rparr>"
      by (simp add: s'_def s1_def)
    show "nbits (block_bitmap s') = nbits (block_bitmap s)"
      "allocated (block_bitmap s) \<subseteq> allocated (block_bitmap s')" using b by (auto simp: s'_def s1_def)
    show "i' = i\<lparr>i_sectors := i_sectors i'\<rparr>" by (simp add: i'_def)
    show "i_sectors i' ! j = i_sectors i ! j" if "j < 12" "i_sectors i ! j \<noteq> 0" for j
      using sec [OF that(1)] that(2) k by auto
    fix y assume y: "used_block s y \<and> (\<forall>k<12. i_sectors i ! k \<noteq> y)"
    have ny: "y \<noteq> lba" using y rn(2) by (auto simp: used_block_def lba_def)
    then show "disk s' y = disk s y" using nx y by (auto simp: s'_def s1_def)
    show "i_sectors i' ! j \<noteq> y" if "j < 12" for j using sec [OF that] y ny that by auto
  qed
  have "missing i' = missing i - {k}" using sec lb(3) by (auto simp: missing_def split: if_splits)
  moreover have "free_blocks s' = free_blocks s - {r}"
    using b by (auto simp: free_blocks_def s'_def s1_def)
  ultimately have card: "card (missing i') \<le> card (free_blocks s')" using fD(7) km r by simp
  have ok': "fs_ok s'" unfolding s'_def by (rule fs_ok_disk [OF ok1 x(2)])
  have ub: "used_block s' lba" using b rn(1) by (simp add: used_block_def lba_def s'_def s1_def)
  have df: "direct_file s' h i'"
    unfolding direct_file_def
  proof (intro conjI allI impI)
    show "inodes s' h = Some i'" by (simp add: s'_def s1_def)
    show "length (i_sectors i') = 13" "i_sectors i' ! 12 = 0" using fD(3,4) k by (simp_all add: i'_def)
    show "used_block s' (i_sectors i' ! j)" if "j < 12" "i_sectors i' ! j \<noteq> 0" for j
      using sec [OF that(1)] that ub fD(5) used_block_mono [OF fr] by (cases "j = k") auto
    show "j = l" if "j < 12" "l < 12" "i_sectors i' ! j \<noteq> 0" "i_sectors i' ! j = i_sectors i' ! l" for j l
      using that sec [OF that(1)] sec [OF that(2)] nl fD(6) by (auto split: if_splits)
  qed (use ok' card in auto)
  have "fbyte s' i' p = fbyte s i p" if p: "p < 6144" for p
  proof (cases "p div 512 = k")
    case True
    then show ?thesis using sec [of k] k lb nx [of lba] by (simp add: fbyte_def Let_def s'_def s1_def)
  next
    case False
    have j: "p div 512 < 12" using p by simp
    show ?thesis
      using sec [OF j] False nl [OF j] nx fD(5) [OF j] by (auto simp: fbyte_def Let_def s'_def s1_def)
  qed
  with run df fr lb(3) that i'_def show thesis by blast
qed

text \<open>Replacing a piece of a block the file has.\<close>

lemma patch_block_ok:
  assumes f: "direct_file s h i" and k: "k < 12" "i_sectors i ! k \<noteq> 0" and l: "off + length piece \<le> 512"
  obtains s' where "patch_block (i_sectors i ! k) off piece s = Inr s'" "direct_file s' h i" "frame h i s i s'"
    "\<And>p. p < 6144 \<Longrightarrow> fbyte s' i p =
      (if k * 512 + off \<le> p \<and> p < k * 512 + off + length piece then piece ! (p - (k * 512 + off)) else fbyte s i p)"
proof -
  note fD = direct_fileD [OF f]
  let ?b = "i_sectors i ! k"
  have b: "?b \<le> max_lba" "0 < ?b" using used_block_le [OF fD(1) fD(5)] k by auto
  have ls: "length (disk s ?b) = 512" using fD(1) by (simp add: fs_ok_def)
  obtain sec where sec: "put_at (disk s ?b) off piece = Inr sec" using l ls by (auto simp: put_at_def)
  have lsec: "length sec = 512" using put_at_length [OF sec] ls by simp
  define s' where "s' = s\<lparr>disk := (disk s)(?b := sec)\<rparr>"
  have run: "patch_block ?b off piece s = Inr s'"
    using b sec lsec by (simp add: patch_block_def s'_def)
  have "fs_ok s'" unfolding s'_def by (rule fs_ok_disk [OF fD(1) lsec])
  moreover have "used_block s' = used_block s" "free_blocks s' = free_blocks s"
    by (auto simp: used_block_def free_blocks_def s'_def fun_eq_iff)
  ultimately have df: "direct_file s' h i" using f by (simp add: direct_file_def) (simp add: s'_def)
  have fr: "frame h i s i s'" using fD(2) k(1) by (auto simp: frame_def s'_def fun_upd_idem)
  have "fbyte s' i p =
      (if k * 512 + off \<le> p \<and> p < k * 512 + off + length piece then piece ! (p - (k * 512 + off)) else fbyte s i p)"
    if p: "p < 6144" for p
  proof (cases "p div 512 = k")
    case True
    define m where "m = p mod 512"
    have pm: "p = k * 512 + m" "m < 512" using True div_mult_mod_eq [of p 512] by (simp_all add: m_def)
    show ?thesis
      using k(2) True put_at_nth [OF sec, of m] ls pm by (simp add: fbyte_def Let_def s'_def m_def [symmetric])
  next
    case False
    have j: "p div 512 < 12" using p by simp
    have "\<not> (k * 512 + off \<le> p \<and> p < k * 512 + off + length piece)" using False l by auto
    moreover have "i_sectors i ! (p div 512) \<noteq> ?b \<or> i_sectors i ! (p div 512) = 0" using fD(6) [OF j k(1)] False by auto
    ultimately show ?thesis using k by (auto simp: fbyte_def Let_def s'_def)
  qed
  with run df fr that show thesis by blast
qed

section \<open>Writing\<close>

text \<open>The block list in memory.\<close>

definition block_list :: "inode \<Rightarrow> nat list" where
  "block_list i = take 12 (i_sectors i) @ replicate 1012 0"

lemma load_blocks_direct: "i_sectors i ! 12 = 0 \<Longrightarrow> load_blocks 1024 i s = Inr (block_list i)"
  by (simp add: load_blocks_def block_list_def Let_def)

lemma block_list_nth [simp]: "direct_file s h i \<Longrightarrow> k < 12 \<Longrightarrow> block_list i ! k = i_sectors i ! k"
  using direct_fileD(3) by (simp add: block_list_def nth_append)

lemma block_list_len [simp]: "direct_file s h i \<Longrightarrow> length (block_list i) = 1024"
  using direct_fileD(3) by (simp add: block_list_def)

lemma block_list_update:
  "direct_file s h i \<Longrightarrow> k < 12 \<Longrightarrow> (block_list i)[k := v] = block_list (i\<lparr>i_sectors := (i_sectors i)[k := v]\<rparr>)"
  using direct_fileD(3) by (simp add: block_list_def list_update_append take_update_swap)

lemma ensure_block_ok:
  assumes f: "direct_file s h i" and k: "k < 12"
  obtains i' s' where "ensure_block sw h k (block_list i, 0) s = Inr (Some (block_list i', 0), s')"
    "direct_file s' h i'" "frame h i s i' s'" "i_sectors i' ! k \<noteq> 0" "\<And>p. p < 6144 \<Longrightarrow> fbyte s' i' p = fbyte s i p"
proof (cases "i_sectors i ! k = 0")
  case True
  obtain lba i' s' where s': "fill_direct h k (block_list i) s = Inr (Some ((block_list i)[k := lba]), s')"
    "i' = i\<lparr>i_sectors := (i_sectors i)[k := lba]\<rparr>" "lba \<noteq> 0" "direct_file s' h i'" "frame h i s i' s'"
    "\<And>p. p < 6144 \<Longrightarrow> fbyte s' i' p = fbyte s i p"
    by (rule fill_direct_ok [OF f k True, of "block_list i"]) (rule that)
  have "ensure_block sw h k (block_list i, 0) s = Inr (Some (block_list i', 0), s')"
    using f k True s'(1,2) by (simp add: ensure_block_def block_list_update)
  moreover have "i_sectors i' ! k \<noteq> 0" using s'(2,3) k direct_fileD(3) [OF f] by simp
  ultimately show thesis using that s'(4-6) by blast
next
  case False
  then have "ensure_block sw h k (block_list i, 0) s = Inr (Some (block_list i, 0), s)"
    using f k by (simp add: ensure_block_def)
  then show thesis using that [OF _ f frame_refl [OF direct_fileD(2) [OF f]] False] by blast
qed

lemma write_before_ok:
  assumes "direct_file s h i" and "n \<le> 12"
  shows "\<exists>i' s'. write_before h n k (block_list i, 0) s = Inr (Some (block_list i', 0), s') \<and>
    direct_file s' h i' \<and> frame h i s i' s' \<and> (\<forall>j. k \<le> j \<and> j < n \<longrightarrow> i_sectors i' ! j \<noteq> 0) \<and>
    (\<forall>p<6144. fbyte s' i' p = fbyte s i p)"
  using assms
proof (induction "n - k" arbitrary: k i s)
  case 0
  then show ?case using frame_refl [OF direct_fileD(2)] by (subst write_before.simps) auto
next
  case (Suc m)
  then have k: "k < n" "k < 12" and km: "m = n - (k + 1)" by auto
  obtain i1 s1 where 1: "ensure_block False h k (block_list i, 0) s = Inr (Some (block_list i1, 0), s1)"
    "direct_file s1 h i1" "frame h i s i1 s1" "i_sectors i1 ! k \<noteq> 0" "\<And>p. p < 6144 \<Longrightarrow> fbyte s1 i1 p = fbyte s i p"
    using ensure_block_ok [OF Suc.prems(1) k(2)] by blast
  obtain i2 s2 where 2: "write_before h n (k + 1) (block_list i1, 0) s1 = Inr (Some (block_list i2, 0), s2)"
    "direct_file s2 h i2" "frame h i1 s1 i2 s2" "\<forall>j. k + 1 \<le> j \<and> j < n \<longrightarrow> i_sectors i2 ! j \<noteq> 0"
    "\<forall>p<6144. fbyte s2 i2 p = fbyte s1 i1 p"
    using Suc.hyps(1) [OF km 1(2) Suc.prems(2)] by blast
  have "write_before h n k (block_list i, 0) s = Inr (Some (block_list i2, 0), s2)"
    using k(1) 1(1) 2(1) by (subst write_before.simps) simp
  moreover have "i_sectors i2 ! k \<noteq> 0" using 2(3) 1(4) k(2) by (simp add: frame_def)
  then have "\<forall>j. k \<le> j \<and> j < n \<longrightarrow> i_sectors i2 ! j \<noteq> 0" using 2(4) by (metis Suc_eq_plus1 le_antisym not_less_eq_eq)
  ultimately show ?case using frame_trans [OF 1(3) 2(3)] 1(5) 2(2,5) by auto
qed

lemma write_rest_ok:
  assumes "direct_file s h i" and "k * 512 + n \<le> 6144" and "n \<le> length data"
  shows "\<exists>i' s'. write_rest h k (block_list i, 0) data n bp s = Inr (Some (bp + n), s') \<and>
    direct_file s' h i' \<and> frame h i s i' s' \<and> (\<forall>j. k \<le> j \<and> j * 512 < k * 512 + n \<longrightarrow> i_sectors i' ! j \<noteq> 0) \<and>
    (\<forall>p<6144. fbyte s' i' p = (if k * 512 \<le> p \<and> p < k * 512 + n then data ! (p - k * 512) else fbyte s i p))"
  using assms
proof (induction n arbitrary: k i s data bp rule: less_induct)
  case (less n)
  show ?case
  proof (cases "n = 0")
    case True
    then show ?thesis using less.prems(1) frame_refl [OF direct_fileD(2)] by (subst write_rest.simps) auto
  next
    case False
    define w where "w = (if n \<ge> 512 then 512 else n)"
    have w: "0 < w" "w \<le> n" "w \<le> 512" "w = 512 \<or> n - w = 0" using False by (auto simp: w_def)
    have wd: "(if BLOCK_SIZE \<le> n then BLOCK_SIZE else n) = w" by (simp add: w_def BLOCK_SIZE_def)
    have k: "k < 12" using less.prems(2) False by simp
    obtain i1 s1 where 1: "ensure_block True h k (block_list i, 0) s = Inr (Some (block_list i1, 0), s1)"
      "direct_file s1 h i1" "frame h i s i1 s1" "i_sectors i1 ! k \<noteq> 0" "\<And>p. p < 6144 \<Longrightarrow> fbyte s1 i1 p = fbyte s i p"
      using ensure_block_ok [OF less.prems(1) k] by blast
    have lt: "length (take w data) = w" using w less.prems(3) by simp
    then have "0 + length (take w data) \<le> 512" using w(3) by simp
    then obtain s2 where 2: "patch_block (i_sectors i1 ! k) 0 (take w data) s1 = Inr s2" "direct_file s2 h i1"
      "frame h i1 s1 i1 s2" "\<And>p. p < 6144 \<Longrightarrow> fbyte s2 i1 p =
        (if k * 512 \<le> p \<and> p < k * 512 + w then take w data ! (p - k * 512) else fbyte s1 i1 p)"
      using patch_block_ok [OF 1(2) k 1(4), of 0 "take w data"] unfolding lt by (metis (no_types, lifting) add.right_neutral)
    have pk: "(k + 1) * 512 + (n - w) \<le> 6144" using less.prems(2) w(2) w(4) k by auto
    have wn: "n - w < n" and ld: "n - w \<le> length (drop w data)" using w less.prems(3) by simp_all
    obtain i3 s3 where 3: "write_rest h (k + 1) (block_list i1, 0) (drop w data) (n - w) (bp + w) s2 =
        Inr (Some (bp + w + (n - w)), s3)"
      "direct_file s3 h i3" "frame h i1 s2 i3 s3"
      "\<forall>j. k + 1 \<le> j \<and> j * 512 < (k + 1) * 512 + (n - w) \<longrightarrow> i_sectors i3 ! j \<noteq> 0"
      "\<forall>p<6144. fbyte s3 i3 p = (if (k + 1) * 512 \<le> p \<and> p < (k + 1) * 512 + (n - w)
        then drop w data ! (p - (k + 1) * 512) else fbyte s2 i1 p)"
      using less.IH [OF wn 2(2) pk ld, of "bp + w"] by blast
    have "write_rest h k (block_list i, 0) data n bp s = Inr (Some (bp + n), s3)"
      using False 1(1,2) 2(1) 3(1) k w(2) less.prems(3)
      by (subst write_rest.simps) (simp add: get_at_def wd Let_def)
    moreover have "frame h i s i3 s3" by (rule frame_trans [OF frame_trans [OF 1(3) 2(3)] 3(3)])
    moreover have "i_sectors i3 ! j \<noteq> 0" if j: "k \<le> j" "j * 512 < k * 512 + n" for j
    proof (cases "j = k")
      case True
      then show ?thesis using 3(3) 1(4) k by (simp add: frame_def)
    next
      case False
      then have "k + 1 \<le> j" using j(1) by simp
      moreover have "w = 512" using w(4) j(2) \<open>k + 1 \<le> j\<close> w(2) by (auto simp: w_def split: if_splits)
      ultimately show ?thesis using 3(4) j(2) w(2) by auto
    qed
    moreover have "fbyte s3 i3 p = (if k * 512 \<le> p \<and> p < k * 512 + n then data ! (p - k * 512) else fbyte s i p)"
      if p: "p < 6144" for p
    proof -
      consider "p < k * 512 + w" | "k * 512 + w \<le> p" "n - w = 0" | "k * 512 + 512 \<le> p" "w = 512"
        using w(4) by linarith
      then show ?thesis
      proof cases
        case 1
        then have "fbyte s3 i3 p = fbyte s2 i1 p" using 3(5) p w(3) by auto
        then show ?thesis using 2(4) [OF p] \<open>\<And>p. p < 6144 \<Longrightarrow> fbyte s1 i1 p = fbyte s i p\<close> [OF p] 1 w(2) by auto
      next
        case 2
        then show ?thesis using 3(5) p \<open>\<And>p. p < 6144 \<Longrightarrow> fbyte s2 i1 p = _ p\<close> [OF p] 1(5) [OF p] w(2) by auto
      next
        case 3
        then have "drop w data ! (p - (k + 1) * 512) = data ! (p - k * 512)" if "p < k * 512 + n"
          using that less.prems(3) w(2) by (simp add: nth_drop)
        then show ?thesis using \<open>\<forall>p<6144. fbyte s3 i3 p = _ p\<close> p 2(4) [OF p] 1(5) [OF p] w(2) 3 by auto
      qed
    qed
    ultimately show ?thesis using 3(2) by blast
  qed
qed

section \<open>The inode goes to its table\<close>

lemma length_inode_bytes [simp]: "length (i_sectors i) = 13 \<Longrightarrow> length (inode_bytes i) = 76"
  by (simp add: inode_bytes_def)

lemma locate_ok:
  assumes ok: "fs_ok s" and n: "no < 4096"
  obtains pos where "inode_locate s no = Inr pos" "sec_lba pos = inode_table_lba (sb s) + no * 76 div 512"
    "off_size pos = no * 76 mod 512" "two_sec pos \<longleftrightarrow> 512 < no * 76 mod 512 + 76"
    "sec_lba pos + (if two_sec pos then 2 else 1) \<le> data_struct_lba (sb s)"
    "off_size pos + 76 \<le> (if two_sec pos then 2 else 1) * 512"
proof -
  let ?q = "no * 76 div 512" and ?r = "no * 76 mod 512"
  have e: "?q * 512 + ?r = no * 76" by (rule div_mult_mod_eq)
  have r: "?r < 512" by simp
  have b: "no * 76 + 76 \<le> 608 * 512" using n by simp
  have t: "inode_table_lba (sb s) + 608 \<le> data_struct_lba (sb s)" "data_struct_lba (sb s) \<le> max_lba"
    using ok by (simp_all add: fs_ok_def)
  have q1: "?q < 608" using e b by linarith
  have q2: "?q + 2 \<le> 608" if "512 < ?r + 76" using that e b by linarith
  have "(inode_table_lba (sb s) + ?q) mod 2 ^ 32 = inode_table_lba (sb s) + ?q"
    using q1 t by (simp add: max_lba_def)
  then have "inode_locate s no =
      Inr \<lparr>two_sec = (512 < ?r + 76), sec_lba = inode_table_lba (sb s) + ?q, off_size = ?r\<rparr>"
    using n by (simp add: inode_locate_def inode_len_def SECTOR_SIZE_def Let_def)
  then show thesis by (rule that) (use q1 q2 t r in auto)
qed

lemma table_write_ok:
  assumes ok: "fs_ok s" and n: "no < 4096" and p: "length piece = 76" and io: "1024 \<le> io_len"
  obtains pos bs bs' d where "inode_locate s no = Inr pos" "read_position pos io_len s = Inr bs"
    "put_at bs (off_size pos) piece = Inr bs'" "write_position pos bs' s = Inr (s\<lparr>disk := d\<rparr>)"
    "\<And>x. data_struct_lba (sb s) \<le> x \<Longrightarrow> d x = disk s x" "\<And>x. x < inode_table_lba (sb s) \<Longrightarrow> d x = disk s x"
    "\<And>x. length (d x) = 512"
proof -
  obtain pos where pos: "inode_locate s no = Inr pos" "sec_lba pos = inode_table_lba (sb s) + no * 76 div 512"
    "sec_lba pos + (if two_sec pos then 2 else 1) \<le> data_struct_lba (sb s)"
    "off_size pos + 76 \<le> (if two_sec pos then 2 else 1) * 512"
    using locate_ok [OF ok n] by blast
  define m :: nat where "m = (if two_sec pos then 2 else 1)"
  have m: "0 < m" "m \<le> 2" by (simp_all add: m_def)
  have mx: "sec_lba pos + m \<le> max_lba + 1" using pos(3) ok by (simp add: m_def fs_ok_def)
  define bs where "bs = concat (map (disk s) [sec_lba pos..<sec_lba pos + m])"
  have rd: "read_position pos io_len s = Inr bs"
    using ide_read_ok [OF m(1) mx] io m(2)
    by (simp add: read_position_def dread_def m_def [symmetric] bs_def SECTOR_SIZE_def)
  have "length (concat (map (disk s) [a..<a + j])) = j * 512" for a j
    using ok by (induction j) (simp_all add: fs_ok_def)
  then have lb: "length bs = m * 512" by (simp add: bs_def)
  have "off_size pos + length piece \<le> length bs" using pos(4) p lb by (simp add: m_def)
  then obtain bs' where pt: "put_at bs (off_size pos) piece = Inr bs'" by (simp add: put_at_def)
  have lb': "length bs' = m * 512" using put_at_length [OF pt] lb by simp
  let ?d = "store_sectors (disk s) (sec_lba pos) bs' m"
  have wr: "write_position pos bs' s = Inr (s\<lparr>disk := ?d\<rparr>)"
    using ide_write_ok [OF m(1) mx] lb'
    by (simp add: write_position_def dwrite_def m_def [symmetric] SECTOR_SIZE_def)
  have "length (take 512 (drop ((x - sec_lba pos) * 512) bs')) = 512"
    if "sec_lba pos \<le> x" "x < sec_lba pos + m" for x
  proof -
    have "x - sec_lba pos + 1 \<le> m" using that by simp
    then have "(x - sec_lba pos + 1) * 512 \<le> m * 512" by (rule mult_le_mono1)
    then show ?thesis using lb' by simp
  qed
  then have "length (?d x) = 512" for x using ok by (simp add: store_sectors_apply SECTOR_SIZE_def fs_ok_def)
  moreover have "?d x = disk s x" if "data_struct_lba (sb s) \<le> x" for x
    using that pos(3) by (simp add: store_sectors_apply m_def)
  moreover have "?d x = disk s x" if "x < inode_table_lba (sb s)" for x
    using that pos(2) by (simp add: store_sectors_apply)
  ultimately show thesis using that [OF pos(1) rd pt wr] by blast
qed

lemma inode_sync_ok:
  assumes ok: "fs_ok s" and l: "length (i_sectors i) = 13" and io: "1024 \<le> io_len"
  obtains d where "inode_sync i io_len s = Inr (s\<lparr>disk := d\<rparr>)"
    "\<And>x. data_struct_lba (sb s) \<le> x \<Longrightarrow> d x = disk s x" "\<And>x. x < inode_table_lba (sb s) \<Longrightarrow> d x = disk s x"
    "\<And>x. length (d x) = 512"
proof -
  have n: "i_no i mod 256 < 4096" by (rule less_le_trans [of _ 256]) simp_all
  have p: "length (inode_bytes (i\<lparr>i_open_cnts := 0, flags := flags i AND NOT INODE_WRITE_DENY\<rparr>)) = 76"
    using l by simp
  obtain pos bs bs' d where w: "inode_locate s (i_no i mod 256) = Inr pos" "read_position pos io_len s = Inr bs"
    "put_at bs (off_size pos) (inode_bytes (i\<lparr>i_open_cnts := 0, flags := flags i AND NOT INODE_WRITE_DENY\<rparr>)) = Inr bs'"
    "write_position pos bs' s = Inr (s\<lparr>disk := d\<rparr>)"
    "\<And>x. data_struct_lba (sb s) \<le> x \<Longrightarrow> d x = disk s x" "\<And>x. x < inode_table_lba (sb s) \<Longrightarrow> d x = disk s x"
    "\<And>x. length (d x) = 512"
    by (rule table_write_ok [OF ok n p io]) (rule that)
  have "inode_sync i io_len s = Inr (s\<lparr>disk := d\<rparr>)" using w(1-4) by (simp add: inode_sync_def Let_def)
  then show thesis using w(5-7) by (rule that)
qed

section \<open>Whole calls\<close>

lemma write_blocks_ok:
  assumes f: "direct_file s h i" and n: "off + n \<le> 6144" "0 < n" "n \<le> length data"
  shows "\<exists>i' s'. write_blocks h data off n s = Inr (Some (off - off mod 512 + n), s') \<and>
    direct_file s' h i' \<and> frame h i s i' s' \<and> (\<forall>j. j * 512 < off + n \<longrightarrow> i_sectors i' ! j \<noteq> 0) \<and>
    (\<forall>p<6144. fbyte s' i' p = (if off \<le> p \<and> p < off + n then data ! (p - off) else fbyte s i p))"
proof -
  define q where "q = off div 512"
  define r where "r = off mod 512"
  have qr: "off = q * 512 + r" "r < 512" using div_mult_mod_eq [of off 512] by (simp_all add: q_def r_def)
  have q: "q < 12" "q \<le> 12" using n qr by auto
  define w where "w = (if n \<ge> 512 - r then 512 - r else n)"
  have w: "0 < w" "w \<le> n" "r + w \<le> 512" "r + w = 512 \<or> n - w = 0" using n qr by (auto simp: w_def)
  have ld: "load_blocks 1024 i s = Inr (block_list i)" by (rule load_blocks_direct [OF direct_fileD(4) [OF f]])
  obtain i1 s1 where 1: "write_before h q 0 (block_list i, 0) s = Inr (Some (block_list i1, 0), s1)"
    "direct_file s1 h i1" "frame h i s i1 s1" "\<forall>j. 0 \<le> j \<and> j < q \<longrightarrow> i_sectors i1 ! j \<noteq> 0"
    "\<forall>p<6144. fbyte s1 i1 p = fbyte s i p"
    using write_before_ok [OF f q(2), of 0] by blast
  obtain i2 s2 where 2: "ensure_block False h q (block_list i1, 0) s1 = Inr (Some (block_list i2, 0), s2)"
    "direct_file s2 h i2" "frame h i1 s1 i2 s2" "i_sectors i2 ! q \<noteq> 0" "\<And>p. p < 6144 \<Longrightarrow> fbyte s2 i2 p = fbyte s1 i1 p"
    by (rule ensure_block_ok [OF 1(2) q(1), of False]) (rule that)
  have lt: "length (take w data) = w" using w n(3) by simp
  then have lr: "r + length (take w data) \<le> 512" using w(3) by simp
  obtain s3 where 3: "patch_block (i_sectors i2 ! q) r (take w data) s2 = Inr s3" "direct_file s3 h i2"
    "frame h i2 s2 i2 s3" "\<And>p. p < 6144 \<Longrightarrow> fbyte s3 i2 p =
      (if q * 512 + r \<le> p \<and> p < q * 512 + r + length (take w data)
       then take w data ! (p - (q * 512 + r)) else fbyte s2 i2 p)"
    by (rule patch_block_ok [OF 2(2) q(1) 2(4) lr]) (rule that)
  have pk: "(q + 1) * 512 + (n - w) \<le> 6144" using n(1) qr w(2,4) q(1) by auto
  have ldd: "n - w \<le> length (drop w data)" using n(3) by simp
  obtain i4 s4 where 4: "write_rest h (q + 1) (block_list i2, 0) (drop w data) (n - w) (q * 512 + w) s3 =
      Inr (Some (q * 512 + w + (n - w)), s4)"
    "direct_file s4 h i4" "frame h i2 s3 i4 s4"
    "\<forall>j. q + 1 \<le> j \<and> j * 512 < (q + 1) * 512 + (n - w) \<longrightarrow> i_sectors i4 ! j \<noteq> 0"
    "\<forall>p<6144. fbyte s4 i4 p = (if (q + 1) * 512 \<le> p \<and> p < (q + 1) * 512 + (n - w)
        then drop w data ! (p - (q + 1) * 512) else fbyte s3 i2 p)"
    using write_rest_ok [OF 3(2) pk ldd, of "q * 512 + w"] by blast
  have wd: "(if BLOCK_SIZE - r \<le> n then BLOCK_SIZE - r else n) = w" by (simp add: w_def BLOCK_SIZE_def)
  have "write_blocks h data off n s = Inr (Some (q * 512 + w + (n - w)), s4)"
    using direct_fileD(2,4) [OF f] ld 1(1) 2(1,2) 3(1) 4(1) q(1) w(2) n(3) wd
    by (simp add: write_blocks_def deref_def Let_def q_def [symmetric] r_def [symmetric] get_at_def BLOCK_SIZE_def)
  moreover have "q * 512 + w + (n - w) = off - off mod 512 + n" using qr w(2) by (simp add: r_def)
  moreover have fr: "frame h i s i4 s4"
    by (rule frame_trans [OF frame_trans [OF frame_trans [OF 1(3) 2(3)] 3(3)] 4(3)])
  moreover have "i_sectors i4 ! j \<noteq> 0" if j: "j * 512 < off + n" for j
  proof -
    have j12: "j < 12" using j n(1) by simp
    have keep: "i_sectors i4 ! j \<noteq> 0" if "i_sectors i2 ! j \<noteq> 0" using that 4(3) j12 by (simp add: frame_def)
    consider "j < q" | "j = q" | "q + 1 \<le> j" by linarith
    then show ?thesis
    proof cases
      case 1
      then have "i_sectors i1 ! j \<noteq> 0" using \<open>\<forall>j. 0 \<le> j \<and> j < q \<longrightarrow> _ j\<close> by simp
      then show ?thesis using keep 2(3) j12 by (simp add: frame_def)
    next
      case 2
      then show ?thesis using keep \<open>i_sectors i2 ! q \<noteq> 0\<close> by simp
    next
      case 3
      then have "(q + 1) * 512 \<le> j * 512" by (rule mult_le_mono1)
      then have jq: "q * 512 + 512 \<le> j * 512" by simp
      have "r + w = 512"
      proof (rule ccontr)
        assume "r + w \<noteq> 512"
        then have "n \<le> w" "r + w < 512" using w(3,4) by auto
        with jq j qr(1) show False by linarith
      qed
      then show ?thesis using 4(4) 3 j qr w(2) by auto
    qed
  qed
  moreover have "fbyte s4 i4 p = (if off \<le> p \<and> p < off + n then data ! (p - off) else fbyte s i p)"
    if p: "p < 6144" for p
  proof -
    have base: "fbyte s2 i2 p = fbyte s i p" using 1(5) 2(5) p by simp
    have f3: "fbyte s3 i2 p = (if off \<le> p \<and> p < off + w then take w data ! (p - off) else fbyte s i p)"
      using 3(4) [OF p] base lt qr by simp
    have "(q + 1) * 512 = off + w" if "r + w = 512" using that qr by simp
    then consider "p < off + w" | "off + w \<le> p" "n - w = 0" | "(q + 1) * 512 \<le> p" "r + w = 512"
      using w(4) by (metis linorder_not_less)
    then show ?thesis
    proof cases
      case 1
      then have "p < (q + 1) * 512" using qr w(3) by simp
      then show ?thesis using 4(5) p f3 1 w(2) by auto
    next
      case 2
      then show ?thesis using 4(5) p f3 w(2) by auto
    next
      case 3
      have "drop w data ! (p - (q + 1) * 512) = data ! (p - off)" if "p < off + n"
        using that n(3) w(2) 3 qr by (simp add: nth_drop) (rule arg_cong [of _ _ "nth data"], simp)
      then show ?thesis using 4(5) p f3 3 w(2) qr by auto
    qed
  qed
  ultimately show ?thesis using 4(2) by auto
qed

text \<open>The state after a write, up to the table of inodes and the bitmap sectors, which no file
  block is in.\<close>

lemma fbyte_cong:
  assumes f: "direct_file s h i" and p: "p < 6144" and i': "i_sectors i' = i_sectors i"
    and d: "\<And>x. data_struct_lba (sb s) \<le> x \<Longrightarrow> disk s' x = disk s x"
  shows "fbyte s' i' p = fbyte s i p"
proof -
  have "p div 512 < 12" using p by simp
  then show ?thesis using direct_fileD(5) [OF f, of "p div 512"] d i' by (auto simp: fbyte_def Let_def used_block_def)
qed

definition sized :: "inode \<Rightarrow> nat \<Rightarrow> inode" where
  "sized i n = i\<lparr>i_size := (if n \<ge> i_size i then n else i_size i)\<rparr>"

lemma sized_sel [simp]: "i_sectors (sized i n) = i_sectors i" "i_size (sized i n) = max (i_size i) n"
  "i_no (sized i n) = i_no i" "flags (sized i n) = flags i" "i_open_cnts (sized i n) = i_open_cnts i"
  by (simp_all add: sized_def)

lemma direct_file_put:
  assumes f: "direct_file s h i" and d: "\<And>x. length (d x) = 512"
  shows "direct_file ((put_inode h (sized i n) s)\<lparr>disk := d, pages := ps\<rparr>) h (sized i n)"
proof -
  have "fs_ok ((put_inode h (sized i n) s)\<lparr>disk := d, pages := ps\<rparr>)"
    using direct_fileD(1) [OF f] d by (simp add: fs_ok_def put_inode_def)
  moreover have "used_block ((put_inode h (sized i n) s)\<lparr>disk := d, pages := ps\<rparr>) = used_block s"
    by (simp add: used_block_def put_inode_def fun_eq_iff)
  moreover have "free_blocks ((put_inode h (sized i n) s)\<lparr>disk := d, pages := ps\<rparr>) = free_blocks s"
    by (simp add: free_blocks_def put_inode_def)
  moreover have "missing (sized i n) = missing i" by (simp add: missing_def)
  ultimately show ?thesis using f by (simp add: direct_file_def) (simp add: put_inode_def)
qed

definition pages_ok :: "fs \<Rightarrow> bool" where
  "pages_ok s \<longleftrightarrow> distinct (pages s) \<and> (\<forall>p \<in> set (pages s). p mod 4096 = 0)"

lemma direct_file_pages [simp]: "direct_file (s\<lparr>pages := ps\<rparr>) h i = direct_file s h i"
  by (simp add: direct_file_def fs_ok_def used_block_def free_blocks_def)

lemma heap_ok_pages [simp]: "heap_ok (s\<lparr>pages := ps\<rparr>) = heap_ok s"
  by (simp add: heap_ok_def)

lemma fbyte_pages [simp]: "fbyte (s\<lparr>pages := ps\<rparr>) i p = fbyte s i p"
  by (simp add: fbyte_def Let_def)

lemma file_write_ok:
  assumes f: "direct_file s h i" and n: "off + n \<le> 6144" "0 < n" "n \<le> length data"
    and pg: "pages s = p # q # ps" "pages_ok s"
  shows "\<exists>i' s'. file_write h data off n s = Inr (int n - int (off mod 512), s') \<and>
    direct_file s' h i' \<and> i_size i' = max (i_size i) (off + n) \<and>
    (\<forall>j. j * 512 < off + n \<longrightarrow> i_sectors i' ! j \<noteq> 0) \<and>
    (\<forall>j<12. i_sectors i ! j \<noteq> 0 \<longrightarrow> i_sectors i' ! j = i_sectors i ! j) \<and>
    (\<forall>y<6144. fbyte s' i' y = (if off \<le> y \<and> y < off + n then data ! (y - off) else fbyte s i y)) \<and>
    (\<forall>x. used_block s x \<and> (\<forall>k<12. i_sectors i ! k \<noteq> x) \<longrightarrow> disk s' x = disk s x) \<and>
    heap_ok s' = heap_ok s \<and> set (pages s') = set (pages s) \<and> i_no i' = i_no i \<and> flags i' = flags i \<and>
    length (pages s') = length (pages s) \<and> pages_ok s' \<and> file_table s' = file_table s \<and> fd_table s' = fd_table s"
proof -
  let ?s = "s\<lparr>pages := ps\<rparr>"
  have f0: "direct_file ?s h i" using f by simp
  obtain i1 s1 where 1: "write_blocks h data off n ?s = Inr (Some (off - off mod 512 + n), s1)"
    "direct_file s1 h i1" "frame h i ?s i1 s1" "\<forall>j. j * 512 < off + n \<longrightarrow> i_sectors i1 ! j \<noteq> 0"
    "\<forall>y<6144. fbyte s1 i1 y = (if off \<le> y \<and> y < off + n then data ! (y - off) else fbyte ?s i y)"
    using write_blocks_ok [OF f0 n] by blast
  define i2 where "i2 = sized i1 (off + n)"
  define s2 where "s2 = put_inode h i2 s1"
  have ok2: "fs_ok s2" using direct_fileD(1) [OF 1(2)] by (simp add: s2_def fs_ok_def put_inode_def)
  have l2: "length (i_sectors i2) = 13" using direct_fileD(3) [OF 1(2)] by (simp add: i2_def)
  obtain d where d: "inode_sync i2 4096 s2 = Inr (s2\<lparr>disk := d\<rparr>)"
    "\<And>x. data_struct_lba (sb s2) \<le> x \<Longrightarrow> d x = disk s2 x" "\<And>x. x < inode_table_lba (sb s2) \<Longrightarrow> d x = disk s2 x"
    "\<And>x. length (d x) = 512"
    by (rule inode_sync_ok [OF ok2 l2, of 4096]) (simp, rule that)
  have fD: "pages s1 = ps" "heap_ok s1 = heap_ok s" using frameD [OF 1(3)] by simp_all
  define s3 where "s3 = s2\<lparr>disk := d, pages := q # p # ps\<rparr>"
  have "andthen (mfree_page p (s2\<lparr>disk := d\<rparr>)) (mfree_page q) = Inr s3"
    using pg fD(1) by (simp add: mfree_page_def s3_def s2_def put_inode_def pages_ok_def)
  then obtain s4 where "mfree_page p (s2\<lparr>disk := d\<rparr>) = Inr s4" "mfree_page q s4 = Inr s3"
    by (auto elim: andthen_InrE)
  moreover have "(off + n) mod 2 ^ 32 = off + n" "(n + off) mod 2 ^ 32 \<le> BLOCK_SIZE * 140"
    using n by (simp_all add: BLOCK_SIZE_def)
  moreover have "int (off - off mod 512 + n) - int off = int n - int (off mod 512)"
    by (simp add: of_nat_diff)
  moreover have "int32 (int n - int (off mod 512)) = int n - int (off mod 512)"
  proof (rule int32_id)
    have "off mod 512 < 512" by simp
    then have "int (off mod 512) < 512" by linarith
    then show "- (2 ^ 31) \<le> int n - int (off mod 512)" by simp
    have "int n < 2 ^ 31" using n by simp
    then show "int n - int (off mod 512) < 2 ^ 31" by linarith
  qed
  ultimately have run: "file_write h data off n s = Inr (int n - int (off mod 512), s3)"
    using pg 1(1) d(1) direct_fileD(2) [OF 1(2)]
    by (simp add: file_write_def get_kernel_page_def need_page_def deref_def sized_def [symmetric] Let_def
        i2_def [symmetric] s2_def [symmetric])
  have df: "direct_file s3 h i2"
    unfolding s3_def s2_def i2_def by (rule direct_file_put [OF 1(2) d(4)])
  have dx: "d x = disk s1 x" if "data_struct_lba (sb s1) \<le> x" for x
    using d(2) that by (simp add: s2_def put_inode_def)
  have "fbyte s3 i2 y = fbyte s1 i1 y" if y: "y < 6144" for y
    by (rule fbyte_cong [OF 1(2) y]) (use dx in \<open>simp_all add: s3_def i2_def\<close>)
  moreover have "disk s3 x = disk s x" if "used_block s x" "\<forall>k<12. i_sectors i ! k \<noteq> x" for x
  proof -
    have "used_block ?s x" using that(1) by (simp add: used_block_def)
    then have "disk s1 x = disk s x" "used_block s1 x"
      using 1(3) that(2) used_block_mono [OF 1(3)] by (auto simp: frame_def)
    then show ?thesis using dx by (simp add: s3_def used_block_def)
  qed
  moreover have "i_sectors i2 ! j = i_sectors i ! j" if "j < 12" "i_sectors i ! j \<noteq> 0" for j
    using 1(3) that by (simp add: i2_def frame_def)
  moreover have "i_size i2 = max (i_size i) (off + n)" "i_no i2 = i_no i" "flags i2 = flags i"
    using frameD(8-10) [OF 1(3)] by (simp_all add: i2_def)
  moreover have "heap_ok s3 = heap_ok s" "set (pages s3) = set (pages s)"
    using fD(2) pg by (auto simp: s3_def s2_def put_inode_def heap_ok_def)
  moreover have "length (pages s3) = length (pages s)" "pages_ok s3" "file_table s3 = file_table s" "fd_table s3 = fd_table s"
    using pg frameD(7,13) [OF 1(3)] by (auto simp: s3_def s2_def put_inode_def pages_ok_def)
  moreover have "\<forall>j. j * 512 < off + n \<longrightarrow> i_sectors i2 ! j \<noteq> 0" using 1(4) by (simp add: i2_def)
  ultimately show ?thesis using run df 1(5) by (intro exI [of _ i2] exI [of _ s3]) simp
qed

section \<open>Reading\<close>

text \<open>The bytes of a file from one position up to another.\<close>

definition fbytes :: "fs \<Rightarrow> inode \<Rightarrow> nat \<Rightarrow> nat \<Rightarrow> u8 list" where
  "fbytes s i a b = map (fbyte s i) [a..<b]"

lemma fbytes_append: "a \<le> b \<Longrightarrow> b \<le> c \<Longrightarrow> fbytes s i a b @ fbytes s i b c = fbytes s i a c"
  by (simp add: fbytes_def upt_split [of a b c])

lemma length_fbytes [simp]: "length (fbytes s i a b) = b - a"
  by (simp add: fbytes_def)

lemma block_piece:
  assumes f: "direct_file s h i" and k: "k < 12" "i_sectors i ! k \<noteq> 0" and l: "off + w \<le> 512"
  shows "dread (i_sectors i ! k) 1 s = Inr (disk s (i_sectors i ! k))"
    "get_at (disk s (i_sectors i ! k)) off w = Inr (fbytes s i (k * 512 + off) (k * 512 + off + w))"
proof -
  note fD = direct_fileD [OF f]
  show "dread (i_sectors i ! k) 1 s = Inr (disk s (i_sectors i ! k))"
    using used_block_le [OF fD(1) fD(5)] k by simp
  have ls: "length (disk s (i_sectors i ! k)) = 512" using fD(1) by (simp add: fs_ok_def)
  have "take w (drop off (disk s (i_sectors i ! k))) = fbytes s i (k * 512 + off) (k * 512 + off + w)"
  proof (rule nth_equalityI)
    fix x assume "x < length (take w (drop off (disk s (i_sectors i ! k))))"
    then have x: "x < w" "off + x < 512" using l ls by auto
    then have "(k * 512 + off + x) div 512 = k" "(k * 512 + off + x) mod 512 = off + x"
      by (simp_all add: add.assoc)
    then show "take w (drop off (disk s (i_sectors i ! k))) ! x = fbytes s i (k * 512 + off) (k * 512 + off + w) ! x"
      using x k(2) ls by (simp add: fbytes_def fbyte_def)
  qed (use l ls in simp)
  then show "get_at (disk s (i_sectors i ! k)) off w = Inr (fbytes s i (k * 512 + off) (k * 512 + off + w))"
    using l ls by (simp add: get_at_def)
qed

lemma read_rest_ok:
  assumes f: "direct_file s h i" and len: "length bl = 140" and "k * 512 + n \<le> 6144"
    and "\<And>j. k \<le> j \<Longrightarrow> j * 512 < k * 512 + n \<Longrightarrow> bl ! j = i_sectors i ! j \<and> i_sectors i ! j \<noteq> 0"
  shows "read_rest bl k n s = Inr (Some (fbytes s i (k * 512) (k * 512 + n)))"
  using assms(3,4)
proof (induction n arbitrary: k rule: less_induct)
  case (less n)
  show ?case
  proof (cases "n = 0")
    case True
    then show ?thesis by (subst read_rest.simps) (simp add: fbytes_def)
  next
    case False
    define w where "w = (if n \<ge> BLOCK_SIZE then BLOCK_SIZE else n)"
    have w: "0 < w" "w \<le> n" "0 + w \<le> 512" "w = 512 \<or> n = w" using False by (auto simp: w_def BLOCK_SIZE_def)
    have k: "k < 12" using less.prems(1) False by simp
    have b: "bl ! k = i_sectors i ! k" "i_sectors i ! k \<noteq> 0" using less.prems(2) [of k] False by auto
    note bp = block_piece [OF f k b(2) w(3)]
    have "read_rest bl (k + 1) (n - w) s = Inr (Some (fbytes s i ((k + 1) * 512) ((k + 1) * 512 + (n - w))))"
      using w less.prems by (intro less.IH) auto
    moreover have "fbytes s i (k * 512) (k * 512 + w) @ fbytes s i ((k + 1) * 512) ((k + 1) * 512 + (n - w)) =
      fbytes s i (k * 512) (k * 512 + n)"
    proof (cases "n = w")
      case True
      then show ?thesis by (simp add: fbytes_def)
    next
      case False
      then show ?thesis using w fbytes_append [of "k * 512" "k * 512 + 512" "k * 512 + n" s i]
        by (simp add: add.commute)
    qed
    ultimately show ?thesis
      using False b bp k len by (subst read_rest.simps) (simp add: w_def [symmetric] Let_def)
  qed
qed

lemma load_until_ok:
  assumes f: "direct_file s h i"
  obtains bl where "load_until i s = Inr bl" "length bl = 140"
    "\<And>j. j < 12 \<Longrightarrow> (\<And>l. l \<le> j \<Longrightarrow> i_sectors i ! l \<noteq> 0) \<Longrightarrow> bl ! j = i_sectors i ! j"
proof -
  let ?ds = "takeWhile (\<lambda>b. b \<noteq> 0) (take 13 (i_sectors i))"
  note fD = direct_fileD [OF f]
  have "length (take 13 (i_sectors i)) = 13" "take 13 (i_sectors i) ! 12 = 0" using fD(3,4) by simp_all
  then have "0 \<in> set (take 13 (i_sectors i))" by (metis nth_mem less_add_one numeral_plus_one semiring_norm(5))
  then have "?ds \<noteq> take 13 (i_sectors i)" by (metis (mono_tags, lifting) set_takeWhile_all)
  moreover have "length ?ds \<le> 13" using length_takeWhile_le [of "\<lambda>b. b \<noteq> 0" "take 13 (i_sectors i)"] fD(3) by simp
  moreover have "?ds = take 13 (i_sectors i)" if "length ?ds = 13"
    using that fD(3) takeWhile_eq_take [of "\<lambda>b. b \<noteq> 0" "take 13 (i_sectors i)"] by simp
  ultimately have "length ?ds < 13" by linarith
  then have l: "load_until i s = Inr (?ds @ replicate (140 - length ?ds) 0)" "length ?ds < 13"
    by (simp_all add: load_until_def Let_def)
  have "(?ds @ replicate (140 - length ?ds) 0) ! j = i_sectors i ! j"
    if j: "j < 12" "\<And>l. l \<le> j \<Longrightarrow> i_sectors i ! l \<noteq> 0" for j
  proof -
    have "j < length ?ds"
    proof (rule ccontr)
      assume "\<not> j < length ?ds"
      then have "i_sectors i ! length ?ds \<noteq> 0" using j(2) by simp
      moreover have "take 13 (i_sectors i) ! length ?ds = 0"
        using nth_length_takeWhile [of "\<lambda>b. b \<noteq> 0" "take 13 (i_sectors i)"] l(2) fD(3) by simp
      ultimately show False using l(2) by simp
    qed
    then show ?thesis using takeWhile_nth [of j "\<lambda>b. b \<noteq> 0" "take 13 (i_sectors i)"] j(1) by (simp add: nth_append)
  qed
  with l show thesis by (intro that [of "?ds @ replicate (140 - length ?ds) 0"]) simp_all
qed

lemma file_read_ok:
  assumes f: "direct_file s h i" and hp: "heap_ok s" and o: "off < i_size i" and sz: "i_size i \<le> 6144"
    and full: "\<And>j. j * 512 < i_size i \<Longrightarrow> i_sectors i ! j \<noteq> 0" and n: "off + n < 2 ^ 32"
  shows "file_read h off n s = Inr (int (min n (i_size i - off)), fbytes s i off (off + min n (i_size i - off)))"
proof -
  define m where "m = min n (i_size i - off)"
  have m: "off + m \<le> i_size i" "m = (if off + n > i_size i then i_size i - off else n)"
    using o by (auto simp: m_def)
  define q where "q = off div 512"
  define r where "r = off mod 512"
  have qr: "off = q * 512 + r" "r < 512" using div_mult_mod_eq [of off 512] by (simp_all add: q_def r_def)
  have q: "q < 12" "q * 512 < i_size i" using o sz qr by auto
  obtain bl where bl: "load_until i s = Inr bl" "length bl = 140"
    "\<And>j. j < 12 \<Longrightarrow> (\<And>l. l \<le> j \<Longrightarrow> i_sectors i ! l \<noteq> 0) \<Longrightarrow> bl ! j = i_sectors i ! j"
    using load_until_ok [OF f] by blast
  have blj: "bl ! j = i_sectors i ! j \<and> i_sectors i ! j \<noteq> 0" if "j * 512 < i_size i" for j
  proof -
    have "j < 12" using that sz by simp
    moreover have "i_sectors i ! l \<noteq> 0" if "l \<le> j" for l
      by (rule full) (use that \<open>j * 512 < i_size i\<close> in linarith)
    ultimately show ?thesis using bl(3) by blast
  qed
  define w where "w = (if m \<ge> BLOCK_SIZE - r then BLOCK_SIZE - r else m)"
  have w: "w \<le> m" "r + w \<le> 512" "r + w = 512 \<or> m = w" using qr by (auto simp: w_def BLOCK_SIZE_def)
  note bp = block_piece [OF f q(1) _ w(2), folded qr(1)]
  have qB: "off div BLOCK_SIZE = q" "off mod BLOCK_SIZE = r" by (simp_all add: q_def r_def BLOCK_SIZE_def)
  have rest: "read_rest bl (q + 1) (m - w) s = Inr (Some (fbytes s i ((q + 1) * 512) ((q + 1) * 512 + (m - w))))"
  proof (rule read_rest_ok [OF f bl(2)])
    show "(q + 1) * 512 + (m - w) \<le> 6144" using w m(1) qr sz q(1) by (cases "m = w") auto
    fix j assume "q + 1 \<le> j" "j * 512 < (q + 1) * 512 + (m - w)"
    then have "j * 512 < i_size i" using w m(1) qr by (cases "m = w") auto
    then show "bl ! j = i_sectors i ! j \<and> i_sectors i ! j \<noteq> 0" by (rule blj)
  qed
  have join: "fbytes s i off (off + w) @ fbytes s i ((q + 1) * 512) ((q + 1) * 512 + (m - w)) = fbytes s i off (off + m)"
  proof (cases "m = w")
    case True
    then show ?thesis by (simp add: fbytes_def)
  next
    case False
    then have "(q + 1) * 512 = off + w" using w(3) qr by simp
    then show ?thesis using w(1) fbytes_append [of off "off + w" "off + m" s i] by simp
  qed
  have lw: "(if (off + n) mod 2 ^ 32 > i_size i then i_size i - off else n) = m" using m(2) n by simp
  have iw: "int w + int (m - w) = int m" using w(1) by simp
  have "int32 (int m) = int m" using m(1) sz by simp
  moreover have "length (fbytes s i off (off + w) @ fbytes s i ((q + 1) * 512) ((q + 1) * 512 + (m - w))) = m"
    using w(1) by simp
  ultimately have "file_read h off n s = Inr (int m, fbytes s i off (off + m))"
    using o hp bl(1,2) blj [OF q(2)] q(1) bp rest join iw
    by (simp only: file_read_def deref_def direct_fileD(2) [OF f] option.case andthen_Inr bl(1) Let_def qB lw
        w_def [symmetric]) simp
  then show ?thesis by (simp add: m_def)
qed

section \<open>Properties\<close>

text \<open>A small partition: 16 blocks from sector 700 on, all free, and one open empty file.\<close>

definition empty_inode :: inode where
  "empty_inode = \<lparr>i_no = 3, i_size = 0, i_open_cnts = 1, flags = 0, i_sectors = replicate 13 0\<rparr>"

definition sample_fs :: fs where
  "sample_fs = \<lparr>disk = (\<lambda>_. replicate 512 0), hd_no = 1, part_lba = 0,
     sb = \<lparr>magic = 0x19590318, sb_sec_cnt = 2000, inode_cnt = 4096, part_lba_base = 0, block_bitmap_lba = 2,
       block_bitmap_sects = 1, inode_bitmap_lba = 3, inode_bitmap_sects = 2, inode_table_lba = 5,
       inode_table_sects = 608, data_struct_lba = 700, root_inode_no = 0, dir_entry_size = 32\<rparr>,
     block_bitmap = \<lparr>bits = replicate 600 0, btmp_bytes_len = 2\<rparr>,
     inode_bitmap = \<lparr>bits = replicate 600 0, btmp_bytes_len = 512\<rparr>,
     open_inodes = [1], inodes = [1 \<mapsto> empty_inode], pipes = Map.empty, root_inode = 0,
     file_table = replicate 32 \<lparr>fd_pos = 0, fd_flag = 0, fd_inode = Nothing\<rparr>,
     fd_table = [0, 1, 2, -1, -1, -1, -1, -1], pages = [0x100000, 0x101000, 0x102000, 0x103000], heap = [0x20000c]\<rparr>"

lemma sample_fs_ok: "fs_ok sample_fs"
  by (auto simp: fs_ok_def sample_fs_def bitmap_guarded_def nbits_def max_lba_def)

lemma sample_free: "free_blocks sample_fs = {0..<16}"
proof -
  have "\<not> bit_set (block_bitmap sample_fs) r" if "r < 16" for r
    using that by (simp add: bit_set_def sample_fs_def)
  then show ?thesis by (auto simp: free_blocks_def allocated_def nbits_def sample_fs_def)
qed

lemma sample_direct: "direct_file sample_fs 1 empty_inode"
proof -
  have "inodes sample_fs 1 = Some empty_inode" by (simp add: sample_fs_def)
  moreover have "missing empty_inode = {0..<12}" by (auto simp: missing_def empty_inode_def)
  ultimately show ?thesis
    using sample_fs_ok sample_free by (auto simp: direct_file_def) (simp_all add: empty_inode_def)
qed

lemma sample_pages: "pages sample_fs = 0x100000 # 0x101000 # [0x102000, 0x103000]" "pages_ok sample_fs"
    "heap_ok sample_fs"
  by (simp_all add: sample_fs_def pages_ok_def heap_ok_def)





end
