(* ===== verification/FileOps.thy ===== *)
theory FileOps
  imports File
begin

text \<open>
  The rest of \<^verbatim>\<open>kernel/fs/file.c\<close>, cutting, creating, opening and closing files, and
  \<^verbatim>\<open>dir_create\<close> and \<^verbatim>\<open>dir_delete\<close> of \<^verbatim>\<open>kernel/fs/dir.c\<close>.
\<close>

section \<open>Removing contents\<close>

text \<open>Giving blocks back from number \<open>blocks_passed\<close> on, up to the first zero address; in the
  first branch (\<open>direct\<close>) the addresses in the inode are cleared too.  The list has 140 words.\<close>

function release_from :: "bool \<Rightarrow> nat \<Rightarrow> nat list \<Rightarrow> nat \<Rightarrow> fs \<Rightarrow> (nat list \<times> nat \<times> fs) cres" where
  "release_from direct h all_blocks blocks_passed s =
     (if blocks_passed < length all_blocks
      then
        let b = all_blocks ! blocks_passed
        in if b \<noteq> 0
           then
             andthen (block_bitmap_dealloc (block_index b s) s) (\<lambda>(_, s).
             andthen (bitmap_sync (block_index b s) BLOCK_BITMAP s) (\<lambda>s.
             andthen (if direct \<and> blocks_passed < 13 then set_sector h blocks_passed 0 s else Inr s) (\<lambda>s.
             release_from direct h (all_blocks[blocks_passed := 0]) (blocks_passed + 1) s)))
           else Inr (all_blocks, blocks_passed, s)
      else Inl Wild)"
  by pat_completeness auto
termination
  by (relation "measure (\<lambda>(d, h, bs, k, s). length bs - k)") auto

declare release_from.simps [simp del]

definition cut_blocks :: "nat \<Rightarrow> nat list \<Rightarrow> nat \<Rightarrow> nat \<Rightarrow> fs \<Rightarrow> fs cres" where
  "cut_blocks h all_blocks secondary_lba blocks_passed s =
     andthen (deref h s) (\<lambda>i.
     let blocks = DIV_ROUND_UP (i_size i) BLOCK_SIZE
     in if blocks_passed \<le> 12
        then
          andthen (release_from True h all_blocks blocks_passed s) (\<lambda>(all_blocks, blocks_passed, s).
            if secondary_lba \<noteq> 0
            then
              andthen (block_bitmap_dealloc (block_index secondary_lba s) s) (\<lambda>(_, s).
              andthen (bitmap_sync (block_index secondary_lba s) BLOCK_BITMAP s) (\<lambda>s.
              andthen (assert_c (blocks_passed = blocks)) (\<lambda>_. Inr s)))
            else Inr s)
        else
          andthen (release_from False h all_blocks blocks_passed s) (\<lambda>(all_blocks, blocks_passed, s).
          andthen (dread secondary_lba 1 s) (\<lambda>_.
          andthen (dwrite secondary_lba (indirect_bytes all_blocks) 1 s) (\<lambda>s.
          andthen (assert_c (blocks_passed = blocks)) (\<lambda>_. Inr s)))))"

function zero_pieces :: "nat list \<Rightarrow> nat \<Rightarrow> nat \<Rightarrow> fs \<Rightarrow> fs cres" where
  "zero_pieces all_blocks blocks_passed left_to_remove s =
     (if left_to_remove > 0
      then
        let remove_in_block = (if left_to_remove \<ge> BLOCK_SIZE then BLOCK_SIZE else left_to_remove)
        in andthen (rd all_blocks blocks_passed) (\<lambda>b.
           andthen (patch_block b 0 (replicate remove_in_block 0) s) (\<lambda>s.
           zero_pieces all_blocks (blocks_passed + 1) (left_to_remove - remove_in_block) s))
      else Inr s)"
  by pat_completeness auto
termination
  by (relation "measure (\<lambda>(bs, k, n, s). n)") (auto simp: BLOCK_SIZE_def)

declare zero_pieces.simps [simp del]

definition file_remove_some_content :: "nat \<Rightarrow> nat \<Rightarrow> nat \<Rightarrow> fs \<Rightarrow> (int \<times> fs) cres" where
  "file_remove_some_content h offset rsize s =
     andthen (deref h s) (\<lambda>i.
       if offset \<ge> i_size i then Inr (-1, s)
       else if \<not> heap_ok s then Inl Wild
       else
         let should_delete_some_block = ((offset + rsize) mod 2 ^ 32 \<ge> i_size i);
             secondary_lba = i_sectors i ! 12;
             blocks_passed = offset div BLOCK_SIZE; in_block_offset = offset mod BLOCK_SIZE
         in andthen (load_blocks 140 i s) (\<lambda>all_blocks.
            andthen
              (if should_delete_some_block
               then
                 andthen
                   (if in_block_offset = 0 then cut_blocks h all_blocks secondary_lba blocks_passed s
                    else
                      andthen (rd all_blocks blocks_passed) (\<lambda>b.
                      andthen (patch_block b in_block_offset (replicate (BLOCK_SIZE - in_block_offset) 0) s) (\<lambda>s.
                      cut_blocks h all_blocks secondary_lba (blocks_passed + 1) s))) (\<lambda>s.
                 andthen (deref h s) (\<lambda>i. Inr (put_inode h (i\<lparr>i_size := offset\<rparr>) s)))
               else
                 let remove_in_block = (if rsize \<ge> BLOCK_SIZE - in_block_offset
                                        then BLOCK_SIZE - in_block_offset else rsize)
                 in andthen (rd all_blocks blocks_passed) (\<lambda>b.
                    andthen (patch_block b in_block_offset (replicate remove_in_block 0) s) (\<lambda>s.
                    zero_pieces all_blocks (blocks_passed + 1) (rsize - remove_in_block) s))) (\<lambda>s.
            andthen (deref h s) (\<lambda>i.
            andthen (inode_sync i 1024 s) (\<lambda>s.
            Inr (int32 (int (i_size i)), s))))))"

section \<open>Creating\<close>

definition zero_file :: open_file where
  "zero_file = \<lparr>fd_pos = 0, fd_flag = 0, fd_inode = Nothing\<rparr>"

definition zero_inode :: inode where
  "zero_inode = \<lparr>i_no = 0, i_size = 0, i_open_cnts = 0, flags = 0, i_sectors = replicate 13 0\<rparr>"

definition zero_entry :: dir_entry where
  "zero_entry = \<lparr>filename = replicate 24 0, e_i_no = 0, f_type = 0\<rparr>"

text \<open>What a failed creation gives back: nothing of the bitmap on the disk has changed.\<close>

definition rollback_inode :: "int \<Rightarrow> fs \<Rightarrow> fs cres" where
  "rollback_inode inode_no s =
     andthen (bitmap_set (inode_bitmap s) (uint32 inode_no) 0) (\<lambda>b. Inr (s\<lparr>inode_bitmap := b\<rparr>))"

definition give_up :: "nat \<Rightarrow> fs \<Rightarrow> (int \<times> fs) cres" where
  "give_up io_buf s = andthen (mfree_page io_buf s) (\<lambda>s. Inr (-1, s))"

definition file_create :: "dir \<Rightarrow> u8 list \<Rightarrow> nat \<Rightarrow> fs \<Rightarrow> (int \<times> fs) cres" where
  "file_create parent_dir name flag s =
     (case get_kernel_page s of
        (None, s) \<Rightarrow> Inr (-1, s)
      | (Some io_buf, s) \<Rightarrow>
          andthen (inode_bitmap_alloc s) (\<lambda>(inode_no, s).
            if inode_no = -1 then give_up io_buf s
            else
              case get_kernel_page s of
                (None, s) \<Rightarrow> andthen (rollback_inode inode_no s) (give_up io_buf)
              | (Some h, s) \<Rightarrow>
                  let fd_idx = get_free_slot_in_global s
                  in if fd_idx = -1
                     then andthen (mfree_page h s) (\<lambda>s. andthen (rollback_inode inode_no s) (give_up io_buf))
                     else
                       let s = put_inode h (inode_init (uint32 inode_no) zero_inode) s
                       in andthen (set_file (uint32 fd_idx) \<lparr>fd_pos = 0, fd_flag = flag, fd_inode = Inode_at h\<rparr> s) (\<lambda>s.
                          andthen (create_dir_entry name (uint32 inode_no) FT_REGULAR zero_entry) (\<lambda>e.
                          andthen (sync_dir_entry parent_dir e s) (\<lambda>(synced, s).
                            if \<not> synced
                            then
                              andthen (set_file (uint32 fd_idx) zero_file s) (\<lambda>s.
                              andthen (mfree_page h (s\<lparr>inodes := (inodes s)(h := None)\<rparr>)) (\<lambda>s.
                              andthen (rollback_inode inode_no s) (give_up io_buf)))
                            else
                              andthen (deref (dir_inode parent_dir) s) (\<lambda>pi.
                              andthen (inode_sync pi 4096 s) (\<lambda>s.
                              andthen (deref h s) (\<lambda>i.
                              andthen (inode_sync i 4096 s) (\<lambda>s.
                              andthen (bitmap_sync (uint32 inode_no) INODE_BITMAP s) (\<lambda>s.
                              let s = put_inode h (i\<lparr>i_open_cnts := 1\<rparr>) (s\<lparr>open_inodes := h # open_inodes s\<rparr>)
                              in andthen (mfree_page io_buf s) (\<lambda>s. Inr (pcb_fd_install fd_idx s))))))))))))"

text \<open>The entries \<^verbatim>\<open>.\<close> and \<^verbatim>\<open>..\<close> of a new directory.\<close>

definition dots_block :: "nat \<Rightarrow> nat \<Rightarrow> u8 list" where
  "dots_block self parent =
     entry_bytes \<lparr>filename = [46] @ replicate 23 0, e_i_no = self, f_type = FT_DIRECTORY\<rparr> @
     entry_bytes \<lparr>filename = [46, 46] @ replicate 22 0, e_i_no = parent, f_type = FT_DIRECTORY\<rparr> @
     replicate (1024 - 64) 0"

text \<open>\<^verbatim>\<open>dir_create\<close> takes its inode from the heap, not a page of its own, and does not test
  the block it allocates for the entries.\<close>

definition dir_create :: "dir \<Rightarrow> u8 list \<Rightarrow> nat \<Rightarrow> fs \<Rightarrow> (int \<times> fs) cres" where
  "dir_create parent_dir name flag s =
     (if \<not> heap_ok s then Inr (-1, s)
      else
        andthen (inode_bitmap_alloc s) (\<lambda>(inode_no, s).
          if inode_no = -1 then Inr (-1, s)
          else
            case tl (heap s) of
              [] \<Rightarrow> andthen (rollback_inode inode_no s) (\<lambda>s. Inr (-1, s))
            | h # hs \<Rightarrow>
            let fd_idx = get_free_slot_in_global s
            in if fd_idx = -1 then andthen (rollback_inode inode_no s) (\<lambda>s. Inr (-1, s))
               else
                 let s = s\<lparr>heap := hd (heap s) # hs\<rparr>; s = put_inode h (inode_init (uint32 inode_no) zero_inode) s
                 in andthen (set_file (uint32 fd_idx) \<lparr>fd_pos = 0, fd_flag = flag, fd_inode = Inode_at h\<rparr> s) (\<lambda>s.
                    andthen (create_dir_entry name (uint32 inode_no) FT_DIRECTORY zero_entry) (\<lambda>e.
                    andthen (sync_dir_entry parent_dir e s) (\<lambda>(synced, s).
                      if \<not> synced
                      then
                        andthen (set_file (uint32 fd_idx) zero_file s) (\<lambda>s.
                        andthen (rollback_inode inode_no (s\<lparr>inodes := (inodes s)(h := None),
                                   heap := hd (heap s) # h # tl (heap s)\<rparr>)) (\<lambda>s.
                        Inr (-1, s)))
                      else
                        andthen (deref (dir_inode parent_dir) s) (\<lambda>pi.
                        andthen (inode_sync pi 1024 s) (\<lambda>s.
                        andthen (block_bitmap_alloc s) (\<lambda>(block_lba, s).
                        let lba = uint32 block_lba
                        in andthen (set_sector h 0 lba s) (\<lambda>s.
                           andthen (dread lba 1 s) (\<lambda>_.
                           andthen (dwrite lba (dots_block (uint32 inode_no) (i_no pi)) 1 s) (\<lambda>s.
                           andthen (bitmap_sync (block_index lba s) BLOCK_BITMAP s) (\<lambda>s.
                           andthen (deref h s) (\<lambda>i.
                           andthen (inode_sync i 1024 s) (\<lambda>s.
                           andthen (bitmap_sync (uint32 inode_no) INODE_BITMAP s) (\<lambda>s.
                           let s = put_inode h (i\<lparr>i_open_cnts := 1\<rparr>) (s\<lparr>open_inodes := h # open_inodes s\<rparr>)
                           in Inr (pcb_fd_install fd_idx s))))))))))))))))"

section \<open>Opening and closing\<close>

definition file_open :: "nat \<Rightarrow> nat \<Rightarrow> fs \<Rightarrow> (int \<times> fs) cres" where
  "file_open inode_no flag s =
     (let fd_idx = get_free_slot_in_global s
      in if fd_idx = -1 then Inr (-1, s)
         else
           andthen (inode_open inode_no s) (\<lambda>(h, s).
           andthen (set_file (uint32 fd_idx) \<lparr>fd_pos = 0, fd_flag = flag, fd_inode = Inode_at h\<rparr> s) (\<lambda>s.
             if has_flag flag O_WRONLY \<or> has_flag flag O_RDWR
             then
               andthen (deref h s) (\<lambda>i.
                 if flags i AND INODE_WRITE_DENY = 0
                 then Inr (pcb_fd_install fd_idx (put_inode h (i\<lparr>flags := flags i OR INODE_WRITE_DENY\<rparr>) s))
                 else
                   andthen (inode_close h s) (\<lambda>s.
                   andthen (set_file (uint32 fd_idx) \<lparr>fd_pos = 0, fd_flag = flag, fd_inode = Nothing\<rparr> s) (\<lambda>s.
                   Inr (-1, s))))
             else Inr (pcb_fd_install fd_idx s))))"

definition file_close :: "nat \<Rightarrow> fs \<Rightarrow> (int \<times> fs) cres" where
  "file_close fd s =
     andthen (rd (file_table s) fd) (\<lambda>f.
       case fd_inode f of
         Nothing \<Rightarrow> Inr (-1, s)
       | Pipe_at p \<Rightarrow> Inl Wild
       | Inode_at h \<Rightarrow>
           andthen (deref h s) (\<lambda>i.
           andthen (inode_close h (put_inode h (i\<lparr>flags := flags i AND NOT INODE_WRITE_DENY\<rparr>) s)) (\<lambda>s.
           andthen (set_file fd (f\<lparr>fd_inode := Nothing\<rparr>) s) (\<lambda>s.
           Inr (0, s)))))"

text \<open>The two functions for the log files repeat \<open>get_free_slot_in_global\<close> and
  \<open>file_open\<close> without the messages.\<close>

definition log_get_free_slot_in_global :: "fs \<Rightarrow> int" where
  "log_get_free_slot_in_global s = free_slot_from (file_table s) 3"

definition log_file_open :: "nat \<Rightarrow> nat \<Rightarrow> fs \<Rightarrow> (int \<times> fs) cres" where
  "log_file_open inode_no flag s =
     (let fd_idx = log_get_free_slot_in_global s
      in if fd_idx = -1 then Inr (-1, s)
         else
           andthen (inode_open inode_no s) (\<lambda>(h, s).
           andthen (set_file (uint32 fd_idx) \<lparr>fd_pos = 0, fd_flag = flag, fd_inode = Inode_at h\<rparr> s) (\<lambda>s.
             if has_flag flag O_WRONLY \<or> has_flag flag O_RDWR
             then
               andthen (deref h s) (\<lambda>i.
                 if flags i AND INODE_WRITE_DENY = 0
                 then Inr (pcb_fd_install fd_idx (put_inode h (i\<lparr>flags := flags i OR INODE_WRITE_DENY\<rparr>) s))
                 else
                   andthen (inode_close h s) (\<lambda>s.
                   andthen (set_file (uint32 fd_idx) \<lparr>fd_pos = 0, fd_flag = flag, fd_inode = Nothing\<rparr> s) (\<lambda>s.
                   Inr (-1, s))))
             else Inr (pcb_fd_install fd_idx s))))"

section \<open>Deleting a directory\<close>

text \<open>
  \<^verbatim>\<open>dir_delete\<close> looks for the entries in a buffer it never reads the disk into.  The buffer
  is fresh memory of \<^verbatim>\<open>sys_malloc\<close>, which is zero, so the first entry of every block is free
  and the loop over the entries, with the recursion in it, is never entered.  The block list has 140
  bytes, so the indirect block does not fit.
\<close>

definition dir_delete :: "nat \<Rightarrow> fs \<Rightarrow> fs cres" where
  "dir_delete h s =
     andthen (deref h s) (\<lambda>i.
     andthen (assert_c (i_no i \<noteq> 0)) (\<lambda>_.
       if \<not> heap_ok s then Inr s
       else if i_sectors i ! 12 \<noteq> 0 then Inl Wild
       else
         andthen (inode_bitmap_dealloc (i_no i) s) (\<lambda>(_, s).
         bitmap_sync (i_no i) INODE_BITMAP s)))"

end
