(* ===== verification/Path.thy ===== *)
theory Path
  imports CString
begin

text \<open>
  The path functions of \<^verbatim>\<open>kernel/fs/fs.c\<close>: taking the first name off a path and counting the
  names.  A name goes into an array of 24 characters; a longer one runs over its end.
\<close>

section \<open>The code\<close>

definition NAME_STORE :: nat where "NAME_STORE = 24"

fun skip_slashes :: "u8 list \<Rightarrow> u8 list cres" where
  "skip_slashes [] = Inl Wild"
| "skip_slashes (c # p) = (if c = 47 then skip_slashes p else Inr (c # p))"

fun copy_name :: "u8 list \<Rightarrow> (u8 list \<times> u8 list) cres" where
  "copy_name [] = Inl Wild"
| "copy_name (c # p) =
     (if c \<noteq> 47 \<and> c \<noteq> 0 then andthen (copy_name p) (\<lambda>(name, r). Inr (c # name, r))
      else Inr ([], c # p))"

text \<open>The name, and the rest of the path, \<open>None\<close> for \<^verbatim>\<open>NULL\<close> at its end.\<close>

definition path_parse :: "u8 list \<Rightarrow> (u8 list \<times> u8 list option) cres" where
  "path_parse pathname =
     andthen (skip_slashes pathname) (\<lambda>p.
     andthen (copy_name p) (\<lambda>(name, r).
     andthen (if length name < NAME_STORE then Inr () else Inl Wild) (\<lambda>_.
     Inr (name, if hd r = 0 then None else Some r))))"

lemma skip_slashes_length: "skip_slashes p = Inr q \<Longrightarrow> length q \<le> length p"
  by (induction p) (auto split: if_splits)

lemma copy_name_split: "copy_name p = Inr (name, r) \<Longrightarrow> p = name @ r \<and> r \<noteq> []"
  by (induction p arbitrary: name) (auto simp: andthen_eq_Inr_iff split: if_splits prod.splits)

lemma path_parse_length:
  "path_parse p = Inr (name, Some q) \<Longrightarrow> name \<noteq> [] \<Longrightarrow> length q < length p"
proof -
  assume "path_parse p = Inr (name, Some q)" and n: "name \<noteq> []"
  then obtain p1 where 1: "skip_slashes p = Inr p1" "copy_name p1 = Inr (name, q)"
    by (auto simp: path_parse_def andthen_eq_Inr_iff split: if_splits prod.splits)
  have "length name + length q \<le> length p"
    using skip_slashes_length [OF 1(1)] copy_name_split [OF 1(2)] by simp
  with n show ?thesis by (cases name) auto
qed

text \<open>\<open>path_depth_cnt\<close>: a call of \<open>path_parse\<close> and one round of the loop behind it.\<close>

function path_depth_from :: "u8 list \<Rightarrow> nat \<Rightarrow> nat cres" where
  "path_depth_from p depth =
     (case path_parse p of
        Inl e \<Rightarrow> Inl e
      | Inr (name, r) \<Rightarrow>
          if name = [] then Inr depth
          else case r of None \<Rightarrow> Inr (depth + 1) | Some q \<Rightarrow> path_depth_from q (depth + 1))"
  by pat_completeness auto
termination
  by (relation "measure (\<lambda>(p, d). length p)") (auto simp: path_parse_length)

declare path_depth_from.simps [simp del]

definition path_depth_cnt :: "u8 list \<Rightarrow> nat cres" where
  "path_depth_cnt pathname = path_depth_from pathname 0"

section \<open>The names of a path\<close>

text \<open>The pieces between slashes that are not empty.\<close>

fun names_acc :: "u8 list \<Rightarrow> u8 list \<Rightarrow> u8 list list" where
  "names_acc w [] = (if w = [] then [] else [w])"
| "names_acc w (c # p) =
     (if c = 47 then (if w = [] then names_acc [] p else w # names_acc [] p) else names_acc (w @ [c]) p)"

definition names :: "u8 list \<Rightarrow> u8 list list" where
  "names p = names_acc [] (cstr p)"

lemma names_slash [simp]: "names (47 # p) = names p"
  by (simp add: names_def)

lemma names_nil [simp]: "names (0 # p) = []" "names [] = []"
  by (simp_all add: names_def)

lemma names_acc_word:
  "\<forall>c \<in> set w. c \<noteq> 47 \<Longrightarrow> names_acc v (w @ p) = names_acc (v @ w) p"
  by (induction w arbitrary: v) auto

lemma skip_slashes_ok:
  "terminated p \<Longrightarrow> \<exists>q. skip_slashes p = Inr q \<and> terminated q \<and> q \<noteq> [] \<and> hd q \<noteq> 47 \<and> names q = names p"
  by (induction p) auto

lemma cstr_append_nz: "\<forall>c \<in> set w. c \<noteq> 0 \<Longrightarrow> cstr (w @ r) = w @ cstr r"
  by (induction w) auto

lemma copy_name_ok:
  "terminated p \<Longrightarrow> \<exists>w r. copy_name p = Inr (w, r) \<and> p = w @ r \<and> (\<forall>c \<in> set w. c \<noteq> 47 \<and> c \<noteq> 0) \<and>
     r \<noteq> [] \<and> (hd r = 47 \<or> hd r = 0) \<and> terminated r"
proof (induction p)
  case (Cons c p)
  show ?case
  proof (cases "c \<noteq> 47 \<and> c \<noteq> 0")
    case True
    then obtain w r where "copy_name p = Inr (w, r) \<and> p = w @ r \<and> (\<forall>c \<in> set w. c \<noteq> 47 \<and> c \<noteq> 0) \<and>
      r \<noteq> [] \<and> (hd r = 47 \<or> hd r = 0) \<and> terminated r" using Cons by auto
    with True show ?thesis by auto
  next
    case False
    then show ?thesis using Cons.prems by auto
  qed
qed simp

text \<open>One step of parsing takes the first name off.\<close>

lemma path_parse_ok:
  assumes t: "terminated p" and len: "\<forall>n \<in> set (names p). length n < NAME_STORE"
  obtains "names p = []" "path_parse p = Inr ([], None)"
  | n ns r where "names p = n # ns" "n \<noteq> []" "path_parse p = Inr (n, r)" "r = None \<and> ns = [] \<or>
      (\<exists>q. r = Some q \<and> terminated q \<and> names q = ns)"
proof -
  obtain p1 where p1: "skip_slashes p = Inr p1" "terminated p1" "hd p1 \<noteq> 47" "names p1 = names p"
    using skip_slashes_ok [OF t] by blast
  obtain w r where w: "copy_name p1 = Inr (w, r)" "p1 = w @ r" "\<forall>c \<in> set w. c \<noteq> 47 \<and> c \<noteq> 0"
    "r \<noteq> []" "hd r = 47 \<or> hd r = 0" "terminated r"
    using copy_name_ok [OF p1(2)] by blast
  obtain c r' where r: "r = c # r'" using w(4) by (cases r) auto
  have nw: "names_acc [] (w @ cstr r) = names_acc w (cstr r)"
    using names_acc_word [of w "[]" "cstr r"] w(3) by auto
  have np: "names p = names_acc w (cstr r)"
    using p1(4) w(2,3) cstr_append_nz [of w r] nw by (simp add: names_def)
  show thesis
  proof (cases "w = []")
    case True
    then have "hd p1 = c" using w(2) r by simp
    then have c0: "c = 0" using p1(3) w(5) r by auto
    then have "names p = []" using np True r by simp
    moreover have "path_parse p = Inr ([], None)"
      using p1(1) w(1) True r c0 by (simp add: path_parse_def NAME_STORE_def)
    ultimately show thesis by (rule that(1))
  next
    case False
    have np': "names p = w # (if c = 0 then [] else names r)"
      using np False r w(5) by (auto simp: names_def)
    then have lw: "length w < NAME_STORE" using len by simp
    have pp: "path_parse p = Inr (w, if c = 0 then None else Some r)"
      using p1(1) w(1) lw r by (simp add: path_parse_def)
    show thesis
    proof (cases "c = 0")
      case True
      with np' pp False show thesis by (intro that(2) [of w "[]" None]) auto
    next
      case False
      with np' pp \<open>w \<noteq> []\<close> w(6) show thesis by (intro that(2) [of w "names r" "Some r"]) auto
    qed
  qed
qed

lemma path_depth_from_ok:
  "terminated p \<Longrightarrow> \<forall>n \<in> set (names p). length n < NAME_STORE \<Longrightarrow>
    path_depth_from p d = Inr (d + length (names p))"
proof (induction "length (names p)" arbitrary: p d)
  case 0
  then have "names p = []" by simp
  then have "path_parse p = Inr ([], None)"
    by (rule_tac path_parse_ok [OF 0(2,3)]) auto
  then show ?case using \<open>names p = []\<close> by (subst path_depth_from.simps) simp
next
  case (Suc k)
  obtain n ns r where p: "names p = n # ns" "n \<noteq> []" "path_parse p = Inr (n, r)"
    "r = None \<and> ns = [] \<or> (\<exists>q. r = Some q \<and> terminated q \<and> names q = ns)"
    by (rule path_parse_ok [OF Suc.prems]) (use Suc.hyps(2) in auto)
  show ?case
  proof (cases r)
    case None
    then show ?thesis using p by (subst path_depth_from.simps) simp
  next
    case (Some q)
    then have q: "terminated q" "names q = ns" using p(4) by auto
    have "path_depth_from q (d + 1) = Inr (d + 1 + length (names q))"
      by (rule Suc.hyps(1)) (use q p(1) Suc.hyps(2) Suc.prems(2) in auto)
    then show ?thesis using p Some q by (subst path_depth_from.simps) simp
  qed
qed

section \<open>Properties\<close>

text \<open>\<^verbatim>\<open>path_depth_cnt\<close> counts the names of a path: the nonempty pieces between slashes,
  however many slashes stand between, before or after them, when no name has 24 characters or more.\<close>

theorem path_depth_counts_names:
  assumes "terminated p" and "\<forall>n \<in> set (names p). length n < 24"
  shows "path_depth_cnt p = Inr (length (names p))"
  using path_depth_from_ok [OF assms(1), of 0] assms(2) by (simp add: path_depth_cnt_def NAME_STORE_def)

text \<open>\<^verbatim>\<open>//a/b/\<close> has two names.\<close>

theorem path_depth_counts_names_witness:
  "path_depth_cnt [47, 47, 97, 47, 98, 47, 0] = Inr 2"
proof -
  have n: "names [47, 47, 97, 47, 98, 47, 0] = [[97], [98]]" by (simp add: names_def)
  have "path_depth_cnt [47, 47, 97, 47, 98, 47, 0] = Inr (length (names [47, 47, 97, 47, 98, 47, 0]))"
    by (rule path_depth_counts_names) (unfold n, simp_all)
  then show ?thesis unfolding n by simp
qed

text \<open>a name of 24 characters or more overruns the array it is stored in: the first
  such name makes \<^verbatim>\<open>path_parse\<close> write past it.\<close>

theorem path_parse_overflow:
  assumes "terminated p" and "names p = n # ns" and "24 \<le> length n"
  shows "path_parse p = Inl Wild"
proof -
  obtain p1 where p1: "skip_slashes p = Inr p1" "terminated p1" "hd p1 \<noteq> 47" "names p1 = names p"
    using skip_slashes_ok [OF assms(1)] by blast
  obtain w r where w: "copy_name p1 = Inr (w, r)" "p1 = w @ r" "\<forall>c \<in> set w. c \<noteq> 47 \<and> c \<noteq> 0"
    "r \<noteq> []" "hd r = 47 \<or> hd r = 0"
    using copy_name_ok [OF p1(2)] by blast
  obtain c r' where r: "r = c # r'" using w(4) by (cases r) auto
  have np: "names p = names_acc w (cstr r)"
    using p1(4) w(2,3) cstr_append_nz [of w r] names_acc_word [of w "[]" "cstr r"] by (auto simp: names_def)
  have "w \<noteq> []" using np assms(2) p1(3) w(2,5) r by auto
  then have "n = w" using np assms(2) r w(5) by auto
  then show ?thesis using p1(1) w(1) assms(3) by (simp add: path_parse_def NAME_STORE_def)
qed

theorem path_parse_overflow_witness:
  "path_parse (replicate 24 97 @ [0]) = Inl Wild"
proof -
  have "names_acc [] (replicate 24 97 @ []) = [replicate 24 97]"
    using names_acc_word [of "replicate 24 97" "[]" "[]"] by simp
  moreover have "cstr (replicate 24 97 @ [0]) = replicate 24 97" by (rule cstr_append_zero) simp
  ultimately have "names (replicate 24 97 @ [0]) = replicate 24 97 # []" by (simp add: names_def)
  then show ?thesis by (intro path_parse_overflow [where n = "replicate 24 97" and ns = "[]"]) simp_all
qed

end
