(* ===== verification/Fs.thy ===== *)
theory Fs
  imports FileOps Path
begin

text \<open>
  \<^verbatim>\<open>kernel/fs/fs.c\<close>: finding a file by its path and the system calls on files and
  directories.  A path argument is the list of bytes from its first character on; the current
  process is its \<open>fd_table\<close>, and \<open>t\<close> its thread where a pipe may make it wait.
\<close>

section \<open>Finding a file\<close>

record path_search_record =
  searched_path :: "u8 list"   \<comment> \<open>without its terminating zero\<close>
  parent_dir :: dir
  file_type :: nat

definition MAX_PATH_LEN :: nat where "MAX_PATH_LEN = 512"

text \<open>Each round of the loop below uses up a part of the path.\<close>

lemma next_name_smaller:
  assumes "(case sub_path of None \<Rightarrow> Inr ([], None) | Some q \<Rightarrow> path_parse q) = Inr (name', sub')" and "name' \<noteq> []"
  shows "(case sub' of None \<Rightarrow> 0 | Some q \<Rightarrow> Suc (length q)) < (case sub_path of None \<Rightarrow> 0 | Some q \<Rightarrow> Suc (length q))"
  using assms path_parse_length by (cases sub_path; cases sub') auto

text \<open>The loop of \<open>search_file\<close>: the name just parsed, the rest of the path, the inode number
  of the directory before the current one, and the last entry found.\<close>

function search_loop :: "u8 list \<Rightarrow> u8 list option \<Rightarrow> nat \<Rightarrow> dir_entry option \<Rightarrow> path_search_record \<Rightarrow> fs \<Rightarrow>
    (int \<times> path_search_record \<times> fs) cres" where
  "search_loop name sub_path parent_inode_no dir_e rec s =
     (if name \<noteq> []
      then
        if length (searched_path rec) + length name + 2 > MAX_PATH_LEN then Inl Wild
        else
          let rec = rec\<lparr>searched_path := searched_path rec @ [47] @ name\<rparr>
          in case search_dir_entry (parent_dir rec) (name @ [0]) s of
               Inl e \<Rightarrow> Inl e
             | Inr (None, s) \<Rightarrow> Inr (-1, rec, s)
             | Inr (Some e, s) \<Rightarrow>
                 (case (case sub_path of None \<Rightarrow> Inr ([], None) | Some q \<Rightarrow> path_parse q) of
                    Inl err \<Rightarrow> Inl err
                  | Inr (name', sub') \<Rightarrow>
                      if f_type e = FT_DIRECTORY
                      then
                        case andthen (deref (dir_inode (parent_dir rec)) s) (\<lambda>i.
                             andthen (dir_close (parent_dir rec) s) (\<lambda>s.
                             andthen (dir_open (e_i_no e) s) (\<lambda>(d, s). Inr (i_no i, d, s)))) of
                          Inl err \<Rightarrow> Inl err
                        | Inr (no, d, s) \<Rightarrow> search_loop name' sub' no (Some e) (rec\<lparr>parent_dir := d\<rparr>) s
                      else if f_type e = FT_REGULAR
                      then Inr (int32 (int (e_i_no e)), rec\<lparr>file_type := FT_REGULAR\<rparr>, s)
                      else search_loop name' sub' parent_inode_no (Some e) rec s)
      else
        andthen (dir_close (parent_dir rec) s) (\<lambda>s.
        andthen (dir_open parent_inode_no s) (\<lambda>(d, s).
          case dir_e of
            None \<Rightarrow> Inl Wild
          | Some e \<Rightarrow> Inr (int32 (int (e_i_no e)), rec\<lparr>parent_dir := d, file_type := FT_DIRECTORY\<rparr>, s))))"
  by pat_completeness auto

termination
  by (relation "measure (\<lambda>(name, sub, no, e, r, s).
        if name = [] then 0 else 1 + (case sub of None \<Rightarrow> 0 | Some q \<Rightarrow> Suc (length q)))")
     (auto dest!: next_name_smaller)

declare search_loop.simps [simp del]

definition search_file :: "u8 list \<Rightarrow> fs \<Rightarrow> (int \<times> path_search_record \<times> fs) cres" where
  "search_file pathname s =
     (let root = \<lparr>searched_path = [], parent_dir = root_dir s, file_type = FT_DIRECTORY\<rparr>
      in andthen (strlen pathname) (\<lambda>path_len.
         let p = cstr pathname
         in if p = [47] \<or> p = [47, 46] \<or> p = [47, 46, 46] then Inr (0, root, s)
            else
              andthen (assert_c (pathname ! 0 = 47 \<and> path_len > 1 \<and> path_len < MAX_PATH_LEN)) (\<lambda>_.
              andthen (path_parse pathname) (\<lambda>(name, sub_path).
              search_loop name sub_path 0 None (root\<lparr>file_type := FT_UNKNOWN\<rparr>) s))))"

text \<open>Memory of \<^verbatim>\<open>sys_malloc\<close> that is used without a test for \<^verbatim>\<open>NULL\<close>.\<close>

definition need_heap :: "fs \<Rightarrow> unit cres" where
  "need_heap s = (if heap_ok s then Inr () else Inl Wild)"

text \<open>The last name of the searched path: \<^verbatim>\<open>strrchr(searched_path, '/')+1\<close>.\<close>

definition last_name :: "u8 list \<Rightarrow> u8 list" where
  "last_name p = rev (takeWhile (\<lambda>c. c \<noteq> 47) (rev p)) @ [0]"

definition last_char :: "u8 list \<Rightarrow> u8 cres" where
  "last_char pathname = andthen (strlen pathname) (\<lambda>n. if n = 0 then Inl Wild else Inr (pathname ! (n - 1)))"

section \<open>Opening and closing\<close>

text \<open>Closing the directory of the search record and failing.\<close>

definition close_fail :: "path_search_record \<Rightarrow> fs \<Rightarrow> (int \<times> fs) cres" where
  "close_fail rec s = andthen (dir_close (parent_dir rec) s) (\<lambda>s. Inr (-1, s))"

definition sys_open :: "u8 list \<Rightarrow> nat \<Rightarrow> fs \<Rightarrow> (int \<times> fs) cres" where
  "sys_open pathname flag s =
     andthen (last_char pathname) (\<lambda>lc.
       if lc = 47 then Inr (-1, s)
       else
         andthen (assert_c (flag \<le> 7)) (\<lambda>_.
         andthen (path_depth_cnt pathname) (\<lambda>pathname_depth.
         andthen (search_file pathname s) (\<lambda>(inode_no, rec, s).
         let found = (inode_no \<noteq> -1)
         in if file_type rec = FT_DIRECTORY then close_fail rec s
            else
              andthen (path_depth_cnt (searched_path rec @ [0])) (\<lambda>path_searched_depth.
                if pathname_depth \<noteq> path_searched_depth then close_fail rec s
                else if \<not> found \<and> \<not> has_flag flag O_CREAT then close_fail rec s
                else if has_flag flag O_CREAT
                then
                  if found then close_fail rec s
                  else
                    andthen (file_create (parent_dir rec) (last_name (searched_path rec)) flag s) (\<lambda>(fd, s).
                    andthen (dir_close (parent_dir rec) s) (\<lambda>s. Inr (fd, s)))
                else
                  andthen (file_open (uint32 inode_no) flag s) (\<lambda>(fd, s).
                  andthen (dir_close (parent_dir rec) s) (\<lambda>s. Inr (fd, s))))))))"

definition sys_close :: "int \<Rightarrow> fs \<Rightarrow> (int \<times> fs) cres" where
  "sys_close fd s =
     (if fd > 2
      then
        let g = fd_local2global (uint32 fd) s
        in andthen (is_pipe (uint32 fd) s) (\<lambda>pipe.
           andthen
             (if pipe
              then
                andthen (rd (file_table s) g) (\<lambda>f.
                let pos = uint32 (int (fd_pos f) - 1)
                in andthen (set_file g (f\<lparr>fd_pos := pos\<rparr>) s) (\<lambda>s.
                   if pos = 0
                   then case fd_inode f of
                       Nothing \<Rightarrow> Inl Assertion
                     | Inode_at h \<Rightarrow> andthen (mfree_page h s) (\<lambda>s. Inr (0, s))
                     | Pipe_at p \<Rightarrow> andthen (mfree_page p s) (\<lambda>s. Inr (0, s))
                   else Inr (0, s)))
              else file_close g s) (\<lambda>(ret, s).
           andthen (wr (fd_table s) (uint32 fd) (-1)) (\<lambda>ft.
           Inr (ret, s\<lparr>fd_table := ft\<rparr>))))
      else Inr (-1, s))"

definition sys_opendir :: "u8 list \<Rightarrow> nat \<Rightarrow> fs \<Rightarrow> (int \<times> fs) cres" where
  "sys_opendir pathname flag s =
     andthen (assert_c (flag \<le> 7)) (\<lambda>_.
     andthen (path_depth_cnt pathname) (\<lambda>pathname_depth.
     andthen (search_file pathname s) (\<lambda>(inode_no, rec, s).
     let found = (inode_no \<noteq> -1)
     in if file_type rec = FT_REGULAR then close_fail rec s
        else
          andthen (path_depth_cnt (searched_path rec @ [0])) (\<lambda>path_searched_depth.
            if pathname_depth \<noteq> path_searched_depth then close_fail rec s
            else if \<not> found \<and> \<not> has_flag flag O_CREAT then close_fail rec s
            else if has_flag flag O_CREAT
            then
              if found then Inr (-1, s)
              else
                andthen (dir_create (parent_dir rec) (last_name (searched_path rec)) flag s) (\<lambda>(fd, s).
                andthen (dir_close (parent_dir rec) s) (\<lambda>s. Inr (fd, s)))
            else Inr (-1, s)))))"

section \<open>Reading, writing, seeking\<close>

definition open_inode :: "nat \<Rightarrow> fs \<Rightarrow> (open_file \<times> nat) cres" where
  "open_inode g s =
     andthen (rd (file_table s) g) (\<lambda>f.
       case fd_inode f of Inode_at h \<Rightarrow> Inr (f, h) | _ \<Rightarrow> Inl Wild)"

definition sys_write :: "int \<Rightarrow> u8 list \<Rightarrow> nat \<Rightarrow> nat \<Rightarrow> fs \<Rightarrow> (int \<times> fs) cres" where
  "sys_write fd data offset bsize s =
     (if fd < 0 \<or> fd = 0 then Inr (-1, s)
      else if fd = 1
      then
        andthen (assert_c (bsize < 256)) (\<lambda>_.
        andthen (get_at data 0 bsize) (\<lambda>_. Inr (-1, s)))
      else
        andthen (rd (file_table s) (fd_local2global (uint32 fd) s)) (\<lambda>f.
          if has_flag (fd_flag f) O_WRONLY \<or> has_flag (fd_flag f) O_RDWR
          then andthen (open_inode (fd_local2global (uint32 fd) s) s) (\<lambda>(_, h). file_write h data offset bsize s)
          else Inr (-1, s)))"

definition sys_read :: "int \<Rightarrow> nat \<Rightarrow> nat \<Rightarrow> fs \<Rightarrow> (int \<times> u8 list) cres" where
  "sys_read fd offset bsize s =
     (if fd < 0 then Inr (-1, [])
      else andthen (open_inode (fd_local2global (uint32 fd) s) s) (\<lambda>(_, h). file_read h offset bsize s))"

definition pipe_of :: "nat \<Rightarrow> fs \<Rightarrow> (nat \<times> ioqueue) cres" where
  "pipe_of g s =
     andthen (rd (file_table s) g) (\<lambda>f.
       case fd_inode f of
         Pipe_at p \<Rightarrow> (case pipes s p of None \<Rightarrow> Inl Wild | Some q \<Rightarrow> Inr (p, q))
       | _ \<Rightarrow> Inl Wild)"

text \<open>A transfer through a pipe that has to wait is the fault \<open>Blocked\<close> here; what it does after
  the wait is in IOQueue.\<close>

definition user_file_write :: "nat \<Rightarrow> int \<Rightarrow> u8 list \<Rightarrow> nat \<Rightarrow> fs \<Rightarrow> (int \<times> fs) cres" where
  "user_file_write t fd data bsize s =
     (if fd = 1 then sys_write fd data 0 bsize s
      else
        let g = fd_local2global (uint32 fd) s
        in andthen (is_pipe (uint32 fd) s) (\<lambda>pipe.
           if \<not> pipe
           then
             andthen (rd (file_table s) g) (\<lambda>f.
             andthen (sys_write fd data (fd_pos f) bsize s) (\<lambda>(result, s).
               if result \<noteq> -1
               then andthen (rd (file_table s) g) (\<lambda>f.
                    andthen (set_file g (f\<lparr>fd_pos := (fd_pos f + bsize) mod 2 ^ 32\<rparr>) s) (\<lambda>s. Inr (result, s)))
               else Inr (result, s)))
           else
             andthen (pipe_of g s) (\<lambda>(p, q).
             andthen (pipe_write q t data bsize) (\<lambda>(q, n, w).
               case w of None \<Rightarrow> Inr (int n, s\<lparr>pipes := (pipes s)(p := Some q)\<rparr>) | Some _ \<Rightarrow> Inl Blocked))))"

definition user_file_read :: "nat \<Rightarrow> int \<Rightarrow> nat \<Rightarrow> fs \<Rightarrow> (int \<times> u8 list \<times> fs) cres" where
  "user_file_read t fd bsize s =
     (if fd \<le> 0 then Inr (-1, [], s)
      else
        let g = fd_local2global (uint32 fd) s
        in if g = 2 ^ 32 - 1 then Inr (-2, [], s)
           else
             andthen (rd (file_table s) g) (\<lambda>f.
               if fd_inode f = Nothing then Inr (-3, [], s)
               else if fd_flag f \<noteq> PIPE_FLAG
               then
                 andthen (sys_read fd (fd_pos f) bsize s) (\<lambda>(read_cnt, bs).
                   if read_cnt = -1 then Inr (-4, [], s)
                   else andthen (set_file g (f\<lparr>fd_pos := uint32 (int (fd_pos f) + read_cnt)\<rparr>) s) (\<lambda>s.
                        Inr (read_cnt, bs, s)))
               else
                 andthen (pipe_of g s) (\<lambda>(p, q).
                 andthen (pipe_read q t bsize) (\<lambda>(q, bs, w).
                   case w of
                     None \<Rightarrow> Inr (int (length bs), bs, s\<lparr>pipes := (pipes s)(p := Some q)\<rparr>)
                   | Some _ \<Rightarrow> Inl Blocked))))"

text \<open>Reading standard input takes the characters from the keyboard's queue one by one.\<close>

definition user_read_stdin :: "ioqueue \<Rightarrow> nat \<Rightarrow> nat \<Rightarrow> (int \<times> u8 list \<times> ioqueue) cres" where
  "user_read_stdin kbd_buf t bsize =
     andthen (read_loop kbd_buf t bsize) (\<lambda>(q, bs, w).
       case w of
         None \<Rightarrow> Inr (if length bs = 0 then -1 else int32 (int (length bs)), bs, q)
       | Some _ \<Rightarrow> Inl Blocked)"

datatype whence = SEEK_SET | SEEK_CUR | SEEK_END | OTHER_WHENCE

definition sys_seekp :: "int \<Rightarrow> int \<Rightarrow> whence \<Rightarrow> fs \<Rightarrow> (int \<times> fs) cres" where
  "sys_seekp fd offset wh_type s =
     (if fd \<le> 2 then Inr (-1, s)
      else
        let g = fd_local2global (uint32 fd) s
        in andthen (open_inode g s) (\<lambda>(f, h).
           andthen (deref h s) (\<lambda>i.
           andthen
             (case wh_type of
                SEEK_SET \<Rightarrow> Inr (if uint32 offset > i_size i then i_size i else uint32 offset)
              | SEEK_CUR \<Rightarrow>
                  andthen (assert_c (uint32 (offset + int (fd_pos f)) \<le> i_size i)) (\<lambda>_.
                  Inr (uint32 (offset + int (fd_pos f))))
              | SEEK_END \<Rightarrow>
                  andthen (assert_c (offset \<le> 0)) (\<lambda>_.
                  andthen (assert_c (int32 (- offset) \<le> int32 (int (i_size i)))) (\<lambda>_.
                  Inr (uint32 (offset + int32 (int (i_size i))))))
              | OTHER_WHENCE \<Rightarrow> Inr (fd_pos f)) (\<lambda>pos.
           andthen (set_file g (f\<lparr>fd_pos := pos\<rparr>) s) (\<lambda>s. Inr (int32 (int pos), s))))))"

definition sys_remove_some_content :: "int \<Rightarrow> int \<Rightarrow> int \<Rightarrow> fs \<Rightarrow> (int \<times> fs) cres" where
  "sys_remove_some_content fd offset rsize s =
     (if fd < 3 then Inr (-1, s)
      else andthen (open_inode (fd_local2global (uint32 fd) s) s) (\<lambda>(_, h).
           file_remove_some_content h (uint32 offset) (uint32 rsize) s))"

section \<open>Removing\<close>

text \<open>The first entry with the name is cleared; the file's other blocks are searched too.\<close>

function clear_entry :: "u8 list \<Rightarrow> u8 list \<Rightarrow> nat \<Rightarrow> nat option cres" where
  "clear_entry sec name i =
     (if i < 16
      then andthen (strcmp (drop (i * entry_len) sec) name) (\<lambda>c.
           if c = 0 then Inr (Some i) else clear_entry sec name (i + 1))
      else Inr None)"
  by pat_completeness auto
termination
  by (relation "measure (\<lambda>(s, n, i). 16 - i)") auto

declare clear_entry.simps [simp del]

function remove_name :: "nat list \<Rightarrow> nat \<Rightarrow> u8 list \<Rightarrow> fs \<Rightarrow> fs cres" where
  "remove_name all_blocks blocks_passed name s =
     (if blocks_passed < length all_blocks
      then
        let b = all_blocks ! blocks_passed
        in if b \<noteq> 0
           then
             andthen (dread b 1 s) (\<lambda>io_buf.
             andthen (clear_entry io_buf name 0) (\<lambda>r.
             andthen
               (case r of
                  None \<Rightarrow> Inr s
                | Some k \<Rightarrow>
                    andthen (put_at io_buf (k * entry_len) (replicate entry_len 0)) (\<lambda>io_buf.
                    dwrite b io_buf 1 s)) (\<lambda>s.
             remove_name all_blocks (blocks_passed + 1) name s)))
           else Inr s
      else Inl Wild)"
  by pat_completeness auto
termination
  by (relation "measure (\<lambda>(bs, k, n, s). length bs - k)") auto

declare remove_name.simps [simp del]

text \<open>What stands behind the last slash, copied into an array of 24 characters.\<close>

definition base_name :: "u8 list \<Rightarrow> u8 list cres" where
  "base_name pathname =
     andthen (strlen pathname) (\<lambda>n.
       let name = rev (takeWhile (\<lambda>c. c \<noteq> 47) (rev (cstr pathname)))
       in if length name < MAX_FILE_NAME_LEN then Inr (name @ replicate (24 - length name) 0) else Inl Wild)"

definition sys_remove :: "u8 list \<Rightarrow> fs \<Rightarrow> (int \<times> fs) cres" where
  "sys_remove pathname s =
     andthen (base_name pathname) (\<lambda>name.
     andthen (last_char pathname) (\<lambda>lc.
       if lc = 47 then Inr (-1, s)
       else
         andthen (path_depth_cnt pathname) (\<lambda>pathname_depth.
         andthen (search_file pathname s) (\<lambda>(inode_no, rec, s).
           if inode_no = -1 then close_fail rec s
           else if file_type rec = FT_DIRECTORY then close_fail rec s
           else
             andthen (path_depth_cnt (searched_path rec @ [0])) (\<lambda>path_searched_depth.
               if pathname_depth \<noteq> path_searched_depth then close_fail rec s
               else
                 andthen (deref (dir_inode (parent_dir rec)) s) (\<lambda>parent_inode.
                 andthen (need_heap s) (\<lambda>_.
                 andthen (load_blocks 140 parent_inode s) (\<lambda>all_blocks.
                 andthen (remove_name all_blocks 0 name s) (\<lambda>s.
                 andthen (dir_close (parent_dir rec) s) (\<lambda>s.
                 andthen (inode_open (uint32 inode_no) s) (\<lambda>(h, s).
                 andthen (deref h s) (\<lambda>i.
                 andthen (file_remove_some_content h 0 (i_size i) s) (\<lambda>(_, s).
                 andthen (inode_delete (uint32 inode_no) BLOCK_SIZE s) (\<lambda>s.
                 Inr (0, s\<lparr>open_inodes := remove1 h (open_inodes s)\<rparr>)))))))))))))))"

text \<open>In a directory's own table the search stops at the first free entry.\<close>

function clear_dir_entry :: "u8 list \<Rightarrow> u8 list \<Rightarrow> nat \<Rightarrow> nat option cres" where
  "clear_dir_entry sec name i =
     (if i < 16 \<and> f_type (entry_at sec i) \<noteq> FT_UNKNOWN
      then
        let e = cstr (drop (i * entry_len) sec)
        in if e = [46, 46] \<or> e = [46] then clear_dir_entry sec name (i + 1)
           else andthen (strcmp (drop (i * entry_len) sec) name) (\<lambda>c.
                if c = 0 then Inr (Some i) else clear_dir_entry sec name (i + 1))
      else Inr None)"
  by pat_completeness auto
termination
  by (relation "measure (\<lambda>(s, n, i). 16 - i)") auto

declare clear_dir_entry.simps [simp del]

function remove_dir_name :: "nat list \<Rightarrow> nat \<Rightarrow> u8 list \<Rightarrow> fs \<Rightarrow> fs cres" where
  "remove_dir_name all_blocks blocks_passed name s =
     (if blocks_passed < length all_blocks
      then
        let b = all_blocks ! blocks_passed
        in if b \<noteq> 0
           then
             andthen (dread b 1 s) (\<lambda>io_buf.
             andthen (clear_dir_entry io_buf name 0) (\<lambda>r.
               case r of
                 None \<Rightarrow> remove_dir_name all_blocks (blocks_passed + 1) name s
               | Some k \<Rightarrow>
                   andthen (put_at io_buf (k * entry_len) (replicate entry_len 0)) (\<lambda>io_buf.
                   dwrite b io_buf 1 s)))
           else Inr s
      else Inl Wild)"
  by pat_completeness auto
termination
  by (relation "measure (\<lambda>(bs, k, n, s). length bs - k)") auto

declare remove_dir_name.simps [simp del]

text \<open>The failing branches leave the directory of the search open.  The list of blocks has 140
  bytes here as in \<open>dir_delete\<close>.\<close>

definition sys_delete_dir :: "u8 list \<Rightarrow> fs \<Rightarrow> (int \<times> fs) cres" where
  "sys_delete_dir pathname s =
     andthen (base_name pathname) (\<lambda>name.
     andthen (path_depth_cnt pathname) (\<lambda>_.
     andthen (search_file pathname s) (\<lambda>(inode_no, rec, s).
     andthen (assert_c (inode_no \<noteq> 0)) (\<lambda>_.
       if inode_no = -1 then Inr (-1, s)
       else if file_type rec \<noteq> FT_DIRECTORY then Inr (-1, s)
       else
         andthen (inode_open (uint32 inode_no) s) (\<lambda>(h, s).
         andthen (dir_delete h s) (\<lambda>s.
         andthen (inode_close h s) (\<lambda>s.
           if \<not> heap_ok s then Inr (-1, s)
           else
             andthen (deref (dir_inode (parent_dir rec)) s) (\<lambda>i.
               if i_sectors i ! 12 \<noteq> 0 then Inl Wild
               else
                 andthen (remove_dir_name (take 13 (i_sectors i)) 0 name s) (\<lambda>s.
                 andthen (dir_close (parent_dir rec) s) (\<lambda>s. Inr (0, s)))))))))))"

section \<open>Listing a directory\<close>

definition entry_names :: "u8 list \<Rightarrow> u8 list list" where
  "entry_names sec =
     map (\<lambda>i. cstr (take 23 (drop (i * entry_len) sec) @ [0]))
       (filter (\<lambda>i. sec ! (i * entry_len) \<noteq> 0) [0..<16])"

fun list_blocks :: "nat list \<Rightarrow> fs \<Rightarrow> u8 list list cres" where
  "list_blocks [] s = Inr []"
| "list_blocks (b # bs) s =
     (if b \<noteq> 0
      then andthen (dread b 1 s) (\<lambda>sec. andthen (list_blocks bs s) (\<lambda>r. Inr (entry_names sec @ r)))
      else Inr [])"

text \<open>The names printed.\<close>

definition sys_dir_list :: "u8 list \<Rightarrow> fs \<Rightarrow> (int \<times> u8 list list \<times> fs) cres" where
  "sys_dir_list pathname s =
     andthen (path_depth_cnt pathname) (\<lambda>_.
     andthen (search_file pathname s) (\<lambda>(inode_no, rec, s).
       if inode_no = -1 \<or> file_type rec \<noteq> FT_DIRECTORY
       then andthen (close_fail rec s) (\<lambda>(r, s). Inr (r, [], s))
       else
         andthen (inode_open (uint32 inode_no) s) (\<lambda>(h, s).
         andthen (deref h s) (\<lambda>i.
         andthen (need_heap s) (\<lambda>_.
         andthen (load_blocks 140 i s) (\<lambda>all_blocks.
         andthen (list_blocks all_blocks s) (\<lambda>out.
         andthen (inode_close h s) (\<lambda>s.
         andthen (dir_close (parent_dir rec) s) (\<lambda>s.
         Inr (0, out, s))))))))))"

section \<open>The calls of user programs\<close>

definition user_file_open :: "u8 list \<Rightarrow> nat \<Rightarrow> fs \<Rightarrow> (int \<times> fs) cres" where
  "user_file_open pathname flag s = sys_open pathname flag s"

definition user_mkdir :: "u8 list \<Rightarrow> fs \<Rightarrow> (int \<times> fs) cres" where
  "user_mkdir pathname s = sys_opendir pathname O_CREAT s"

definition user_file_seekp :: "int \<Rightarrow> int \<Rightarrow> whence \<Rightarrow> fs \<Rightarrow> (int \<times> fs) cres" where
  "user_file_seekp fd offset wh_type s =
     (if fd \<le> 2 then Inr (-1, s)
      else
        let g = fd_local2global (uint32 fd) s
        in if g = 2 ^ 32 - 1 then Inr (-1, s)
           else
             andthen (is_pipe (uint32 fd) s) (\<lambda>pipe.
             andthen (assert_c (\<not> pipe)) (\<lambda>_.
             andthen (rd (file_table s) g) (\<lambda>f.
               if fd_inode f = Nothing then Inr (-3, s) else sys_seekp fd offset wh_type s))))"

definition user_file_remove_some_content :: "int \<Rightarrow> int \<Rightarrow> fs \<Rightarrow> (int \<times> fs) cres" where
  "user_file_remove_some_content fd rsize s =
     (let g = fd_local2global (uint32 fd) s
      in if g = 2 ^ 32 - 1 then Inr (-2, s)
         else
           andthen (rd (file_table s) g) (\<lambda>f.
             if fd_inode f = Nothing then Inr (-3, s)
             else
               andthen (open_inode g s) (\<lambda>(f, h).
               andthen (deref h s) (\<lambda>i.
               let n = (if uint32 (int (fd_pos f) + rsize) \<ge> i_size i
                        then int32 (int (i_size i) - int (fd_pos f)) else rsize)
               in andthen (sys_remove_some_content fd (int32 (int (fd_pos f))) n s) (\<lambda>(result, s).
                  if result = -1 then Inr (-5, s)
                  else
                    andthen (set_file g (f\<lparr>fd_pos := uint32 (int (fd_pos f) + rsize)\<rparr>) s) (\<lambda>s.
                    Inr (rsize, s)))))))"

definition user_delete :: "u8 list \<Rightarrow> fs \<Rightarrow> (int \<times> fs) cres" where
  "user_delete pathname s =
     andthen (sys_remove pathname s) (\<lambda>(result, s).
       if result = -1 then sys_delete_dir pathname s else Inr (result, s))"

definition user_file_close :: "int \<Rightarrow> fs \<Rightarrow> (int \<times> fs) cres" where
  "user_file_close fd s =
     (if fd \<le> 2 then Inr (-2, s)
      else
        let g = fd_local2global (uint32 fd) s
        in if g = 2 ^ 32 - 1 then Inr (-2, s)
           else
             andthen (rd (file_table s) g) (\<lambda>f.
               if fd_inode f = Nothing then Inr (-3, s) else sys_close fd s))"

definition sys_get_file_size :: "int \<Rightarrow> fs \<Rightarrow> int cres" where
  "sys_get_file_size fd s =
     (if fd < 0 then Inr (-1)
      else
        let g = fd_local2global (uint32 fd) s
        in if g = 2 ^ 32 - 1 then Inr (-1)
           else
             andthen (rd (file_table s) g) (\<lambda>f.
             andthen (assert_c (fd_inode f \<noteq> Nothing)) (\<lambda>_.
             andthen (open_inode g s) (\<lambda>(f, h).
             andthen (deref h s) (\<lambda>i.
             Inr (if i_size i > 70 * 1024 then -1 else int (i_size i)))))))"

text \<open>\<^verbatim>\<open>enum file_types\<close> has no \<open>-1\<close>; the caller gets \<open>2 ^ 32 - 1\<close>.\<close>

definition sys_get_file_attribute :: "u8 list \<Rightarrow> fs \<Rightarrow> (nat \<times> fs) cres" where
  "sys_get_file_attribute pathname s =
     andthen (path_depth_cnt pathname) (\<lambda>_.
     andthen (search_file pathname s) (\<lambda>(inode_no, rec, s).
     andthen (dir_close (parent_dir rec) s) (\<lambda>s.
     Inr (if inode_no = -1 then 2 ^ 32 - 1 else file_type rec, s))))"

text \<open>The long listing opens every entry by its path to get the size; a directory cannot be
  opened, so its size is \<open>-1\<close>.\<close>

record listed =
  l_name :: "u8 list"
  l_size :: int
  l_type :: nat
  l_inode :: nat

definition list_entry :: "u8 list \<Rightarrow> u8 list \<Rightarrow> nat \<Rightarrow> fs \<Rightarrow> (listed list \<times> fs) cres" where
  "list_entry pathname sec i s =
     (if sec ! (i * entry_len) = 0 then Inr ([], s)
      else
        let name = cstr (take 23 (drop (i * entry_len) sec) @ [0]);
            path = cstr pathname;
            filepath = path @ (if last path \<noteq> 47 then [47] else []) @ name
        in if length filepath \<ge> MAX_PATH_LEN then Inl Wild
           else
             andthen (need_heap s) (\<lambda>_.
             andthen (sys_open (filepath @ [0]) 0 s) (\<lambda>(fd, s).
             andthen (sys_get_file_size fd s) (\<lambda>size.
             andthen (sys_close fd s) (\<lambda>(_, s).
             Inr ([\<lparr>l_name = name, l_size = size, l_type = f_type (entry_at sec i),
                    l_inode = e_i_no (entry_at sec i)\<rparr>], s))))))"

function list_entries :: "u8 list \<Rightarrow> u8 list \<Rightarrow> nat \<Rightarrow> fs \<Rightarrow> (listed list \<times> fs) cres" where
  "list_entries pathname sec cnt s =
     (if cnt < 16
      then
        andthen (list_entry pathname sec cnt s) (\<lambda>(out, s).
        andthen (list_entries pathname sec (cnt + 1) s) (\<lambda>(rest, s). Inr (out @ rest, s)))
      else Inr ([], s))"
  by pat_completeness auto
termination
  by (relation "measure (\<lambda>(p, b, i, s). 16 - i)") auto

declare list_entries.simps [simp del]

fun list_info_blocks :: "u8 list \<Rightarrow> nat list \<Rightarrow> fs \<Rightarrow> (listed list \<times> fs) cres" where
  "list_info_blocks pathname [] s = Inr ([], s)"
| "list_info_blocks pathname (b # bs) s =
     (if b \<noteq> 0
      then
        andthen (dread b 1 s) (\<lambda>sec.
        andthen (list_entries pathname sec 0 s) (\<lambda>(out, s).
        andthen (list_info_blocks pathname bs s) (\<lambda>(rest, s). Inr (out @ rest, s))))
      else Inr ([], s))"

definition sys_dir_list_info :: "u8 list \<Rightarrow> fs \<Rightarrow> (int \<times> listed list \<times> fs) cres" where
  "sys_dir_list_info pathname s =
     andthen (path_depth_cnt pathname) (\<lambda>_.
     andthen (search_file pathname s) (\<lambda>(inode_no, rec, s).
       if inode_no = -1 \<or> file_type rec \<noteq> FT_DIRECTORY
       then andthen (close_fail rec s) (\<lambda>(r, s). Inr (r, [], s))
       else
         andthen (inode_open (uint32 inode_no) s) (\<lambda>(h, s).
         andthen (deref h s) (\<lambda>i.
         andthen (need_heap s) (\<lambda>_.
         andthen (load_blocks 140 i s) (\<lambda>all_blocks.
         andthen (list_info_blocks pathname all_blocks s) (\<lambda>(out, s).
         andthen (inode_close h s) (\<lambda>s.
         andthen (dir_close (parent_dir rec) s) (\<lambda>s.
         Inr (0, out, s))))))))))"

definition sys_open_log :: "u8 list \<Rightarrow> nat \<Rightarrow> fs \<Rightarrow> (int \<times> fs) cres" where
  "sys_open_log pathname flag s =
     andthen (last_char pathname) (\<lambda>lc.
       if lc = 47 then Inr (-1, s)
       else
         andthen (assert_c (flag \<le> 7)) (\<lambda>_.
         andthen (path_depth_cnt pathname) (\<lambda>pathname_depth.
         andthen (search_file pathname s) (\<lambda>(inode_no, rec, s).
         let found = (inode_no \<noteq> -1)
         in if file_type rec = FT_DIRECTORY then close_fail rec s
            else
              andthen (path_depth_cnt (searched_path rec @ [0])) (\<lambda>path_searched_depth.
                if pathname_depth \<noteq> path_searched_depth then close_fail rec s
                else if \<not> found \<and> \<not> has_flag flag O_CREAT then close_fail rec s
                else
                  andthen (log_file_open (uint32 inode_no) flag s) (\<lambda>(fd, s).
                  andthen (dir_close (parent_dir rec) s) (\<lambda>s. Inr (fd, s))))))))"

definition sys_set_file_attr :: "int \<Rightarrow> u32 \<Rightarrow> fs \<Rightarrow> fs cres" where
  "sys_set_file_attr fd fl s =
     (if fd \<le> 2 then Inr s
      else
        let g = fd_local2global (uint32 fd) s
        in if g = 2 ^ 32 - 1 then Inr s
           else
             andthen (rd (file_table s) g) (\<lambda>f.
             andthen (assert_c (fd_inode f \<noteq> Nothing)) (\<lambda>_.
             andthen (open_inode g s) (\<lambda>(f, h).
             andthen (deref h s) (\<lambda>i. Inr (put_inode h (i\<lparr>flags := fl\<rparr>) s))))))"

definition sys_get_file_attr :: "int \<Rightarrow> fs \<Rightarrow> int cres" where
  "sys_get_file_attr fd s =
     (if fd \<le> 2 then Inr (-1)
      else
        let g = fd_local2global (uint32 fd) s
        in if g = 2 ^ 32 - 1 then Inr (-1)
           else
             andthen (rd (file_table s) g) (\<lambda>f.
             andthen (assert_c (fd_inode f \<noteq> Nothing)) (\<lambda>_.
             andthen (open_inode g s) (\<lambda>(f, h).
             andthen (deref h s) (\<lambda>i. Inr (sint (flags i)))))))"

end
