(* ===== verification/Mount.thy ===== *)
theory Mount
  imports Fs
begin

text \<open>
  The start of the file system in \<^verbatim>\<open>kernel/fs/fs.c\<close>: formatting a partition, mounting
  one, and \<^verbatim>\<open>filesys_init\<close>, which does both at boot.

  Of the structure on the stack that is written as the super block, only the first 512 bytes reach
  the disk: thirteen words and 460 bytes of \<^verbatim>\<open>pad\<close>, which is never set and therefore an
  argument.
\<close>

section \<open>Formatting\<close>

definition MAX_FILES_PER_PART :: nat where "MAX_FILES_PER_PART = 4096"
definition BITS_PER_SECTOR :: nat where "BITS_PER_SECTOR = 2096"
definition sb_magic :: nat where "sb_magic = 0x19590318"

definition sb_words :: "super_block \<Rightarrow> nat list" where
  "sb_words b =
     [magic b, sb_sec_cnt b, inode_cnt b, part_lba_base b, block_bitmap_lba b, block_bitmap_sects b,
      inode_bitmap_lba b, inode_bitmap_sects b, inode_table_lba b, inode_table_sects b,
      data_struct_lba b, root_inode_no b, dir_entry_size b]"

definition sb_of_words :: "nat list \<Rightarrow> super_block" where
  "sb_of_words ws =
     \<lparr>magic = ws ! 0, sb_sec_cnt = ws ! 1, inode_cnt = ws ! 2, part_lba_base = ws ! 3,
      block_bitmap_lba = ws ! 4, block_bitmap_sects = ws ! 5, inode_bitmap_lba = ws ! 6,
      inode_bitmap_sects = ws ! 7, inode_table_lba = ws ! 8, inode_table_sects = ws ! 9,
      data_struct_lba = ws ! 10, root_inode_no = ws ! 11, dir_entry_size = ws ! 12\<rparr>"

definition format_inode_bitmap_sects :: nat where
  "format_inode_bitmap_sects = DIV_ROUND_UP MAX_FILES_PER_PART BITS_PER_SECTOR"

definition format_inode_table_sects :: nat where
  "format_inode_table_sects = DIV_ROUND_UP (MAX_FILES_PER_PART * inode_len) SECTOR_SIZE"

text \<open>The first guess of the bitmap's size is used only to make room for the bitmap.\<close>

definition block_bitmap_bit_len :: "nat \<Rightarrow> nat" where
  "block_bitmap_bit_len part_sec_cnt =
     (let free_sects = uint32 (int part_sec_cnt -
                         int (1 + 1 + format_inode_bitmap_sects + format_inode_table_sects))
      in uint32 (int free_sects - int (DIV_ROUND_UP free_sects BITS_PER_SECTOR)))"

definition format_sb :: "part_info \<Rightarrow> super_block" where
  "format_sb part =
     (let bb_sects = DIV_ROUND_UP (block_bitmap_bit_len (sec_cnt part)) BITS_PER_SECTOR;
          bb_lba = start_lba part + 2;
          ib_lba = bb_lba + bb_sects;
          it_lba = ib_lba + format_inode_bitmap_sects
      in \<lparr>magic = sb_magic, sb_sec_cnt = sec_cnt part, inode_cnt = MAX_FILES_PER_PART,
          part_lba_base = start_lba part,
          block_bitmap_lba = bb_lba mod 2 ^ 32, block_bitmap_sects = bb_sects,
          inode_bitmap_lba = ib_lba mod 2 ^ 32, inode_bitmap_sects = format_inode_bitmap_sects,
          inode_table_lba = it_lba mod 2 ^ 32, inode_table_sects = format_inode_table_sects,
          data_struct_lba = (it_lba + format_inode_table_sects) mod 2 ^ 32,
          root_inode_no = 0, dir_entry_size = entry_len\<rparr>)"

text \<open>The bits of the last byte that are cleared again: \<open>0..last_bit\<close>.\<close>

fun clear_bits :: "nat \<Rightarrow> u8 \<Rightarrow> u8" where
  "clear_bits 0 b = b AND NOT 1"
| "clear_bits (Suc k) b = clear_bits k b AND NOT (push_bit (Suc k) 1)"

definition first_bit :: "u8 list \<Rightarrow> u8 list" where
  "first_bit b = b[0 := b ! 0 OR 1]"

text \<open>The bitmap of blocks.  Only the sector of the last byte is filled up with ones, and the
  number of the last bit is taken from the byte's number.\<close>

definition format_block_bitmap :: "nat \<Rightarrow> nat \<Rightarrow> u8 list cres" where
  "format_block_bitmap buf_size bit_len =
     (let last_byte = bit_len div 8;
          last_bit = last_byte mod 8;
          last_size = SECTOR_SIZE - last_byte mod SECTOR_SIZE
      in andthen (put_at (first_bit (replicate buf_size 0)) last_byte (replicate last_size 0xff)) (\<lambda>b.
         Inr (b[last_byte := clear_bits last_bit (b ! last_byte)])))"

definition format_root_inode :: "nat \<Rightarrow> inode" where
  "format_root_inode lba =
     \<lparr>i_no = 0, i_size = entry_len * 2, i_open_cnts = 0, flags = 0, i_sectors = lba # replicate 12 0\<rparr>"

definition partition_format :: "u8 list \<Rightarrow> part_info \<Rightarrow> fs \<Rightarrow> fs cres" where
  "partition_format pad part s =
     (let b = format_sb part;
          buf_size = max (max (block_bitmap_sects b) (inode_bitmap_sects b)) (inode_table_sects b) * SECTOR_SIZE
      in andthen (dwrite ((start_lba part + 1) mod 2 ^ 32) (bytes_of (sb_words b) @ pad) 1 s) (\<lambda>s.
         andthen (need_heap s) (\<lambda>_.
         andthen (format_block_bitmap buf_size (block_bitmap_bit_len (sec_cnt part))) (\<lambda>blocks.
         andthen (dwrite (block_bitmap_lba b) blocks (block_bitmap_sects b) s) (\<lambda>s.
         andthen (dwrite (inode_bitmap_lba b) (first_bit (replicate buf_size 0)) (inode_bitmap_sects b) s) (\<lambda>s.
         andthen (put_at (replicate buf_size 0) 0 (inode_bytes (format_root_inode (data_struct_lba b)))) (\<lambda>table.
         andthen (dwrite (inode_table_lba b) table (inode_table_sects b) s) (\<lambda>s.
         andthen (put_at (replicate buf_size 0) 0 (take 64 (dots_block 0 0))) (\<lambda>root.
         dwrite (data_struct_lba b) root 1 s)))))))))"

section \<open>Mounting\<close>

text \<open>The four blocks of memory are kept: the buffer the super block was read to, its copy and the
  two bitmaps.  The copy takes the size of the whole structure, 1892 bytes, from the buffer of 512;
  what is read behind it goes to the unused \<^verbatim>\<open>pad\<close>.\<close>

definition mount_partition :: "u8 list \<Rightarrow> part_info \<Rightarrow> fs \<Rightarrow> (bool \<times> fs) cres" where
  "mount_partition name part s =
     andthen (strcmp (part_name part) name) (\<lambda>c.
       if c \<noteq> 0 then Inr (False, s)
       else
         andthen (assert_c (length (heap s) \<ge> 2)) (\<lambda>_.
         andthen (dread ((start_lba part + 1) mod 2 ^ 32) 1 s) (\<lambda>sb_buf.
         let b = sb_of_words (words_of sb_buf)
         in andthen (assert_c (length (heap s) \<ge> 3)) (\<lambda>_.
            andthen (dread (block_bitmap_lba b) (block_bitmap_sects b) s) (\<lambda>bb.
            andthen (assert_c (length (heap s) \<ge> 4)) (\<lambda>_.
            andthen (dread (inode_bitmap_lba b) (inode_bitmap_sects b) s) (\<lambda>ib.
            Inr (True, s\<lparr>part_lba := start_lba part, sb := b,
              block_bitmap := \<lparr>bits = bb, btmp_bytes_len = block_bitmap_sects b * SECTOR_SIZE\<rparr>,
              inode_bitmap := \<lparr>bits = ib, btmp_bytes_len = inode_bitmap_sects b * SECTOR_SIZE\<rparr>,
              open_inodes := [], heap := drop 4 (heap s)\<rparr>))))))))"

section \<open>At boot\<close>

text \<open>Only the second disk of a channel is looked at.  The index of the partition is not reset, so
  the partitions of a second channel are not reached: \<open>parts\<close> are the four primary and eight
  logical partitions of the second disk of the first channel.\<close>

fun format_parts :: "u8 list \<Rightarrow> part_info list \<Rightarrow> fs \<Rightarrow> fs cres" where
  "format_parts pad [] s = Inr s"
| "format_parts pad (part # parts) s =
     (if sec_cnt part \<noteq> 0
      then
        andthen (dread ((start_lba part + 1) mod 2 ^ 32) 1 s) (\<lambda>sb_buf.
        andthen (if magic (sb_of_words (words_of sb_buf)) = sb_magic then Inr s
                 else partition_format pad part s) (\<lambda>s.
        format_parts pad parts s))
      else format_parts pad parts s)"

text \<open>The traversal of the partition list ends with the first partition that is mounted;
  \<^verbatim>\<open>cur_part\<close> stays \<^verbatim>\<open>NULL\<close> when there is none.\<close>

fun mount_first :: "u8 list \<Rightarrow> part_info list \<Rightarrow> fs \<Rightarrow> (bool \<times> fs) cres" where
  "mount_first name [] s = Inr (False, s)"
| "mount_first name (part # parts) s =
     andthen (mount_partition name part s) (\<lambda>(mounted, s).
       if mounted then Inr (True, s) else mount_first name parts s)"

definition default_part :: "u8 list" where
  "default_part = [115, 100, 98, 49, 0, 0, 0, 0]"

definition part_at :: "part_scan \<Rightarrow> part_ref \<Rightarrow> part_info" where
  "part_at st r = (case r of Prim k \<Rightarrow> prim_parts st ! k | Logic k \<Rightarrow> logic_parts st ! k)"

definition filesys_init :: "u8 list \<Rightarrow> part_scan \<Rightarrow> fs \<Rightarrow> fs cres" where
  "filesys_init pad st s =
     andthen (assert_c (heap_ok s)) (\<lambda>_.
     andthen (format_parts pad (prim_parts st @ logic_parts st) s) (\<lambda>s.
     andthen (mount_first default_part (map (part_at st) (partition_list st)) s) (\<lambda>(mounted, s).
       if \<not> mounted then Inl Wild
       else
         andthen (open_root_dir s) (\<lambda>s.
         Inr (s\<lparr>file_table := map (\<lambda>f. f\<lparr>fd_inode := Nothing\<rparr>) (file_table s)\<rparr>)))))"

end
