(* ===== verification/Memory.thy ===== *)
theory Memory
  imports Bitmap FsBase
begin

text \<open>
  \<^verbatim>\<open>kernel/memop/memory.c\<close>: the pools of physical frames, the bitmaps of virtual pages, the
  page tables, and the allocator of small blocks behind \<^verbatim>\<open>sys_malloc\<close>.

  Addresses are numbers below \<open>2 ^ 32\<close>.  The page directory and the page tables are reached
  through the last entry of the directory, which points to the directory itself; the model has the
  entries by their index and by the number of the virtual page.  Every function works on the pools
  whose locks its caller or it itself holds, on behalf of the running thread, whose virtual pages
  and block descriptors are part of the state; what is stored in the pages is not.
\<close>

section \<open>State\<close>

definition K_HEAP_START :: nat where "K_HEAP_START = 0xc0100000"
definition MEM_BITMAP_BASE :: nat where "MEM_BITMAP_BASE = 0xc009a000"
definition DESC_CNT :: nat where "DESC_CNT = 7"
definition PG_P_1 :: u32 where "PG_P_1 = 1"
definition PG_RW_W :: u32 where "PG_RW_W = 2"
definition PG_US_U :: u32 where "PG_US_U = 4"

datatype pool_flags = PF_KERNEL | PF_USER

record pool =
  pool_bitmap :: bitmap
  phy_addr_start :: nat
  pool_size :: nat

record virtual_addr =
  vaddr_bitmap :: bitmap
  vaddr_start :: nat

text \<open>The header of an arena; \<open>a_desc\<close> points into one of the two arrays of descriptors,
  \<open>None\<close> for \<^verbatim>\<open>NULL\<close>.\<close>

record arena =
  a_desc :: "(pool_flags \<times> nat) option"
  a_cnt :: nat
  large :: bool

record mem_block_desc =
  block_size :: nat
  blocks_per_arena :: nat
  free_list :: "nat list"

record mem =
  kernel_pool :: pool
  user_pool :: pool
  kernel_vaddr :: virtual_addr
  userprog_vaddr :: virtual_addr
  pde :: "nat \<Rightarrow> u32"
  pte :: "nat \<Rightarrow> u32"
  k_block_descs :: "mem_block_desc list"
  u_block_desc :: "mem_block_desc list"
  arenas :: "nat \<Rightarrow> arena option"
  pgdir_null :: bool   \<comment> \<open>the running thread has no page directory of its own\<close>

definition the_pool :: "pool_flags \<Rightarrow> mem \<Rightarrow> pool" where
  "the_pool pf m = (case pf of PF_KERNEL \<Rightarrow> kernel_pool m | PF_USER \<Rightarrow> user_pool m)"

definition set_pool :: "pool_flags \<Rightarrow> pool \<Rightarrow> mem \<Rightarrow> mem" where
  "set_pool pf p m = (case pf of PF_KERNEL \<Rightarrow> m\<lparr>kernel_pool := p\<rparr> | PF_USER \<Rightarrow> m\<lparr>user_pool := p\<rparr>)"

definition the_vaddr :: "pool_flags \<Rightarrow> mem \<Rightarrow> virtual_addr" where
  "the_vaddr pf m = (case pf of PF_KERNEL \<Rightarrow> kernel_vaddr m | PF_USER \<Rightarrow> userprog_vaddr m)"

definition set_vaddr :: "pool_flags \<Rightarrow> virtual_addr \<Rightarrow> mem \<Rightarrow> mem" where
  "set_vaddr pf v m =
     (case pf of PF_KERNEL \<Rightarrow> m\<lparr>kernel_vaddr := v\<rparr> | PF_USER \<Rightarrow> m\<lparr>userprog_vaddr := v\<rparr>)"

definition get_phy_addr_start :: "pool \<Rightarrow> nat" where
  "get_phy_addr_start p = phy_addr_start p"

definition get_phy_bitmap_ptr :: "pool \<Rightarrow> bitmap" where
  "get_phy_bitmap_ptr p = pool_bitmap p"

section \<open>Setting up the pools\<close>

text \<open>The three bitmaps lie behind one another from \<^verbatim>\<open>MEM_BITMAP_BASE\<close> on; \<open>memory\<close> is
  what is stored there, up to the end of the memory that is mapped.\<close>

definition mem_pool_init :: "nat \<Rightarrow> u8 list \<Rightarrow> mem \<Rightarrow> mem cres" where
  "mem_pool_init all_mem memory m =
     (let used_mem = PG_SIZE * 256 + 0x100000;
          free_mem = uint32 (int all_mem - int used_mem);
          all_free_pages = free_mem div PG_SIZE;
          kernel_free_pages = all_free_pages div 2;
          user_free_pages = all_free_pages - kernel_free_pages;
          kbm_length = kernel_free_pages div 8;
          ubm_length = user_free_pages div 8;
          kp_start = used_mem;
          up_start = kp_start + kernel_free_pages * PG_SIZE
      in andthen (bitmap_init \<lparr>bits = memory, btmp_bytes_len = kbm_length\<rparr>) (\<lambda>kb.
         andthen (bitmap_init \<lparr>bits = drop kbm_length memory, btmp_bytes_len = ubm_length\<rparr>) (\<lambda>ub.
         andthen (bitmap_init \<lparr>bits = drop (kbm_length + ubm_length) memory, btmp_bytes_len = kbm_length\<rparr>) (\<lambda>vb.
         Inr (m\<lparr>kernel_pool := \<lparr>pool_bitmap = kb\<lparr>bits := take kbm_length (bits kb) @ take ubm_length (bits ub) @ bits vb\<rparr>,
                   phy_addr_start = kp_start, pool_size = kernel_free_pages * PG_SIZE\<rparr>,
                 user_pool := \<lparr>pool_bitmap = ub\<lparr>bits := take ubm_length (bits ub) @ bits vb\<rparr>,
                   phy_addr_start = up_start, pool_size = user_free_pages * PG_SIZE\<rparr>,
                 kernel_vaddr := \<lparr>vaddr_bitmap = vb, vaddr_start = K_HEAP_START\<rparr>\<rparr>)))))"

text \<open>Descriptors for blocks of 16 to 1024 bytes.  The header of an arena has 12 bytes.\<close>

definition arena_len :: nat where "arena_len = 12"

definition block_desc_init :: "mem_block_desc list" where
  "block_desc_init =
     map (\<lambda>desc_idx. \<lparr>block_size = 16 * 2 ^ desc_idx,
            blocks_per_arena = (PG_SIZE - arena_len) div (16 * 2 ^ desc_idx), free_list = []\<rparr>)
       [0..<DESC_CNT]"

definition mem_init :: "nat \<Rightarrow> u8 list \<Rightarrow> mem \<Rightarrow> mem cres" where
  "mem_init mem_bytes_total memory m =
     andthen (mem_pool_init mem_bytes_total memory m) (\<lambda>m.
     Inr (m\<lparr>k_block_descs := block_desc_init\<rparr>))"

section \<open>Virtual pages and frames\<close>

text \<open>The loops that set a run of bits: \<open>set_range\<close> of Bitmap.\<close>

definition vaddr_get :: "pool_flags \<Rightarrow> nat \<Rightarrow> mem \<Rightarrow> (nat option \<times> mem) cres" where
  "vaddr_get pf pg_cnt m =
     (let va = the_vaddr pf m
      in andthen (bitmap_scan (vaddr_bitmap va) pg_cnt) (\<lambda>bit_idx_start.
           if bit_idx_start = -1 then Inr (None, m)
           else
             andthen (set_range bitmap_set (nat bit_idx_start) 1 pg_cnt (vaddr_bitmap va)) (\<lambda>b.
             let addr = (vaddr_start va + nat bit_idx_start * PG_SIZE) mod 2 ^ 32
             in andthen (assert_c (pf = PF_KERNEL \<or> addr < 0xc0000000 - PG_SIZE)) (\<lambda>_.
                Inr (if addr = 0 then None else Some addr, set_vaddr pf (va\<lparr>vaddr_bitmap := b\<rparr>) m)))))"

definition vaddr_remove :: "pool_flags \<Rightarrow> nat \<Rightarrow> nat \<Rightarrow> mem \<Rightarrow> mem cres" where
  "vaddr_remove pf vaddr pg_cnt m =
     (let va = the_vaddr pf m; bit_idx_start = uint32 (int vaddr - int (vaddr_start va)) div PG_SIZE
      in andthen (set_range bitmap_set bit_idx_start 0 pg_cnt (vaddr_bitmap va)) (\<lambda>b.
         Inr (set_vaddr pf (va\<lparr>vaddr_bitmap := b\<rparr>) m)))"

text \<open>\<open>None\<close> is \<^verbatim>\<open>NULL\<close>, the physical address 0 where it is used all the same.\<close>

definition palloc :: "pool_flags \<Rightarrow> mem \<Rightarrow> (nat option \<times> mem) cres" where
  "palloc pf m =
     (let p = the_pool pf m
      in andthen (bitmap_scan (pool_bitmap p) 1) (\<lambda>bit_idx.
           if bit_idx = -1 then Inr (None, m)
           else
             andthen (bitmap_set (pool_bitmap p) (nat bit_idx) 1) (\<lambda>b.
             Inr (Some ((nat bit_idx * PG_SIZE + phy_addr_start p) mod 2 ^ 32),
                  set_pool pf (p\<lparr>pool_bitmap := b\<rparr>) m))))"

definition pfree :: "nat \<Rightarrow> mem \<Rightarrow> mem cres" where
  "pfree pg_phy_addr m =
     (let pf = (if pg_phy_addr \<ge> phy_addr_start (user_pool m) then PF_USER else PF_KERNEL);
          p = the_pool pf m;
          bit_idx = uint32 (int pg_phy_addr - int (phy_addr_start p)) div PG_SIZE
      in andthen (bitmap_set (pool_bitmap p) bit_idx 0) (\<lambda>b.
         Inr (set_pool pf (p\<lparr>pool_bitmap := b\<rparr>) m)))"

section \<open>Page tables\<close>

text \<open>The entries' own addresses, and their indices in the model.\<close>

definition PDE_IDX :: "nat \<Rightarrow> nat" where "PDE_IDX addr = addr div 2 ^ 22"
definition PTE_IDX :: "nat \<Rightarrow> nat" where "PTE_IDX addr = addr div 2 ^ 12 mod 2 ^ 10"

definition pte_ptr :: "nat \<Rightarrow> nat" where
  "pte_ptr vaddr = 0xffc00000 + PDE_IDX vaddr * 2 ^ 12 + PTE_IDX vaddr * 4"

definition pde_ptr :: "nat \<Rightarrow> nat" where
  "pde_ptr vaddr = 0xfffff000 + PDE_IDX vaddr * 4"

definition present :: "u32 \<Rightarrow> bool" where "present e \<longleftrightarrow> e AND 1 \<noteq> 0"

definition frame_bits :: "u32 \<Rightarrow> u32" where "frame_bits e = e AND 0xfffff000"

definition entry :: "nat \<Rightarrow> u32" where
  "entry phyaddr = of_nat phyaddr OR PG_US_U OR PG_RW_W OR PG_P_1"

text \<open>A new page table is taken from the kernel's pool and cleared.\<close>

definition page_table_add :: "nat \<Rightarrow> nat \<Rightarrow> mem \<Rightarrow> mem cres" where
  "page_table_add vaddr page_phyaddr m =
     (let d = PDE_IDX vaddr; v = vaddr div PG_SIZE
      in andthen
           (if present (pde m d)
            then
              andthen (assert_c (\<not> present (pte m v))) (\<lambda>_.
              Inr (m\<lparr>pte := (pte m)(v := entry page_phyaddr)\<rparr>))
            else
              andthen (palloc PF_KERNEL m) (\<lambda>(pde_phyaddr, m).
              let tables = (\<lambda>w. if w div 2 ^ 10 = d then 0 else pte m w)
              in Inr (m\<lparr>pde := (pde m)(d := entry (case pde_phyaddr of None \<Rightarrow> 0 | Some a \<Rightarrow> a)),
                        pte := tables(v := entry page_phyaddr)\<rparr>))) (\<lambda>m.
         Inr (m\<lparr>pde := (pde m)(d := pde m d AND 0xffffffbf)\<rparr>)))"

text \<open>Reading an entry of a table that is not there faults.\<close>

definition addr_v2p :: "nat \<Rightarrow> mem \<Rightarrow> nat cres" where
  "addr_v2p vaddr m =
     (let e = pde m (PDE_IDX vaddr)
      in if frame_bits e = 0 then Inr 0
         else if \<not> present e then Inl Wild
         else Inr ((unat (frame_bits (pte m (vaddr div PG_SIZE))) + vaddr mod PG_SIZE) mod 2 ^ 32))"

definition page_table_pte_remove :: "nat \<Rightarrow> mem \<Rightarrow> mem cres" where
  "page_table_pte_remove vaddr m =
     (if \<not> present (pde m (PDE_IDX vaddr)) then Inl Wild
      else let v = vaddr div PG_SIZE in Inr (m\<lparr>pte := (pte m)(v := pte m v AND NOT PG_P_1)\<rparr>))"

section \<open>Pages\<close>

fun map_pages :: "pool_flags \<Rightarrow> nat \<Rightarrow> nat \<Rightarrow> mem \<Rightarrow> mem cres" where
  "map_pages pf vaddr 0 m = Inr m"
| "map_pages pf vaddr (Suc cnt) m =
     andthen (palloc pf m) (\<lambda>(page_phyaddr, m).
     andthen (page_table_add vaddr (case page_phyaddr of None \<Rightarrow> 0 | Some a \<Rightarrow> a) m) (\<lambda>m.
     map_pages pf ((vaddr + PG_SIZE) mod 2 ^ 32) cnt m))"

definition malloc_page :: "pool_flags \<Rightarrow> nat \<Rightarrow> mem \<Rightarrow> (nat option \<times> mem) cres" where
  "malloc_page pf pg_cnt m =
     andthen (vaddr_get pf pg_cnt m) (\<lambda>(vaddr, m).
       case vaddr of
         None \<Rightarrow> Inr (None, m)
       | Some a \<Rightarrow> andthen (map_pages pf a pg_cnt m) (\<lambda>m. Inr (Some a, m)))"

definition get_kernel_pages :: "nat \<Rightarrow> mem \<Rightarrow> (nat option \<times> mem) cres" where
  "get_kernel_pages pg_cnt m = malloc_page PF_KERNEL pg_cnt m"

definition get_user_pages :: "nat \<Rightarrow> mem \<Rightarrow> (nat option \<times> mem) cres" where
  "get_user_pages pg_cnt m = malloc_page PF_USER pg_cnt m"

text \<open>A page at a given address.  \<^verbatim>\<open>bit_idx\<close> is signed and has to be positive; without a frame
  the bit stays set and the lock held.\<close>

definition get_a_page :: "pool_flags \<Rightarrow> nat \<Rightarrow> mem \<Rightarrow> (nat option \<times> mem) cres" where
  "get_a_page pf vaddr m =
     (let va = the_vaddr pf m; bit_idx = uint32 (int vaddr - int (vaddr_start va)) div PG_SIZE
      in andthen (assert_c (bit_idx > 0)) (\<lambda>_.
         andthen (bitmap_set (vaddr_bitmap va) bit_idx 1) (\<lambda>b.
         andthen (palloc pf (set_vaddr pf (va\<lparr>vaddr_bitmap := b\<rparr>) m)) (\<lambda>(page_phyaddr, m).
           case page_phyaddr of
             None \<Rightarrow> Inr (None, m)
           | Some a \<Rightarrow> andthen (page_table_add vaddr a m) (\<lambda>m. Inr (Some vaddr, m))))))"

definition get_a_page_without_opvaddrbitmap :: "pool_flags \<Rightarrow> nat \<Rightarrow> mem \<Rightarrow> (nat option \<times> mem) cres" where
  "get_a_page_without_opvaddrbitmap pf vaddr m =
     andthen (palloc pf m) (\<lambda>(page_phyaddr, m).
       case page_phyaddr of
         None \<Rightarrow> Inr (None, m)
       | Some a \<Rightarrow> andthen (page_table_add vaddr a m) (\<lambda>m. Inr (Some vaddr, m)))"

text \<open>The loop that gives the frames back; which pool they have to be from is decided by the first.\<close>

fun unmap_pages :: "bool \<Rightarrow> nat \<Rightarrow> nat \<Rightarrow> mem \<Rightarrow> mem cres" where
  "unmap_pages user vaddr 0 m = Inr m"
| "unmap_pages user vaddr (Suc n) m =
     andthen (addr_v2p vaddr m) (\<lambda>pg_phy_addr.
     andthen (assert_c (pg_phy_addr mod PG_SIZE = 0 \<and>
        (if user then pg_phy_addr \<ge> phy_addr_start (user_pool m)
         else pg_phy_addr \<ge> phy_addr_start (kernel_pool m) \<and> pg_phy_addr < phy_addr_start (user_pool m)))) (\<lambda>_.
     andthen (pfree pg_phy_addr m) (\<lambda>m.
     andthen (page_table_pte_remove vaddr m) (\<lambda>m.
     unmap_pages user ((vaddr + PG_SIZE) mod 2 ^ 32) n m))))"

definition mfree_page_avoid_vaddr_remove :: "pool_flags \<Rightarrow> nat \<Rightarrow> nat \<Rightarrow> mem \<Rightarrow> mem cres" where
  "mfree_page_avoid_vaddr_remove pf vaddr pg_cnt m =
     andthen (assert_c (pg_cnt \<ge> 1 \<and> vaddr mod PG_SIZE = 0)) (\<lambda>_.
     andthen (addr_v2p vaddr m) (\<lambda>pg_phy_addr.
     andthen (assert_c (pg_phy_addr mod PG_SIZE = 0 \<and> pg_phy_addr \<ge> 0x102000)) (\<lambda>_.
     unmap_pages (pg_phy_addr \<ge> phy_addr_start (user_pool m)) vaddr pg_cnt m)))"

definition mfree_pages :: "pool_flags \<Rightarrow> nat \<Rightarrow> nat \<Rightarrow> mem \<Rightarrow> mem cres" where
  "mfree_pages pf vaddr pg_cnt m =
     andthen (mfree_page_avoid_vaddr_remove pf vaddr pg_cnt m) (\<lambda>m.
     vaddr_remove pf vaddr pg_cnt m)"

section \<open>Blocks\<close>

definition arena2block :: "nat \<Rightarrow> mem_block_desc \<Rightarrow> nat \<Rightarrow> nat" where
  "arena2block a d idx = a + arena_len + idx * block_size d"

definition block2arena :: "nat \<Rightarrow> nat" where
  "block2arena b = b div PG_SIZE * PG_SIZE"

definition the_descs :: "pool_flags \<Rightarrow> mem \<Rightarrow> mem_block_desc list" where
  "the_descs pf m = (case pf of PF_KERNEL \<Rightarrow> k_block_descs m | PF_USER \<Rightarrow> u_block_desc m)"

definition set_free :: "pool_flags \<Rightarrow> nat \<Rightarrow> nat list \<Rightarrow> mem \<Rightarrow> mem" where
  "set_free pf k fl m =
     (let ds = (the_descs pf m)[k := (the_descs pf m ! k)\<lparr>free_list := fl\<rparr>]
      in case pf of PF_KERNEL \<Rightarrow> m\<lparr>k_block_descs := ds\<rparr> | PF_USER \<Rightarrow> m\<lparr>u_block_desc := ds\<rparr>)"

definition set_arena :: "nat \<Rightarrow> arena option \<Rightarrow> mem \<Rightarrow> mem" where
  "set_arena a x m = m\<lparr>arenas := (arenas m)(a := x)\<rparr>"

function desc_for :: "nat \<Rightarrow> mem_block_desc list \<Rightarrow> nat \<Rightarrow> nat" where
  "desc_for sz descs desc_idx =
     (if desc_idx < DESC_CNT
      then if sz \<le> block_size (descs ! desc_idx) then desc_idx else desc_for sz descs (desc_idx + 1)
      else desc_idx)"
  by pat_completeness auto
termination
  by (relation "measure (\<lambda>(s, d, i). DESC_CNT - i)") auto

declare desc_for.simps [simp del]

text \<open>A new arena's blocks go to the free list one by one.\<close>

fun add_blocks :: "nat \<Rightarrow> mem_block_desc \<Rightarrow> nat \<Rightarrow> nat \<Rightarrow> nat list \<Rightarrow> nat list cres" where
  "add_blocks a d block_idx 0 fl = Inr fl"
| "add_blocks a d block_idx (Suc n) fl =
     (let b = arena2block a d block_idx
      in andthen (assert_c (b \<notin> set fl)) (\<lambda>_. add_blocks a d (block_idx + 1) n (fl @ [b])))"

definition take_block :: "pool_flags \<Rightarrow> nat \<Rightarrow> mem \<Rightarrow> (nat option \<times> mem) cres" where
  "take_block pf k m =
     (case free_list (the_descs pf m ! k) of
        [] \<Rightarrow> Inl Assertion
      | b # fl \<Rightarrow>
          (case arenas m (block2arena b) of
             None \<Rightarrow> Inl Wild
           | Some a \<Rightarrow>
               Inr (Some b, set_arena (block2arena b) (Some (a\<lparr>a_cnt := uint32 (int (a_cnt a) - 1)\<rparr>))
                              (set_free pf k fl m))))"

definition sys_malloc :: "nat \<Rightarrow> mem \<Rightarrow> (nat option \<times> mem) cres" where
  "sys_malloc sz m =
     (let pf = (if pgdir_null m then PF_KERNEL else PF_USER)
      in if \<not> (0 < sz \<and> sz < pool_size (the_pool pf m)) then Inr (None, m)
         else if sz > 1024
         then
           let page_cnt = DIV_ROUND_UP (sz + arena_len) PG_SIZE
           in andthen (malloc_page pf page_cnt m) (\<lambda>(a, m).
                case a of
                  None \<Rightarrow> Inr (None, m)
                | Some a \<Rightarrow>
                    Inr (Some (a + arena_len),
                         set_arena a (Some \<lparr>a_desc = None, a_cnt = page_cnt, large = True\<rparr>) m))
         else
           let k = desc_for sz (the_descs pf m) 0
           in if free_list (the_descs pf m ! k) = []
              then
                andthen (malloc_page pf 1 m) (\<lambda>(a, m).
                  case a of
                    None \<Rightarrow> Inr (None, m)
                  | Some a \<Rightarrow>
                      let d = the_descs pf m ! k
                      in andthen (add_blocks a d 0 (blocks_per_arena d) (free_list d)) (\<lambda>fl.
                         take_block pf k
                           (set_free pf k fl
                             (set_arena a (Some \<lparr>a_desc = Some (pf, k), a_cnt = blocks_per_arena d, large = False\<rparr>) m))))
              else take_block pf k m)"

text \<open>The blocks of an arena leave the free list when the last one is back.\<close>

fun remove_blocks :: "nat \<Rightarrow> mem_block_desc \<Rightarrow> nat \<Rightarrow> nat \<Rightarrow> nat list \<Rightarrow> nat list cres" where
  "remove_blocks a d block_idx 0 fl = Inr fl"
| "remove_blocks a d block_idx (Suc n) fl =
     (let b = arena2block a d block_idx
      in andthen (assert_c (b \<in> set fl)) (\<lambda>_. remove_blocks a d (block_idx + 1) n (remove1 b fl)))"

definition sys_free :: "nat option \<Rightarrow> mem \<Rightarrow> mem cres" where
  "sys_free ptr m =
     (case ptr of
        None \<Rightarrow> Inl Assertion
      | Some b \<Rightarrow>
          let pf = (if pgdir_null m then PF_KERNEL else PF_USER)
          in andthen (assert_c (\<not> pgdir_null m \<or> b \<ge> K_HEAP_START)) (\<lambda>_.
             case arenas m (block2arena b) of
               None \<Rightarrow> Inl Wild
             | Some a \<Rightarrow>
                 if a_desc a = None \<and> large a
                 then andthen (mfree_pages pf (block2arena b) (a_cnt a) m) (\<lambda>m.
                      Inr (set_arena (block2arena b) None m))
                 else
                   case a_desc a of
                     None \<Rightarrow> Inl Wild
                   | Some (af, k) \<Rightarrow>
                       let d = the_descs af m ! k; fl = free_list d @ [b];
                           n = (a_cnt a + 1) mod 2 ^ 32;
                           m = set_free af k fl (set_arena (block2arena b) (Some (a\<lparr>a_cnt := n\<rparr>)) m)
                       in if n = blocks_per_arena d
                          then
                            andthen (remove_blocks (block2arena b) d 0 (blocks_per_arena d) fl) (\<lambda>fl.
                            andthen (mfree_pages pf (block2arena b) 1 (set_free af k fl m)) (\<lambda>m.
                            Inr (set_arena (block2arena b) None m)))
                          else Inr m))"

end
