(* ===== verification/MemorySpec.thy ===== *)
theory MemorySpec
  imports Memory
begin

text \<open>
  What the page allocator guarantees: virtual pages, page tables and frames as sets of page
  numbers.  No two pages share a frame, no page uses the frame of a page table, and exactly the
  pages whose bit is set are mapped.
\<close>

section \<open>Page table entries\<close>

lemma mask_frame: "bit (0xfffff000 :: u32) n \<longleftrightarrow> 12 \<le> n \<and> n < 32"
proof -
  have eq: "(0xfffff000 :: u32) = NOT (mask 12)" by (simp add: mask_eq_exp_minus_1)
  show ?thesis unfolding eq bit_not_iff bit_mask_iff by auto
qed

lemma mask_accessed: "bit (0xffffffbf :: u32) n \<longleftrightarrow> n \<noteq> 6 \<and> n < 32"
proof -
  have eq: "(0xffffffbf :: u32) = NOT (push_bit 6 1)" by (simp add: push_bit_eq_mult)
  show ?thesis unfolding eq bit_not_iff bit_push_bit_iff by (auto simp: bit_1_iff)
qed

lemma present_bit: "present e \<longleftrightarrow> bit e 0"
  using mask_test [of e 0] by (simp add: present_def)

lemma page_bits:
  assumes "p mod 4096 = 0" and "n < 12"
  shows "\<not> bit (of_nat p :: u32) n"
proof -
  obtain q where "p = 4096 * q" using assms(1) by (auto simp: mod_eq_0_iff_dvd)
  then have p: "p = push_bit 12 q" by (simp add: push_bit_eq_mult)
  show ?thesis unfolding p of_nat_push_bit bit_push_bit_iff using assms(2) by simp
qed

lemma small_bits: "bit (4 :: u32) n = (n = 2)" "bit (2 :: u32) n = (n = 1)"
proof -
  have 4: "(4 :: u32) = push_bit 2 1" and 2: "(2 :: u32) = push_bit 1 1" by (simp_all add: push_bit_eq_mult)
  show "bit (4 :: u32) n = (n = 2)" unfolding 4 bit_push_bit_iff bit_1_iff by auto
  show "bit (2 :: u32) n = (n = 1)" unfolding 2 bit_push_bit_iff bit_1_iff by auto
qed

lemma bit_entry: "bit (entry p) n \<longleftrightarrow> bit (of_nat p :: u32) n \<or> n < 3"
proof -
  have 3: "n < 3 \<longleftrightarrow> n = 0 \<or> n = 1 \<or> n = 2" by auto
  show ?thesis
    unfolding entry_def PG_US_U_def PG_RW_W_def PG_P_1_def bit_or_iff 3 small_bits bit_1_iff by blast
qed

lemma frame_bits_entry:
  assumes "p mod 4096 = 0"
  shows "frame_bits (entry p) = of_nat p"
proof (rule bit_word_eqI)
  fix n assume "n < LENGTH(32)"
  then show "bit (frame_bits (entry p)) n = bit (of_nat p :: u32) n"
    unfolding frame_bits_def bit_and_iff mask_frame bit_entry using page_bits [OF assms, of n] linorder_not_less [of n 12] by auto
qed

lemma present_entry [simp]: "present (entry p)"
  by (simp add: present_bit bit_entry)

lemma present_accessed [simp]: "present (e AND 0xffffffbf) = present e"
  unfolding present_bit bit_and_iff mask_accessed by simp

lemma frame_accessed [simp]: "frame_bits (e AND 0xffffffbf) = frame_bits e"
proof (rule bit_word_eqI)
  fix n assume "n < LENGTH(32)"
  then show "bit (frame_bits (e AND 0xffffffbf)) n = bit (frame_bits e) n"
    unfolding frame_bits_def bit_and_iff mask_frame mask_accessed by auto
qed

lemma present_clear [simp]: "\<not> present (e AND NOT PG_P_1)"
  by (simp add: present_bit bit_and_iff bit_not_iff PG_P_1_def)

lemma present_0 [simp]: "\<not> present 0"
  by (simp add: present_bit)

text \<open>The number of the frame an entry points to.\<close>

definition frame_no :: "u32 \<Rightarrow> nat" where
  "frame_no e = unat (frame_bits e) div PG_SIZE"

lemma frame_bits_mod: "unat (frame_bits e) mod 4096 = 0"
proof -
  have "take_bit 12 (frame_bits e) = 0"
    by (rule bit_word_eqI) (unfold frame_bits_def bit_take_bit_iff bit_and_iff mask_frame, auto)
  then have "take_bit 12 (unat (frame_bits e)) = 0"
    using unsigned_take_bit_eq [of 12 "frame_bits e"] by (metis unsigned_0)
  then show ?thesis by (simp add: take_bit_eq_mod)
qed

lemma frame_no_bits: "unat (frame_bits e) = frame_no e * PG_SIZE"
  using frame_bits_mod [of e] by (simp add: frame_no_def PG_SIZE_def mult.commute mod_0_imp_dvd dvd_mult_div_cancel)

lemma frame_no_entry: "f < 2 ^ 20 \<Longrightarrow> frame_no (entry (f * PG_SIZE)) = f"
proof -
  assume "f < 2 ^ 20"
  then have "unat (of_nat (f * PG_SIZE) :: u32) = f * PG_SIZE" by (simp add: PG_SIZE_def unat_of_nat del: of_nat_mult)
  then show ?thesis by (simp only: frame_no_def frame_bits_entry [of "f * PG_SIZE"]) (simp add: PG_SIZE_def frame_bits_entry)
qed

lemma frame_no_accessed [simp]: "frame_no (e AND 0xffffffbf) = frame_no e"
  by (simp add: frame_no_def)

section \<open>Pages and frames\<close>

definition pbase :: "pool_flags \<Rightarrow> mem \<Rightarrow> nat" where
  "pbase pf m = phy_addr_start (the_pool pf m) div PG_SIZE"

definition vbase :: "pool_flags \<Rightarrow> mem \<Rightarrow> nat" where
  "vbase pf m = vaddr_start (the_vaddr pf m) div PG_SIZE"

definition frames :: "pool_flags \<Rightarrow> mem \<Rightarrow> nat set" where
  "frames pf m = (\<lambda>i. pbase pf m + i) ` allocated (pool_bitmap (the_pool pf m))"

definition free_frames :: "pool_flags \<Rightarrow> mem \<Rightarrow> nat set" where
  "free_frames pf m = (\<lambda>i. pbase pf m + i) `
     ({0..<nbits (pool_bitmap (the_pool pf m))} - allocated (pool_bitmap (the_pool pf m)))"

definition owned :: "pool_flags \<Rightarrow> mem \<Rightarrow> nat set" where
  "owned pf m = (\<lambda>i. vbase pf m + i) ` allocated (vaddr_bitmap (the_vaddr pf m))"

definition unowned :: "pool_flags \<Rightarrow> mem \<Rightarrow> nat set" where
  "unowned pf m = (\<lambda>i. vbase pf m + i) `
     ({0..<nbits (vaddr_bitmap (the_vaddr pf m))} - allocated (vaddr_bitmap (the_vaddr pf m)))"

definition all_owned :: "mem \<Rightarrow> nat set" where
  "all_owned m = owned PF_KERNEL m \<union> owned PF_USER m"

definition mapped :: "mem \<Rightarrow> nat \<Rightarrow> bool" where
  "mapped m v \<longleftrightarrow> present (pde m (v div 1024)) \<and> present (pte m v)"

definition page_frame :: "mem \<Rightarrow> nat \<Rightarrow> nat" where
  "page_frame m v = frame_no (pte m v)"

definition table_frame :: "mem \<Rightarrow> nat \<Rightarrow> nat" where
  "table_frame m d = frame_no (pde m d)"

text \<open>The layout: frames below 4 GB, the kernel's below the user's; virtual pages of the user below
  those of the kernel, and those below the window to the page tables.\<close>

definition layout_ok :: "mem \<Rightarrow> bool" where
  "layout_ok m \<longleftrightarrow>
     (\<forall>pf. bitmap_guarded (pool_bitmap (the_pool pf m)) \<and> bitmap_guarded (vaddr_bitmap (the_vaddr pf m)) \<and>
        phy_addr_start (the_pool pf m) = pbase pf m * PG_SIZE \<and>
        vaddr_start (the_vaddr pf m) = vbase pf m * PG_SIZE) \<and>
     0x102 \<le> pbase PF_KERNEL m \<and>
     pbase PF_KERNEL m + nbits (pool_bitmap (the_pool PF_KERNEL m)) \<le> pbase PF_USER m \<and>
     pbase PF_USER m + nbits (pool_bitmap (the_pool PF_USER m)) \<le> 2 ^ 20 \<and>
     0 < vbase PF_USER m \<and>
     vbase PF_USER m + nbits (vaddr_bitmap (the_vaddr PF_USER m)) \<le> 0xc0000 \<and>
     0xc0000 \<le> vbase PF_KERNEL m \<and>
     vbase PF_KERNEL m + nbits (vaddr_bitmap (the_vaddr PF_KERNEL m)) \<le> 2 ^ 20 - 1024"

text \<open>The invariant, with a set \<open>W\<close> of pages whose bit is set but which are not mapped: empty
  between the operations.\<close>

definition mem_inv :: "mem \<Rightarrow> nat set \<Rightarrow> bool" where
  "mem_inv m W \<longleftrightarrow> layout_ok m \<and> W \<subseteq> all_owned m \<and>
     (\<forall>pf. \<forall>v \<in> owned pf m - W. mapped m v \<and> page_frame m v \<in> frames pf m) \<and>
     (\<forall>pf. \<forall>v \<in> unowned pf m \<union> W. \<not> mapped m v) \<and>
     inj_on (page_frame m) (all_owned m - W) \<and>
     (\<forall>d. present (pde m d) \<longrightarrow> 0 < table_frame m d \<and> table_frame m d \<notin> page_frame m ` (all_owned m - W) \<and>
        (\<forall>pf. table_frame m d \<notin> free_frames pf m))"

lemma set_pool_simps [simp]:
  "the_pool q (set_pool pf p m) = (if q = pf then p else the_pool q m)"
  "the_vaddr q (set_pool pf p m) = the_vaddr q m" "pde (set_pool pf p m) = pde m"
  "pte (set_pool pf p m) = pte m" "k_block_descs (set_pool pf p m) = k_block_descs m"
  "u_block_desc (set_pool pf p m) = u_block_desc m" "arenas (set_pool pf p m) = arenas m"
  "pgdir_null (set_pool pf p m) = pgdir_null m"
  by (auto simp: the_pool_def set_pool_def the_vaddr_def split: pool_flags.splits)

lemma set_vaddr_simps [simp]:
  "the_vaddr q (set_vaddr pf p m) = (if q = pf then p else the_vaddr q m)"
  "the_pool q (set_vaddr pf p m) = the_pool q m" "pde (set_vaddr pf p m) = pde m"
  "pte (set_vaddr pf p m) = pte m" "k_block_descs (set_vaddr pf p m) = k_block_descs m"
  "u_block_desc (set_vaddr pf p m) = u_block_desc m" "arenas (set_vaddr pf p m) = arenas m"
  "pgdir_null (set_vaddr pf p m) = pgdir_null m"
  by (auto simp: the_pool_def set_vaddr_def the_vaddr_def split: pool_flags.splits)

lemma table_upd_simps [simp]:
  "the_pool q (m\<lparr>pde := f\<rparr>) = the_pool q m" "the_vaddr q (m\<lparr>pde := f\<rparr>) = the_vaddr q m"
  "the_pool q (m\<lparr>pte := g\<rparr>) = the_pool q m" "the_vaddr q (m\<lparr>pte := g\<rparr>) = the_vaddr q m"
  by (auto simp: the_pool_def the_vaddr_def split: pool_flags.splits)

lemma frames_cong:
  assumes "\<And>q. the_pool q m' = the_pool q m"
  shows "pbase q m' = pbase q m" "frames q m' = frames q m" "free_frames q m' = free_frames q m"
  using assms by (simp_all add: pbase_def frames_def free_frames_def)

lemma pages_cong:
  assumes "\<And>q. the_vaddr q m' = the_vaddr q m"
  shows "vbase q m' = vbase q m" "owned q m' = owned q m" "unowned q m' = unowned q m" "all_owned m' = all_owned m"
  using assms by (simp_all add: vbase_def owned_def unowned_def all_owned_def)

lemma layout_cong:
  assumes "\<And>q. the_pool q m' = the_pool q m" and "\<And>q. the_vaddr q m' = the_vaddr q m" and "layout_ok m"
  shows "layout_ok m'"
  using assms frames_cong [OF assms(1)] pages_cong [OF assms(2)] by (simp add: layout_ok_def)

lemma finite_frames [simp]: "finite (free_frames pf m)" "finite (frames pf m)"
  by (simp_all add: free_frames_def frames_def)

lemma frame_range:
  assumes "layout_ok m" and "f \<in> frames pf m \<union> free_frames pf m"
  shows "0x102 \<le> f" "f < 2 ^ 20" "pf = PF_USER \<longleftrightarrow> pbase PF_USER m \<le> f" "pbase pf m \<le> f"
    "f < pbase pf m + nbits (pool_bitmap (the_pool pf m))"
  using assms by (cases pf; auto simp: layout_ok_def frames_def free_frames_def allocated_def)+

lemma page_range:
  assumes "layout_ok m" and "v \<in> owned pf m \<union> unowned pf m"
  shows "0 < v" "v < 2 ^ 20 - 1024" "pf = PF_KERNEL \<longleftrightarrow> 0xc0000 \<le> v" "vbase pf m \<le> v"
    "v < vbase pf m + nbits (vaddr_bitmap (the_vaddr pf m))"
  using assms by (cases pf; auto simp: layout_ok_def owned_def unowned_def allocated_def)+

lemma frames_disjoint: "frames pf m \<inter> free_frames pf m = {}"
  by (auto simp: frames_def free_frames_def)

section \<open>Taking a frame\<close>

lemma palloc_ok:
  assumes lay: "layout_ok m" and free: "free_frames pf m \<noteq> {}"
  obtains f b where "palloc pf m = Inr (Some (f * PG_SIZE), set_pool pf ((the_pool pf m)\<lparr>pool_bitmap := b\<rparr>) m)"
    "f \<in> free_frames pf m" "layout_ok (set_pool pf ((the_pool pf m)\<lparr>pool_bitmap := b\<rparr>) m)"
    "\<And>q. frames q (set_pool pf ((the_pool pf m)\<lparr>pool_bitmap := b\<rparr>) m) =
       (if q = pf then insert f (frames pf m) else frames q m)"
    "\<And>q. free_frames q (set_pool pf ((the_pool pf m)\<lparr>pool_bitmap := b\<rparr>) m) =
       (if q = pf then free_frames pf m - {f} else free_frames q m)"
proof -
  let ?b = "pool_bitmap (the_pool pf m)"
  have g: "bitmap_guarded ?b" using lay by (simp add: layout_ok_def)
  obtain st where st: "st < nbits ?b" "st \<notin> allocated ?b" using free unfolding free_frames_def by fastforce
  then obtain z where z: "bitmap_scan ?b 1 = Inr z" "z \<noteq> -1"
    using bm.scan_finds [OF g, of 1 st] by auto
  have zf: "0 \<le> z" "nat z + 1 \<le> nbits ?b" "allocated ?b \<inter> {nat z..<nat z + 1} = {}"
    using bm.scan_free [OF g _ z(1) z(2)] by simp_all
  obtain b where b: "bitmap_set ?b (nat z) 1 = Inr b" "bitmap_guarded b" "nbits b = nbits ?b"
    "allocated b = insert (nat z) (allocated ?b)"
    using bm.put_works [OF g, of "nat z" 1] zf(2) by auto
  let ?m = "set_pool pf ((the_pool pf m)\<lparr>pool_bitmap := b\<rparr>) m" and ?f = "pbase pf m + nat z"
  have nz: "nat z \<notin> allocated ?b" "nat z < nbits ?b" using zf(2,3) by auto
  have f: "?f \<in> free_frames pf m" using nz by (simp add: free_frames_def)
  have "?f < 2 ^ 20" using frame_range(2) [OF lay, of ?f pf] f by simp
  then have "?f * PG_SIZE < 2 ^ 32" by (simp add: PG_SIZE_def)
  moreover have "nat z * PG_SIZE + phy_addr_start (the_pool pf m) = ?f * PG_SIZE"
    using lay by (simp add: layout_ok_def add_mult_distrib)
  ultimately have "(nat z * PG_SIZE + phy_addr_start (the_pool pf m)) mod 2 ^ 32 = ?f * PG_SIZE"
    by (simp only: mod_less)
  then have run: "palloc pf m = Inr (Some (?f * PG_SIZE), ?m)"
    using z b(1) by (simp add: palloc_def)
  have pb: "pbase q ?m = pbase q m" for q by (simp add: pbase_def)
  have vb: "vbase q ?m = vbase q m" for q by (simp add: vbase_def)
  have lay': "layout_ok ?m" using lay b(2,3) by (simp add: layout_ok_def pb vb)
  have fr: "frames q ?m = (if q = pf then insert ?f (frames pf m) else frames q m)" for q
    by (simp add: frames_def pb b(4))
  have sh: "(\<lambda>i. k + i) ` (X - insert z Y) = (\<lambda>i. k + i) ` (X - Y) - {k + z}" for k z :: nat and X Y
    by auto
  have ff: "free_frames q ?m = (if q = pf then free_frames pf m - {?f} else free_frames q m)" for q
    unfolding free_frames_def pb using sh b(3,4) by simp
  show thesis by (rule that [OF run f lay' fr ff])
qed

text \<open>What never changes: the pages and what the allocator of blocks keeps.\<close>

definition same_pages :: "mem \<Rightarrow> mem \<Rightarrow> bool" where
  "same_pages m m' \<longleftrightarrow> (\<forall>q. the_vaddr q m' = the_vaddr q m) \<and> k_block_descs m' = k_block_descs m \<and>
     u_block_desc m' = u_block_desc m \<and> arenas m' = arenas m \<and> pgdir_null m' = pgdir_null m"

lemma same_pagesD:
  assumes "same_pages m m'"
  shows "owned q m' = owned q m" "unowned q m' = unowned q m" "all_owned m' = all_owned m" "vbase q m' = vbase q m"
  using assms pages_cong [of m' m] by (simp_all add: same_pages_def)

lemma same_pages_trans: "same_pages m1 m2 \<Longrightarrow> same_pages m2 m3 \<Longrightarrow> same_pages m1 m3"
  by (simp add: same_pages_def)

lemma mem_inv_more_frames:
  assumes inv: "mem_inv m W" and lay: "layout_ok m'" and same: "same_pages m m'"
    and tables: "pde m' = pde m" "pte m' = pte m"
    and fr: "\<And>q. frames q m \<subseteq> frames q m'" "\<And>q. free_frames q m' \<subseteq> free_frames q m"
  shows "mem_inv m' W"
proof -
  have e: "mapped m' = mapped m" "page_frame m' = page_frame m" "table_frame m' = table_frame m"
    using tables by (simp_all add: mapped_def page_frame_def table_frame_def fun_eq_iff)
  show ?thesis
    using inv lay fr unfolding mem_inv_def same_pagesD [OF same] e tables by (auto simp: subset_iff; blast)
qed

section \<open>Mapping one page\<close>

lemma mem_invD:
  assumes "mem_inv m W"
  shows "layout_ok m" "W \<subseteq> all_owned m"
    "\<And>pf v. v \<in> owned pf m \<Longrightarrow> v \<notin> W \<Longrightarrow> mapped m v \<and> page_frame m v \<in> frames pf m"
    "\<And>pf v. v \<in> unowned pf m \<Longrightarrow> \<not> mapped m v" "\<And>v. v \<in> W \<Longrightarrow> \<not> mapped m v"
    "inj_on (page_frame m) (all_owned m - W)"
    "\<And>d. present (pde m d) \<Longrightarrow> 0 < table_frame m d"
    "\<And>d. present (pde m d) \<Longrightarrow> table_frame m d \<notin> page_frame m ` (all_owned m - W)"
    "\<And>d pf. present (pde m d) \<Longrightarrow> table_frame m d \<notin> free_frames pf m"
  using assms unfolding mem_inv_def by auto

lemma unused_frame:
  assumes inv: "mem_inv m W" and f: "f \<in> free_frames pf m"
  shows "f \<notin> page_frame m ` (all_owned m - W)" "present (pde m d) \<Longrightarrow> table_frame m d \<noteq> f"
proof -
  note D = mem_invD [OF inv]
  have "page_frame m v \<noteq> f" if v: "v \<in> owned q m" "v \<notin> W" for v q
  proof
    assume e: "page_frame m v = f"
    have "f \<in> frames q m" using D(3) [OF v] e by simp
    then have "pf = q" using frame_range(3) [OF D(1), of f] f by (metis Un_iff pool_flags.exhaust)
    then show False using frames_disjoint [of pf m] f \<open>f \<in> frames q m\<close> by blast
  qed
  then show "f \<notin> page_frame m ` (all_owned m - W)" by (auto simp: all_owned_def)
  show "present (pde m d) \<Longrightarrow> table_frame m d \<noteq> f" using D(9) [of d pf] f by auto
qed

text \<open>Mapping the page \<open>v\<close> to the unused frame \<open>f\<close>, whatever else happens to the tables.\<close>

lemma map_entry_inv:
  assumes inv: "mem_inv m W" and v: "v \<in> W" "v \<in> owned pf m" and f: "f \<in> frames pf m"
    and fresh: "f \<notin> page_frame m ` (all_owned m - W)"
    and m': "layout_ok m'" "same_pages m m'"
    and fr: "\<And>q. frames q m \<subseteq> frames q m'"
    and pf': "page_frame m' v = f" "\<And>w. w \<noteq> v \<Longrightarrow> mapped m w \<Longrightarrow> page_frame m' w = page_frame m w"
    and mp: "\<And>w. mapped m' w \<longleftrightarrow> w = v \<or> mapped m w"
    and tab: "\<And>d. present (pde m' d) \<Longrightarrow> 0 < table_frame m' d \<and> table_frame m' d \<noteq> f \<and>
       table_frame m' d \<notin> page_frame m ` (all_owned m - W) \<and> (\<forall>pf. table_frame m' d \<notin> free_frames pf m')"
  shows "mem_inv m' (W - {v})"
proof -
  note D = mem_invD [OF inv]
  have A: "all_owned m - (W - {v}) = insert v (all_owned m - W)" using v D(2) by auto
  have mo: "mapped m w \<and> w \<noteq> v" if "w \<in> all_owned m - W" for w
    using that D(3) [of w] v(1) by (auto simp: all_owned_def)
  have eq: "page_frame m' w = page_frame m w" if "w \<in> all_owned m - W" for w
    using mo [OF that] pf'(2) by simp
  have img: "page_frame m' ` (all_owned m - W) = page_frame m ` (all_owned m - W)"
    using eq by (rule image_cong [OF refl])
  have "inj_on (page_frame m') (all_owned m - W)" using D(6) eq by (simp add: inj_on_def)
  then have inj': "inj_on (page_frame m') (insert v (all_owned m - W))"
    using fresh v(1) by (simp add: inj_on_insert img pf'(1))
  have own: "mapped m' w \<and> page_frame m' w \<in> frames q m'" if w: "w \<in> owned q m" "w \<notin> W - {v}" for q w
  proof (cases "w = v")
    case True
    then have "q = pf" using w(1) v(2) page_range(3) [OF D(1), of v q] page_range(3) [OF D(1), of v pf]
      by (cases q; cases pf) auto
    then show ?thesis using True f fr [of pf] mp pf'(1) by auto
  next
    case False
    then have "mapped m w \<and> page_frame m w \<in> frames q m" using D(3) w by blast
    then show ?thesis using False pf'(2) [OF False] fr [of q] mp by auto
  qed
  have unown: "\<not> mapped m' w" if w: "w \<in> unowned q m \<or> w \<in> W - {v}" for q w
  proof -
    have "w \<noteq> v"
    proof
      assume e: "w = v"
      then have "v \<in> unowned q m" using w by simp
      then have "q = pf" using v(2) page_range(3) [OF D(1), of v q] page_range(3) [OF D(1), of v pf]
        by (cases q; cases pf) auto
      then show False using v(2) \<open>v \<in> unowned q m\<close> by (auto simp: owned_def unowned_def)
    qed
    then show ?thesis using w D(4,5) mp by blast
  qed
  have own': "\<forall>q. \<forall>w \<in> owned q m - (W - {v}). mapped m' w \<and> page_frame m' w \<in> frames q m'"
    using own by blast
  have unown': "\<forall>q. \<forall>w \<in> unowned q m \<union> (W - {v}). \<not> mapped m' w"
    using unown by blast
  have sub: "W - {v} \<subseteq> all_owned m" using D(2) by auto
  have tab': "\<forall>d. present (pde m' d) \<longrightarrow> 0 < table_frame m' d \<and>
      table_frame m' d \<notin> page_frame m' ` insert v (all_owned m - W) \<and> (\<forall>pf. table_frame m' d \<notin> free_frames pf m')"
    using tab by (simp add: img pf'(1))
  show ?thesis
    unfolding mem_inv_def same_pagesD [OF m'(2)] A
    using m'(1) sub own' unown' inj' tab' by blast
qed

lemma entry_index: "PDE_IDX (v * PG_SIZE) = v div 1024" "v * PG_SIZE div PG_SIZE = v"
  by (simp_all add: PDE_IDX_def PG_SIZE_def div_mult2_eq [of _ 4096 1024, simplified])

text \<open>The state after the table's entry is set, in a table that exists or a new one.\<close>

definition set_entry :: "nat \<Rightarrow> nat \<Rightarrow> mem \<Rightarrow> mem" where
  "set_entry v f m =
     (let m = m\<lparr>pte := (pte m)(v := entry (f * PG_SIZE))\<rparr>
      in m\<lparr>pde := (pde m)(v div 1024 := pde m (v div 1024) AND 0xffffffbf)\<rparr>)"

definition new_table :: "nat \<Rightarrow> nat \<Rightarrow> mem \<Rightarrow> mem" where
  "new_table d t m =
     m\<lparr>pde := (pde m)(d := entry (t * PG_SIZE)), pte := (\<lambda>w. if w div 2 ^ 10 = d then 0 else pte m w)\<rparr>"

lemma set_entry_simps [simp]:
  "the_pool q (set_entry v f m) = the_pool q m" "the_vaddr q (set_entry v f m) = the_vaddr q m"
  "present (pde (set_entry v f m) d) = present (pde m d)"
  "table_frame (set_entry v f m) = table_frame m"
  "pte (set_entry v f m) = (pte m)(v := entry (f * PG_SIZE))"
  "k_block_descs (set_entry v f m) = k_block_descs m" "u_block_desc (set_entry v f m) = u_block_desc m"
  "arenas (set_entry v f m) = arenas m" "pgdir_null (set_entry v f m) = pgdir_null m"
  by (simp_all add: set_entry_def table_frame_def Let_def fun_eq_iff)

lemma new_table_simps [simp]:
  "the_pool q (new_table v f m) = the_pool q m" "the_vaddr q (new_table v f m) = the_vaddr q m"
  "pde (new_table d t m) = (pde m)(d := entry (t * PG_SIZE))"
  "pte (new_table d t m) w = (if w div 1024 = d then 0 else pte m w)"
  "k_block_descs (new_table v f m) = k_block_descs m" "u_block_desc (new_table v f m) = u_block_desc m"
  "arenas (new_table v f m) = arenas m" "pgdir_null (new_table v f m) = pgdir_null m"
  by (simp_all add: new_table_def the_pool_def the_vaddr_def split: pool_flags.splits)

lemmas set_entry_frames [simp] = frames_cong [of "set_entry v f m" m, OF set_entry_simps(1)] for v f m
lemmas new_table_frames [simp] = frames_cong [of "new_table d t m" m, OF new_table_simps(1)] for d t m
lemmas set_entry_layout [simp] = layout_cong [of "set_entry v f m" m, OF set_entry_simps(1,2)] for v f m
lemmas new_table_layout [simp] = layout_cong [of "new_table d t m" m, OF new_table_simps(1,2)] for d t m

lemma page_table_add_present:
  assumes "present (pde m (v div 1024))" and "\<not> present (pte m v)"
  shows "page_table_add (v * PG_SIZE) (f * PG_SIZE) m = Inr (set_entry v f m)"
  using assms by (simp add: page_table_add_def entry_index set_entry_def Let_def)

lemma page_table_add_new:
  assumes "\<not> present (pde m (v div 1024))" and "palloc PF_KERNEL m = Inr (Some (t * PG_SIZE), m0)"
  shows "page_table_add (v * PG_SIZE) (f * PG_SIZE) m = Inr (set_entry v f (new_table (v div 1024) t m0))"
  using assms by (simp add: page_table_add_def entry_index set_entry_def new_table_def Let_def)

text \<open>Mapping a page takes at most one more frame, for a page table.\<close>

lemma page_table_add_ok:
  assumes inv: "mem_inv m W" and v: "v \<in> W" "v \<in> owned pf m" and f: "f \<in> frames pf m"
    and fresh: "f \<notin> page_frame m ` (all_owned m - W)" "\<And>d. present (pde m d) \<Longrightarrow> table_frame m d \<noteq> f"
    and room: "free_frames PF_KERNEL m \<noteq> {}"
  obtains m' where "page_table_add (v * PG_SIZE) (f * PG_SIZE) m = Inr m'" "mem_inv m' (W - {v})" "same_pages m m'"
    "page_frame m' v = f" "\<And>w. w \<noteq> v \<Longrightarrow> mapped m w \<Longrightarrow> page_frame m' w = page_frame m w"
    "\<And>q. frames q m \<subseteq> frames q m'" "\<And>q. free_frames q m' \<subseteq> free_frames q m"
    "card (free_frames PF_KERNEL m) \<le> card (free_frames PF_KERNEL m') + 1"
    "free_frames PF_USER m' = free_frames PF_USER m" "frames PF_USER m' = frames PF_USER m"
    "\<And>w. mapped m' w \<longleftrightarrow> w = v \<or> mapped m w"
proof -
  note D = mem_invD [OF inv]
  have f20: "f < 2 ^ 20" "0 < f" using frame_range(1,2) [OF D(1), of f pf] f by auto
  show thesis
  proof (cases "present (pde m (v div 1024))")
    case True
    then have np: "\<not> present (pte m v)" using D(5) [OF v(1)] by (simp add: mapped_def)
    let ?m = "set_entry v f m"
    have S: "same_pages m ?m" by (simp add: same_pages_def)
    have pv: "page_frame ?m v = f" using f20 by (simp add: page_frame_def frame_no_entry)
    have pf': "page_frame ?m w = page_frame m w" if "w \<noteq> v" for w
      using that by (simp add: page_frame_def)
    have mp: "mapped ?m w \<longleftrightarrow> w = v \<or> mapped m w" for w
      using True by (simp add: mapped_def)
    have "mem_inv ?m (W - {v})"
      by (rule map_entry_inv [OF inv v f fresh(1) _ S _ pv pf' mp]) (use D(1,7,8,9) fresh(2) in simp_all)
    with pv pf' S mp show thesis by (intro that [OF page_table_add_present [OF True np]]) simp_all
  next
    case False
    obtain t b where p: "palloc PF_KERNEL m = Inr (Some (t * PG_SIZE), set_pool PF_KERNEL ((the_pool PF_KERNEL m)\<lparr>pool_bitmap := b\<rparr>) m)"
      "t \<in> free_frames PF_KERNEL m" "layout_ok (set_pool PF_KERNEL ((the_pool PF_KERNEL m)\<lparr>pool_bitmap := b\<rparr>) m)"
      "\<And>q. frames q (set_pool PF_KERNEL ((the_pool PF_KERNEL m)\<lparr>pool_bitmap := b\<rparr>) m) =
         (if q = PF_KERNEL then insert t (frames PF_KERNEL m) else frames q m)"
      "\<And>q. free_frames q (set_pool PF_KERNEL ((the_pool PF_KERNEL m)\<lparr>pool_bitmap := b\<rparr>) m) =
         (if q = PF_KERNEL then free_frames PF_KERNEL m - {t} else free_frames q m)"
      by (rule palloc_ok [OF D(1) room]) (rule that)
    define m0 where "m0 = set_pool PF_KERNEL ((the_pool PF_KERNEL m)\<lparr>pool_bitmap := b\<rparr>) m"
    note p = p [folded m0_def]
    have m0: "pde m0 = pde m" "pte m0 = pte m" "same_pages m m0" by (simp_all add: m0_def same_pages_def)
    let ?d = "v div 1024"
    let ?m = "set_entry v f (new_table ?d t m0)"
    have t20: "t < 2 ^ 20" "0 < t" using frame_range(1,2) [OF D(1), of t PF_KERNEL] p(2) by auto
    have tf: "table_frame (new_table ?d t m0) d = (if d = ?d then t else table_frame m d)" for d
      using t20 m0(1) by (simp add: table_frame_def frame_no_entry)
    have tfree: "t \<notin> free_frames q m0" for q
      using p(2,5) frame_range(3) [OF D(1), of t q] frame_range(3) [OF D(1), of t PF_KERNEL] by (cases q) auto
    have "f \<noteq> t"
    proof
      assume e: "f = t"
      then have "pf = PF_KERNEL"
        using f p(2) frame_range(3) [OF D(1), of f pf] frame_range(3) [OF D(1), of f PF_KERNEL] by (cases pf) auto
      then show False using f p(2) e frames_disjoint [of PF_KERNEL m] by blast
    qed
    note un = unused_frame [OF inv p(2)]
    have sub: "frames q m \<subseteq> frames q m0" "free_frames q m0 \<subseteq> free_frames q m" for q
      using p(4,5) [of q] by auto
    have S: "same_pages m ?m" using m0(3) by (simp add: same_pages_def)
    have pf': "page_frame ?m v = f" "page_frame ?m w = page_frame m w" if "w \<noteq> v" "mapped m w" for w
      using that False f20 m0(2) by (auto simp: page_frame_def frame_no_entry mapped_def)
    have pv: "page_frame ?m v = f" using f20 by (simp add: page_frame_def frame_no_entry)
    have mp: "mapped ?m w \<longleftrightarrow> w = v \<or> mapped m w" for w
      using False m0 by (auto simp: mapped_def)
    have tab: "0 < table_frame ?m d \<and> table_frame ?m d \<noteq> f \<and>
         table_frame ?m d \<notin> page_frame m ` (all_owned m - W) \<and> (\<forall>pf. table_frame ?m d \<notin> free_frames pf ?m)"
      if "present (pde ?m d)" for d
    proof (cases "d = ?d")
      case True then show ?thesis using t20 \<open>f \<noteq> t\<close> un(1) tfree by (simp add: tf)
    next
      case False
      then have "present (pde m d)" using that m0(1) by simp
      then show ?thesis using False D(7,8,9) [of d] fresh(2) [of d] sub(2) by (auto simp: tf)
    qed
    have "mem_inv ?m (W - {v})"
      by (rule map_entry_inv [OF inv v f fresh(1) _ S _ pv pf'(2) mp tab]) (simp_all add: p(3) sub)
    moreover have "card (free_frames PF_KERNEL m) \<le> card (free_frames PF_KERNEL m0) + 1"
      using p(2) p(5) [of PF_KERNEL] by (simp add: card_Diff_singleton)
    ultimately show thesis using p(4,5) S sub pv pf'(2) mp
      by (intro that [OF page_table_add_new [OF False p(1)]]) simp_all
  qed
qed

section \<open>Mapping and unmapping runs of pages\<close>

lemma page_addr:
  assumes "layout_ok m" and "v \<in> owned pf m \<union> unowned pf m"
  shows "(v * PG_SIZE + PG_SIZE) mod 2 ^ 32 = Suc v * PG_SIZE"
  using page_range(2) [OF assms] by (simp add: PG_SIZE_def)

lemma map_pages_ok:
  assumes "mem_inv m W" and "{v..<v + n} \<subseteq> W \<inter> owned pf m"
    and "pf = PF_KERNEL \<Longrightarrow> 2 * n \<le> card (free_frames PF_KERNEL m)"
    and "pf = PF_USER \<Longrightarrow> n \<le> card (free_frames PF_USER m) \<and> n \<le> card (free_frames PF_KERNEL m)"
  shows "\<exists>m'. map_pages pf (v * PG_SIZE) n m = Inr m' \<and> mem_inv m' (W - {v..<v + n}) \<and> same_pages m m' \<and>
    page_frame m' ` {v..<v + n} \<subseteq> free_frames pf m \<and>
    (\<forall>w. mapped m w \<longrightarrow> w \<notin> {v..<v + n} \<longrightarrow> page_frame m' w = page_frame m w) \<and>
    (\<forall>q. frames q m \<subseteq> frames q m' \<and> free_frames q m' \<subseteq> free_frames q m)"
  using assms
proof (induction n arbitrary: v m W)
  case 0
  then show ?case by (auto simp: same_pages_def)
next
  case (Suc n)
  note D = mem_invD [OF Suc.prems(1)]
  have v: "v \<in> W" "v \<in> owned pf m" using Suc.prems(2) by auto
  have free: "free_frames pf m \<noteq> {}" using Suc.prems(3,4) by (cases pf) auto
  obtain f b where p: "palloc pf m = Inr (Some (f * PG_SIZE), set_pool pf ((the_pool pf m)\<lparr>pool_bitmap := b\<rparr>) m)"
      "f \<in> free_frames pf m" "layout_ok (set_pool pf ((the_pool pf m)\<lparr>pool_bitmap := b\<rparr>) m)"
      "\<And>q. frames q (set_pool pf ((the_pool pf m)\<lparr>pool_bitmap := b\<rparr>) m) =
         (if q = pf then insert f (frames pf m) else frames q m)"
      "\<And>q. free_frames q (set_pool pf ((the_pool pf m)\<lparr>pool_bitmap := b\<rparr>) m) =
         (if q = pf then free_frames pf m - {f} else free_frames q m)"
    by (rule palloc_ok [OF D(1) free]) (rule that)
  define m1 where "m1 = set_pool pf ((the_pool pf m)\<lparr>pool_bitmap := b\<rparr>) m"
  note p = p [folded m1_def]
  have m1: "pde m1 = pde m" "pte m1 = pte m" "same_pages m m1" by (simp_all add: m1_def same_pages_def)
  note S1 = same_pagesD [OF m1(3)]
  have sub1: "frames q m \<subseteq> frames q m1" "free_frames q m1 \<subseteq> free_frames q m" for q using p(4,5) [of q] by auto
  have inv1: "mem_inv m1 W"
    by (rule mem_inv_more_frames [OF Suc.prems(1) p(3) m1(3,1,2) sub1])
  have e1: "page_frame m1 = page_frame m" "table_frame m1 = table_frame m" "mapped m1 = mapped m"
    using m1 by (simp_all add: page_frame_def table_frame_def mapped_def fun_eq_iff)
  have c1: "card (free_frames q m1) = card (free_frames q m) - (if q = pf then 1 else 0)" for q
    using p(2) p(5) [of q] by (simp add: card_Diff_singleton)
  have room: "free_frames PF_KERNEL m1 \<noteq> {}"
    using Suc.prems(3,4) c1 [of PF_KERNEL] by (cases pf) auto
  have f: "f \<in> frames pf m1" using p(4) by simp
  note un = unused_frame [OF Suc.prems(1) p(2)]
  obtain m2 where m2: "page_table_add (v * PG_SIZE) (f * PG_SIZE) m1 = Inr m2" "mem_inv m2 (W - {v})" "same_pages m1 m2"
    "page_frame m2 v = f" "\<And>w. w \<noteq> v \<Longrightarrow> mapped m1 w \<Longrightarrow> page_frame m2 w = page_frame m1 w"
    "\<And>q. frames q m1 \<subseteq> frames q m2" "\<And>q. free_frames q m2 \<subseteq> free_frames q m1"
    "card (free_frames PF_KERNEL m1) \<le> card (free_frames PF_KERNEL m2) + 1"
    "free_frames PF_USER m2 = free_frames PF_USER m1" "frames PF_USER m2 = frames PF_USER m1"
    "\<And>w. mapped m2 w \<longleftrightarrow> w = v \<or> mapped m1 w"
    by (rule page_table_add_ok [OF inv1 v(1) _ f _ _ room])
      (use v(2) un S1 e1 m1(1) in \<open>auto simp: S1\<close>)
  note S2 = same_pagesD [OF m2(3)]
  have "\<exists>m'. map_pages pf (Suc v * PG_SIZE) n m2 = Inr m' \<and> mem_inv m' (W - {v} - {Suc v..<Suc v + n}) \<and> same_pages m2 m' \<and>
    page_frame m' ` {Suc v..<Suc v + n} \<subseteq> free_frames pf m2 \<and>
    (\<forall>w. mapped m2 w \<longrightarrow> w \<notin> {Suc v..<Suc v + n} \<longrightarrow> page_frame m' w = page_frame m2 w) \<and>
    (\<forall>q. frames q m2 \<subseteq> frames q m' \<and> free_frames q m' \<subseteq> free_frames q m2)"
  proof (rule Suc.IH [OF m2(2)])
    show "{Suc v..<Suc v + n} \<subseteq> (W - {v}) \<inter> owned pf m2" using Suc.prems(2) S1 S2 by auto
    show "pf = PF_KERNEL \<Longrightarrow> 2 * n \<le> card (free_frames PF_KERNEL m2)"
      using Suc.prems(3) c1 [of PF_KERNEL] m2(8) by simp
    show "pf = PF_USER \<Longrightarrow> n \<le> card (free_frames PF_USER m2) \<and> n \<le> card (free_frames PF_KERNEL m2)"
      using Suc.prems(4) c1 [of PF_KERNEL] c1 [of PF_USER] m2(8,9) by auto
  qed
  then obtain m' where m': "map_pages pf (Suc v * PG_SIZE) n m2 = Inr m'" "mem_inv m' (W - {v} - {Suc v..<Suc v + n})"
    "same_pages m2 m'" "page_frame m' ` {Suc v..<Suc v + n} \<subseteq> free_frames pf m2"
    "\<And>w. mapped m2 w \<Longrightarrow> w \<notin> {Suc v..<Suc v + n} \<Longrightarrow> page_frame m' w = page_frame m2 w"
    "\<And>q. frames q m2 \<subseteq> frames q m' \<and> free_frames q m' \<subseteq> free_frames q m2" by blast
  have run: "map_pages pf (v * PG_SIZE) (Suc n) m = Inr m'"
    using m2(1) m'(1) p(1) page_addr [OF D(1), of v pf] v(2) by simp
  have W: "W - {v} - {Suc v..<Suc v + n} = W - {v..<v + Suc n}" by auto
  have mv: "mapped m2 v" using mem_invD(3) [OF m2(2), of v pf] v(2) S1 S2 by simp
  have "page_frame m' v = f" using m'(5) [OF mv] m2(4) by simp
  moreover have "{v..<v + Suc n} = insert v {Suc v..<Suc v + n}" by auto
  moreover have "free_frames pf m2 \<subseteq> free_frames pf m" using m2(7) [of pf] sub1(2) [of pf] by (rule subset_trans)
  ultimately have fr: "page_frame m' ` {v..<v + Suc n} \<subseteq> free_frames pf m"
    using m'(4) p(2) by (simp only: image_insert insert_subset) (simp add: subset_trans)
  have keep: "page_frame m' w = page_frame m w" if w: "mapped m w" "w \<notin> {v..<v + Suc n}" for w
  proof -
    have "w \<noteq> v" using w(2) by auto
    have "w \<notin> {Suc v..<Suc v + n}" using w(2) by auto
    moreover have "mapped m2 w" using w(1) m2(11) e1 by simp
    ultimately show ?thesis using m'(5) m2(5) [OF \<open>w \<noteq> v\<close>] w(1) e1 by simp
  qed
  have "same_pages m m'" using m1(3) m2(3) m'(3) same_pages_trans by blast
  moreover have "frames q m \<subseteq> frames q m' \<and> free_frames q m' \<subseteq> free_frames q m" for q
    using m'(6) [of q] m2(6,7) [of q] sub1 [of q] by (meson subset_trans)
  moreover have "mem_inv m' (W - {v..<v + Suc n})" using m'(2) W by simp
  ultimately show ?case using run fr keep by (intro exI [of _ m']) simp
qed

text \<open>Setting or clearing the bits of a run of pages.\<close>

lemma set_vaddr_layout:
  assumes "layout_ok m" and "bitmap_guarded b" and "nbits b = nbits (vaddr_bitmap (the_vaddr pf m))"
  shows "layout_ok (set_vaddr pf ((the_vaddr pf m)\<lparr>vaddr_bitmap := b\<rparr>) m)"
proof -
  let ?m = "set_vaddr pf ((the_vaddr pf m)\<lparr>vaddr_bitmap := b\<rparr>) m"
  have "pbase q ?m = pbase q m" "vbase q ?m = vbase q m" for q by (simp_all add: pbase_def vbase_def)
  then show ?thesis using assms by (simp add: layout_ok_def)
qed

lemma set_vaddr_same [simp]:
  "frames q (set_vaddr pf va m) = frames q m" "free_frames q (set_vaddr pf va m) = free_frames q m"
  "page_frame (set_vaddr pf va m) = page_frame m" "table_frame (set_vaddr pf va m) = table_frame m"
  "mapped (set_vaddr pf va m) = mapped m"
  by (simp_all add: frames_def free_frames_def pbase_def page_frame_def table_frame_def mapped_def fun_eq_iff)

lemma set_vaddr_owned:
  assumes "nbits b = nbits (vaddr_bitmap (the_vaddr pf m))" and "allocated b = X"
  shows "owned q (set_vaddr pf ((the_vaddr pf m)\<lparr>vaddr_bitmap := b\<rparr>) m) =
      (if q = pf then (\<lambda>i. vbase pf m + i) ` X else owned q m)"
    "unowned q (set_vaddr pf ((the_vaddr pf m)\<lparr>vaddr_bitmap := b\<rparr>) m) =
      (if q = pf then (\<lambda>i. vbase pf m + i) ` ({0..<nbits (vaddr_bitmap (the_vaddr pf m))} - X) else unowned q m)"
  using assms by (simp_all add: owned_def unowned_def vbase_def)

lemma owned_disjoint:
  assumes "layout_ok m" and "v \<in> owned q m \<union> unowned q m" and "v \<in> owned pf m \<union> unowned pf m"
  shows "q = pf"
  using page_range(3) [OF assms(1,2)] page_range(3) [OF assms(1,3)] by (cases q; cases pf) auto

lemma owned_unowned: "owned pf m \<inter> unowned pf m = {}"
  by (auto simp: owned_def unowned_def)

lemma mem_inv_pages:
  assumes inv: "mem_inv m W" and lay: "layout_ok m'" and m': "m' = set_vaddr pf va m"
    and diff: "all_owned m' - W' = all_owned m - W" and sub: "W' \<subseteq> all_owned m'"
    and own: "\<And>q. owned q m' - W' \<subseteq> owned q m - W"
    and un: "\<And>q w. w \<in> unowned q m' \<Longrightarrow> \<not> mapped m w" "\<And>w. w \<in> W' \<Longrightarrow> \<not> mapped m w"
  shows "mem_inv m' W'"
proof -
  note D = mem_invD [OF inv]
  have "\<forall>q. \<forall>v \<in> owned q m' - W'. mapped m v \<and> page_frame m v \<in> frames q m"
    using D(3) own by blast
  moreover have "\<forall>q. \<forall>v \<in> unowned q m' \<union> W'. \<not> mapped m v" using un by blast
  moreover have "frames q m' = frames q m" "free_frames q m' = free_frames q m" "page_frame m' = page_frame m"
    "table_frame m' = table_frame m" "mapped m' = mapped m" "pde m' = pde m" for q
    by (simp_all add: m')
  ultimately show ?thesis
    using lay sub D(6,7,8,9) unfolding mem_inv_def diff by (simp only:) blast
qed

text \<open>The page of a process's stack, the last one below the kernel, is in use: an allocation that would
  begin there fails an assertion.\<close>

lemma vaddr_get_ok:
  assumes inv: "mem_inv m {}" and n: "0 < n" and run: "{st..<st + n} \<subseteq> unowned pf m"
    and stack: "0xbffff \<notin> unowned pf m"
  obtains a b where
    "vaddr_get pf n m = Inr (Some (a * PG_SIZE), set_vaddr pf ((the_vaddr pf m)\<lparr>vaddr_bitmap := b\<rparr>) m)"
    "{a..<a + n} \<subseteq> unowned pf m" "mem_inv (set_vaddr pf ((the_vaddr pf m)\<lparr>vaddr_bitmap := b\<rparr>) m) {a..<a + n}"
    "\<And>q. owned q (set_vaddr pf ((the_vaddr pf m)\<lparr>vaddr_bitmap := b\<rparr>) m) =
       (if q = pf then owned pf m \<union> {a..<a + n} else owned q m)"
proof -
  note D = mem_invD [OF inv]
  let ?b = "vaddr_bitmap (the_vaddr pf m)" and ?v = "vbase pf m"
  have g: "bitmap_guarded ?b" and vs: "vaddr_start (the_vaddr pf m) = ?v * PG_SIZE"
    using D(1) by (simp_all add: layout_ok_def)
  have mem: "?v \<le> w \<and> w - ?v < nbits ?b \<and> w - ?v \<notin> allocated ?b" if "w \<in> unowned pf m" for w
    using that by (auto simp: unowned_def)
  have "st \<in> {st..<st + n}" "st + n - 1 \<in> {st..<st + n}" using n by auto
  then have e: "?v \<le> st" "st + n - 1 - ?v < nbits ?b" using run mem by (meson subsetD)+
  have "allocated ?b \<inter> {st - ?v..<st - ?v + n} = {}"
  proof -
    have "i \<notin> allocated ?b" if i: "i \<in> {st - ?v..<st - ?v + n}" for i
    proof -
      have "?v + i \<in> {st..<st + n}" using i e(1) by auto
      then show ?thesis using mem [of "?v + i"] run by auto
    qed
    then show ?thesis by auto
  qed
  moreover have "st - ?v + n \<le> nbits ?b" using e n by simp
  ultimately obtain z where z: "bitmap_scan ?b n = Inr z" "z \<noteq> -1"
    using bm.scan_finds [OF g n, of "st - ?v"] by blast
  have zf: "0 \<le> z" "nat z + n \<le> nbits ?b" "allocated ?b \<inter> {nat z..<nat z + n} = {}"
    using bm.scan_free [OF g n z] by simp_all
  obtain b where b: "set_range bitmap_set (nat z) 1 n ?b = Inr b" "bitmap_guarded b" "nbits b = nbits ?b"
    "allocated b = allocated ?b \<union> {nat z..<nat z + n}"
    using bm.set_range_works [OF g zf(2), of 1] by auto
  let ?m = "set_vaddr pf ((the_vaddr pf m)\<lparr>vaddr_bitmap := b\<rparr>) m" and ?a = "?v + nat z"
  have sh: "(\<lambda>i. ?v + i) ` {nat z..<nat z + n} = {?a..<?a + n}"
    by (simp add: image_add_atLeastLessThan ac_simps)
  have own: "owned q ?m = (if q = pf then owned pf m \<union> {?a..<?a + n} else owned q m)" for q
    unfolding set_vaddr_owned(1) [OF b(3,4)] image_Un sh owned_def [of pf m] by (rule refl)
  have "{nat z..<nat z + n} \<subseteq> {0..<nbits ?b} - allocated ?b" using zf by auto
  then have new: "{?a..<?a + n} \<subseteq> unowned pf m"
    unfolding sh [symmetric] unowned_def by (rule image_mono)
  have un: "unowned q ?m \<subseteq> unowned q m" for q
    using set_vaddr_owned(2) [OF b(3,4), of q] by (auto simp: unowned_def)
  have un': "\<not> mapped m w" if "w \<in> unowned q ?m" for q w
    using un D(4) that by blast
  have all: "all_owned ?m = all_owned m \<union> {?a..<?a + n}"
    by (auto simp: all_owned_def own split: if_splits) (metis pool_flags.exhaust)+
  have not: "w \<notin> {?a..<?a + n}" if w': "w \<in> all_owned m" for w
  proof
    assume w: "w \<in> {?a..<?a + n}"
    obtain q where q: "w \<in> owned q m" using w' by (auto simp: all_owned_def)
    have "q = pf" using owned_disjoint [OF D(1), of w q pf] q w new by auto
    then show False using q w new owned_unowned [of pf m] by auto
  qed
  have diff: "all_owned ?m - {?a..<?a + n} = all_owned m" using all not by auto
  have o: "owned q ?m - {?a..<?a + n} \<subseteq> owned q m" for q using own [of q] by auto
  have inv': "mem_inv ?m {?a..<?a + n}"
    by (rule mem_inv_pages [OF inv set_vaddr_layout [OF D(1) b(2,3)] refl])
      (use diff all o un' new D(4) in auto)
  have "?a \<in> unowned pf m" using new n by auto
  note r = page_range [OF D(1), of ?a pf]
  have pos: "0 < ?a" "?a < 2 ^ 20 - 1024" using r(1,2) \<open>?a \<in> unowned pf m\<close> by auto
  have addr: "(vaddr_start (the_vaddr pf m) + nat z * PG_SIZE) mod 2 ^ 32 = ?a * PG_SIZE"
    using pos vs by (simp add: PG_SIZE_def)
  have user: "pf = PF_KERNEL \<or> ?a * PG_SIZE < 0xc0000000 - PG_SIZE"
  proof (cases pf)
    case PF_USER
    have "?a < ?v + nbits ?b" using r(5) \<open>?a \<in> unowned pf m\<close> by auto
    then have "?a < 0xc0000" using D(1) PF_USER by (simp add: layout_ok_def)
    moreover have "?a \<noteq> 0xbffff" using stack \<open>?a \<in> unowned pf m\<close> by metis
    ultimately have "?a < 0xbffff" by simp
    then show ?thesis by (simp add: PG_SIZE_def)
  qed simp
  have "vaddr_get pf n m = Inr (Some (?a * PG_SIZE), ?m)"
    using z zf(1) b(1) addr user pos(1) by (auto simp: vaddr_get_def Let_def PG_SIZE_def)
  then show thesis using new inv' own by (rule that)
qed

lemma malloc_page_ok:
  assumes inv: "mem_inv m {}" and n: "0 < n" and run: "{st..<st + n} \<subseteq> unowned pf m"
    and stack: "0xbffff \<notin> unowned pf m"
    and "pf = PF_KERNEL \<Longrightarrow> 2 * n \<le> card (free_frames PF_KERNEL m)"
    and "pf = PF_USER \<Longrightarrow> n \<le> card (free_frames PF_USER m) \<and> n \<le> card (free_frames PF_KERNEL m)"
  shows "\<exists>a m'. malloc_page pf n m = Inr (Some (a * PG_SIZE), m') \<and> mem_inv m' {} \<and>
    {a..<a + n} \<subseteq> unowned pf m \<and>
    (\<forall>q. owned q m' = (if q = pf then owned pf m \<union> {a..<a + n} else owned q m)) \<and>
    page_frame m' ` {a..<a + n} \<subseteq> free_frames pf m \<and>
    (\<forall>w \<in> all_owned m. page_frame m' w = page_frame m w)"
proof -
  note D = mem_invD [OF inv]
  obtain a b where v:
    "vaddr_get pf n m = Inr (Some (a * PG_SIZE), set_vaddr pf ((the_vaddr pf m)\<lparr>vaddr_bitmap := b\<rparr>) m)"
    "{a..<a + n} \<subseteq> unowned pf m" "mem_inv (set_vaddr pf ((the_vaddr pf m)\<lparr>vaddr_bitmap := b\<rparr>) m) {a..<a + n}"
    "\<And>q. owned q (set_vaddr pf ((the_vaddr pf m)\<lparr>vaddr_bitmap := b\<rparr>) m) =
       (if q = pf then owned pf m \<union> {a..<a + n} else owned q m)"
    by (rule vaddr_get_ok [OF inv n run stack]) (rule that)
  define m1 where "m1 = set_vaddr pf ((the_vaddr pf m)\<lparr>vaddr_bitmap := b\<rparr>) m"
  note v = v [folded m1_def]
  have e: "free_frames q m1 = free_frames q m" "page_frame m1 = page_frame m" "mapped m1 = mapped m" for q
    by (simp_all add: m1_def)
  have sub: "{a..<a + n} \<subseteq> {a..<a + n} \<inter> owned pf m1" using v(4) by auto
  obtain m' where m': "map_pages pf (a * PG_SIZE) n m1 = Inr m'" "mem_inv m' ({a..<a + n} - {a..<a + n})"
    "same_pages m1 m'" "page_frame m' ` {a..<a + n} \<subseteq> free_frames pf m1"
    "\<forall>w. mapped m1 w \<longrightarrow> w \<notin> {a..<a + n} \<longrightarrow> page_frame m' w = page_frame m1 w"
    using map_pages_ok [OF v(3) sub] assms(5,6) unfolding e by blast
  have old: "page_frame m' w = page_frame m w" if w: "w \<in> all_owned m" for w
  proof -
    obtain q where q: "w \<in> owned q m" using w by (auto simp: all_owned_def)
    have "w \<notin> {a..<a + n}"
    proof
      assume "w \<in> {a..<a + n}"
      then have "w \<in> unowned pf m" using v(2) by auto
      moreover from this have "q = pf" using owned_disjoint [OF D(1), of w q pf] q by auto
      ultimately show False using q owned_unowned [of pf m] by auto
    qed
    moreover have "mapped m w" using D(3) [OF q] by simp
    ultimately show ?thesis using m'(5) e by simp
  qed
  have "a * PG_SIZE \<noteq> 0 \<or> True" by simp
  then have "malloc_page pf n m = Inr (Some (a * PG_SIZE), m')"
    using v(1) m'(1) by (simp add: malloc_page_def)
  moreover have "mem_inv m' {}" using m'(2) by simp
  moreover have "owned q m' = (if q = pf then owned pf m \<union> {a..<a + n} else owned q m)" for q
    using v(4) same_pagesD [OF m'(3)] by simp
  ultimately show ?thesis using v(2) m'(4) e old by (intro exI [of _ a] exI [of _ m']) simp
qed

section \<open>Giving pages back\<close>

lemma frame_addr:
  assumes "layout_ok m" and "f \<in> frames pf m"
  shows "f * PG_SIZE < 2 ^ 32" "0x102000 \<le> f * PG_SIZE"
    "f * PG_SIZE \<ge> phy_addr_start (user_pool m) \<longleftrightarrow> pf = PF_USER"
    "f * PG_SIZE \<ge> phy_addr_start (the_pool pf m)"
proof -
  note r = frame_range [OF assms(1), of f pf]
  have p: "phy_addr_start (the_pool q m) = pbase q m * PG_SIZE" for q using assms(1) by (simp add: layout_ok_def)
  have u: "user_pool m = the_pool PF_USER m" by (simp add: the_pool_def)
  show "f * PG_SIZE < 2 ^ 32" "0x102000 \<le> f * PG_SIZE"
    "f * PG_SIZE \<ge> phy_addr_start (user_pool m) \<longleftrightarrow> pf = PF_USER"
    "f * PG_SIZE \<ge> phy_addr_start (the_pool pf m)"
    using r assms(2) unfolding u p by (simp_all add: PG_SIZE_def)
qed

lemma addr_v2p_ok:
  assumes inv: "mem_inv m W" and v: "v \<in> owned pf m" "v \<notin> W"
  shows "addr_v2p (v * PG_SIZE) m = Inr (page_frame m v * PG_SIZE)"
proof -
  note D = mem_invD [OF inv]
  have M: "present (pde m (v div 1024))" "page_frame m v \<in> frames pf m"
    using D(3) [OF v] by (simp_all add: mapped_def)
  have "0 < table_frame m (v div 1024)" using D(7) M(1) by simp
  then have nz: "frame_bits (pde m (v div 1024)) \<noteq> 0" by (auto simp: table_frame_def frame_no_def)
  have "unat (frame_bits (pte m v)) = page_frame m v * PG_SIZE"
    by (simp add: page_frame_def frame_no_bits)
  moreover have "v * PG_SIZE mod PG_SIZE = 0" by simp
  ultimately show ?thesis
    using nz M(1) frame_addr(1) [OF D(1) M(2)]
    unfolding addr_v2p_def entry_index Let_def by simp
qed

lemma pfree_ok:
  assumes lay: "layout_ok m" and f: "f \<in> frames pf m"
  obtains b where "pfree (f * PG_SIZE) m = Inr (set_pool pf ((the_pool pf m)\<lparr>pool_bitmap := b\<rparr>) m)"
    "layout_ok (set_pool pf ((the_pool pf m)\<lparr>pool_bitmap := b\<rparr>) m)"
    "\<And>q. frames q (set_pool pf ((the_pool pf m)\<lparr>pool_bitmap := b\<rparr>) m) =
       (if q = pf then frames pf m - {f} else frames q m)"
    "\<And>q. free_frames q (set_pool pf ((the_pool pf m)\<lparr>pool_bitmap := b\<rparr>) m) =
       (if q = pf then insert f (free_frames pf m) else free_frames q m)"
proof -
  let ?b = "pool_bitmap (the_pool pf m)"
  obtain i where i: "i \<in> allocated ?b" "f = pbase pf m + i" using f by (auto simp: frames_def)
  have il: "i < nbits ?b" using i(1) by (simp add: allocated_def)
  have g: "bitmap_guarded ?b" using lay by (simp add: layout_ok_def)
  obtain b where b: "bitmap_set ?b i 0 = Inr b" "bitmap_guarded b" "nbits b = nbits ?b"
    "allocated b = allocated ?b - {i}"
    using bm.put_works [OF g il, of 0] by auto
  let ?m = "set_pool pf ((the_pool pf m)\<lparr>pool_bitmap := b\<rparr>) m"
  note a = frame_addr [OF lay f]
  have ps: "phy_addr_start (the_pool pf m) = pbase pf m * PG_SIZE" using lay by (simp add: layout_ok_def)
  have "int (f * PG_SIZE) - int (phy_addr_start (the_pool pf m)) = int (i * PG_SIZE)"
    by (simp add: ps i(2) add_mult_distrib)
  moreover have "int k < 2 ^ 32" if "k < 2 ^ 32" for k :: nat using that by simp
  then have "int (i * PG_SIZE) < 2 ^ 32" using a(1) i(2) by (auto simp only: add_mult_distrib)
  ultimately have "uint32 (int (f * PG_SIZE) - int (phy_addr_start (the_pool pf m))) = i * PG_SIZE"
    by (simp only: uint32_id of_nat_0_le_iff nat_int)
  then have idx: "uint32 (int (f * PG_SIZE) - int (phy_addr_start (the_pool pf m))) div PG_SIZE = i"
    by (simp add: PG_SIZE_def)
  have "(if f * PG_SIZE \<ge> phy_addr_start (user_pool m) then PF_USER else PF_KERNEL) = pf"
    using a(3) by (cases pf) auto
  then have run: "pfree (f * PG_SIZE) m = Inr ?m"
    unfolding pfree_def Let_def by (simp only: idx b(1) andthen_Inr)
  have pb: "pbase q ?m = pbase q m" "vbase q ?m = vbase q m" for q by (simp_all add: pbase_def vbase_def)
  have lay': "layout_ok ?m" using lay b(2,3) by (simp add: layout_ok_def pb)
  have fr: "frames q ?m = (if q = pf then frames pf m - {f} else frames q m)" for q
    using i(2) by (auto simp: frames_def pb b(4))
  have sh: "(\<lambda>i. k + i) ` (X - (Y - {z})) = insert (k + z) ((\<lambda>i. k + i) ` (X - Y))" if "z \<in> X"
    for k z :: nat and X Y using that by auto
  have ff: "free_frames q ?m = (if q = pf then insert f (free_frames pf m) else free_frames q m)" for q
    unfolding free_frames_def pb using sh b(3,4) i(2) il by simp
  show thesis by (rule that [OF run lay' fr ff])
qed

text \<open>Freeing the frame of the page \<open>v\<close> and clearing its entry.\<close>

lemma unmap_entry_inv:
  assumes inv: "mem_inv m W" and v: "v \<in> owned pf m" "v \<notin> W"
    and m': "layout_ok m'" "same_pages m m'" "pde m' = pde m"
    and fr: "\<And>q. frames q m' = (if q = pf then frames pf m - {page_frame m v} else frames q m)"
    and ff: "\<And>q. free_frames q m' = (if q = pf then insert (page_frame m v) (free_frames pf m) else free_frames q m)"
    and pf': "\<And>w. w \<noteq> v \<Longrightarrow> page_frame m' w = page_frame m w"
    and mp: "\<And>w. mapped m' w \<longleftrightarrow> w \<noteq> v \<and> mapped m w"
  shows "mem_inv m' (insert v W)"
proof -
  note D = mem_invD [OF inv]
  have vall: "v \<in> all_owned m" using v(1) by (cases pf) (auto simp: all_owned_def)
  have A: "all_owned m - insert v W \<subseteq> all_owned m - W" by auto
  have tf: "table_frame m' = table_frame m" using m'(3) by (simp add: table_frame_def fun_eq_iff)
  have eq: "page_frame m' w = page_frame m w" if "w \<in> all_owned m - insert v W" for w
    using that pf' by auto
  then have img: "page_frame m' ` (all_owned m - insert v W) = page_frame m ` (all_owned m - insert v W)"
    by (rule image_cong [OF refl])
  have own: "mapped m' w \<and> page_frame m' w \<in> frames q m'" if w: "w \<in> owned q m" "w \<notin> insert v W" for q w
  proof -
    have M: "mapped m w" "page_frame m w \<in> frames q m" using D(3) [OF w(1)] w(2) by auto
    have "w \<in> all_owned m" using w(1) by (cases q) (auto simp: all_owned_def)
    then have "page_frame m w \<noteq> page_frame m v"
      using D(6) vall v(2) w(2) by (auto simp: inj_on_def)
    then show ?thesis using M w(2) mp pf' fr [of q] by auto
  qed
  have own': "\<forall>q. \<forall>w \<in> owned q m - insert v W. mapped m' w \<and> page_frame m' w \<in> frames q m'"
    using own by blast
  have un': "\<forall>q. \<forall>w \<in> unowned q m \<union> insert v W. \<not> mapped m' w" using D(4,5) mp by blast
  have inj: "inj_on (page_frame m') (all_owned m - insert v W)"
    using inj_on_subset [OF D(6) A] eq by (simp add: inj_on_def)
  have tab: "0 < table_frame m d \<and> table_frame m d \<notin> page_frame m ` (all_owned m - insert v W) \<and>
      (\<forall>q. table_frame m d \<notin> free_frames q m')" if p: "present (pde m d)" for d
  proof -
    have "table_frame m d \<noteq> page_frame m v" using D(8) [OF p] vall v(2) by blast
    then have "table_frame m d \<notin> free_frames q m'" for q using D(9) [OF p, of q] ff [of q] by (auto split: if_splits)
    then show ?thesis using D(7,8) [OF p] A by blast
  qed
  show ?thesis
    unfolding mem_inv_def same_pagesD [OF m'(2)] img tf m'(3)
    using m'(1) D(2) vall own' un' inj tab by blast
qed

lemma unmap_pages_ok:
  assumes "mem_inv m W" and "{v..<v + n} \<subseteq> owned pf m - W" and "user = (pf = PF_USER)"
  shows "\<exists>m'. unmap_pages user (v * PG_SIZE) n m = Inr m' \<and> mem_inv m' (W \<union> {v..<v + n}) \<and> same_pages m m' \<and>
    frames pf m' = frames pf m - page_frame m ` {v..<v + n} \<and> (\<forall>q. q \<noteq> pf \<longrightarrow> frames q m' = frames q m) \<and>
    (\<forall>w. w \<notin> {v..<v + n} \<longrightarrow> page_frame m' w = page_frame m w)"
  using assms
proof (induction n arbitrary: v m W)
  case 0
  then show ?case by (auto simp: same_pages_def)
next
  case (Suc n)
  note D = mem_invD [OF Suc.prems(1)]
  have "v \<in> {v..<v + Suc n}" by simp
  then have v: "v \<in> owned pf m" "v \<notin> W" using Suc.prems(2) by blast+
  let ?f = "page_frame m v"
  have M: "mapped m v" "?f \<in> frames pf m" using D(3) [OF v] by auto
  note a = addr_v2p_ok [OF Suc.prems(1) v] and fa = frame_addr [OF D(1) M(2)]
  obtain b where p: "pfree (?f * PG_SIZE) m = Inr (set_pool pf ((the_pool pf m)\<lparr>pool_bitmap := b\<rparr>) m)"
    "layout_ok (set_pool pf ((the_pool pf m)\<lparr>pool_bitmap := b\<rparr>) m)"
    "\<And>q. frames q (set_pool pf ((the_pool pf m)\<lparr>pool_bitmap := b\<rparr>) m) =
       (if q = pf then frames pf m - {?f} else frames q m)"
    "\<And>q. free_frames q (set_pool pf ((the_pool pf m)\<lparr>pool_bitmap := b\<rparr>) m) =
       (if q = pf then insert ?f (free_frames pf m) else free_frames q m)"
    by (rule pfree_ok [OF D(1) M(2)]) (rule that)
  define m1 where "m1 = set_pool pf ((the_pool pf m)\<lparr>pool_bitmap := b\<rparr>) m"
  define m2 where "m2 = m1\<lparr>pte := (pte m1)(v := pte m1 v AND NOT PG_P_1)\<rparr>"
  note p = p [folded m1_def]
  have m1: "pde m1 = pde m" "pte m1 = pte m" "same_pages m m1" by (simp_all add: m1_def same_pages_def)
  have q2: "the_pool q m2 = the_pool q m1" "the_vaddr q m2 = the_vaddr q m1" for q by (simp_all add: m2_def)
  have fr2: "frames q m2 = frames q m1" "free_frames q m2 = free_frames q m1" for q
    using frames_cong [OF q2(1)] by simp_all
  have S: "same_pages m m2" using m1(3) q2(2) by (simp add: same_pages_def m2_def)
  have pf2: "page_frame m2 w = page_frame m w" if "w \<noteq> v" for w
    using that m1(2) by (simp add: m2_def page_frame_def)
  have inv2: "mem_inv m2 (insert v W)"
  proof (rule unmap_entry_inv [OF Suc.prems(1) v])
    show "layout_ok m2" by (rule layout_cong [OF q2 p(2)])
    show "pde m2 = pde m" using m1(1) by (simp add: m2_def)
    show "mapped m2 w \<longleftrightarrow> w \<noteq> v \<and> mapped m w" for w using m1 by (auto simp: m2_def mapped_def)
  qed (use S p(3,4) fr2 pf2 in simp_all)
  have "present (pde m1 (v div 1024))" using M(1) m1(1) by (simp add: mapped_def)
  then have rem: "page_table_pte_remove (v * PG_SIZE) m1 = Inr m2"
    by (simp add: page_table_pte_remove_def entry_index m2_def Let_def)
  have own2: "{Suc v..<Suc v + n} \<subseteq> owned pf m2 - insert v W"
    using Suc.prems(2) same_pagesD(1) [OF S] by (auto simp: subset_iff)
  obtain m' where m': "unmap_pages user (Suc v * PG_SIZE) n m2 = Inr m'" "mem_inv m' (insert v W \<union> {Suc v..<Suc v + n})"
    "same_pages m2 m'" "frames pf m' = frames pf m2 - page_frame m2 ` {Suc v..<Suc v + n}"
    "\<forall>q. q \<noteq> pf \<longrightarrow> frames q m' = frames q m2" "\<forall>w. w \<notin> {Suc v..<Suc v + n} \<longrightarrow> page_frame m' w = page_frame m2 w"
    using Suc.IH [OF inv2 own2 Suc.prems(3)] by blast
  have k: "kernel_pool m = the_pool PF_KERNEL m" by (simp add: the_pool_def)
  have ok: "?f * PG_SIZE mod PG_SIZE = 0 \<and>
        (if user then ?f * PG_SIZE \<ge> phy_addr_start (user_pool m)
         else ?f * PG_SIZE \<ge> phy_addr_start (kernel_pool m) \<and> ?f * PG_SIZE < phy_addr_start (user_pool m))"
    using fa(3,4) Suc.prems(3) unfolding k by (cases pf) auto
  have run: "unmap_pages user (v * PG_SIZE) (Suc n) m = Inr m'"
    using m'(1) a ok p(1) rem page_addr [OF D(1), of v pf] v(1) by (simp add: assert_c_def)
  have i: "{v..<v + Suc n} = insert v {Suc v..<Suc v + n}" by auto
  have img: "page_frame m2 ` {Suc v..<Suc v + n} = page_frame m ` {Suc v..<Suc v + n}"
    by (rule image_cong [OF refl]) (use pf2 in auto)
  have "frames pf m' = frames pf m - page_frame m ` {v..<v + Suc n}"
    using m'(4) fr2(1) [of pf] p(3) [of pf] unfolding i img by auto
  moreover have "\<forall>q. q \<noteq> pf \<longrightarrow> frames q m' = frames q m" using m'(5) fr2(1) p(3) by simp
  moreover have "page_frame m' w = page_frame m w" if "w \<notin> {v..<v + Suc n}" for w
    using that m'(6) pf2 unfolding i by auto
  moreover have "mem_inv m' (W \<union> {v..<v + Suc n})" using m'(2) unfolding i by simp
  moreover have "same_pages m m'" using S m'(3) same_pages_trans by blast
  ultimately show ?case using run by blast
qed

lemma vaddr_remove_ok:
  assumes inv: "mem_inv m {v..<v + n}" and own: "{v..<v + n} \<subseteq> owned pf m" and n: "0 < n"
  obtains b where "vaddr_remove pf (v * PG_SIZE) n m = Inr (set_vaddr pf ((the_vaddr pf m)\<lparr>vaddr_bitmap := b\<rparr>) m)"
    "mem_inv (set_vaddr pf ((the_vaddr pf m)\<lparr>vaddr_bitmap := b\<rparr>) m) {}"
    "\<And>q. owned q (set_vaddr pf ((the_vaddr pf m)\<lparr>vaddr_bitmap := b\<rparr>) m) =
       (if q = pf then owned pf m - {v..<v + n} else owned q m)"
proof -
  note D = mem_invD [OF inv]
  let ?b = "vaddr_bitmap (the_vaddr pf m)" and ?v = "vbase pf m"
  have g: "bitmap_guarded ?b" and vs: "vaddr_start (the_vaddr pf m) = ?v * PG_SIZE"
    using D(1) by (simp_all add: layout_ok_def)
  have "v \<in> {v..<v + n}" "v + n - 1 \<in> {v..<v + n}" using n by auto
  then have io: "v \<in> owned pf m" "v + n - 1 \<in> owned pf m" using own by auto
  note r = page_range [OF D(1), of v pf]
  have bd: "?v \<le> v" "v - ?v + n \<le> nbits ?b" "v < 2 ^ 20"
    using page_range(2,4,5) [OF D(1), of "v + n - 1" pf] r(2,4) io n by auto
  obtain b where b: "set_range bitmap_set (v - ?v) 0 n ?b = Inr b" "bitmap_guarded b" "nbits b = nbits ?b"
    "allocated b = allocated ?b - {v - ?v..<v - ?v + n}"
    using bm.set_range_works [OF g bd(2), of 0] by auto
  let ?m = "set_vaddr pf ((the_vaddr pf m)\<lparr>vaddr_bitmap := b\<rparr>) m"
  have "(\<lambda>i. ?v + i) ` {v - ?v..<v - ?v + n} = {v..<v + n}"
    using bd(1) by (simp add: image_add_atLeastLessThan)
  then have sh: "(\<lambda>i. ?v + i) ` (X - {v - ?v..<v - ?v + n}) = (\<lambda>i. ?v + i) ` X - {v..<v + n}" for X
    by (simp add: image_set_diff)
  have sh': "(\<lambda>i. ?v + i) ` (X - (Y - {v - ?v..<v - ?v + n})) \<subseteq> (\<lambda>i. ?v + i) ` (X - Y) \<union> {v..<v + n}" for X Y
    using bd(1) by auto
  have o: "owned q ?m = (if q = pf then owned pf m - {v..<v + n} else owned q m)" for q
    unfolding set_vaddr_owned(1) [OF b(3,4)] sh owned_def [of pf m] by (rule refl)
  have u: "unowned q ?m \<subseteq> unowned q m \<union> {v..<v + n}" for q
    unfolding set_vaddr_owned(2) [OF b(3,4)] using sh' by (auto simp: unowned_def)
  have o': "owned q ?m = owned q m - {v..<v + n}" for q
  proof (cases "q = pf")
    case False
    then have "w \<notin> owned q m" if "w \<in> {v..<v + n}" for w
      using owned_disjoint [OF D(1), of w q pf] that own by auto
    then show ?thesis using False o [of q] by auto
  qed (simp add: o)
  then have all: "all_owned ?m = all_owned m - {v..<v + n}" by (simp only: all_owned_def Un_Diff)
  have "\<not> mapped m w" if "w \<in> unowned q ?m" for q w using u D(4,5) that by blast
  then have inv': "mem_inv ?m {}"
    by (intro mem_inv_pages [OF inv set_vaddr_layout [OF D(1) b(2,3)] refl])
      (use all o' in auto)
  have "int (v * PG_SIZE) - int (?v * PG_SIZE) = int ((v - ?v) * PG_SIZE)"
    using bd(1) by (simp add: diff_mult_distrib of_nat_diff mult_le_mono1)
  moreover have "(v - ?v) * PG_SIZE < 2 ^ 32" using bd(3) by (simp add: PG_SIZE_def)
  ultimately have "uint32 (int (v * PG_SIZE) - int (vaddr_start (the_vaddr pf m))) div PG_SIZE = v - ?v"
    unfolding vs by (simp add: uint32_def PG_SIZE_def nat_mod_distrib del: of_nat_mult)
  then have "vaddr_remove pf (v * PG_SIZE) n m = Inr ?m"
    using b(1) by (simp add: vaddr_remove_def Let_def)
  then show thesis using inv' o by (rule that)
qed

lemma mfree_pages_ok:
  assumes inv: "mem_inv m {}" and own: "{v..<v + n} \<subseteq> owned pf m" and n: "0 < n"
  shows "\<exists>m'. mfree_pages pf (v * PG_SIZE) n m = Inr m' \<and> mem_inv m' {} \<and>
    (\<forall>q. owned q m' = (if q = pf then owned pf m - {v..<v + n} else owned q m)) \<and>
    (\<forall>q. frames q m' = (if q = pf then frames pf m - page_frame m ` {v..<v + n} else frames q m)) \<and>
    (\<forall>w. w \<notin> {v..<v + n} \<longrightarrow> page_frame m' w = page_frame m w) \<and> (\<forall>w \<in> {v..<v + n}. \<not> mapped m' w)"
proof -
  note D = mem_invD [OF inv]
  have "v \<in> {v..<v + n}" using n by simp
  then have v: "v \<in> owned pf m" using own by blast
  have f: "page_frame m v \<in> frames pf m" using D(3) [OF v] by simp
  note a = addr_v2p_ok [OF inv v] and fa = frame_addr [OF D(1) f]
  have sub: "{v..<v + n} \<subseteq> owned pf m - {}" using own by simp
  obtain m1 where m1: "unmap_pages (pf = PF_USER) (v * PG_SIZE) n m = Inr m1" "mem_inv m1 ({} \<union> {v..<v + n})"
    "same_pages m m1" "frames pf m1 = frames pf m - page_frame m ` {v..<v + n}"
    "\<forall>q. q \<noteq> pf \<longrightarrow> frames q m1 = frames q m" "\<forall>w. w \<notin> {v..<v + n} \<longrightarrow> page_frame m1 w = page_frame m w"
    using unmap_pages_ok [OF inv sub refl] by blast
  have av: "mfree_page_avoid_vaddr_remove pf (v * PG_SIZE) n m = Inr m1"
    using n a fa(2,3) m1(1) by (simp add: mfree_page_avoid_vaddr_remove_def)
  have inv1: "mem_inv m1 {v..<v + n}" using m1(2) by simp
  have own1: "{v..<v + n} \<subseteq> owned pf m1" using own same_pagesD [OF m1(3)] by simp
  obtain b where b: "vaddr_remove pf (v * PG_SIZE) n m1 = Inr (set_vaddr pf ((the_vaddr pf m1)\<lparr>vaddr_bitmap := b\<rparr>) m1)"
    "mem_inv (set_vaddr pf ((the_vaddr pf m1)\<lparr>vaddr_bitmap := b\<rparr>) m1) {}"
    "\<And>q. owned q (set_vaddr pf ((the_vaddr pf m1)\<lparr>vaddr_bitmap := b\<rparr>) m1) =
       (if q = pf then owned pf m1 - {v..<v + n} else owned q m1)"
    by (rule vaddr_remove_ok [OF inv1 own1 n]) (rule that)
  have "mfree_pages pf (v * PG_SIZE) n m = Inr (set_vaddr pf ((the_vaddr pf m1)\<lparr>vaddr_bitmap := b\<rparr>) m1)"
    using av b(1) by (simp add: mfree_pages_def)
  moreover have "\<forall>w \<in> {v..<v + n}. \<not> mapped m1 w" using mem_invD(5) [OF inv1] by blast
  ultimately show ?thesis using b(2,3) m1(4,5,6) same_pagesD [OF m1(3)] by (intro exI [of _ "set_vaddr pf ((the_vaddr pf m1)\<lparr>vaddr_bitmap := b\<rparr>) m1"]) auto
qed

section \<open>A sample state\<close>

definition zeros :: "nat \<Rightarrow> bitmap" where
  "zeros n = \<lparr>bits = replicate (n + 1) 0, btmp_bytes_len = n\<rparr>"

definition sample_mem :: mem where
  "sample_mem =
     \<lparr>kernel_pool = \<lparr>pool_bitmap = zeros 8, phy_addr_start = 0x102 * PG_SIZE, pool_size = 64 * PG_SIZE\<rparr>,
      user_pool = \<lparr>pool_bitmap = zeros 8, phy_addr_start = 0x142 * PG_SIZE, pool_size = 64 * PG_SIZE\<rparr>,
      kernel_vaddr = \<lparr>vaddr_bitmap = zeros 8, vaddr_start = 0xc0100 * PG_SIZE\<rparr>,
      userprog_vaddr = \<lparr>vaddr_bitmap = zeros 8, vaddr_start = 0x8048 * PG_SIZE\<rparr>,
      pde = (\<lambda>d. 0), pte = (\<lambda>v. 0), k_block_descs = block_desc_init, u_block_desc = block_desc_init,
      arenas = (\<lambda>a. None), pgdir_null = True\<rparr>"

lemma zeros_ok: "bitmap_guarded (zeros 8)" "nbits (zeros 8) = 64" "allocated (zeros 8) = {}"
proof -
  show "bitmap_guarded (zeros 8)" by (simp add: bitmap_guarded_def nbits_def zeros_def)
  show n: "nbits (zeros 8) = 64" by (simp add: nbits_def zeros_def)
  have "replicate 9 (0 :: u8) ! (i div 8) = 0" if "i < 64" for i by (rule nth_replicate) (use that in simp)
  then have "\<not> bit_set (zeros 8) i" if "i < 64" for i using that by (simp add: bit_set_def zeros_def)
  then show "allocated (zeros 8) = {}" unfolding allocated_def n by auto
qed

lemma sample_parts:
  "pool_bitmap (the_pool pf sample_mem) = zeros 8" "vaddr_bitmap (the_vaddr pf sample_mem) = zeros 8"
  "pbase pf sample_mem = (case pf of PF_KERNEL \<Rightarrow> 0x102 | PF_USER \<Rightarrow> 0x142)"
  "vbase pf sample_mem = (case pf of PF_KERNEL \<Rightarrow> 0xc0100 | PF_USER \<Rightarrow> 0x8048)"
  by (cases pf; simp add: sample_mem_def the_pool_def the_vaddr_def pbase_def vbase_def PG_SIZE_def)+

lemma sample_sets:
  "owned pf sample_mem = {}" "frames pf sample_mem = {}"
  "unowned PF_KERNEL sample_mem = {0xc0100..<0xc0140}" "card (free_frames pf sample_mem) = 64"
  by (simp_all add: owned_def frames_def unowned_def free_frames_def sample_parts zeros_ok image_add_atLeastLessThan card_image)

lemma sample_mem_inv: "mem_inv sample_mem {}"
proof -
  have "phy_addr_start (the_pool pf sample_mem) = pbase pf sample_mem * PG_SIZE"
    "vaddr_start (the_vaddr pf sample_mem) = vbase pf sample_mem * PG_SIZE" for pf
    by (cases pf; simp add: sample_parts; simp add: sample_mem_def the_pool_def the_vaddr_def)+
  then have "layout_ok sample_mem" by (simp add: layout_ok_def sample_parts zeros_ok)
  moreover have "\<not> mapped sample_mem v" "\<not> present (pde sample_mem d)" for v d
    by (simp_all add: mapped_def sample_mem_def)
  ultimately show ?thesis by (simp add: mem_inv_def all_owned_def sample_sets)
qed

section \<open>Properties\<close>

text \<open>C9: an allocation of pages returns a run of virtual pages that were free, mapped to frames that
  no other page and no page table uses; the mapping of all other pages stays, and the invariant
  (distinct pages have distinct frames, the set bits are the mapped pages) is kept.\<close>
theorem malloc_page_fresh:
  assumes "mem_inv m {}" and "0 < n" and "{st..<st + n} \<subseteq> unowned pf m" and "0xbffff \<notin> unowned pf m"
    and "2 * n \<le> card (free_frames PF_KERNEL m)" and "n \<le> card (free_frames pf m)"
  shows "\<exists>a m'. malloc_page pf n m = Inr (Some (a * PG_SIZE), m') \<and> mem_inv m' {} \<and>
    {a..<a + n} \<subseteq> unowned pf m \<and> owned pf m' = owned pf m \<union> {a..<a + n} \<and>
    (\<forall>v \<in> {a..<a + n}. \<exists>f \<in> free_frames pf m. addr_v2p (v * PG_SIZE) m' = Inr (f * PG_SIZE)) \<and>
    (\<forall>q. \<forall>w \<in> owned q m. addr_v2p (w * PG_SIZE) m' = addr_v2p (w * PG_SIZE) m)"
proof -
  obtain a m' where r: "malloc_page pf n m = Inr (Some (a * PG_SIZE), m')" "mem_inv m' {}" "{a..<a + n} \<subseteq> unowned pf m"
    "\<And>q. owned q m' = (if q = pf then owned pf m \<union> {a..<a + n} else owned q m)"
    "page_frame m' ` {a..<a + n} \<subseteq> free_frames pf m" "\<And>w. w \<in> all_owned m \<Longrightarrow> page_frame m' w = page_frame m w"
    using malloc_page_ok [OF assms(1-4)] assms(5,6) by fastforce
  have tr: "addr_v2p (v * PG_SIZE) m' = Inr (page_frame m' v * PG_SIZE)" if "v \<in> owned q m'" for v q
    using addr_v2p_ok [OF r(2) that] by simp
  have new: "\<exists>f \<in> free_frames pf m. addr_v2p (v * PG_SIZE) m' = Inr (f * PG_SIZE)" if "v \<in> {a..<a + n}" for v
  proof (intro bexI)
    show "addr_v2p (v * PG_SIZE) m' = Inr (page_frame m' v * PG_SIZE)" using tr [of v pf] r(4) [of pf] that by simp
    show "page_frame m' v \<in> free_frames pf m" using r(5) that by blast
  qed
  have old: "addr_v2p (w * PG_SIZE) m' = addr_v2p (w * PG_SIZE) m" if w: "w \<in> owned q m" for q w
  proof -
    have "w \<in> owned q m'" using w r(4) [of q] by (cases "q = pf") auto
    moreover have "w \<in> all_owned m" using w by (cases q) (auto simp: all_owned_def)
    ultimately show ?thesis using tr [of w q] r(6) [of w] addr_v2p_ok [OF assms(1) w] by simp
  qed
  have "owned pf m' = owned pf m \<union> {a..<a + n}" using r(4) [of pf] by simp
  then show ?thesis using r(1,2,3) new old by blast
qed

theorem malloc_page_fresh_witness:
  "\<exists>a m'. malloc_page PF_KERNEL 3 sample_mem = Inr (Some (a * PG_SIZE), m') \<and> mem_inv m' {} \<and>
    owned PF_KERNEL m' = {a..<a + 3}"
proof -
  have sub: "{0xc0100..<0xc0100 + 3} \<subseteq> unowned PF_KERNEL sample_mem" by (simp add: sample_sets)
  show ?thesis
    using malloc_page_fresh [OF sample_mem_inv _ sub] unfolding sample_sets by (simp add: sample_sets) blast
qed



end
