(* ===== verification/Keyboard.thy ===== *)
theory Keyboard
  imports IOQueue
begin

text \<open>
  \<^verbatim>\<open>kernel/device/keyboard.c\<close>: the keyboard driver, from the scan codes of the
  controller to the characters of \<^verbatim>\<open>kbd_buf\<close>.

  The controller is the list of the scan codes it holds: bit 0 of its status port is set
  exactly when there is one, and reading its data port takes the first.  The interrupt
  handler runs on the thread \<open>t\<close> it interrupts; the threads it makes ready are its last
  result.
\<close>

section \<open>The code\<close>

record keyboard =
  ctrl_status :: bool
  shift_status :: bool
  alt_status :: bool
  caps_lock_status :: bool
  ext_scancode :: bool
  kbd_buf :: ioqueue

definition shift_l_make :: u16 where "shift_l_make = 0x2a"
definition shift_r_make :: u16 where "shift_r_make = 0x36"
definition alt_l_make :: u16 where "alt_l_make = 0x38"
definition alt_r_make :: u16 where "alt_r_make = 0xe038"
definition ctrl_l_make :: u16 where "ctrl_l_make = 0x1d"
definition ctrl_r_make :: u16 where "ctrl_r_make = 0xe01d"
definition caps_lock_make :: u16 where "caps_lock_make = 0x3a"
definition up_arrow_make :: u16 where "up_arrow_make = 0xe048"
definition down_arrow_make :: u16 where "down_arrow_make = 0xe050"
definition left_arrow_make :: u16 where "left_arrow_make = 0xe04b"
definition right_arrow_make :: u16 where "right_arrow_make = 0xe04d"

lemmas make_codes = shift_l_make_def shift_r_make_def alt_l_make_def alt_r_make_def
  ctrl_l_make_def ctrl_r_make_def caps_lock_make_def

lemmas arrow_codes = up_arrow_make_def down_arrow_make_def left_arrow_make_def
  right_arrow_make_def

text \<open>The character of a key, without and with shift; 0 is a key with no character.\<close>

definition keymap :: "(u8 \<times> u8) list" where
  "keymap = [
   (0, 0), (27, 27), (49, 33), (50, 64), (51, 35), (52, 36),
   (53, 37), (54, 94), (55, 38), (56, 42), (57, 40), (48, 41),
   (45, 95), (61, 43), (8, 8), (9, 9), (113, 81), (119, 87),
   (101, 69), (114, 82), (116, 84), (121, 89), (117, 85), (105, 73),
   (111, 79), (112, 80), (91, 123), (93, 125), (10, 10), (0, 0),
   (97, 65), (115, 83), (100, 68), (102, 70), (103, 71), (104, 72),
   (106, 74), (107, 75), (108, 76), (59, 58), (39, 34), (96, 126),
   (0, 0), (92, 124), (122, 90), (120, 88), (99, 67), (118, 86),
   (98, 66), (110, 78), (109, 77), (44, 60), (46, 62), (47, 63),
   (0, 0), (42, 42), (0, 0), (32, 32), (0, 0)]"

definition is_kbd_buffer_empty :: "u8 \<Rightarrow> bool" where
  "is_kbd_buffer_empty status \<longleftrightarrow> \<not> (status AND 1 \<noteq> 0)"

definition kbd_status :: "u8 list \<Rightarrow> u8" where
  "kbd_status pending = (if pending = [] then 0 else 1)"

text \<open>A key of the main block that takes the shift but not the caps lock.\<close>

definition shift_only :: "u16 \<Rightarrow> bool" where
  "shift_only scancode \<longleftrightarrow>
     scancode < 0x0e \<or> scancode = 0x29 \<or> scancode = 0x1a \<or>
     scancode = 0x1b \<or> scancode = 0x2b \<or> scancode = 0x27 \<or>
     scancode = 0x28 \<or> scancode = 0x33 \<or> scancode = 0x34 \<or>
     scancode = 0x35"

text \<open>\<^verbatim>\<open>if(!ioq_full(&kbd_buf)) ioq_putchar(&kbd_buf,c);\<close>\<close>

definition kbd_put :: "keyboard \<Rightarrow> nat \<Rightarrow> u8 \<Rightarrow> (keyboard \<times> nat list) cres" where
  "kbd_put k t c =
     (if \<not> ioq_full (kbd_buf k)
      then andthen (ioq_putchar (kbd_buf k) t c) (\<lambda>(q, r).
             case r of
               Done _ w \<Rightarrow> Inr (k\<lparr>kbd_buf := q\<rparr>, case w of None \<Rightarrow> [] | Some t' \<Rightarrow> [t'])
             | _ \<Rightarrow> Inl Blocked)
      else Inr (k, []))"

definition break_key :: "keyboard \<Rightarrow> u16 \<Rightarrow> keyboard" where
  "break_key k scancode =
     (let make_code = scancode AND 0xff7f
      in if make_code = ctrl_l_make \<or> make_code = ctrl_r_make then k\<lparr>ctrl_status := False\<rparr>
         else if make_code = shift_l_make \<or> make_code = shift_r_make
         then k\<lparr>shift_status := False\<rparr>
         else if make_code = alt_l_make \<or> make_code = alt_r_make then k\<lparr>alt_status := False\<rparr>
         else k)"

definition shifted :: "keyboard \<Rightarrow> u16 \<Rightarrow> bool" where
  "shifted k scancode =
     (if shift_only scancode then shift_status k
      else if shift_status k \<and> caps_lock_status k then False
      else if shift_status k \<or> caps_lock_status k then True
      else False)"

definition set_modifier :: "keyboard \<Rightarrow> u16 \<Rightarrow> keyboard" where
  "set_modifier k scancode =
     (if scancode = ctrl_l_make \<or> scancode = ctrl_r_make then k\<lparr>ctrl_status := True\<rparr>
      else if scancode = shift_l_make \<or> scancode = shift_r_make then k\<lparr>shift_status := True\<rparr>
      else if scancode = alt_l_make \<or> scancode = alt_r_make then k\<lparr>alt_status := True\<rparr>
      else if scancode = caps_lock_make
      then k\<lparr>caps_lock_status := \<not> caps_lock_status k\<rparr>
      else k)"

definition arrow_char :: "u16 \<Rightarrow> u8" where
  "arrow_char scancode =
     (if scancode = up_arrow_make then 0x80
      else if scancode = down_arrow_make then 0x81
      else if scancode = left_arrow_make then 60
      else if scancode = right_arrow_make then 62
      else 63)"

definition make_key :: "keyboard \<Rightarrow> nat \<Rightarrow> u16 \<Rightarrow> (keyboard \<times> nat list) cres" where
  "make_key k t scancode =
     (if scancode > 0 \<and> scancode < 0x3b \<or> scancode = alt_r_make \<or> scancode = ctrl_r_make
      then let shift = shifted k scancode; scancode = scancode AND 0x00ff
           in andthen (rd keymap (unat scancode)) (\<lambda>row.
                let cur_char = (if shift then snd row else fst row)
                in if cur_char \<noteq> 0 then kbd_put k t cur_char
                   else Inr (set_modifier k scancode, []))
      else kbd_put k t (arrow_char scancode))"

text \<open>One scan code; the flag tells that the handler returns, which it does after the
  release of a key.\<close>

definition key_step :: "keyboard \<Rightarrow> nat \<Rightarrow> u8 \<Rightarrow> (keyboard \<times> nat list \<times> bool) cres" where
  "key_step k t byte =
     (let scancode = ucast byte :: u16
      in if scancode = 0xe0 then Inr (k\<lparr>ext_scancode := True\<rparr>, [], False)
         else let scancode = (if ext_scancode k then 0xe000 OR scancode else scancode);
                  k = (if ext_scancode k then k\<lparr>ext_scancode := False\<rparr> else k)
              in if scancode AND 0x0080 \<noteq> 0 then Inr (break_key k scancode, [], True)
                 else andthen (make_key k t scancode) (\<lambda>(k, w). Inr (k, w, False)))"

text \<open>The handler's loop; what is left in the controller is its second result.\<close>

fun intr_keyboard_handler ::
    "keyboard \<Rightarrow> nat \<Rightarrow> u8 list \<Rightarrow> (keyboard \<times> u8 list \<times> nat list) cres" where
  "intr_keyboard_handler k t pending =
     (if is_kbd_buffer_empty (kbd_status pending) then Inr (k, pending, [])
      else case pending of
        [] \<Rightarrow> Inl Wild
      | byte # rest \<Rightarrow>
          andthen (key_step k t byte) (\<lambda>(k, w, ret).
            if ret then Inr (k, rest, w)
            else andthen (intr_keyboard_handler k t rest) (\<lambda>(k, rest, w'). Inr (k, rest, w @ w'))))"

declare intr_keyboard_handler.simps [simp del]

definition sys_getchar :: "keyboard \<Rightarrow> nat \<Rightarrow> (keyboard \<times> u8 outcome) cres" where
  "sys_getchar k t = andthen (ioq_getchar (kbd_buf k) t) (\<lambda>(q, r). Inr (k\<lparr>kbd_buf := q\<rparr>, r))"


section \<open>What a key means\<close>

text \<open>The letters take the shift and the caps lock, the other keys the shift alone; a code
  the table does not have is an arrow or unknown.  0 is no character.\<close>

definition letter :: "u8 \<Rightarrow> bool" where
  "letter c \<longleftrightarrow> 97 \<le> c \<and> c \<le> 122"

definition main_block :: "u16 \<Rightarrow> bool" where
  "main_block code \<longleftrightarrow> code > 0 \<and> code < 0x3b"

definition key_char :: "bool \<Rightarrow> bool \<Rightarrow> u16 \<Rightarrow> u8" where
  "key_char sh caps code =
     (if main_block code
      then let (lo, up) = keymap ! unat code
           in if (if letter lo then sh \<noteq> caps else sh) then up else lo
      else if code = alt_r_make \<or> code = ctrl_r_make then 0
      else arrow_char code)"

lemma table_row:
  "\<forall>i \<in> set [1..<59]. (let (lo, up) = keymap ! i in
     (if shift_only (of_nat i) then \<not> letter lo else letter lo \<or> lo = up) \<and>
     (i \<in> {0x1d, 0x38} \<longrightarrow> lo = 0 \<and> up = 0))"
  by code_simp

lemma length_keymap: "length keymap = 59"
  by (simp add: keymap_def)

lemma main_block_of_nat:
  assumes "main_block code"
  obtains i where "i \<in> set [1..<59]" and "code = of_nat i"
proof
  show "unat code \<in> set [1..<59]"
    using assms by (auto simp: main_block_def word_less_nat_alt unat_gt_0 Suc_le_eq)
  show "code = of_nat (unat code)" by simp
qed

lemma main_block_mask: "main_block code \<Longrightarrow> code AND 0x00ff = code"
proof -
  assume m: "main_block code"
  then have "unat code < 2 ^ 8" by (simp add: main_block_def word_less_nat_alt)
  then have "unat (take_bit 8 code) = unat code"
    by (simp add: unsigned_take_bit_eq take_bit_nat_eq_self_iff)
  then have "take_bit 8 code = code" by (rule unsigned_word_eqI)
  then show ?thesis by (simp add: take_bit_eq_mask mask_eq_exp_minus_1)
qed

lemma key_char_main:
  assumes "main_block code"
  shows "(if shifted k code then snd (keymap ! unat code) else fst (keymap ! unat code)) =
    key_char (shift_status k) (caps_lock_status k) code"
proof -
  obtain i where i: "i \<in> set [1..<59]" "code = of_nat i" using main_block_of_nat [OF assms] .
  then have u: "unat code = i" by (simp add: unat_of_nat)
  obtain lo up where row: "keymap ! i = (lo, up)" by (cases "keymap ! i")
  have t: "if shift_only code then \<not> letter lo else letter lo \<or> lo = up"
    using bspec [OF table_row i(1)] row i(2) by simp
  show ?thesis
    using assms t unfolding key_char_def shifted_def u row
    by (cases "shift_only code"; cases "shift_status k"; cases "caps_lock_status k") auto
qed


lemma make_key_char:
  "make_key k t code =
    (let c = key_char (shift_status k) (caps_lock_status k) code
     in if c \<noteq> 0 then kbd_put k t c else Inr (set_modifier k code, []))"
proof (cases "main_block code")
  case True
  then have in_range: "unat code < length keymap"
    by (simp add: main_block_def word_less_nat_alt length_keymap)
  have if_row: "rd keymap (unat code) = Inr (keymap ! unat code)" using in_range by simp
  show ?thesis
    using True key_char_main [OF True, of k] main_block_mask [OF True] if_row
    by (simp add: make_key_def main_block_def [symmetric] Let_def)
next
  case False
  show ?thesis
  proof (cases "code = alt_r_make \<or> code = ctrl_r_make")
    case True
    then have "code AND 0xff = 0x38 \<or> code AND 0xff = 0x1d"
      by (auto simp: make_codes)
    then show ?thesis using True False
      by (auto simp: make_key_def main_block_def [symmetric] Let_def key_char_def make_codes
        set_modifier_def length_keymap rd_def keymap_def)
  next
    case nf: False
    have "arrow_char code \<noteq> 0" by (auto simp: arrow_char_def)
    then show ?thesis using False nf
      by (simp add: make_key_def main_block_def [symmetric] Let_def key_char_def)
  qed
qed


text \<open>The characters a run of the handler types: up to the first release of a key.\<close>

fun typed_chars :: "bool \<Rightarrow> bool \<Rightarrow> bool \<Rightarrow> u8 list \<Rightarrow> u8 list" where
  "typed_chars sh caps ext [] = []"
| "typed_chars sh caps ext (b # bs) =
     (if b = 0xe0 then typed_chars sh caps True bs
      else if bit b 7 then []
      else let code = (if ext then 0xe000 OR ucast b else ucast b :: u16);
               c = key_char sh caps code
           in if c \<noteq> 0 then c # typed_chars sh caps False bs
              else typed_chars (sh \<or> code = shift_l_make \<or> code = shift_r_make)
                     (if code = caps_lock_make then \<not> caps else caps) False bs)"

lemma kbd_put_ok:
  assumes "ioq_wf (kbd_buf k)"
  obtains q w where "kbd_put k t c = Inr (k\<lparr>kbd_buf := q\<rparr>, w)" "ioq_wf q"
    "contents q = take 63 (contents (kbd_buf k) @ [c])"
proof (cases "length (contents (kbd_buf k)) < 63")
  case True
  obtain q r where q: "ioq_putchar (kbd_buf k) t c = Inr (q, Done () r)" "ioq_wf q"
    "contents q = contents (kbd_buf k) @ [c]"
    using put_step [OF assms True] by blast
  have nf: "\<not> ioq_full (kbd_buf k)" using ioq_full_iff [OF assms] True by simp
  show ?thesis
  proof (rule that)
    show "kbd_put k t c = Inr (k\<lparr>kbd_buf := q\<rparr>, case r of None \<Rightarrow> [] | Some t' \<Rightarrow> [t'])"
      using q(1) nf by (simp add: kbd_put_def)
    show "contents q = take 63 (contents (kbd_buf k) @ [c])"
      using q(3) True by (simp del: length_contents)
  qed (rule q(2))
next
  case False
  then have l: "length (contents (kbd_buf k)) = 63" using capacity [OF assms] by simp
  have f: "ioq_full (kbd_buf k)" using ioq_full_iff [OF assms] l by simp
  show ?thesis
  proof (rule that)
    show "kbd_put k t c = Inr (k\<lparr>kbd_buf := kbd_buf k\<rparr>, [])"
      using f by (simp add: kbd_put_def)
    show "contents (kbd_buf k) = take 63 (contents (kbd_buf k) @ [c])"
      using l by (simp del: length_contents)
  qed (rule assms)
qed


lemma ucast_prefix: "(ucast (b :: u8) :: u16) = 0xe0 \<longleftrightarrow> b = 0xe0"
proof
  assume "(ucast b :: u16) = 0xe0"
  then have "(ucast (ucast b :: u16) :: u8) = ucast (0xe0 :: u16)" by simp
  moreover have "(ucast (ucast b :: u16) :: u8) = b"
    by (rule bit_word_eqI) (simp add: bit_ucast_iff)
  ultimately show "b = 0xe0" by simp
qed simp

lemma break_bit:
  "(ucast (b :: u8) :: u16) AND 0x80 \<noteq> 0 \<longleftrightarrow> bit b 7"
  "((0xe000 :: u16) OR ucast b) AND 0x80 \<noteq> 0 \<longleftrightarrow> bit b 7"
proof -
  have m: "(x :: u16) AND 0x80 \<noteq> 0 \<longleftrightarrow> bit x 7" for x
    using mask_test [of x 7] by simp
  show "(ucast b :: u16) AND 0x80 \<noteq> 0 \<longleftrightarrow> bit b 7"
    unfolding m by (simp add: bit_ucast_iff)
  have "\<not> bit (0xe000 :: u16) 7" by simp
  then show "((0xe000 :: u16) OR ucast b) AND 0x80 \<noteq> 0 \<longleftrightarrow> bit b 7"
    unfolding m by (simp add: bit_or_iff bit_ucast_iff)
qed

lemma set_modifier_simps:
  "kbd_buf (set_modifier k code) = kbd_buf k"
  "ext_scancode (set_modifier k code) = ext_scancode k"
  "shift_status (set_modifier k code) =
     (shift_status k \<or> code = shift_l_make \<or> code = shift_r_make)"
  "caps_lock_status (set_modifier k code) =
     (if code = caps_lock_make then \<not> caps_lock_status k else caps_lock_status k)"
  by (auto simp: set_modifier_def make_codes)

lemma handler_nil [simp]: "intr_keyboard_handler k t [] = Inr (k, [], [])"
  by (simp add: intr_keyboard_handler.simps is_kbd_buffer_empty_def kbd_status_def)

lemma handler_cons:
  "intr_keyboard_handler k t (byte # rest) =
     andthen (key_step k t byte) (\<lambda>(k, w, ret).
       if ret then Inr (k, rest, w)
       else andthen (intr_keyboard_handler k t rest) (\<lambda>(k, rest, w'). Inr (k, rest, w @ w')))"
  by (subst intr_keyboard_handler.simps) (simp add: is_kbd_buffer_empty_def kbd_status_def)

text \<open>What is left to type after one scan code is typed.\<close>

definition remaining :: "keyboard \<Rightarrow> u8 list \<Rightarrow> u8 list" where
  "remaining k bs = typed_chars (shift_status k) (caps_lock_status k) (ext_scancode k) bs"

lemma key_step_ok:
  assumes w: "ioq_wf (kbd_buf k)"
  shows "\<exists>k' ws ret c. key_step k t b = Inr (k', ws, ret) \<and> ioq_wf (kbd_buf k') \<and>
    contents (kbd_buf k') = take 63 (contents (kbd_buf k) @ c) \<and>
    remaining k (b # bs) = c @ (if ret then [] else remaining k' bs)"
proof -
  define code :: u16 where "code = (if ext_scancode k then 0xe000 OR ucast b else ucast b)"
  define k1 where "k1 = (if ext_scancode k then k\<lparr>ext_scancode := False\<rparr> else k)"
  have k1: "kbd_buf k1 = kbd_buf k" "shift_status k1 = shift_status k"
    "caps_lock_status k1 = caps_lock_status k" "ext_scancode k1 = False"
    by (auto simp: k1_def)
  have full: "take 63 (contents (kbd_buf k)) = contents (kbd_buf k)"
    using capacity [OF w] by (simp del: length_contents)
  have brk: "code AND 0x80 \<noteq> 0 \<longleftrightarrow> bit b 7"
    using break_bit [of b] by (simp add: code_def)
  consider (prefix) "b = 0xe0" | (break) "b \<noteq> 0xe0" "bit b 7" | (make) "b \<noteq> 0xe0" "\<not> bit b 7"
    by blast
  then show ?thesis
  proof cases
    case prefix
    then show ?thesis using w full
      by (intro exI [of _ "k\<lparr>ext_scancode := True\<rparr>"] exI [of _ "[]"] exI [of _ False])
         (simp add: key_step_def remaining_def)
  next
    case break
    have "kbd_buf (break_key k1 code) = kbd_buf k"
      by (simp add: break_key_def Let_def k1)
    moreover have "key_step k t b = Inr (break_key k1 code, [], True)"
      using break brk ucast_prefix [of b]
      unfolding key_step_def Let_def code_def k1_def by (simp del: not_not)
    ultimately show ?thesis using w full break
      by (intro exI [of _ "break_key k1 code"] exI [of _ "[]"] exI [of _ True])
         (simp add: remaining_def)
  next
    case make
    define c where "c = key_char (shift_status k1) (caps_lock_status k1) code"
    have step: "key_step k t b = andthen (make_key k1 t code) (\<lambda>(k, w). Inr (k, w, False))"
      using make brk ucast_prefix [of b]
      unfolding key_step_def Let_def code_def k1_def by (simp del: not_not)
    have rem: "remaining k (b # bs) = (if c \<noteq> 0 then c # typed_chars (shift_status k1) (caps_lock_status k1) False bs
        else typed_chars (shift_status (set_modifier k1 code)) (caps_lock_status (set_modifier k1 code)) False bs)"
      using make unfolding remaining_def set_modifier_simps k1
      by (simp add: c_def k1 code_def Let_def)
    show ?thesis
    proof (cases "c = 0")
      case True
      then have "make_key k1 t code = Inr (set_modifier k1 code, [])"
        by (simp add: make_key_char c_def)
      then show ?thesis using True w full step rem
        by (intro exI [of _ "set_modifier k1 code"] exI [of _ "[]"] exI [of _ False])
           (simp add: remaining_def set_modifier_simps k1)
    next
      case False
      obtain q ws where q: "kbd_put k1 t c = Inr (k1\<lparr>kbd_buf := q\<rparr>, ws)" "ioq_wf q"
        "contents q = take 63 (contents (kbd_buf k1) @ [c])"
        using kbd_put_ok [of k1 t c] w unfolding k1 by blast
      have "make_key k1 t code = Inr (k1\<lparr>kbd_buf := q\<rparr>, ws)"
        using False q(1) by (simp add: make_key_char c_def)
      then show ?thesis using False q step rem
        by (intro exI [of _ "k1\<lparr>kbd_buf := q\<rparr>"] exI [of _ ws] exI [of _ False] exI [of _ "[c]"])
           (simp add: remaining_def k1)
    qed
  qed
qed


lemma take_take_append: "take n (take n xs @ ys) = take n (xs @ ys)"
  by (cases "length xs \<le> n") simp_all

lemma handler_ok:
  "ioq_wf (kbd_buf k) \<Longrightarrow>
   \<exists>k' rest ws. intr_keyboard_handler k t pending = Inr (k', rest, ws) \<and> ioq_wf (kbd_buf k') \<and>
     contents (kbd_buf k') = take 63 (contents (kbd_buf k) @ remaining k pending)"
proof (induction pending arbitrary: k)
  case Nil
  then show ?case using capacity [OF Nil] by (simp add: remaining_def del: length_contents)
next
  case (Cons b bs)
  obtain k1 ws ret c where st: "key_step k t b = Inr (k1, ws, ret)" "ioq_wf (kbd_buf k1)"
    "contents (kbd_buf k1) = take 63 (contents (kbd_buf k) @ c)"
    "remaining k (b # bs) = c @ (if ret then [] else remaining k1 bs)"
    using key_step_ok [OF Cons.prems] by blast
  show ?case
  proof (cases ret)
    case True
    then show ?thesis using st by (simp add: handler_cons)
  next
    case False
    obtain k2 rest ws2 where h: "intr_keyboard_handler k1 t bs = Inr (k2, rest, ws2)"
      "ioq_wf (kbd_buf k2)"
      "contents (kbd_buf k2) = take 63 (contents (kbd_buf k1) @ remaining k1 bs)"
      using Cons.IH [OF st(2)] by blast
    have "contents (kbd_buf k2) = take 63 (contents (kbd_buf k) @ remaining k (b # bs))"
      using h(3) False unfolding st(3,4) take_take_append by (simp only: if_False append_assoc)
    with h False st(1) show ?thesis by (simp add: handler_cons)
  qed
qed

section \<open>Properties\<close>

text \<open>for every 16-bit make code, what the handler does with a pressed key is what the key
  means: the letters are upper case exactly when one of shift and caps lock is on, every
  other key of the main block takes its shifted character exactly when shift is on, a code
  with a character is put in the keyboard buffer, and a key with none only changes the
  modifiers.\<close>

theorem make_key_meaning:
  "make_key k t code =
    (let c = key_char (shift_status k) (caps_lock_status k) code
     in if c \<noteq> 0 then kbd_put k t c else Inr (set_modifier k code, []))"
  by (rule make_key_char)

text \<open>C13: on a well-formed keyboard buffer the handler returns for every sequence of scan codes
  the controller can hold, and the buffer then holds what it held followed by the characters
  typed, in order, cut off at the 63 the ring takes: later characters are dropped, earlier
  ones never are.\<close>

theorem keyboard_refines:
  assumes "ioq_wf (kbd_buf k)"
  shows "\<exists>k' rest ws. intr_keyboard_handler k t pending = Inr (k', rest, ws) \<and>
    ioq_wf (kbd_buf k') \<and>
    contents (kbd_buf k') =
      take 63 (contents (kbd_buf k) @
        typed_chars (shift_status k) (caps_lock_status k) (ext_scancode k) pending)"
  using handler_ok [OF assms, of t pending] by (simp only: remaining_def)

definition sample_kbd :: keyboard where
  "sample_kbd = \<lparr>ctrl_status = False, shift_status = False, alt_status = False,
     caps_lock_status = False, ext_scancode = False,
     kbd_buf = \<lparr>lock_consumer = None, lock_producer = None, producer = None, consumer = None,
       buf = replicate 64 0, head = 0, tail = 0\<rparr>\<rparr>"

lemma sample_kbd_wf: "ioq_wf (kbd_buf sample_kbd)"
  by (simp add: sample_kbd_def ioq_wf_def bufsize_def)

lemma sample_kbd_contents: "contents (kbd_buf sample_kbd) = []"
  by (simp add: sample_kbd_def contents_def ioq_length_def)

lemma sample_typed: "typed_chars False False False [0x2a, 0x1e, 0xe0, 0x48] = [65, 0x80]"
  by (simp add: key_char_def main_block_def keymap_def letter_def arrow_char_def make_codes
    arrow_codes)

theorem keyboard_refines_witness:
  "\<exists>k' rest ws. intr_keyboard_handler sample_kbd 1 [0x2a, 0x1e, 0xe0, 0x48] = Inr (k', rest, ws) \<and>
    contents (kbd_buf k') = [65, 0x80]"
proof -
  have e: "shift_status sample_kbd = False" "caps_lock_status sample_kbd = False"
    "ext_scancode sample_kbd = False"
    by (simp_all add: sample_kbd_def)
  show ?thesis
    using keyboard_refines [OF sample_kbd_wf, of 1 "[0x2a, 0x1e, 0xe0, 0x48]"]
    unfolding e sample_kbd_contents sample_typed by auto
qed

end
