(* ===== verification/History.thy ===== *)
theory History
  imports CString
begin

text \<open>
  \<^verbatim>\<open>kernel/shell/history.c\<close>: the last command lines of the shell and the cursor the arrow
  keys move over them.

  The intrusive list is the list of its \<^verbatim>\<open>cmd_line\<close> buffers from \<^verbatim>\<open>head.next\<close> (the newest) to
  \<^verbatim>\<open>tail.prev\<close>; \<^verbatim>\<open>now_history_elem\<close> is the position of the element it points to, or \<open>None\<close>
  for \<^verbatim>\<open>NULL\<close>.  The block \<^verbatim>\<open>malloc\<close> gives for a new element is an argument: the bytes of its
  \<^verbatim>\<open>cmd_line\<close>, or \<open>None\<close>.
\<close>

section \<open>The code\<close>

definition MAX_HIS_CMD_CNT :: int where
  "MAX_HIS_CMD_CNT = 10"

definition cmd_len :: nat where
  "cmd_len = 128"

record history =
  history_list :: "u8 list list"
  cnt :: int
  now_history_elem :: "nat option"

definition history_init :: history where
  "history_init = \<lparr>history_list = [], cnt = 0, now_history_elem = None\<rparr>"

definition history_elem_init :: "u8 list \<Rightarrow> u8 list \<Rightarrow> u8 list cres" where
  "history_elem_init phe cmd_line = strcpy phe cmd_line"

definition history_push :: "history \<Rightarrow> u8 list \<Rightarrow> u8 list option \<Rightarrow> history cres" where
  "history_push h cmd_line block =
     andthen
       (if cnt h \<ge> MAX_HIS_CMD_CNT
        then if history_list h = [] then Inl Wild
             else Inr (h\<lparr>history_list := butlast (history_list h), cnt := cnt h - 1\<rparr>)
        else Inr h) (\<lambda>h.
     case block of None \<Rightarrow> Inl Wild
     | Some b \<Rightarrow>
         andthen (history_elem_init b cmd_line) (\<lambda>e.
         Inr (h\<lparr>history_list := e # history_list h, now_history_elem := None,
                cnt := cnt h + 1\<rparr>)))"

text \<open>The string the shell gets, or \<open>None\<close> for \<^verbatim>\<open>NULL\<close>.\<close>

definition history_get_next :: "history \<Rightarrow> (history \<times> u8 list option) cres" where
  "history_get_next h =
     (case now_history_elem h of
        None \<Rightarrow> Inr (h, None)
      | Some i \<Rightarrow>
          if i = 0 then Inr (h\<lparr>now_history_elem := None\<rparr>, Some [0, 0])
          else andthen (rd (history_list h) (i - 1)) (\<lambda>e.
               Inr (h\<lparr>now_history_elem := Some (i - 1)\<rparr>, Some e)))"

definition history_get_prev :: "history \<Rightarrow> (history \<times> u8 list option) cres" where
  "history_get_prev h =
     (case now_history_elem h of
        None \<Rightarrow>
          if cnt h = 0 then Inr (h, None)
          else andthen (rd (history_list h) 0) (\<lambda>e.
               Inr (h\<lparr>now_history_elem := Some 0\<rparr>, Some e))
      | Some i \<Rightarrow>
          if Suc i = length (history_list h) then Inr (h, None)
          else andthen (rd (history_list h) (Suc i)) (\<lambda>e.
               Inr (h\<lparr>now_history_elem := Some (Suc i)\<rparr>, Some e)))"

section \<open>The invariant\<close>

definition history_ok :: "history \<Rightarrow> bool" where
  "history_ok h \<longleftrightarrow>
     cnt h = int (length (history_list h)) \<and> cnt h \<le> MAX_HIS_CMD_CNT \<and>
     (\<forall>i. now_history_elem h = Some i \<longrightarrow> i < length (history_list h)) \<and>
     (\<forall>e \<in> set (history_list h). length e = cmd_len \<and> terminated e)"

lemma history_init_ok: "history_ok history_init"
  by (simp add: history_ok_def history_init_def MAX_HIS_CMD_CNT_def)

definition commands :: "history \<Rightarrow> u8 list list" where
  "commands h = map cstr (history_list h)"

lemma strcpy_line:
  assumes "length b = cmd_len" and "terminated c" and "length (cstr c) < cmd_len"
  obtains e where "strcpy b c = Inr e" "length e = cmd_len" "terminated e" "cstr e = cstr c"
proof
  show "strcpy b c = Inr (cstr c @ 0 # drop (Suc (length (cstr c))) b)"
    using assms by (simp add: strcpy_ok)
qed (use assms in simp_all)

lemma history_push_ok:
  assumes "history_ok h" and "length b = cmd_len" and "terminated c" and "length (cstr c) < cmd_len"
  obtains h' where "history_push h c (Some b) = Inr h'" "history_ok h'"
    "commands h' = take 10 (cstr c # commands h)" "now_history_elem h' = None"
proof -
  obtain e where e: "strcpy b c = Inr e" "length e = cmd_len" "terminated e" "cstr e = cstr c"
    using strcpy_line [OF assms(2-4)] .
  show ?thesis
  proof (cases "cnt h \<ge> MAX_HIS_CMD_CNT")
    case True
    then have len: "length (history_list h) = 10"
      using assms(1) by (simp add: history_ok_def MAX_HIS_CMD_CNT_def)
    then have ne: "history_list h \<noteq> []" by auto
    let ?h = "h\<lparr>history_list := e # butlast (history_list h), now_history_elem := None,
       cnt := cnt h\<rparr>"
    show ?thesis
    proof (rule that)
      show "history_push h c (Some b) = Inr ?h"
        using True ne e(1) by (simp add: history_push_def history_elem_init_def)
      show "history_ok ?h" using assms(1) e len
        by (auto simp: history_ok_def dest: in_set_butlastD)
      show "commands ?h = take 10 (cstr c # commands h)"
        using len e(4) by (simp add: commands_def butlast_conv_take take_map)
    qed simp
  next
    case False
    let ?h = "h\<lparr>history_list := e # history_list h, now_history_elem := None,
       cnt := cnt h + 1\<rparr>"
    show ?thesis
    proof (rule that)
      show "history_push h c (Some b) = Inr ?h"
        using False e(1) by (simp add: history_push_def history_elem_init_def)
      show "history_ok ?h" using assms(1) e False
        by (auto simp: history_ok_def)
      show "commands ?h = take 10 (cstr c # commands h)"
        using assms(1) False e(4)
        by (simp add: commands_def history_ok_def MAX_HIS_CMD_CNT_def)
    qed simp
  qed
qed

lemma history_get_prev_ok:
  assumes "history_ok h"
  shows "\<exists>h' r. history_get_prev h = Inr (h', r) \<and> history_ok h' \<and> history_list h' = history_list h"
  using assms
  by (auto simp: history_get_prev_def history_ok_def rd_def split: option.splits)

lemma history_get_next_ok:
  assumes "history_ok h"
  shows "\<exists>h' r. history_get_next h = Inr (h', r) \<and> history_ok h' \<and> history_list h' = history_list h"
  using assms
  by (auto simp: history_get_next_def history_ok_def rd_def split: option.splits)

text \<open>A run of up keys, and the lines pushed one after the other.\<close>

fun ups :: "nat \<Rightarrow> history \<Rightarrow> (history \<times> u8 list option) cres" where
  "ups 0 h = Inr (h, None)"
| "ups (Suc n) h = andthen (ups n h) (\<lambda>(h, _). history_get_prev h)"

fun push_all :: "history \<Rightarrow> u8 list list \<Rightarrow> history cres" where
  "push_all h [] = Inr h"
| "push_all h (c # cs) =
     andthen (history_push h c (Some (replicate cmd_len 0))) (\<lambda>h. push_all h cs)"

lemma push_all_ok:
  "history_ok h \<Longrightarrow> now_history_elem h = None \<Longrightarrow> 
   (\<And>c. c \<in> set cs \<Longrightarrow> terminated c \<and> length (cstr c) < cmd_len) \<Longrightarrow>
   \<exists>h'. push_all h cs = Inr h' \<and> history_ok h' \<and> now_history_elem h' = None \<and>
     commands h' = take 10 (rev (map cstr cs) @ commands h)"
proof (induction cs arbitrary: h)
  case Nil
  then have "length (commands h) \<le> 10"
    by (simp add: commands_def history_ok_def MAX_HIS_CMD_CNT_def)
  with Nil show ?case by simp
next
  case (Cons c cs)
  obtain h1 where h1: "history_push h c (Some (replicate cmd_len 0)) = Inr h1" "history_ok h1"
    "commands h1 = take 10 (cstr c # commands h)" "now_history_elem h1 = None"
    using history_push_ok [OF Cons.prems(1), of "replicate cmd_len 0" c] Cons.prems(3) [of c] by auto
  obtain h2 where h2: "push_all h1 cs = Inr h2" "history_ok h2" "now_history_elem h2 = None"
    "commands h2 = take 10 (rev (map cstr cs) @ commands h1)"
    using Cons.IH [OF h1(2,4)] Cons.prems(3) by auto
  have "take 10 (rev (map cstr cs) @ commands h1) = take 10 (rev (map cstr (c # cs)) @ commands h)"
    unfolding h1(3) by (cases "10 \<le> length cs") (auto simp: take_Cons' min_absorb1)
  with h1 h2 show ?case by simp
qed

lemma ups_ok:
  "history_ok h \<Longrightarrow> now_history_elem h = None \<Longrightarrow> k < length (history_list h) \<Longrightarrow>
   ups (Suc k) h = Inr (h\<lparr>now_history_elem := Some k\<rparr>, Some (history_list h ! k))"
proof (induction k)
  case 0
  then show ?case by (simp add: history_get_prev_def history_ok_def)
next
  case (Suc k)
  then have "ups (Suc k) h = Inr (h\<lparr>now_history_elem := Some k\<rparr>, Some (history_list h ! k))"
    by simp
  then show ?case using Suc.prems by (subst ups.simps) (simp add: history_get_prev_def)
qed

section \<open>Properties\<close>

text \<open>C36: whatever command lines are entered one after the other, pressing the up key \<open>k + 1\<close>
  times gives back the line entered \<open>k\<close> before the last one, as long as it is one of the
  last ten.\<close>

theorem history_recall:
  assumes "\<And>c. c \<in> set cs \<Longrightarrow> terminated c \<and> length (cstr c) < cmd_len"
    and "k < 10" and "k < length cs"
  shows "\<exists>h h' e. push_all history_init cs = Inr h \<and> history_ok h \<and>
    ups (Suc k) h = Inr (h', Some e) \<and> cstr e = cstr (rev cs ! k)"
proof -
  obtain h where h: "push_all history_init cs = Inr h" "history_ok h" "now_history_elem h = None"
    "commands h = take 10 (rev (map cstr cs))"
    using push_all_ok [OF history_init_ok _ assms(1)]
    by (auto simp: history_init_def commands_def)
  then have k: "k < length (history_list h)"
    using assms(2,3) by (metis commands_def length_map length_rev length_take min_less_iff_conj)
  have "cstr (history_list h ! k) = commands h ! k" using k by (simp add: commands_def)
  also have "\<dots> = cstr (rev cs ! k)" using assms(2,3) unfolding h(4) by (simp add: rev_map)
  finally show ?thesis using ups_ok [OF h(2,3) k] h(1,2) by blast
qed

theorem history_recall_witness:
  "\<exists>h h' e. push_all history_init [[108, 115, 0], [112, 115, 0]] = Inr h \<and> history_ok h \<and>
    ups (Suc 1) h = Inr (h', Some e) \<and> cstr e = [108, 115]"
proof -
  have "terminated c \<and> length (cstr c) < cmd_len"
    if "c \<in> set [[108, 115, 0], [112, 115, 0 :: u8]]" for c
    using that by (auto simp: cmd_len_def)
  from history_recall [of "[[108, 115, 0], [112, 115, 0]]" 1, OF this] show ?thesis
    by (simp del: push_all.simps ups.simps)
qed

end
