(* ===== verification/Stdio.thy ===== *)
theory Stdio
  imports CString
begin

text \<open>
  \<^verbatim>\<open>kernel/standard/stdio.c\<close>: the formatter every message of the kernel goes through, and
  the buffers \<^verbatim>\<open>printf\<close>, \<^verbatim>\<open>puts\<close> and \<^verbatim>\<open>printk\<close> format into.

  A \<^verbatim>\<open>va_list\<close> is the list of the arguments still to read; an argument is a machine word or
  a pointer to bytes.  Reading an argument that is not there, a word as a pointer, or a
  pointer as a word (its address is not modelled) is \<open>Wild\<close>, as is any access outside a
  buffer.  The system call \<^verbatim>\<open>write(stdout_no, \<dots>)\<close> the output functions end with is kept
  as the bytes it is given.
\<close>

section \<open>The code\<close>

datatype arg = Num u32 | Ptr "u8 list"

text \<open>\<open>base\<close> 0 divides by zero; with base 1 the recursion on a nonzero value never ends and
  runs off the stack.\<close>

function itoa :: "nat \<Rightarrow> nat \<Rightarrow> u8 list cres" where
  "itoa v base =
     (if base = 0 then Inl DivZero
      else let m = v mod base; i = v div base;
               digit = (if m < 10 then of_nat m + 48 else of_nat m - 10 + 65)
           in if i = 0 then Inr [digit]
              else if base = 1 then Inl Wild
              else andthen (itoa i base) (\<lambda>s. Inr (s @ [digit])))"
  by pat_completeness auto
termination
proof (relation "measure fst")
  fix v base m i :: nat and digit :: u8
  assume "base \<noteq> 0" "i = v div base" "i \<noteq> 0" "base \<noteq> 1"
  then have "v \<noteq> 0" and "1 < base" by (auto intro: gr0I)
  then show "((i, base), v, base) \<in> measure fst"
    using \<open>i = v div base\<close> by simp
qed simp

declare itoa.simps [simp del]

fun pad_digits :: "u32 \<Rightarrow> u8 list \<Rightarrow> (u32 \<times> u8 list) cres" where
  "pad_digits padding [] = Inl Wild"
| "pad_digits padding (c # f) =
     (if 48 \<le> c \<and> c \<le> 57 then pad_digits (padding * 10 + ucast (c - 48)) f
      else Inr (padding, c # f))"

definition parse_padding :: "u8 list \<Rightarrow> (u32 \<times> u8 list) cres" where
  "parse_padding f =
     (case f of [] \<Rightarrow> Inl Wild | c # f' \<Rightarrow> if c = 48 then pad_digits 0 f' else Inr (0, f))"

lemma pad_digits_length: "pad_digits p f = Inr (q, f') \<Longrightarrow> length f' \<le> length f"
  by (induction p f rule: pad_digits.induct) (auto split: if_splits)

lemma parse_padding_length: "parse_padding f = Inr (q, f') \<Longrightarrow> length f' \<le> length f"
  by (auto simp: parse_padding_def split: list.splits if_splits dest!: pad_digits_length)

text \<open>\<^verbatim>\<open>%x\<close> with and without a width, \<^verbatim>\<open>%d\<close>, \<^verbatim>\<open>%c\<close> and \<^verbatim>\<open>%s\<close>.\<close>

definition fmt_x :: "u32 \<Rightarrow> u32 \<Rightarrow> u8 list cres" where
  "fmt_x padding v =
     andthen (itoa (unat v) 16) (\<lambda>s.
       if sint padding > 0
       then Inr (replicate (nat (sint padding) - length s) 48 @ s)
       else Inr s)"

definition fmt_d :: "u32 \<Rightarrow> u8 list cres" where
  "fmt_d v = itoa (unat v) 10"

definition fmt_s :: "u8 list \<Rightarrow> u8 list cres" where
  "fmt_s s = andthen (strlen s) (\<lambda>n. Inr (take n s))"

text \<open>The loop, from the character \<^verbatim>\<open>index_ptr\<close> points to: the bytes it appends.  After a
  \<^verbatim>\<open>%\<close> whose conversion the \<^verbatim>\<open>switch\<close> does not have, the loop goes on at that character.\<close>

function fmt_loop :: "u8 list \<Rightarrow> arg list \<Rightarrow> u8 list cres" where
  "fmt_loop [] ap = Inl Wild"
| "fmt_loop (c # f) ap =
     (if c = 0 then Inr []
      else if c \<noteq> 37 then andthen (fmt_loop f ap) (\<lambda>r. Inr (c # r))
      else andthen (parse_padding f) (\<lambda>(padding, g).
        case g of [] \<Rightarrow> Inl Wild
        | k # g' \<Rightarrow>
            if k = 120 then
              (case ap of Num v # ap' \<Rightarrow>
                 andthen (fmt_x padding v) (\<lambda>s. andthen (fmt_loop g' ap') (\<lambda>r. Inr (s @ r)))
               | _ \<Rightarrow> Inl Wild)
            else if k = 115 then
              (case ap of Ptr p # ap' \<Rightarrow>
                 andthen (fmt_s p) (\<lambda>s. andthen (fmt_loop g' ap') (\<lambda>r. Inr (s @ r)))
               | _ \<Rightarrow> Inl Wild)
            else if k = 99 then
              (case ap of Num v # ap' \<Rightarrow>
                 andthen (fmt_loop g' ap') (\<lambda>r. Inr (ucast v # r))
               | _ \<Rightarrow> Inl Wild)
            else if k = 100 then
              (case ap of Num v # ap' \<Rightarrow>
                 andthen (fmt_d v) (\<lambda>s. andthen (fmt_loop g' ap') (\<lambda>r. Inr (s @ r)))
               | _ \<Rightarrow> Inl Wild)
            else fmt_loop (k # g') ap))"
  by pat_completeness auto
termination
  by (relation "measure (\<lambda>(f, ap). length f)") (auto dest!: parse_padding_length)

declare fmt_loop.simps [simp del]

text \<open>\<open>str\<close> is the destination to the end of its object: the text and its terminator have to
  fit.  The result is the object afterwards and the \<^verbatim>\<open>strlen\<close> of it.\<close>

definition vsprintf :: "u8 list \<Rightarrow> u8 list \<Rightarrow> arg list \<Rightarrow> (u8 list \<times> nat) cres" where
  "vsprintf str fmt ap =
     andthen (fmt_loop fmt ap) (\<lambda>out.
       if length out < length str
       then let str = out @ 0 # drop (Suc (length out)) str
            in andthen (strlen str) (\<lambda>n. Inr (str, n))
       else Inl Wild)"

text \<open>What reaches \<^verbatim>\<open>write(stdout_no, buf, n)\<close>.\<close>

definition printf :: "u8 list \<Rightarrow> arg list \<Rightarrow> u8 list cres" where
  "printf fmt args =
     andthen (vsprintf (replicate 256 0) fmt args) (\<lambda>(b, _).
     andthen (strlen b) (\<lambda>n. Inr (take n b)))"

definition sprintf :: "u8 list \<Rightarrow> u8 list \<Rightarrow> arg list \<Rightarrow> (u8 list \<times> nat) cres" where
  "sprintf b fmt args = andthen (vsprintf b fmt args) (\<lambda>(b, _). Inr (b, 0))"

definition putchar :: "u32 \<Rightarrow> u8 list" where
  "putchar c = take 1 [ucast c, 0]"

definition puts :: "u8 list \<Rightarrow> u8 list cres" where
  "puts s =
     andthen (strcpy (replicate 256 0) s) (\<lambda>b.
     andthen (strlen b) (\<lambda>n. Inr (take n b)))"

text \<open>\<^verbatim>\<open>printk\<close> formats into 128 bytes of uninitialised stack (\<open>junk\<close>) and hands the buffer to
  the log when the log is on: the string \<^verbatim>\<open>log_put_string\<close> gets, if any.\<close>

definition printk :: "bool \<Rightarrow> u8 list \<Rightarrow> u8 list \<Rightarrow> arg list \<Rightarrow> u8 list option cres" where
  "printk log_status junk fmt args =
     andthen (vsprintf (take 128 junk) fmt args) (\<lambda>(b, _).
       Inr (if log_status then Some b else None))"

section \<open>Digits\<close>

definition digit_val :: "u8 \<Rightarrow> nat" where
  "digit_val c = (if c < 65 then unat c - 48 else unat c - 55)"

definition digits_val :: "nat \<Rightarrow> u8 list \<Rightarrow> nat" where
  "digits_val base s = foldl (\<lambda>n c. n * base + digit_val c) 0 s"

lemma unat_of_nat_u8: "n < 256 \<Longrightarrow> unat (of_nat n :: u8) = n"
  by (simp add: unat_of_nat)

lemma digit_val_digit:
  assumes "m < 16"
  shows "digit_val (if m < 10 then of_nat m + 48 else of_nat m - 10 + 65) = m"
proof -
  have "m \<in> {0, 1, 2, 3, 4, 5, 6, 7, 8, 9, 10, 11, 12, 13, 14, 15}"
    using assms by (simp only: insert_iff empty_iff) arith
  then show ?thesis by (auto simp: digit_val_def word_less_nat_alt)
qed

lemma itoa_dec_digit:
  assumes "m < 10"
  shows "(of_nat m + 48 :: u8) \<in> {48..57}"
proof -
  have "m \<in> {0, 1, 2, 3, 4, 5, 6, 7, 8, 9}" using assms by auto
  then show ?thesis by auto
qed

lemma itoa_total:
  assumes "2 \<le> base" and "base \<le> 16"
  shows "\<exists>s. itoa v base = Inr s \<and> s \<noteq> [] \<and> digits_val base s = v"
  using assms
proof (induction v base rule: itoa.induct)
  case (1 v base)
  have m: "v mod base < 16" using "1.prems" by (meson le_less_trans less_le_trans mod_less_divisor not_less zero_less_numeral)
  show ?case
  proof (cases "v div base = 0")
    case True
    then have "v mod base = v" using "1.prems" by (simp add: div_eq_0_iff)
    then show ?thesis using True "1.prems" m
      by (subst itoa.simps) (auto simp: Let_def digits_val_def digit_val_digit simp del: One_nat_def)
  next
    case False
    obtain s where s: "itoa (v div base) base = Inr s" "digits_val base s = v div base"
      using "1.IH" "1.prems" False by fastforce
    show ?thesis using s False "1.prems" m
      by (subst itoa.simps)
         (auto simp: Let_def digits_val_def digit_val_digit simp del: One_nat_def)
  qed
qed


section \<open>What a format means\<close>

datatype directive = Lit u8 | Hex u32 | Dec | Chr | Str

text \<open>The directives of a format, or \<open>None\<close> when it has no terminator.\<close>

function directives :: "u8 list \<Rightarrow> directive list option" where
  "directives [] = None"
| "directives (c # f) =
     (if c = 0 then Some []
      else if c \<noteq> 37 then map_option (\<lambda>ds. Lit c # ds) (directives f)
      else case parse_padding f of
        Inr (padding, k # g) \<Rightarrow>
          if k = 120 then map_option (\<lambda>ds. Hex padding # ds) (directives g)
          else if k = 115 then map_option (\<lambda>ds. Str # ds) (directives g)
          else if k = 99 then map_option (\<lambda>ds. Chr # ds) (directives g)
          else if k = 100 then map_option (\<lambda>ds. Dec # ds) (directives g)
          else directives (k # g)
      | _ \<Rightarrow> None)"
  by pat_completeness auto
termination
  by (relation "measure length") (auto dest!: parse_padding_length)

declare directives.simps [simp del]

text \<open>The typing of arguments by directives, and the text of a well typed call.\<close>

inductive typed :: "directive list \<Rightarrow> arg list \<Rightarrow> bool" where
  nil: "typed [] args"
| lit: "typed ds args \<Longrightarrow> c \<noteq> 0 \<Longrightarrow> typed (Lit c # ds) args"
| hex: "typed ds args \<Longrightarrow> typed (Hex p # ds) (Num v # args)"
| dec: "typed ds args \<Longrightarrow> typed (Dec # ds) (Num v # args)"
| chr: "typed ds args \<Longrightarrow> (ucast v :: u8) \<noteq> 0 \<Longrightarrow> typed (Chr # ds) (Num v # args)"
| str: "typed ds args \<Longrightarrow> terminated s \<Longrightarrow> typed (Str # ds) (Ptr s # args)"

definition numeral_text :: "nat \<Rightarrow> nat \<Rightarrow> u8 list" where
  "numeral_text base v = (case itoa v base of Inr s \<Rightarrow> s | Inl _ \<Rightarrow> [])"

definition zero_pad :: "int \<Rightarrow> u8 list \<Rightarrow> u8 list" where
  "zero_pad w s = replicate (nat w - length s) 48 @ s"

fun render :: "directive list \<Rightarrow> arg list \<Rightarrow> u8 list" where
  "render (Lit c # ds) args = c # render ds args"
| "render (Hex p # ds) (Num v # args) =
     zero_pad (sint p) (numeral_text 16 (unat v)) @ render ds args"
| "render (Dec # ds) (Num v # args) = numeral_text 10 (unat v) @ render ds args"
| "render (Chr # ds) (Num v # args) = ucast v # render ds args"
| "render (Str # ds) (Ptr s # args) = cstr s @ render ds args"
| "render _ _ = []"

lemma numeral_text_itoa: "2 \<le> base \<Longrightarrow> base \<le> 16 \<Longrightarrow> itoa v base = Inr (numeral_text base v)"
  by (drule (1) itoa_total [of base v]) (auto simp only: numeral_text_def sum.case)

lemma fmt_x_render: "fmt_x p v = Inr (zero_pad (sint p) (numeral_text 16 (unat v)))"
proof -
  define t where "t = numeral_text 16 (unat v)"
  have "itoa (unat v) 16 = Inr t"
    unfolding t_def by (rule numeral_text_itoa) simp_all
  then show ?thesis
    unfolding fmt_x_def t_def [symmetric] zero_pad_def by simp
qed

lemma fmt_d_render: "fmt_d v = Inr (numeral_text 10 (unat v))"
  unfolding fmt_d_def by (rule numeral_text_itoa) simp_all

lemma take_cstr: "take (length (cstr s)) s = cstr s"
  unfolding cstr_def by (rule takeWhile_eq_take [symmetric])

lemma fmt_s_render: "terminated s \<Longrightarrow> fmt_s s = Inr (cstr s)"
  by (simp add: fmt_s_def strlen_ok take_cstr)

lemmas fmt_render = fmt_x_render fmt_d_render fmt_s_render

inductive_cases typed_cases:
  "typed (Lit c # ds) args" "typed (Hex p # ds) args" "typed (Dec # ds) args"
  "typed (Chr # ds) args" "typed (Str # ds) args"

lemma fmt_loop_render:
  "directives fmt = Some ds \<Longrightarrow> typed ds args \<Longrightarrow> fmt_loop fmt args = Inr (render ds args)"
proof (induction fmt arbitrary: ds args rule: directives.induct)
  case 1
  then show ?case by (simp add: directives.simps)
next
  case (2 c f)
  show ?case
  proof (cases "c = 0 \<or> c \<noteq> 37")
    case True
    then show ?thesis using 2
      by (auto simp: directives.simps fmt_loop.simps split: if_splits elim!: typed_cases)
  next
    case False
    then obtain p k g where pp: "parse_padding f = Inr (p, k # g)"
      using "2.prems" by (auto simp: directives.simps split: sum.splits list.splits)
    note IH = "2.IH"(2-) [OF _ _ pp refl refl] 
    show ?thesis using "2.prems" False pp IH
      by (auto simp: directives.simps fmt_loop.simps fmt_render split: if_splits elim!: typed_cases)
  qed
qed


lemma digit_nonzero:
  assumes "m < 16"
  shows "(if m < 10 then of_nat m + 48 else of_nat m - 10 + 65 :: u8) \<noteq> 0"
proof -
  have "m \<in> {0, 1, 2, 3, 4, 5, 6, 7, 8, 9, 10, 11, 12, 13, 14, 15}"
    using assms by (simp only: insert_iff empty_iff) arith
  then show ?thesis by auto
qed

lemma itoa_nonzero: "itoa v base = Inr s \<Longrightarrow> 2 \<le> base \<Longrightarrow> base \<le> 16 \<Longrightarrow> 0 \<notin> set s"
proof (induction v base arbitrary: s rule: itoa.induct)
  case (1 v base)
  have m: "v mod base < 16"
    using "1.prems" by (meson le_less_trans less_le_trans mod_less_divisor not_less zero_less_numeral)
  have IH: "0 \<notin> set t" if "v div base \<noteq> 0" "itoa (v div base) base = Inr t" for t
    using "1.IH" [OF _ refl refl refl] that "1.prems" by auto
  show ?case using "1.prems" digit_nonzero [OF m] IH
    by (subst (asm) itoa.simps) (auto simp: Let_def andthen_eq_Inr_iff simp del: One_nat_def split: if_splits)
qed

lemma numeral_text_nonzero: "2 \<le> base \<Longrightarrow> base \<le> 16 \<Longrightarrow> 0 \<notin> set (numeral_text base v)"
  by (rule itoa_nonzero [OF numeral_text_itoa])

lemma render_no_zero: "typed ds args \<Longrightarrow> 0 \<notin> set (render ds args)"
  by (induction rule: typed.induct) (auto simp: zero_pad_def numeral_text_nonzero)

lemma sample_directives:
  "directives [112, 61, 37, 48, 52, 120, 0] = Some [Lit 112, Lit 61, Hex 4]"
  by (simp add: directives.simps parse_padding_def word_le_nat_alt)

lemma typed_Hex: "typed [Lit 112, Lit 61, Hex 4] [Num 171]"
  by (intro typed.intros) simp_all

lemma sample_text: "numeral_text 16 171 = [65, 66]"
  by (simp add: numeral_text_def itoa.simps [of 171] itoa.simps [of 10])

lemma sample_pad: "zero_pad 4 [65, 66] = [48, 48, 65, 66]"
  by (simp add: zero_pad_def numeral_2_eq_2)

lemma sample_render:
  "render [Lit 112, Lit 61, Hex 4] [Num 171] = [112, 61, 48, 48, 65, 66]"
  by (simp add: sample_text sample_pad)

lemma printf_typed:
  assumes "directives fmt = Some ds" and "typed ds args" and "length (render ds args) < 256"
  shows "printf fmt args = Inr (render ds args)"
  using fmt_loop_render [OF assms(1,2)] render_no_zero [OF assms(2)] assms(3)
  by (simp add: printf_def vsprintf_def strlen_ok)

text \<open>\<^verbatim>\<open>%d\<close> prints a negative number as the unsigned word it is.\<close>

lemma fmt_d_negative: "fmt_d (- 1) = Inr [52, 50, 57, 52, 57, 54, 55, 50, 57, 53]"
proof -
  have "unat (- 1 :: u32) = 4294967295" by (simp add: unsigned_minus_1_eq_mask mask_eq_exp_minus_1)
  then show ?thesis
    by (simp add: fmt_d_def itoa.simps [of 4294967295] itoa.simps [of 429496729]
      itoa.simps [of 42949672] itoa.simps [of 4294967] itoa.simps [of 429496]
      itoa.simps [of 42949] itoa.simps [of 4294] itoa.simps [of 429] itoa.simps [of 42]
      itoa.simps [of 4])
qed

section \<open>Properties\<close>



end
