(* ===== verification/ShellText.thy ===== *)
theory ShellText
  imports History Stdio FsBase
begin

text \<open>
  The text the shell of \<^verbatim>\<open>kernel/shell/shell.c\<close> works on: reading a command line with its
  editing keys, numbers, the words of a line, the path a command's argument means, and the
  commands a line starts.

  A command line is the \<^verbatim>\<open>cmd_len\<close> bytes of its buffer.  Reading behind a buffer is \<open>Wild\<close>,
  also where the C program would find the static variable that follows.
\<close>

section \<open>Numbers and characters\<close>

function skip_blanks :: "u8 list \<Rightarrow> nat \<Rightarrow> nat cres" where
  "skip_blanks str i = andthen (rd str i) (\<lambda>c. if c = 32 then skip_blanks str (i + 1) else Inr i)"
  by pat_completeness auto
termination
  by (relation "measure (\<lambda>(str, i). length str - i)") (auto simp: rd_eq_Inr)

declare skip_blanks.simps [simp del]

definition isChar :: "u8 \<Rightarrow> bool" where
  "isChar c \<longleftrightarrow> 65 \<le> c \<and> c \<le> 90 \<or> 97 \<le> c \<and> c \<le> 122"

definition isDigit :: "u8 \<Rightarrow> bool" where
  "isDigit c \<longleftrightarrow> 48 \<le> c \<and> c \<le> 57"

text \<open>\<^verbatim>\<open>result\<close> is an \<^verbatim>\<open>int\<close>; its sums and products wrap.\<close>

fun atoi_digits :: "u8 list \<Rightarrow> int \<Rightarrow> int cres" where
  "atoi_digits [] result = Inl Wild"
| "atoi_digits (c # cs) result =
     (if isDigit c then atoi_digits cs (int32 (result * 10 + (uint c - 48))) else Inr result)"

definition atoi_10 :: "u8 list \<Rightarrow> int cres" where
  "atoi_10 str =
     andthen (skip_blanks str 0) (\<lambda>i.
     andthen (rd str i) (\<lambda>c.
     let sign = (if c = 45 then -1 else 1);
         i = (if c = 45 \<or> c = 43 then i + 1 else i)
     in andthen (atoi_digits (drop i str) 0) (\<lambda>result. Inr (int32 (result * sign)))))"

section \<open>Words and paths\<close>

definition MAX_PATH_LENGTH :: nat where "MAX_PATH_LENGTH = 128"
definition MAX_CMD_LENGTH :: nat where "MAX_CMD_LENGTH = cmd_len"

text \<open>\<^verbatim>\<open>while(cmd_line[i]==' ' && i<MAX_CMD_LENGTH) i++;\<close>\<close>

function skip_spaces :: "u8 list \<Rightarrow> nat \<Rightarrow> nat cres" where
  "skip_spaces cmd_line i =
     andthen (rd cmd_line i) (\<lambda>c.
       if c = 32 \<and> i < MAX_CMD_LENGTH then skip_spaces cmd_line (i + 1) else Inr i)"
  by pat_completeness auto
termination
  by (relation "measure (\<lambda>(l, i). length l - i)") (auto simp: rd_eq_Inr)

declare skip_spaces.simps [simp del]

text \<open>\<^verbatim>\<open>while(cmd_line[i]!='\0' && idx<MAX_PATH_LENGTH-1) buf[idx++]=cmd_line[i++];\<close>, and
  the same stopping at a space as well.\<close>

function copy_rest :: "u8 list \<Rightarrow> nat \<Rightarrow> u8 list \<Rightarrow> nat \<Rightarrow> (u8 list \<times> nat) cres" where
  "copy_rest cmd_line i b idx =
     andthen (rd cmd_line i) (\<lambda>c.
       if c \<noteq> 0 \<and> idx < MAX_PATH_LENGTH - 1
       then andthen (wr b idx c) (\<lambda>b. copy_rest cmd_line (i + 1) b (idx + 1))
       else Inr (b, idx))"
  by pat_completeness auto
termination
  by (relation "measure (\<lambda>(l, i, b, idx). length l - i)") (auto simp: rd_eq_Inr)

declare copy_rest.simps [simp del]

function copy_word :: "u8 list \<Rightarrow> nat \<Rightarrow> u8 list \<Rightarrow> nat \<Rightarrow> (u8 list \<times> nat \<times> nat) cres" where
  "copy_word cmd_line i b idx =
     andthen (rd cmd_line i) (\<lambda>c.
       if c \<noteq> 32 \<and> c \<noteq> 0 \<and> idx < MAX_PATH_LENGTH - 1
       then andthen (wr b idx c) (\<lambda>b. copy_word cmd_line (i + 1) b (idx + 1))
       else Inr (b, i, idx))"
  by pat_completeness auto
termination
  by (relation "measure (\<lambda>(l, i, b, idx). length l - i)") (auto simp: rd_eq_Inr)

declare copy_word.simps [simp del]

text \<open>One word into a zeroed path buffer, and where it ends in the line.\<close>

definition word_at :: "u8 list \<Rightarrow> nat \<Rightarrow> (u8 list \<times> nat) cres" where
  "word_at cmd_line i =
     andthen (copy_word cmd_line i (replicate MAX_PATH_LENGTH 0) 0) (\<lambda>(b, i, idx).
     andthen (wr b idx 0) (\<lambda>b. Inr (b, i)))"

text \<open>\<^verbatim>\<open>key[idx++]=cmd_line[i++]\<close> of the encryption commands: no bound on \<open>idx\<close> but the 16
  bytes of the key.\<close>

function copy_key :: "u8 list \<Rightarrow> nat \<Rightarrow> u8 list \<Rightarrow> nat \<Rightarrow> (u8 list \<times> nat) cres" where
  "copy_key cmd_line i key idx =
     andthen (rd cmd_line i) (\<lambda>c.
       if c \<noteq> 32 \<and> c \<noteq> 0
       then andthen (wr key idx c) (\<lambda>key. copy_key cmd_line (i + 1) key (idx + 1))
       else Inr (key, idx))"
  by pat_completeness auto
termination
  by (relation "measure (\<lambda>(l, i, b, idx). length l - i)") (auto simp: rd_eq_Inr)

declare copy_key.simps [simp del]

definition key_at :: "u8 list \<Rightarrow> nat \<Rightarrow> u8 list cres" where
  "key_at cmd_line i =
     andthen (copy_key cmd_line i (replicate 16 0) 0) (\<lambda>(key, idx). wr key idx 0)"

text \<open>The current directory with its final slash, in a path buffer.\<close>

definition cwd_prefix :: "u8 list \<Rightarrow> (u8 list \<times> nat) cres" where
  "cwd_prefix cwd_cache =
     andthen (strcpy (replicate MAX_PATH_LENGTH 0) cwd_cache) (\<lambda>b.
     andthen (strlen b) (\<lambda>idx.
       if idx = 0 then Inl Wild
       else if b ! (idx - 1) \<noteq> 47
       then andthen (wr b idx 47) (\<lambda>b. Inr (b, idx + 1))
       else Inr (b, idx)))"

text \<open>The path of the argument that starts at or behind index \<open>i\<close>.\<close>

definition full_path :: "u8 list \<Rightarrow> u8 list \<Rightarrow> nat \<Rightarrow> u8 list cres" where
  "full_path cwd_cache cmd_line i =
     andthen (skip_spaces cmd_line i) (\<lambda>i.
     andthen (cwd_prefix cwd_cache) (\<lambda>(b, idx).
     andthen (copy_rest cmd_line i b idx) (\<lambda>(b, idx).
     wr b idx 0)))"

section \<open>\<^verbatim>\<open>cd\<close>\<close>

text \<open>\<^verbatim>\<open>while(idx>0 && buf[idx]!='/') idx--;\<close>\<close>

fun back_to_slash :: "u8 list \<Rightarrow> nat \<Rightarrow> nat" where
  "back_to_slash b 0 = 0"
| "back_to_slash b (Suc idx) = (if b ! Suc idx \<noteq> 47 then back_to_slash b idx else Suc idx)"

text \<open>\<^verbatim>\<open>..\<close>: up one directory.\<close>

definition dotdot :: "u8 list \<Rightarrow> nat \<Rightarrow> (u8 list \<times> nat) cres" where
  "dotdot b idx =
     (let idx = (if idx > 1
                 then let j = back_to_slash b (idx - 2) in if j > 0 then j + 1 else j
                 else idx)
      in if idx = 0 then andthen (wr b idx 47) (\<lambda>b. Inr (b, idx + 1)) else Inr (b, idx))"

function cd_loop :: "u8 list \<Rightarrow> nat \<Rightarrow> u8 list \<Rightarrow> nat \<Rightarrow> (u8 list \<times> nat \<times> bool) cres" where
  "cd_loop cmd_line i b idx =
     andthen (rd cmd_line i) (\<lambda>c.
       if c \<noteq> 0 \<and> idx < MAX_PATH_LENGTH - 1
       then
         if c = 47
         then
           if idx > 1 \<and> b ! (idx - 1) \<noteq> 47
           then andthen (wr b idx 47) (\<lambda>b. cd_loop cmd_line (i + 1) b (idx + 1))
           else cd_loop cmd_line (i + 1) b idx
         else if c = 46
         then
           andthen (rd cmd_line (i + 1)) (\<lambda>d.
             if d = 46
             then andthen (dotdot b idx) (\<lambda>(b, idx). cd_loop cmd_line (i + 2) b idx)
             else if cmd_line ! (i - 1) \<noteq> 47
             then andthen (wr b idx c) (\<lambda>b. cd_loop cmd_line (i + 1) b (idx + 1))
             else cd_loop cmd_line (i + 1) b idx)
         else if isChar c \<or> isDigit c
         then andthen (wr b idx c) (\<lambda>b. cd_loop cmd_line (i + 1) b (idx + 1))
         else Inr (b, idx, False)
       else Inr (b, idx, True))"
  by pat_completeness auto
termination
  by (relation "measure (\<lambda>(l, i, b, idx). length l - i)") (auto simp: rd_eq_Inr)

declare cd_loop.simps [simp del]

text \<open>The path \<^verbatim>\<open>cd\<close> asks for and whether its characters are valid; \<open>None\<close> without one.\<close>

definition cd_path :: "u8 list \<Rightarrow> u8 list \<Rightarrow> (u8 list \<times> bool) option cres" where
  "cd_path cwd_cache cmd_line =
     andthen (skip_spaces cmd_line 2) (\<lambda>i.
     andthen (rd cmd_line i) (\<lambda>c.
       if c = 0 then Inr None
       else
         andthen
           (if c = 47 then Inr ((replicate MAX_PATH_LENGTH 0)[0 := 47], 1, i + 1)
            else andthen (cwd_prefix cwd_cache) (\<lambda>(b, idx). Inr (b, idx, i))) (\<lambda>(b, idx, i).
         andthen (cd_loop cmd_line i b idx) (\<lambda>(b, idx, enable).
         andthen (wr b idx 0) (\<lambda>b. Inr (Some (b, enable)))))))"


section \<open>Reading a line\<close>

text \<open>\<open>keys\<close> are the characters the keyboard gives to \<^verbatim>\<open>read(stdin_no,pos,1)\<close>, one per call;
  without one the shell blocks.  The result is the line buffer, the keys left and the history.\<close>

fun readline ::
    "u8 list \<Rightarrow> nat \<Rightarrow> nat \<Rightarrow> history \<Rightarrow> u8 list \<Rightarrow> (u8 list \<times> u8 list \<times> history) cres" where
  "readline b pos count h [] = Inl Blocked"
| "readline b pos count h (c # keys) =
     andthen (wr b pos c) (\<lambda>b.
       if \<not> pos < count then Inr (b, keys, h)
       else if c = 10 \<or> c = 13 then Inr (b[pos := 0], keys, h)
       else if c = 8
       then readline b (if b ! 0 \<noteq> 8 then pos - 1 else pos) count h keys
       else if c = 0x80 \<or> c = 0x81
       then
         andthen (if c = 0x80 then history_get_prev h else history_get_next h) (\<lambda>(h, p).
           case p of
             None \<Rightarrow> readline b pos count h keys
           | Some e \<Rightarrow>
               andthen (strcpy b e) (\<lambda>b.
               andthen (strlen e) (\<lambda>n. readline b n count h keys)))
       else readline b (pos + 1) count h keys)"

section \<open>The commands of a line\<close>

datatype command =
    Lsi | Ls | Ps | Cd | Mkdir | Kill | Cat | Dbg | Rm | Rmdir | Exec | Touch | Edit | Clear
  | Cp | Enc | Dec | Sha | Attr

text \<open>\<^verbatim>\<open>cmd_line[0]=='l' && cmd_line[1]=='s' && \<dots>\<close>\<close>

definition starts :: "string \<Rightarrow> u8 list \<Rightarrow> bool" where
  "starts s l \<longleftrightarrow> take (length s) l = map of_char s"

text \<open>The tests of the loop of \<^verbatim>\<open>my_shell\<close>, in order; none of them excludes a later one.\<close>

definition dispatch :: "u8 list \<Rightarrow> command list" where
  "dispatch l =
     (if starts ''lsi'' l then [Lsi] else []) @
     (if starts ''ls'' l then [Ls] else []) @
     (if starts ''ps'' l then [Ps] else []) @
     (if starts ''cd'' l then [Cd] else []) @
     (if starts ''mkdir'' l then [Mkdir] else []) @
     (if starts ''kill'' l then [Kill] else []) @
     (if starts ''cat'' l then [Cat] else []) @
     (if starts ''dbg'' l then [Dbg] else []) @
     (if starts ''rm'' l \<and> l ! 2 \<noteq> 100 then [Rm] else []) @
     (if starts ''rmdir'' l then [Rmdir] else []) @
     (if starts ''rm'' l then [Rm] else []) @
     (if starts ''exec'' l then [Exec] else []) @
     (if starts ''touch'' l then [Touch] else []) @
     (if starts ''edit'' l then [Edit] else []) @
     (if starts ''clear'' l then [Clear] else []) @
     (if starts ''cp'' l then [Cp] else []) @
     (if starts ''enc'' l then [Enc] else []) @
     (if starts ''dec'' l then [Dec] else []) @
     (if starts ''sha'' l then [Sha] else []) @
     (if starts ''attr'' l then [Attr] else [])"

end
