(* ===== verification/Shell.thy ===== *)
theory Shell
  imports ShellText Fs SHA256 SM4
begin

text \<open>
  The commands of \<^verbatim>\<open>kernel/shell/shell.c\<close> that work on files, over the system calls of Fs,
  the formatter of Stdio and the ciphers.

  A command runs as the thread \<open>t\<close>, whose descriptors are those of the file system state.  Its
  result is the text it prints and the state.  Memory taken with \<^verbatim>\<open>malloc\<close> is used without a
  test, so a full heap is \<open>Wild\<close>; a fresh block is zero, and one that is freed goes back.
\<close>

section \<open>Output\<close>

definition text_of :: "string \<Rightarrow> u8 list" where
  "text_of s = map of_char s"

text \<open>\<^verbatim>\<open>printf(s \"\n\", args)\<close>\<close>

definition say :: "string \<Rightarrow> arg list \<Rightarrow> u8 list cres" where
  "say s args = printf (text_of s @ [10, 0]) args"

definition saying :: "string \<Rightarrow> arg list \<Rightarrow> 's \<Rightarrow> (u8 list \<times> 's) cres" where
  "saying s args x = andthen (say s args) (\<lambda>out. Inr (out, x))"

definition INODE_ENCRYPTED :: u32 where "INODE_ENCRYPTED = 0x2"
definition INODE_HASHED :: u32 where "INODE_HASHED = 0x4"

definition print_prompt :: "u8 list \<Rightarrow> u8 list cres" where
  "print_prompt cwd_cache = printf (text_of ''[user&localhost %s]$ '' @ [0]) [Ptr cwd_cache]"

section \<open>Directories and files\<close>

definition process_rmdir_command :: "u8 list \<Rightarrow> u8 list \<Rightarrow> fs \<Rightarrow> (u8 list \<times> fs) cres" where
  "process_rmdir_command cwd_cache cmd_line s =
     andthen (full_path cwd_cache cmd_line 5) (\<lambda>b.
     andthen (sys_get_file_attribute b s) (\<lambda>(ft, s).
       if ft \<noteq> FT_DIRECTORY then saying ''Not a directory: %s'' [Ptr b] s
       else
         andthen (user_delete b s) (\<lambda>(r, s).
           if r \<noteq> -1 then saying ''Dir removed: %s'' [Ptr b] s
           else saying ''Failed to remove dir: %s'' [Ptr b] s)))"

text \<open>\<^verbatim>\<open>printf(\"%c\", c)\<close> prints nothing for the zero byte.  The loop may not end, which is
  \<open>None\<close>.\<close>

partial_function (option) cat_loop ::
    "nat \<Rightarrow> int \<Rightarrow> u8 list \<Rightarrow> fs \<Rightarrow> (u8 list \<times> fs) cres option" where
  "cat_loop t fd out s =
     (case user_file_read t fd 200 s of
        Inl e \<Rightarrow> Some (Inl e)
      | Inr (read_cnt, bs, s) \<Rightarrow>
          if read_cnt \<ge> 0
          then cat_loop t fd (out @ filter (\<lambda>c. c \<noteq> 0) (take (nat read_cnt) bs)) s
          else Some (Inr (out, s)))"

definition process_cat_command ::
    "nat \<Rightarrow> u8 list \<Rightarrow> u8 list \<Rightarrow> fs \<Rightarrow> (u8 list \<times> fs) cres option" where
  "process_cat_command t cwd_cache cmd_line s =
     (case andthen (full_path cwd_cache cmd_line 3) (\<lambda>b.
           andthen (sys_get_file_attribute b s) (\<lambda>(ft, s). Inr (b, ft, s))) of
        Inl e \<Rightarrow> Some (Inl e)
      | Inr (b, ft, s) \<Rightarrow>
          if ft \<noteq> FT_REGULAR then Some (saying ''Not a file: %s'' [Ptr b] s)
          else
            (case andthen (user_file_open b O_RDONLY s) (\<lambda>(fd, s).
                  andthen (user_file_seekp fd 0 SEEK_SET s) (\<lambda>(_, s). Inr (fd, s))) of
               Inl e \<Rightarrow> Some (Inl e)
             | Inr (fd, s) \<Rightarrow>
                 (case cat_loop t fd [] s of
                    None \<Rightarrow> None
                  | Some r \<Rightarrow> Some (andthen r (\<lambda>(out, s).
                      andthen (user_file_close fd s) (\<lambda>(_, s). Inr (out, s)))))))"

definition process_mkdir_command :: "u8 list \<Rightarrow> u8 list \<Rightarrow> fs \<Rightarrow> (u8 list \<times> fs) cres" where
  "process_mkdir_command cwd_cache cmd_line s =
     andthen (full_path cwd_cache cmd_line 5) (\<lambda>b.
     andthen (user_mkdir b s) (\<lambda>(r, s).
       if r > 0 then saying ''Directory created: %s'' [Ptr b] s
       else saying ''Failed to create directory: %s'' [Ptr b] s))"

text \<open>The new current directory is part of the result.\<close>

definition process_cd_command ::
    "u8 list \<Rightarrow> u8 list \<Rightarrow> fs \<Rightarrow> (u8 list \<times> u8 list \<times> fs) cres" where
  "process_cd_command cwd_cache cmd_line s =
     andthen (cd_path cwd_cache cmd_line) (\<lambda>p.
       case p of
         None \<Rightarrow> saying ''No directory specified.'' [] (cwd_cache, s)
       | Some (b, enable) \<Rightarrow>
           andthen (sys_get_file_attribute b s) (\<lambda>(ft, s).
           andthen (if ft \<noteq> FT_DIRECTORY then say ''Invalid path: %s'' [Ptr b] else Inr []) (\<lambda>out.
             if enable \<and> ft = FT_DIRECTORY
             then andthen (strcpy cwd_cache b) (\<lambda>cwd_cache.
                  saying ''Changed directory to: %s'' [Ptr cwd_cache] (cwd_cache, s))
             else Inr (out, cwd_cache, s))))"

definition process_rm_command :: "u8 list \<Rightarrow> u8 list \<Rightarrow> fs \<Rightarrow> (u8 list \<times> fs) cres" where
  "process_rm_command cwd_cache cmd_line s =
     andthen (full_path cwd_cache cmd_line 2) (\<lambda>b.
     andthen (sys_get_file_attribute b s) (\<lambda>(ft, s).
       if ft \<noteq> FT_REGULAR then saying ''Invalid file: %s'' [Ptr b] s
       else
         andthen (user_delete b s) (\<lambda>(r, s).
           if r \<noteq> -1 then saying ''File removed: %s'' [Ptr b] s
           else saying ''Failed to remove file: %s'' [Ptr b] s)))"

definition usage_touch :: string where "usage_touch = ''Usage: touch <filename>'' @ [CHR 0x0A]"

definition process_touch_command :: "u8 list \<Rightarrow> u8 list \<Rightarrow> fs \<Rightarrow> (u8 list \<times> fs) cres" where
  "process_touch_command cwd_cache cmd_line s =
     andthen (skip_spaces cmd_line 5) (\<lambda>i.
     andthen (rd cmd_line i) (\<lambda>c.
       if c = 0 then saying usage_touch [] s
       else
         andthen (full_path cwd_cache cmd_line i) (\<lambda>b.
         andthen (sys_get_file_attribute b s) (\<lambda>(ft, s).
           if ft = FT_REGULAR \<or> ft = FT_DIRECTORY \<or> ft = FT_UNKNOWN
           then saying ''File already exists: %s'' [Ptr b] s
           else
             andthen (user_file_open b O_CREAT s) (\<lambda>(fd, s).
             andthen (user_file_close fd s) (\<lambda>(_, s). Inr ([], s)))))))"

text \<open>\<^verbatim>\<open>edit\<close>: the path the editor is started on, if any.\<close>

definition usage_edit :: string where "usage_edit = ''Usage: edit <filename>'' @ [CHR 0x0A]"

definition process_edit_command ::
    "u8 list \<Rightarrow> u8 list \<Rightarrow> fs \<Rightarrow> (u8 list \<times> u8 list option \<times> fs) cres" where
  "process_edit_command cwd_cache cmd_line s =
     andthen (skip_spaces cmd_line 4) (\<lambda>i.
     andthen (rd cmd_line i) (\<lambda>c.
       if c = 0 then saying usage_edit [] (None, s)
       else
         andthen (copy_rest cmd_line i (replicate MAX_PATH_LENGTH 0) 0) (\<lambda>(filename, idx).
         andthen (wr filename idx 0) (\<lambda>filename.
         andthen (cwd_prefix cwd_cache) (\<lambda>(filepath, _).
         andthen (strcat filepath filename) (\<lambda>filepath.
         andthen (sys_get_file_attribute filepath s) (\<lambda>(ft, s).
           if ft \<noteq> FT_REGULAR then saying ''Invalid file: %s'' [Ptr filepath] (None, s)
           else Inr ([], Some filepath, s))))))))"

section \<open>Copying\<close>

text \<open>Two words of the line, from index \<open>i\<close> on.\<close>

definition two_words :: "u8 list \<Rightarrow> nat \<Rightarrow> (u8 list \<times> u8 list) cres" where
  "two_words cmd_line i =
     andthen (word_at cmd_line i) (\<lambda>(src_path, i).
     andthen (skip_spaces cmd_line i) (\<lambda>i.
     andthen (word_at cmd_line i) (\<lambda>(dst_path, i). Inr (src_path, dst_path))))"

definition usage_cp :: string where
  "usage_cp = ''Usage: cp <source_file_path> <destination_file_path>'' @ [CHR 0x0A]"

text \<open>The files are open: copy and close both.  \<^verbatim>\<open>filesize\<close> is an \<^verbatim>\<open>int32_t\<close>; as an argument of
  \<^verbatim>\<open>read\<close> and \<^verbatim>\<open>write\<close> it is converted to \<^verbatim>\<open>uint32_t\<close>.\<close>

definition close_both :: "int \<Rightarrow> int \<Rightarrow> fs \<Rightarrow> fs cres" where
  "close_both fd_dst fd_src s =
     andthen (user_file_close fd_dst s) (\<lambda>(_, s).
     andthen (user_file_close fd_src s) (\<lambda>(_, s). Inr s))"

definition copy_files ::
    "nat \<Rightarrow> u8 list \<Rightarrow> u8 list \<Rightarrow> int \<Rightarrow> int \<Rightarrow> int \<Rightarrow> fs \<Rightarrow> (u8 list \<times> fs) cres" where
  "copy_files t src_path dst_path fd_dst fd_src size_src s =
     andthen (need_heap s) (\<lambda>_.
     andthen (user_file_seekp fd_src 0 SEEK_SET s) (\<lambda>(_, s).
     andthen (user_file_read t fd_src (uint32 size_src) s) (\<lambda>(n, b, s).
       if n \<noteq> size_src
       then andthen (close_both fd_dst fd_src s) (\<lambda>s.
            saying ''Failed to read file: %s'' [Ptr src_path] s)
       else
         andthen (user_file_seekp fd_dst 0 SEEK_SET s) (\<lambda>(_, s).
         andthen (user_file_write t fd_dst b (uint32 size_src) s) (\<lambda>(n, s).
         andthen (close_both fd_dst fd_src s) (\<lambda>s.
           if n \<noteq> size_src then saying ''Failed to write file: %s'' [Ptr dst_path] s
           else saying ''File copied successfully from %s to %s'' [Ptr src_path, Ptr dst_path] s))))))"

definition process_cp_command :: "nat \<Rightarrow> u8 list \<Rightarrow> fs \<Rightarrow> (u8 list \<times> fs) cres" where
  "process_cp_command t cmd_line s =
     andthen (skip_spaces cmd_line 2) (\<lambda>i.
     andthen (rd cmd_line i) (\<lambda>c.
       if c = 0 then saying usage_cp [] s
       else
         andthen (two_words cmd_line i) (\<lambda>(src_path, dst_path).
           if src_path ! 0 = 0 \<or> dst_path ! 0 = 0 then saying usage_cp [] s
           else
             andthen (sys_get_file_attribute src_path s) (\<lambda>(type_src, s).
               if type_src \<noteq> FT_REGULAR then saying ''Invalid source file: %s'' [Ptr src_path] s
               else
                 andthen (sys_get_file_attribute dst_path s) (\<lambda>(type_dst, s).
                   if type_dst = FT_DIRECTORY
                   then saying ''Invalid destination file: %s, use file path'' [Ptr dst_path] s
                   else
                     andthen
                       (if type_dst \<noteq> FT_REGULAR \<and> type_dst \<noteq> FT_UNKNOWN \<and> type_dst \<noteq> FT_DIRECTORY
                        then andthen (user_file_open dst_path O_CREAT s) (\<lambda>(fd, s).
                             andthen (user_file_close fd s) (\<lambda>(_, s). Inr s))
                        else Inr s) (\<lambda>s.
                     andthen (user_file_open dst_path O_RDWR s) (\<lambda>(fd_dst, s).
                     andthen (user_file_open src_path O_RDWR s) (\<lambda>(fd_src, s).
                     andthen (sys_get_file_size fd_src s) (\<lambda>size_src.
                     andthen (sys_get_file_size fd_dst s) (\<lambda>size_dst.
                     andthen
                       (if size_dst > 0
                        then andthen (user_file_close fd_dst s) (\<lambda>(_, s).
                             andthen (user_delete dst_path s) (\<lambda>(_, s).
                             andthen (user_file_open dst_path O_CREAT s) (\<lambda>(fd_dst, s).
                             andthen (user_file_close fd_dst s) (\<lambda>(_, s).
                             user_file_open dst_path O_RDWR s))))
                        else Inr (fd_dst, s)) (\<lambda>(fd_dst, s).
                     copy_files t src_path dst_path fd_dst fd_src size_src s)))))))))))"


section \<open>Encryption\<close>

definition MAX_KEY_LEN :: nat where "MAX_KEY_LEN = 16"
definition key_line_len :: nat where "key_line_len = MAX_PATH_LENGTH + 1 + MAX_KEY_LEN"

definition usage_enc :: string where
  "usage_enc = ''Usage: enc <source_file_path> <key>'' @ [CHR 0x0A]"
definition usage_dec :: string where
  "usage_dec = ''Usage: dec <source_file_path> <key>'' @ [CHR 0x0A]"

text \<open>The path and the key of the line, or the fault of a key of 16 bytes or more.\<close>

definition path_and_key :: "u8 list \<Rightarrow> nat \<Rightarrow> (u8 list \<times> u8 list) cres" where
  "path_and_key cmd_line i =
     andthen (word_at cmd_line i) (\<lambda>(src_path, i).
     andthen (skip_spaces cmd_line i) (\<lambda>i.
     andthen (key_at cmd_line i) (\<lambda>key. Inr (src_path, key))))"

text \<open>The search in \<^verbatim>\<open>/keys\<close>: the file position is left at the line found.  \<open>line_buf\<close> keeps its
  bytes from one read to the next.\<close>

partial_function (option) find_key_line ::
    "nat \<Rightarrow> int \<Rightarrow> u8 list \<Rightarrow> int \<Rightarrow> int \<Rightarrow> fs \<Rightarrow> (bool \<times> fs) cres option" where
  "find_key_line t fd_keys src_path pos keys_size s =
     (if pos < keys_size
      then
        (case andthen (user_file_seekp fd_keys pos SEEK_SET s) (\<lambda>(_, s).
              andthen (user_file_read t fd_keys key_line_len s) (\<lambda>(n, line_buf, s).
                if n \<noteq> int key_line_len then Inr (None, s)
                else andthen (strcmp line_buf src_path) (\<lambda>r. Inr (Some (r = 0), s)))) of
           Inl e \<Rightarrow> Some (Inl e)
         | Inr (None, s) \<Rightarrow> Some (Inr (False, s))
         | Inr (Some found, s) \<Rightarrow>
             if found
             then Some (andthen (user_file_seekp fd_keys pos SEEK_SET s) (\<lambda>(_, s). Inr (True, s)))
             else find_key_line t fd_keys src_path (pos + int key_line_len) keys_size s)
      else Some (Inr (False, s)))"

definition key_record :: "u8 list \<Rightarrow> u8 list \<Rightarrow> u8 list" where
  "key_record src_path key =
     (let p = cstr src_path; k = cstr key
      in p @ replicate (MAX_PATH_LENGTH + 1 - length p) 0 @ k @
         replicate (MAX_KEY_LEN - length k) 0)"

definition store_key ::
    "nat \<Rightarrow> u8 list \<Rightarrow> u8 list \<Rightarrow> fs \<Rightarrow> (u8 list \<times> fs) cres option" where
  "store_key t src_path key s =
     (case andthen (user_file_open (text_of ''/keys'' @ [0]) O_RDWR s) (\<lambda>(fd_keys, s).
             if fd_keys < 0 then Inr (fd_keys, 0, s)
             else andthen (sys_get_file_size fd_keys s) (\<lambda>keys_size. Inr (fd_keys, keys_size, s))) of
        Inl e \<Rightarrow> Some (Inl e)
      | Inr (fd_keys, keys_size, s) \<Rightarrow>
          if fd_keys < 0 then Some (saying ''Failed to open keys file'' [] s)
          else
            (case find_key_line t fd_keys src_path 0 keys_size s of
               None \<Rightarrow> None
             | Some r \<Rightarrow> Some (
                 andthen r (\<lambda>(found, s).
                 andthen (need_heap s) (\<lambda>_.
                 andthen (if found then Inr (0, s) else user_file_seekp fd_keys 0 SEEK_END s) (\<lambda>(_, s).
                 andthen (user_file_write t fd_keys (key_record src_path key) key_line_len s) (\<lambda>(_, s).
                 andthen (user_file_close fd_keys s) (\<lambda>(_, s).
                 saying ''File encrypted successfully: %s'' [Ptr src_path] s))))))))"

text \<open>Encrypting the open file; the flag tells whether its key is to be stored.\<close>

definition encrypt_file ::
    "nat \<Rightarrow> u8 list \<Rightarrow> u8 list \<Rightarrow> int \<Rightarrow> u32 \<Rightarrow> fs \<Rightarrow> (u8 list \<times> bool \<times> fs) cres" where
  "encrypt_file t src_path key fd attrs s =
     andthen (sys_get_file_size fd s) (\<lambda>fsize.
     andthen (need_heap s) (\<lambda>_.
     andthen (user_file_seekp fd 0 SEEK_SET s) (\<lambda>(_, s).
     andthen (user_file_read t fd (uint32 fsize) s) (\<lambda>(n, b, s).
       if n \<noteq> fsize
       then andthen (user_file_close fd s) (\<lambda>(_, s).
            saying ''Failed to read file: %s'' [Ptr src_path] (False, s))
       else
         andthen (SM4_ECB_Encrypt (Some (b @ replicate 100 0)) (uint32 fsize) (uint32 (fsize + 100))
                    (Some (uint32 fsize)) (Some (SM4_KeySchedule key))) (\<lambda>(_, b, olen).
         andthen (user_file_seekp fd 0 SEEK_SET s) (\<lambda>(_, s).
         andthen (user_file_write t fd (the b) (the olen) s) (\<lambda>(n, s).
           if n \<noteq> int32 (int (the olen))
           then andthen (user_file_close fd s) (\<lambda>(_, s).
                saying ''Failed to write file: %s'' [Ptr src_path] (False, s))
           else
             andthen (sys_set_file_attr fd (attrs OR INODE_ENCRYPTED) s) (\<lambda>s.
             andthen (user_file_close fd s) (\<lambda>(_, s). Inr ([], True, s))))))))))"

definition process_enc_command :: "nat \<Rightarrow> u8 list \<Rightarrow> fs \<Rightarrow> (u8 list \<times> fs) cres option" where
  "process_enc_command t cmd_line s =
     (case andthen (skip_spaces cmd_line 3) (\<lambda>i.
           andthen (rd cmd_line i) (\<lambda>c.
             if c = 0 then saying usage_enc [] (None, s)
             else
               andthen (path_and_key cmd_line i) (\<lambda>(src_path, key).
                 if src_path ! 0 = 0 \<or> key ! 0 = 0 then saying usage_enc [] (None, s)
                 else
                   andthen (user_file_open src_path O_RDWR s) (\<lambda>(fd, s).
                   andthen (sys_get_file_attr fd s) (\<lambda>fl.
                   let attrs = word_of_int fl
                   in if attrs AND INODE_ENCRYPTED \<noteq> 0
                      then andthen (user_file_close fd s) (\<lambda>(_, s).
                           saying ''File already encrypted: %s'' [Ptr src_path] (None, s))
                      else andthen (encrypt_file t src_path key fd attrs s) (\<lambda>(out, go_on, s).
                           Inr (out, if go_on then Some (src_path, key) else None, s))))))) of
        Inl e \<Rightarrow> Some (Inl e)
      | Inr (out, None, s) \<Rightarrow> Some (Inr (out, s))
      | Inr (out, Some (src_path, key), s) \<Rightarrow> store_key t src_path key s)"

text \<open>The search in the keys read into memory: every record that is not the path's is skipped,
  and the comparison behind the last record leaves the block.\<close>

function key_index :: "u8 list \<Rightarrow> u8 list \<Rightarrow> int \<Rightarrow> nat \<Rightarrow> nat cres" where
  "key_index keys_buf src_path keys_size j =
     (if int j < keys_size
      then andthen (strcmp (drop j keys_buf) src_path) (\<lambda>r.
             if r = 0 then Inr j
             else key_index keys_buf src_path keys_size (j + key_line_len))
      else Inr j)"
  by pat_completeness auto
termination
  by (relation "measure (\<lambda>(b, p, n, j). nat n - j)") (auto simp: key_line_len_def MAX_KEY_LEN_def)

declare key_index.simps [simp del]

definition decrypt_file ::
    "nat \<Rightarrow> u8 list \<Rightarrow> u8 list \<Rightarrow> int \<Rightarrow> u32 \<Rightarrow> int \<Rightarrow> fs \<Rightarrow> (u8 list \<times> fs) cres" where
  "decrypt_file t src_path key fd attrs keys_size s =
     andthen (sys_get_file_size fd s) (\<lambda>size_file.
     andthen (need_heap s) (\<lambda>_.
     andthen (user_file_seekp fd 0 SEEK_SET s) (\<lambda>(_, s).
     andthen (user_file_read t fd (uint32 size_file) s) (\<lambda>(n, bs, s).
     andthen (if length bs \<le> uint32 (keys_size + 100) then Inr () else Inl Wild) (\<lambda>_.
       if n \<noteq> size_file
       then andthen (user_file_close fd s) (\<lambda>(_, s).
            saying ''Failed to read file: %s'' [Ptr src_path] s)
       else
         andthen (SM4_ECB_Decrypt (Some (bs @ replicate (uint32 (keys_size + 100) - length bs) 0))
                    (uint32 size_file) (Some (uint32 size_file))
                    (Some (SM4_KeySchedule key))) (\<lambda>(_, b, olen).
         let size_file = int32 (int (the olen))
         in andthen (user_file_seekp fd 0 SEEK_SET s) (\<lambda>(_, s).
         andthen (user_file_write t fd (the b) (uint32 size_file) s) (\<lambda>(n, s).
           if n \<noteq> size_file
           then andthen (user_file_close fd s) (\<lambda>(_, s).
                saying ''Failed to write file: %s'' [Ptr src_path] s)
           else
             andthen (user_file_seekp fd size_file SEEK_SET s) (\<lambda>(_, s).
             andthen (user_file_remove_some_content fd 16 s) (\<lambda>(_, s).
             andthen (sys_set_file_attr fd (attrs AND NOT INODE_ENCRYPTED) s) (\<lambda>s.
             andthen (user_file_close fd s) (\<lambda>(_, s).
             saying ''File dncrypted successfully: %s'' [Ptr src_path] s))))))))))))"

definition process_dec_command :: "nat \<Rightarrow> u8 list \<Rightarrow> fs \<Rightarrow> (u8 list \<times> fs) cres" where
  "process_dec_command t cmd_line s =
     andthen (skip_spaces cmd_line 3) (\<lambda>i.
     andthen (rd cmd_line i) (\<lambda>c.
       if c = 0 then saying usage_dec [] s
       else
         andthen (path_and_key cmd_line i) (\<lambda>(src_path, key).
           if src_path ! 0 = 0 \<or> key ! 0 = 0 then saying usage_dec [] s
           else
             andthen (user_file_open src_path O_RDWR s) (\<lambda>(fd, s).
             andthen (sys_get_file_attr fd s) (\<lambda>fl.
             let attrs = word_of_int fl
             in if attrs AND INODE_ENCRYPTED = 0
                then andthen (user_file_close fd s) (\<lambda>(_, s).
                     saying ''File not encrypted: %s'' [Ptr src_path] s)
                else
                  andthen (user_file_open (text_of ''/keys'' @ [0]) O_RDONLY s) (\<lambda>(fd_keys, s).
                  andthen (sys_get_file_size fd_keys s) (\<lambda>keys_size.
                  andthen (need_heap s) (\<lambda>_.
                  andthen (user_file_seekp fd_keys 0 SEEK_SET s) (\<lambda>(_, s).
                  andthen (user_file_read t fd_keys (uint32 keys_size) s) (\<lambda>(_, bs, s).
                  let keys_buf = bs @ replicate (nat keys_size - length bs) 0
                  in andthen (key_index keys_buf src_path keys_size 0) (\<lambda>j.
                  andthen (strcmp (drop (j + MAX_PATH_LENGTH + 1) keys_buf) key) (\<lambda>r.
                    if r \<noteq> 0
                    then andthen (user_file_close fd s) (\<lambda>(_, s).
                         andthen (user_file_close fd_keys s) (\<lambda>(_, s).
                         saying ''Invalid key'' [] s))
                    else
                      andthen (user_file_close fd_keys s) (\<lambda>(_, s).
                      decrypt_file t src_path key fd attrs keys_size s)))))))))))))"


section \<open>Hashes\<close>

text \<open>\<^verbatim>\<open>SHA256(file_path, sha)\<close>: its loop of reads takes the bytes of the open file one after the
  other.  \<open>None\<close> leaves \<^verbatim>\<open>sha\<close> as it was; \<open>garbage\<close> is the uninitialised context buffer.\<close>

definition hash_file ::
    "nat \<Rightarrow> u8 list \<Rightarrow> u8 list \<Rightarrow> fs \<Rightarrow> (u8 list option \<times> fs) cres" where
  "hash_file t garbage path s =
     andthen (user_file_open path O_RDONLY s) (\<lambda>(fd, s).
     andthen (sys_get_file_attr fd s) (\<lambda>attr.
     andthen (sys_get_file_size fd s) (\<lambda>fsize.
       if fd < 0 then Inr (None, s)
       else
         andthen (need_heap s) (\<lambda>_.
         andthen (user_file_read t fd (2 ^ 31 - 1) s) (\<lambda>(_, bs, s).
         andthen (user_file_close fd s) (\<lambda>(_, s).
         andthen (SHA256 (Some bs) ((word_of_int attr :: u32) AND INODE_HASHED \<noteq> 0) fsize garbage) (\<lambda>d.
         Inr (d, s))))))))"

text \<open>\<open>stack\<close> is what the uninitialised 32 bytes of \<^verbatim>\<open>current_hash\<close> hold.\<close>

definition HASH_SIZE :: nat where "HASH_SIZE = 32"

definition verify_program_hash ::
    "nat \<Rightarrow> u8 list \<Rightarrow> u8 list \<Rightarrow> u8 list \<Rightarrow> fs \<Rightarrow> (int \<times> fs) cres" where
  "verify_program_hash t garbage stack path s =
     andthen (user_file_open path O_RDONLY s) (\<lambda>(fd, s).
       if fd < 0 then Inr (-1, s)
       else
         andthen (sys_get_file_size fd s) (\<lambda>fsize.
           if fsize \<le> int HASH_SIZE
           then andthen (user_file_close fd s) (\<lambda>(_, s). Inr (-1, s))
           else
             andthen (user_file_seekp fd (fsize - int HASH_SIZE) SEEK_SET s) (\<lambda>(_, s).
             andthen (user_file_read t fd HASH_SIZE s) (\<lambda>(n, stored_hash, s).
             andthen (user_file_close fd s) (\<lambda>(_, s).
               if n \<noteq> int HASH_SIZE then Inr (-1, s)
               else
                 andthen (hash_file t garbage path s) (\<lambda>(d, s).
                 andthen (memcmp stored_hash (case d of None \<Rightarrow> stack | Some h \<Rightarrow> h) HASH_SIZE) (\<lambda>r.
                 Inr (if r = 0 then 1 else 0, s))))))))"

definition append_hash_to_program ::
    "nat \<Rightarrow> u8 list \<Rightarrow> u8 list \<Rightarrow> u8 list \<Rightarrow> fs \<Rightarrow> (int \<times> fs) cres" where
  "append_hash_to_program t garbage stack path s =
     andthen (hash_file t garbage path s) (\<lambda>(d, s).
     andthen (user_file_open path O_RDWR s) (\<lambda>(fd, s).
     andthen (user_file_seekp fd 0 SEEK_END s) (\<lambda>(_, s).
     andthen (user_file_write t fd (case d of None \<Rightarrow> stack | Some h \<Rightarrow> h) HASH_SIZE s) (\<lambda>(n, s).
       if n \<noteq> int HASH_SIZE
       then andthen (user_file_close fd s) (\<lambda>(_, s). Inr (-1, s))
       else
         andthen (sys_get_file_attr fd s) (\<lambda>fl.
         andthen (sys_set_file_attr fd (word_of_int fl OR INODE_HASHED) s) (\<lambda>s.
         andthen (user_file_close fd s) (\<lambda>(_, s). Inr (0, s))))))))"

text \<open>The body of the process an \<^verbatim>\<open>exec\<close> line starts: the program it becomes, or \<open>None\<close> when it
  exits.  \<^verbatim>\<open>!verify_program_hash(\<dots>)\<close> is the test for 0.  Messages of \<^verbatim>\<open>printk\<close> go to the log.\<close>

definition process_program ::
    "nat \<Rightarrow> u8 list \<Rightarrow> u8 list \<Rightarrow> u8 list \<Rightarrow> u8 list \<Rightarrow> fs \<Rightarrow>
     (u8 list \<times> u8 list option \<times> fs) cres" where
  "process_program t garbage stack cwd_cache cmd_line s =
     andthen (skip_blanks cmd_line 4) (\<lambda>i.
     andthen (cwd_prefix cwd_cache) (\<lambda>(b, idx).
     andthen (copy_rest cmd_line i b idx) (\<lambda>(path, _).
     andthen (sys_get_file_attribute path s) (\<lambda>(ft, s).
       if ft \<noteq> FT_REGULAR then Inr ([], None, s)
       else
         andthen (user_file_open path O_RDONLY s) (\<lambda>(fd, s).
         andthen (sys_get_file_attr fd s) (\<lambda>fl.
         andthen (user_file_close fd s) (\<lambda>(_, s).
           if (word_of_int fl :: u32) AND INODE_HASHED \<noteq> 0
           then
             andthen (verify_program_hash t garbage stack path s) (\<lambda>(r, s).
               if r = 0 then saying ''%s: hash verification failed'' [Ptr path] (None, s)
               else Inr ([], Some path, s))
           else
             andthen (append_hash_to_program t garbage stack path s) (\<lambda>(r, s).
               if r < 0 then Inr ([], None, s) else Inr ([], Some path, s)))))))))"

definition usage_sha :: string where "usage_sha = ''Usage: sha <source_file_path>'' @ [CHR 0x0A]"

text \<open>\<open>addr\<close> is the address of the path buffer, which the command prints.  The digest is printed
  as a string: the 32 bytes of \<^verbatim>\<open>sha\<close> have no terminator of their own, and \<open>behind\<close> is what
  follows them on the stack.\<close>

definition process_sha_command ::
    "nat \<Rightarrow> u8 list \<Rightarrow> u8 list \<Rightarrow> u32 \<Rightarrow> u8 list \<Rightarrow> fs \<Rightarrow> (u8 list \<times> fs) cres" where
  "process_sha_command t garbage behind addr cmd_line s =
     andthen (skip_spaces cmd_line 4) (\<lambda>i.
     andthen (rd cmd_line i) (\<lambda>c.
       if c = 0 then saying usage_sha [] s
       else
         andthen (word_at cmd_line i) (\<lambda>(src_path, _).
           if src_path ! 0 = 0 then saying usage_sha [] s
           else
             andthen (sys_get_file_attribute src_path s) (\<lambda>(ft, s).
               if ft \<noteq> FT_REGULAR then saying ''Invalid file: %s'' [Ptr src_path] s
               else
                 andthen (say ''src_path: %s, addr: %x'' [Ptr src_path, Num addr]) (\<lambda>out1.
                 andthen (hash_file t garbage src_path s) (\<lambda>(d, s).
                 andthen (say ''SHA256: %s''
                   [Ptr ((case d of None \<Rightarrow> replicate 32 0 | Some h \<Rightarrow> h) @ behind)]) (\<lambda>out2.
                 Inr (out1 @ (case d of None \<Rightarrow> text_of ''Failed to open file'' @ [10] | _ \<Rightarrow> []) @
                      out1 @ out2, s))))))))"

text \<open>\<^verbatim>\<open>attr\<close>: without an argument the shell itself returns, which is \<open>None\<close>.\<close>

definition attr_command :: "u8 list \<Rightarrow> fs \<Rightarrow> (u8 list \<times> fs) option cres" where
  "attr_command cmd_line s =
     andthen (skip_spaces cmd_line 5) (\<lambda>i.
     andthen (rd cmd_line i) (\<lambda>c.
       if c = 0 then Inr None
       else
         andthen (word_at cmd_line i) (\<lambda>(src_path, _).
           if src_path ! 0 = 0 then Inr None
           else
             andthen (user_file_open src_path O_RDONLY s) (\<lambda>(fd, s).
             andthen (sys_get_file_attr fd s) (\<lambda>attr.
             andthen (user_file_close fd s) (\<lambda>(_, s).
             andthen (saying ''flag %d'' [Num (word_of_int attr)] s) (\<lambda>r. Inr (Some r))))))))"

text \<open>\<^verbatim>\<open>user_file_copy\<close> of \<^verbatim>\<open>kernel/interrupt/syscall.c\<close>.\<close>

partial_function (option) copy_loop :: "nat \<Rightarrow> int \<Rightarrow> int \<Rightarrow> fs \<Rightarrow> fs cres option" where
  "copy_loop t fds fdd s =
     (case user_file_read t fds 512 s of
        Inl e \<Rightarrow> Some (Inl e)
      | Inr (read_cnt, bs, s) \<Rightarrow>
          if read_cnt \<ge> 0
          then (case user_file_write t fdd bs (nat read_cnt) s of
                  Inl e \<Rightarrow> Some (Inl e)
                | Inr (_, s) \<Rightarrow> copy_loop t fds fdd s)
          else Some (Inr s))"

definition user_file_copy :: "nat \<Rightarrow> u8 list \<Rightarrow> u8 list \<Rightarrow> fs \<Rightarrow> (int \<times> fs) cres option" where
  "user_file_copy t dst_path src_path s =
     (case andthen (user_file_open src_path O_RDONLY s) (\<lambda>(fds, s).
           andthen (assert_c (fds \<ge> 0)) (\<lambda>_.
           andthen (user_file_open dst_path O_WRONLY s) (\<lambda>(fdd, s).
           andthen (assert_c (fdd \<ge> 0)) (\<lambda>_. Inr (fds, fdd, s))))) of
        Inl e \<Rightarrow> Some (Inl e)
      | Inr (fds, fdd, s) \<Rightarrow>
          if \<not> heap_ok s
          then Some (andthen (close_both fds fdd s) (\<lambda>s. Inr (-1, s)))
          else
            (case copy_loop t fds fdd s of
               None \<Rightarrow> None
             | Some r \<Rightarrow> Some (andthen r (\<lambda>s. andthen (close_both fds fdd s) (\<lambda>s. Inr (0, s))))))"

section \<open>The loop of the shell\<close>

record shell =
  cwd_cache :: "u8 list"
  cmd_history :: history
  sh_fs :: fs

definition ls :: "u8 list \<Rightarrow> fs \<Rightarrow> (int \<times> u8 list list \<times> fs) cres" where
  "ls cwd s = sys_dir_list cwd s"

definition lsi :: "u8 list \<Rightarrow> fs \<Rightarrow> (int \<times> listed list \<times> fs) cres" where
  "lsi cwd s = sys_dir_list_info cwd s"

text \<open>A command that runs in a thread of its own starts with the standard descriptors only;
  the shell's are untouched.\<close>

definition new_fds :: "int list" where
  "new_fds = [0, 1, 2, -1, -1, -1, -1, -1]"

definition in_thread ::
    "(fs \<Rightarrow> (u8 list \<times> fs) cres) \<Rightarrow> shell \<Rightarrow> (u8 list \<times> bool \<times> shell) cres" where
  "in_thread f sh =
     andthen (f (sh_fs sh\<lparr>fd_table := new_fds\<rparr>)) (\<lambda>(out, s).
       Inr (out, True, sh\<lparr>sh_fs := s\<lparr>fd_table := fd_table (sh_fs sh)\<rparr>\<rparr>))"

text \<open>The commands that only work on files.  \<open>other\<close> runs the rest of them: those on threads,
  programs and the screen, the listings, and those whose loops may not end.  The flag tells
  that the shell goes on.\<close>

definition run_command ::
    "(command \<Rightarrow> u8 list \<Rightarrow> shell \<Rightarrow> (u8 list \<times> bool \<times> shell) cres) \<Rightarrow> nat \<Rightarrow> command \<Rightarrow>
     u8 list \<Rightarrow> shell \<Rightarrow> (u8 list \<times> bool \<times> shell) cres" where
  "run_command other t c l sh =
     (case c of
        Cd \<Rightarrow> andthen (process_cd_command (cwd_cache sh) l (sh_fs sh)) (\<lambda>(out, cwd, s).
             Inr (out, True, sh\<lparr>cwd_cache := cwd, sh_fs := s\<rparr>))
      | Mkdir \<Rightarrow> in_thread (process_mkdir_command (cwd_cache sh) l) sh
      | Rm \<Rightarrow> in_thread (process_rm_command (cwd_cache sh) l) sh
      | Rmdir \<Rightarrow> in_thread (process_rmdir_command (cwd_cache sh) l) sh
      | Touch \<Rightarrow> in_thread (process_touch_command (cwd_cache sh) l) sh
      | Cp \<Rightarrow> in_thread (process_cp_command t l) sh
      | Dec \<Rightarrow> in_thread (process_dec_command t l) sh
      | Attr \<Rightarrow> andthen (attr_command l (sh_fs sh)) (\<lambda>r.
          case r of
            None \<Rightarrow> andthen (say (''Usage: attr <source_file_path>'' @ [CHR 0x0A]) []) (\<lambda>out.
                    Inr (out, False, sh))
          | Some (out, s) \<Rightarrow> Inr (out, True, sh\<lparr>sh_fs := s\<rparr>))
      | _ \<Rightarrow> other c l sh)"

fun run_commands ::
    "(command \<Rightarrow> u8 list \<Rightarrow> shell \<Rightarrow> (u8 list \<times> bool \<times> shell) cres) \<Rightarrow> nat \<Rightarrow> command list \<Rightarrow>
     u8 list \<Rightarrow> shell \<Rightarrow> (u8 list \<times> bool \<times> shell) cres" where
  "run_commands other t [] l sh = Inr ([], True, sh)"
| "run_commands other t (c # cs) l sh =
     andthen (run_command other t c l sh) (\<lambda>(out, go_on, sh).
       if \<not> go_on then Inr (out, False, sh)
       else andthen (run_commands other t cs l sh) (\<lambda>(out', go_on, sh).
            Inr (out @ out', go_on, sh)))"

text \<open>One turn of the loop: the prompt, the line, its commands, and the line into the history.
  An empty line is not remembered.  The keys left over are the second result.\<close>

definition my_shell_turn ::
    "(command \<Rightarrow> u8 list \<Rightarrow> shell \<Rightarrow> (u8 list \<times> bool \<times> shell) cres) \<Rightarrow> nat \<Rightarrow> u8 list option \<Rightarrow>
     u8 list \<Rightarrow> shell \<Rightarrow> (u8 list \<times> u8 list \<times> bool \<times> shell) cres" where
  "my_shell_turn other t block keys sh =
     andthen (print_prompt (cwd_cache sh)) (\<lambda>prompt.
     andthen (readline (replicate cmd_len 0) 0 cmd_len (cmd_history sh) keys) (\<lambda>(l, keys, h).
     let sh = sh\<lparr>cmd_history := h\<rparr>
     in if l ! 0 = 0 then Inr (prompt, keys, True, sh)
        else
          andthen (run_commands other t (dispatch l) l sh) (\<lambda>(out, go_on, sh).
            if \<not> go_on then Inr (prompt @ out, keys, False, sh)
            else
              andthen (history_push (cmd_history sh) l block) (\<lambda>h.
              Inr (prompt @ out, keys, True, sh\<lparr>cmd_history := h\<rparr>)))))"

end
