(* ===== verification/OpenFile.thy ===== *)
theory OpenFile
  imports Fs FileSpec
begin

text \<open>
  Reading and seeking through a descriptor of an open file: what \<^verbatim>\<open>read\<close> and \<^verbatim>\<open>lseek\<close> of the
  library come to for a file held by its direct blocks.
\<close>

section \<open>Open files and their position\<close>

lemma direct_file_table [simp]: "direct_file (s\<lparr>file_table := ft\<rparr>) h i = direct_file s h i"
  by (simp add: direct_file_def fs_ok_def used_block_def free_blocks_def)

lemma heap_ok_table [simp]: "heap_ok (s\<lparr>file_table := ft\<rparr>) = heap_ok s"
  by (simp add: heap_ok_def)

lemma fbytes_table [simp]: "fbytes (s\<lparr>file_table := ft\<rparr>) i a b = fbytes s i a b"
  by (simp add: fbytes_def fbyte_def Let_def cong: if_cong)

text \<open>The descriptor \<open>fd\<close> of the running thread names the file \<open>h\<close>, at position \<open>p\<close>.\<close>

definition open_at :: "fs \<Rightarrow> int \<Rightarrow> nat \<Rightarrow> nat \<Rightarrow> nat \<Rightarrow> bool" where
  "open_at s fd g h p \<longleftrightarrow>
     0 < fd \<and> fd < 8 \<and> fd_table s ! nat fd = int g \<and> g < length (file_table s) \<and>
     length (file_table s) < 2 ^ 32 \<and>
     fd_inode (file_table s ! g) = Inode_at h \<and> fd_flag (file_table s ! g) \<noteq> PIPE_FLAG \<and>
     fd_pos (file_table s ! g) = p"

text \<open>A file whose direct blocks up to its size are all there.\<close>

definition whole_file :: "fs \<Rightarrow> nat \<Rightarrow> inode \<Rightarrow> bool" where
  "whole_file s h i \<longleftrightarrow> direct_file s h i \<and> heap_ok s \<and> i_size i \<le> 6144 \<and>
     (\<forall>j. j * 512 < i_size i \<longrightarrow> i_sectors i ! j \<noteq> 0)"

lemma whole_file_table [simp]: "whole_file (s\<lparr>file_table := ft\<rparr>) h i = whole_file s h i"
  by (simp add: whole_file_def)

definition moved :: "fs \<Rightarrow> nat \<Rightarrow> nat \<Rightarrow> fs" where
  "moved s g p = s\<lparr>file_table := (file_table s)[g := (file_table s ! g)\<lparr>fd_pos := p\<rparr>]\<rparr>"

lemma open_at_moved: "open_at s fd g h p \<Longrightarrow> open_at (moved s g q) fd g h q"
  by (auto simp: open_at_def moved_def)

lemma moved_moved: "g < length (file_table s) \<Longrightarrow> moved (moved s g p) g q = moved s g q"
  by (simp add: moved_def)

lemma moved_same: "open_at s fd g h p \<Longrightarrow> moved s g p = s"
  by (auto simp: open_at_def moved_def)

lemma whole_moved [simp]: "whole_file (moved s g p) h i = whole_file s h i"
  by (simp add: moved_def)

lemma fbytes_moved [simp]: "fbytes (moved s g p) i a b = fbytes s i a b"
  by (simp add: moved_def)

lemma open_at_local:
  assumes "open_at s fd g h p"
  shows "fd_local2global (uint32 fd) s = g" and "g \<noteq> 2 ^ 32 - 1"
  using assms by (auto simp: open_at_def fd_local2global_def MAX_FILES_OPEN_PER_PROC_def)

lemma read_step:
  assumes o: "open_at s fd g h p" and w: "whole_file s h i" and n: "0 < n" "n \<le> 2 ^ 16"
  shows "user_file_read t fd n s =
    (if p < i_size i
     then Inr (int (min n (i_size i - p)), fbytes s i p (p + min n (i_size i - p)),
               moved s g (p + min n (i_size i - p)))
     else Inr (-4, [], s))"
proof -
  note l = open_at_local [OF o]
  have w': "direct_file s h i" "heap_ok s" "i_size i \<le> 6144"
    "\<And>j. j * 512 < i_size i \<Longrightarrow> i_sectors i ! j \<noteq> 0"
    using w by (auto simp: whole_file_def)
  have ino: "inodes s h = Some i" using w'(1) by (simp add: direct_file_def)
  have g: "g < length (file_table s)" "fd_inode (file_table s ! g) = Inode_at h"
    "fd_flag (file_table s ! g) \<noteq> PIPE_FLAG" "fd_pos (file_table s ! g) = p" "0 < fd"
    using o by (auto simp: open_at_def)
  have sr: "sys_read fd p n s = file_read h p n s"
    using g by (simp add: sys_read_def l(1) open_inode_def)
  show ?thesis
  proof (cases "p < i_size i")
    case False
    then have "file_read h p n s = Inr (-1, [])" using ino by (simp add: file_read_def deref_def)
    then show ?thesis using g l False sr by (simp add: user_file_read_def Let_def)
  next
    case True
    let ?m = "min n (i_size i - p)"
    have fr: "file_read h p n s = Inr (int ?m, fbytes s i p (p + ?m))"
      using file_read_ok [OF w'(1,2) True w'(3,4), of n] True w'(3) n by simp
    have "uint32 (int p + int ?m) = p + ?m" using True w'(3) by (subst uint32_id) auto
    moreover have "int ?m \<noteq> -1" by simp
    ultimately show ?thesis using g l True sr fr
      by (simp add: user_file_read_def Let_def set_file_def moved_def)
  qed
qed

lemma seek_step:
  assumes o: "open_at s fd g h p" and w: "whole_file s h i" and fd: "2 < fd"
  shows "user_file_seekp fd (int32 (int off)) SEEK_SET s =
    Inr (int32 (int (if uint32 (int off) > i_size i then i_size i else uint32 (int off))),
      moved s g (if uint32 (int off) > i_size i then i_size i else uint32 (int off)))"
proof -
  note l = open_at_local [OF o]
  have ino: "inodes s h = Some i" using w by (simp add: whole_file_def direct_file_def)
  have g: "g < length (file_table s)" "fd_inode (file_table s ! g) = Inode_at h" "fd_flag (file_table s ! g) \<noteq> PIPE_FLAG"
    using o by (auto simp: open_at_def)
  have "((int off + 2 ^ 31) mod 2 ^ 32 - 2 ^ 31) mod 2 ^ 32 = (int off + 2 ^ 31 - 2 ^ 31) mod 2 ^ 32"
    by (rule mod_diff_left_eq)
  then have "uint32 (int32 (int off)) = uint32 (int off)" unfolding uint32_def int32_def by simp
  then show ?thesis
    using g l fd ino
    by (simp add: user_file_seekp_def sys_seekp_def is_pipe_def open_inode_def deref_def set_file_def moved_def Let_def)
qed

end
