(* ===== verification/ShellTextSpec.thy ===== *)
theory ShellTextSpec
  imports ShellText
begin

text \<open>
  What the text functions of the shell are for: line editing, decimal numbers, and the paths
  of arguments.
\<close>

section \<open>Line editing\<close>

text \<open>The line the keys \<open>ks\<close> edit, starting from \<open>l\<close>; \<open>None\<close> when a line of 128 characters is
  reached or the keys run out.\<close>

fun edited :: "u8 list \<Rightarrow> history \<Rightarrow> u8 list \<Rightarrow> (u8 list \<times> u8 list \<times> history) option" where
  "edited l h [] = None"
| "edited l h (c # ks) =
     (if cmd_len \<le> length l then None
      else if c = 10 \<or> c = 13 then Some (l, ks, h)
      else if c = 8 then edited (butlast l) h ks
      else if c = 0x80 \<or> c = 0x81
      then (case if c = 0x80 then history_get_prev h else history_get_next h of
              Inl _ \<Rightarrow> None
            | Inr (h, None) \<Rightarrow> edited l h ks
            | Inr (h, Some e) \<Rightarrow> edited (cstr e) h ks)
      else edited (l @ [c]) h ks)"

definition lines_ok :: "history \<Rightarrow> bool" where
  "lines_ok h \<longleftrightarrow> history_ok h \<and> (\<forall>e \<in> set (history_list h). 8 \<notin> set (cstr e))"

lemma terminated_length: "terminated e \<Longrightarrow> length (cstr e) < length e"
  using terminated_split [of e] by (metis length_append length_Cons less_add_same_cancel1 zero_less_Suc)

lemma get_line:
  assumes "lines_ok h"
    and "(if up then history_get_prev h else history_get_next h) = Inr (h', Some e)"
  shows "lines_ok h' \<and> terminated e \<and> length (cstr e) < cmd_len \<and> 8 \<notin> set (cstr e)"
proof -
  have h': "history_ok h' \<and> history_list h' = history_list h"
    using assms history_get_prev_ok [of h] history_get_next_ok [of h]
    by (cases up) (auto simp: lines_ok_def)
  have "e = [0, 0] \<or> e \<in> set (history_list h)"
    using assms(2)
    by (cases up) (auto simp: history_get_prev_def history_get_next_def andthen_eq_Inr_iff rd_eq_Inr
      split: option.splits if_splits)
  then show ?thesis
  proof
    assume "e = [0, 0]"
    then show ?thesis using h' assms(1) by (simp add: lines_ok_def cmd_len_def)
  next
    assume e: "e \<in> set (history_list h)"
    then have "length e = cmd_len" "terminated e" "8 \<notin> set (cstr e)"
      using assms(1) by (auto simp: lines_ok_def history_ok_def)
    then show ?thesis using h' assms(1) terminated_length [of e] by (auto simp: lines_ok_def)
  qed
qed

lemma get_none:
  assumes "lines_ok h"
    and "(if up then history_get_prev h else history_get_next h) = Inr (h', None)"
  shows "lines_ok h'"
  using assms history_get_prev_ok [of h] history_get_next_ok [of h]
  by (cases up) (auto simp: lines_ok_def)

text \<open>The buffer holds the line up to \<open>pos\<close>.\<close>

definition holds :: "u8 list \<Rightarrow> nat \<Rightarrow> u8 list \<Rightarrow> bool" where
  "holds b pos l \<longleftrightarrow> length b = cmd_len \<and> pos = length l \<and> take pos b = l \<and>
     0 \<notin> set l \<and> 8 \<notin> set l"

lemma holds_D:
  assumes "holds b pos l"
  shows "length b = cmd_len" "pos = length l" "take pos b = l" "0 \<notin> set l" "8 \<notin> set l"
  using assms unfolding holds_def by blast+

lemma holds_length: "holds b pos l \<Longrightarrow> length l \<le> cmd_len"
  by (metis holds_def length_take min.cobounded1)

lemma holds_snoc:
  "holds b pos l \<Longrightarrow> pos < cmd_len \<Longrightarrow> c \<noteq> 0 \<Longrightarrow> c \<noteq> 8 \<Longrightarrow> holds (b[pos := c]) (Suc pos) (l @ [c])"
  by (auto simp: holds_def take_Suc_conv_app_nth)

lemma holds_same:
  "holds b pos l \<Longrightarrow> pos < cmd_len \<Longrightarrow> holds (b[pos := c]) pos l"
  by (auto simp: holds_def)

lemma holds_butlast:
  assumes "holds b pos l" and "pos < cmd_len"
  shows "holds (b[pos := 8]) (if b[pos := 8] ! 0 \<noteq> 8 then pos - 1 else pos) (butlast l)"
proof (cases "pos = 0")
  case True
  then show ?thesis using assms by (auto simp: holds_def)
next
  case False
  note d = holds_D [OF assms(1)]
  have "l ! 0 \<in> set l" using False d(2) by simp
  moreover have "l ! 0 = b ! 0" using False d(3) by (metis neq0_conv nth_take)
  ultimately have n8: "b ! 0 \<noteq> 8" using d(5) by metis
  have "take (pos - 1) (b[pos := 8]) = butlast l"
    using d(3) assms(2) d(1) by (metis (no_types) butlast_take less_imp_le take_update_cancel diff_le_self)
  moreover have "length (butlast l) = pos - 1" using d(2) by simp
  ultimately show ?thesis using n8 False d(1,4,5)
    unfolding holds_def by (auto dest: in_set_butlastD)
qed

lemma holds_newline:
  assumes "holds b pos l" and "pos < cmd_len"
  shows "length (b[pos := 0]) = cmd_len \<and> terminated (b[pos := 0]) \<and> cstr (b[pos := 0]) = l"
proof -
  have len: "pos < length b" and t: "take pos b = l" and z: "0 \<notin> set l" and lb: "length b = cmd_len"
    using assms(2) holds_D [OF assms(1)] by simp_all
  have "b[pos := 0] = l @ 0 # drop (Suc pos) b"
    unfolding upd_conv_take_nth_drop [OF len] t ..
  then show ?thesis using z lb by (metis cstr_append_zero length_list_update terminated_append_zero)
qed

lemma holds_strcpy:
  assumes "length b = cmd_len" and "terminated e" and "length (cstr e) < cmd_len"
    and "8 \<notin> set (cstr e)"
  obtains b' where "strcpy b e = Inr b'" "holds b' (length (cstr e)) (cstr e)"
proof
  show "strcpy b e = Inr (cstr e @ 0 # drop (Suc (length (cstr e))) b)"
    using assms by (simp add: strcpy_ok)
  show "holds (cstr e @ 0 # drop (Suc (length (cstr e))) b) (length (cstr e)) (cstr e)"
    using assms by (simp add: holds_def)
qed

lemma readline_edited:
  "holds b pos l \<Longrightarrow> lines_ok h \<Longrightarrow> 0 \<notin> set keys \<Longrightarrow> edited l h keys = Some (l', rest, h') \<Longrightarrow>
   \<exists>b'. readline b pos cmd_len h keys = Inr (b', rest, h') \<and> length b' = cmd_len \<and>
     terminated b' \<and> cstr b' = l'"
proof (induction keys arbitrary: b pos l h)
  case Nil
  then show ?case by simp
next
  case (Cons c ks)
  have pos: "pos < cmd_len" "pos = length l"
    using Cons.prems(1,4) by (auto simp: holds_def split: if_splits)
  have wr: "wr b pos c = Inr (b[pos := c])"
    using Cons.prems(1) pos by (simp add: holds_def)
  have nz: "c \<noteq> 0" "0 \<notin> set ks" using Cons.prems(3) by auto
  consider (newline) "c = 10 \<or> c = 13" | (erase) "c = 8" | (arrow) "c = 0x80 \<or> c = 0x81"
    | (plain) "c \<noteq> 10" "c \<noteq> 13" "c \<noteq> 8" "c \<noteq> 0x80" "c \<noteq> 0x81"
    by blast
  then show ?case
  proof cases
    case newline
    then show ?thesis using Cons.prems pos wr holds_newline [OF Cons.prems(1) pos(1)]
      by (auto split: if_splits)
  next
    case erase
    then have "edited (butlast l) h ks = Some (l', rest, h')"
      using Cons.prems(4) pos by simp
    note Cons.IH [OF holds_butlast [OF Cons.prems(1) pos(1)] Cons.prems(2) nz(2) this]
    moreover have "readline b pos cmd_len h (c # ks) =
      readline (b[pos := 8]) (if b[pos := 8] ! 0 \<noteq> 8 then pos - 1 else pos) cmd_len h ks"
      using erase wr pos(1) by simp
    ultimately show ?thesis by (simp only:)
  next
    case plain
    then have "edited (l @ [c]) h ks = Some (l', rest, h')"
      using Cons.prems(4) pos by simp
    from Cons.IH [OF holds_snoc [OF Cons.prems(1) pos(1) nz(1) plain(3)] Cons.prems(2) nz(2) this]
    show ?thesis using plain wr pos by simp
  next
    case arrow
    define g where "g = (if c = 0x80 then history_get_prev h else history_get_next h)"
    have step: "readline b pos cmd_len h (c # ks) =
      andthen g (\<lambda>(h, p).
           case p of
             None \<Rightarrow> readline (b[pos := c]) pos cmd_len h ks
           | Some e \<Rightarrow>
               andthen (strcpy (b[pos := c]) e) (\<lambda>b.
               andthen (strlen e) (\<lambda>n. readline b n cmd_len h ks)))"
      using arrow wr pos by (auto simp: g_def)
    have ed: "edited l h (c # ks) = (case g of
              Inl _ \<Rightarrow> None
            | Inr (h, None) \<Rightarrow> edited l h ks
            | Inr (h, Some e) \<Rightarrow> edited (cstr e) h ks)"
      using arrow pos by (auto simp: g_def)
    obtain h1 p where g: "g = Inr (h1, p)"
      using ed Cons.prems(4) by (cases g) auto
    show ?thesis
    proof (cases p)
      case None
      have "lines_ok h1" using get_none [OF Cons.prems(2), of "c = 0x80"] g None
        by (auto simp: g_def)
      moreover have "edited l h1 ks = Some (l', rest, h')" using ed g None Cons.prems(4) by simp
      ultimately show ?thesis
        using Cons.IH [OF holds_same [OF Cons.prems(1) pos(1)] _ nz(2)] step g None by simp
    next
      case (Some e)
      have e: "lines_ok h1" "terminated e" "length (cstr e) < cmd_len" "8 \<notin> set (cstr e)"
        using get_line [OF Cons.prems(2), of "c = 0x80"] g Some by (auto simp: g_def)
      have lb: "length (b[pos := c]) = cmd_len" using Cons.prems(1) by (simp add: holds_def)
      obtain b1 where b1: "strcpy (b[pos := c]) e = Inr b1" "holds b1 (length (cstr e)) (cstr e)"
        using holds_strcpy [OF lb e(2-4)] .
      have "edited (cstr e) h1 ks = Some (l', rest, h')" using ed g Some Cons.prems(4) by simp
      from Cons.IH [OF b1(2) e(1) nz(2) this] show ?thesis
        using step g Some b1(1) e(2) by (simp add: strlen_ok)
    qed
  qed
qed


section \<open>Numbers\<close>

lemma skip_blanks_none: "c \<noteq> 32 \<Longrightarrow> skip_blanks (c # s) 0 = Inr 0"
  by (subst skip_blanks.simps) simp

lemma digits_grow: "m \<le> foldl (\<lambda>n d. n * 10 + digit_val d) m xs"
proof (induction xs arbitrary: m)
  case (Cons x xs)
  have "m \<le> m * 10 + digit_val x" by simp
  also have "\<dots> \<le> foldl (\<lambda>n d. n * 10 + digit_val d) (m * 10 + digit_val x) xs" by (rule Cons.IH)
  finally show ?case by simp
qed simp

text \<open>The value of decimal digits, with the signed overflow of the program's \<^verbatim>\<open>int\<close>.\<close>

lemma atoi_digits_value:
  "set ds \<subseteq> {48..57} \<Longrightarrow> \<not> isDigit c \<Longrightarrow>
   int (foldl (\<lambda>n d. n * 10 + digit_val d) r ds) < 2 ^ 31 \<Longrightarrow>
   atoi_digits (ds @ c # rest) (int r) = Inr (int (foldl (\<lambda>n d. n * 10 + digit_val d) r ds))"
proof (induction ds arbitrary: r)
  case Nil
  then show ?case by simp
next
  case (Cons d ds)
  have d: "48 \<le> d" "d \<le> 57" using Cons.prems(1) by auto
  have dv: "uint d - 48 = int (digit_val d)"
  proof -
    have u: "48 \<le> unat d" "unat d \<le> 57" using d by (simp_all add: word_le_nat_alt)
    then have "digit_val d = unat d - 48" by (simp add: digit_val_def word_less_nat_alt)
    then show ?thesis using u(1) by (simp only: of_nat_diff uint_nat)
  qed
  let ?r = "r * 10 + digit_val d"
  have "int ?r < 2 ^ 31"
    using digits_grow [of ?r ds] Cons.prems(3) by simp
  then have i32: "int32 (int r * 10 + (uint d - 48)) = int ?r"
    unfolding dv by (subst int32_id) simp_all
  have "isDigit d" using d by (simp add: isDigit_def)
  then have "atoi_digits ((d # ds) @ c # rest) (int r) = atoi_digits (ds @ c # rest) (int ?r)"
    using i32 by simp
  also have "\<dots> = Inr (int (foldl (\<lambda>n d. n * 10 + digit_val d) ?r ds))"
    using Cons.IH [of ?r] Cons.prems by simp
  finally show ?case by simp
qed

lemma itoa_decimal: "itoa v 10 = Inr s \<Longrightarrow> set s \<subseteq> {48..57}"
proof (induction v "10 :: nat" arbitrary: s rule: itoa.induct)
  case (1 v)
  have d: "of_nat (v mod 10) + 48 \<in> {48..57 :: u8}" by (rule itoa_dec_digit) simp
  have IH: "48 \<le> x \<and> x \<le> 57" if "v div 10 \<noteq> 0" "itoa (v div 10) 10 = Inr t" "x \<in> set t" for t x
    using "1.hyps" [OF _ refl refl refl] that by (auto dest: subsetD)
  show ?case using "1.prems" d IH
    by (subst (asm) itoa.simps)
       (auto simp: Let_def andthen_eq_Inr_iff split: if_splits dest: subsetD)
qed

lemma atoi_itoa:
  assumes "itoa v 10 = Inr s" and "v < 2 ^ 31" and "\<not> isDigit c"
  shows "atoi_10 (s @ c # rest) = Inr (int v)"
    and "atoi_10 (45 # s @ c # rest) = Inr (- int v)"
proof -
  have s: "s \<noteq> []" "foldl (\<lambda>n d. n * 10 + digit_val d) 0 s = v"
    using itoa_total [of 10 v] assms(1) by (auto simp: digits_val_def)
  have ds: "set s \<subseteq> {48..57}" using itoa_decimal [OF assms(1)] .
  have val: "atoi_digits (s @ c # rest) 0 = Inr (int v)"
    using atoi_digits_value [OF ds assms(3), of 0 rest] assms(2) s(2) by simp
  obtain d ds where sd: "s = d # ds" using s(1) by (cases s) auto
  then have d: "d \<noteq> 32" "d \<noteq> 45" "d \<noteq> 43" using ds by auto
  show "atoi_10 (s @ c # rest) = Inr (int v)"
    using val d assms(2) unfolding sd by (simp add: atoi_10_def skip_blanks_none)
  show "atoi_10 (45 # s @ c # rest) = Inr (- int v)"
    using val assms(2) by (simp add: atoi_10_def skip_blanks_none)
qed


section \<open>Paths\<close>

lemma skip_spaces_run:
  "(\<And>j. i \<le> j \<Longrightarrow> j < k \<Longrightarrow> l ! j = 32) \<Longrightarrow> i \<le> k \<Longrightarrow> k < length l \<Longrightarrow> l ! k \<noteq> 32 \<Longrightarrow>
   k \<le> MAX_CMD_LENGTH \<Longrightarrow> skip_spaces l i = Inr k"
proof (induction l i rule: skip_spaces.induct)
  case (1 l i)
  show ?case
  proof (cases "i = k")
    case True
    then show ?thesis using "1.prems" by (subst skip_spaces.simps) simp
  next
    case False
    then have "l ! i = 32" "i < length l" "i < MAX_CMD_LENGTH" using "1.prems" by auto
    moreover have "skip_spaces l (i + 1) = Inr k"
      using "1.IH" [of "l ! i"] "1.prems" False calculation by auto
    ultimately show ?thesis by (subst skip_spaces.simps) simp
  qed
qed

text \<open>Copying the rest of a line behind what a path buffer holds.\<close>

lemma copy_rest_ok:
  "drop i l = w @ 0 # r \<Longrightarrow> 0 \<notin> set w \<Longrightarrow> i \<le> length l \<Longrightarrow> length b = MAX_PATH_LENGTH \<Longrightarrow>
   idx \<le> MAX_PATH_LENGTH - 1 \<Longrightarrow>
   copy_rest l i b idx =
     (let w = take (MAX_PATH_LENGTH - 1 - idx) w
      in Inr (take idx b @ w @ drop (idx + length w) b, idx + length w))"
proof (induction w arbitrary: i b idx)
  case Nil
  then have "i < length l" "l ! i = 0"
    by (auto simp: nth_via_drop intro: ccontr)
  then show ?case by (subst copy_rest.simps) simp
next
  case (Cons c w)
  have i: "i < length l" "l ! i = c"
    using Cons.prems(1) by (auto simp: nth_via_drop intro: ccontr)
  have d: "drop (Suc i) l = w @ 0 # r" using Cons.prems(1) by (metis drop_Suc list.sel(3) append_Cons tl_drop)
  have c: "c \<noteq> 0" using Cons.prems(2) by auto
  show ?case
  proof (cases "idx < MAX_PATH_LENGTH - 1")
    case True
    then have idx: "idx < length b" using Cons.prems(4) by simp
    have step: "copy_rest l i b idx = copy_rest l (i + 1) (b[idx := c]) (idx + 1)"
      using i c True idx by (subst copy_rest.simps) simp
    have suc: "MAX_PATH_LENGTH - 1 - idx = Suc (MAX_PATH_LENGTH - 1 - (idx + 1))"
      using True by simp
    have IH: "copy_rest l (i + 1) (b[idx := c]) (idx + 1) =
      (let w = take (MAX_PATH_LENGTH - 1 - (idx + 1)) w
       in Inr (take (idx + 1) (b[idx := c]) @ w @ drop (idx + 1 + length w) (b[idx := c]),
               idx + 1 + length w))"
      using Cons.prems True d i(1) by (intro Cons.IH) auto
    have t: "take (idx + 1) (b[idx := c]) = take idx b @ [c]"
      using idx by (simp add: take_Suc_conv_app_nth)
    show ?thesis unfolding step IH t suc Let_def by simp
  next
    case False
    then have "idx = MAX_PATH_LENGTH - 1" using Cons.prems(5) by simp
    then show ?thesis using i by (subst copy_rest.simps) simp
  qed
qed


text \<open>The current directory with its slash.\<close>

definition slashed :: "u8 list \<Rightarrow> u8 list" where
  "slashed p = (if last p = 47 then p else p @ [47])"

lemma slashed_no_zero: "0 \<notin> set p \<Longrightarrow> 0 \<notin> set (slashed p)"
  by (simp add: slashed_def)

lemma cwd_prefix_ok:
  assumes "terminated cwd" and "cstr cwd \<noteq> []" and "length (cstr cwd) < MAX_PATH_LENGTH - 1"
  shows "cwd_prefix cwd = Inr (slashed (cstr cwd) @
    replicate (MAX_PATH_LENGTH - length (slashed (cstr cwd))) 0, length (slashed (cstr cwd)))"
proof -
  define p where "p = cstr cwd"
  define b where "b = p @ replicate (MAX_PATH_LENGTH - length p) (0 :: u8)"
  have p: "p \<noteq> []" "length p < MAX_PATH_LENGTH - 1" "0 \<notin> set p"
    using assms by (simp_all add: p_def)
  have b0: "b = p @ 0 # replicate (MAX_PATH_LENGTH - Suc (length p)) 0"
    using p(2) unfolding b_def by (subst Suc_diff_Suc [symmetric]) (auto simp: replicate_Suc)
  have cp: "strcpy (replicate MAX_PATH_LENGTH 0) cwd = Inr b"
    using assms(1,3) unfolding b0 p_def by (simp add: strcpy_ok)
  have len: "strlen b = Inr (length p)"
    using p(3) unfolding b0 by (simp add: strlen_ok)
  have lb: "length b = MAX_PATH_LENGTH" using p(2) by (simp add: b_def)
  have lst: "b ! (length p - 1) = last p"
    using p(1) by (simp add: b_def nth_append last_conv_nth)
  have nz: "length p \<noteq> 0" using p(1) by simp
  show ?thesis unfolding p_def [symmetric]
  proof (cases "last p = 47")
    case True
    then show "cwd_prefix cwd = Inr (slashed p @ replicate (MAX_PATH_LENGTH - length (slashed p)) 0,
        length (slashed p))"
      using nz unfolding cwd_prefix_def cp andthen_Inr len lst
      by (simp add: slashed_def b_def)
  next
    case False
    have "b[length p := 47] = p @ 47 # replicate (MAX_PATH_LENGTH - Suc (length p)) 0"
      unfolding b0 by simp
    then show "cwd_prefix cwd = Inr (slashed p @ replicate (MAX_PATH_LENGTH - length (slashed p)) 0,
        length (slashed p))"
      using nz False p(2) lb unfolding cwd_prefix_def cp andthen_Inr len lst
      by (simp add: slashed_def)
  qed
qed

lemma full_path_ok:
  assumes cwd: "terminated cwd" "cstr cwd \<noteq> []" "length (cstr cwd) < MAX_PATH_LENGTH - 1"
    and line: "l = name @ replicate k 32 @ w @ 0 # r" "length l \<le> MAX_CMD_LENGTH"
    and w: "0 \<notin> set w" "w \<noteq> [] \<longrightarrow> hd w \<noteq> 32"
  shows "\<exists>b. full_path cwd l (length name) = Inr b \<and> length b = MAX_PATH_LENGTH \<and> terminated b \<and>
    cstr b = take (MAX_PATH_LENGTH - 1) (slashed (cstr cwd) @ w)"
proof -
  define p where "p = slashed (cstr cwd)"
  define i where "i = length name + k"
  define b where "b = p @ replicate (MAX_PATH_LENGTH - length p) (0 :: u8)"
  define v where "v = take (MAX_PATH_LENGTH - 1 - length p) w"
  have p: "length p \<le> MAX_PATH_LENGTH - 1" "0 \<notin> set p"
    using cwd(3) slashed_no_zero [of "cstr cwd"] by (auto simp: p_def slashed_def)
  have i: "i < length l" "drop i l = w @ 0 # r"
    unfolding i_def line(1) by simp_all
  have sk: "skip_spaces l (length name) = Inr i"
  proof (rule skip_spaces_run)
    show "l ! j = 32" if "length name \<le> j" "j < i" for j
      using that unfolding i_def line(1) by (auto simp: nth_append)
    have "l ! i = hd (w @ 0 # r)" using i by (metis hd_drop_conv_nth)
    then show "l ! i \<noteq> 32" using w(2) by (cases w) auto
    show "i \<le> MAX_CMD_LENGTH" using i(1) line(2) by simp
  qed (use i in \<open>simp_all add: i_def\<close>)
  have pre: "cwd_prefix cwd = Inr (b, length p)"
    using cwd_prefix_ok [OF cwd] by (simp add: p_def b_def)
  have lb: "length b = MAX_PATH_LENGTH" using p(1) by (simp add: b_def MAX_PATH_LENGTH_def)
  have cr: "copy_rest l i b (length p) =
    Inr (take (length p) b @ v @ drop (length p + length v) b, length p + length v)"
    using copy_rest_ok [OF i(2) w(1) _ lb p(1)] i(1) by (simp add: v_def Let_def)
  define n where "n = length p + length v"
  have n: "n < MAX_PATH_LENGTH"
    using p(1) unfolding n_def v_def MAX_PATH_LENGTH_def length_take by linarith
  have tb: "take (length p) b = p" by (simp add: b_def)
  have ld: "length (drop n b) = MAX_PATH_LENGTH - n" using lb by simp
  then obtain x xs where x: "drop n b = x # xs" using n by (cases "drop n b") auto
  have upd: "(p @ v @ drop n b)[n := 0] = p @ v @ 0 # xs"
    unfolding x by (simp add: n_def list_update_append)
  have total: "length (p @ v @ drop n b) = MAX_PATH_LENGTH"
    using ld n by (simp add: n_def)
  have res: "full_path cwd l (length name) = Inr (p @ v @ 0 # xs)"
    unfolding full_path_def sk andthen_Inr pre prod.case cr tb n_def [symmetric]
    using n total upd by simp
  have nz: "0 \<notin> set (p @ v)" using p(2) w(1) by (auto simp: v_def dest: in_set_takeD)
  have "cstr (p @ v @ 0 # xs) = p @ v"
    using cstr_append_zero [OF nz, of xs] by simp
  moreover have "p @ v = take (MAX_PATH_LENGTH - 1) (p @ w)"
    using p(1) by (simp add: v_def)
  moreover have "terminated (p @ v @ 0 # xs)"
    using terminated_append_zero [of "p @ v" xs] by simp
  moreover have "length (p @ v @ 0 # xs) = MAX_PATH_LENGTH"
    using total upd by (metis length_list_update)
  ultimately show ?thesis using res unfolding p_def by metis
qed


lemma dispatch_rm:
  assumes "l = [114, 109, 32] @ r" shows "dispatch l = [Rm, Rm]"
  unfolding assms by (simp add: dispatch_def starts_def)

lemma dispatch_rmdir:
  assumes "l = [114, 109, 100, 105, 114] @ r" shows "dispatch l = [Rmdir, Rm]"
  unfolding assms by (simp add: dispatch_def starts_def)

lemma dispatch_lsi:
  assumes "l = [108, 115, 105] @ r" shows "dispatch l = [Lsi, Ls]"
  unfolding assms by (simp add: dispatch_def starts_def)

section \<open>Properties\<close>



text \<open>the shell reads back the numbers the kernel prints: for every nonnegative \<^verbatim>\<open>int\<close> the
  digits \<^verbatim>\<open>itoa\<close> writes are read by \<^verbatim>\<open>atoi_10\<close> as the number, and as its negation behind a minus
  sign, whatever non-digit ends them.\<close>

theorem itoa_atoi:
  assumes "v < 2 ^ 31" and "\<not> isDigit c"
  shows "\<exists>s. itoa v 10 = Inr s \<and> atoi_10 (s @ c # rest) = Inr (int v) \<and>
    atoi_10 (45 # s @ c # rest) = Inr (- int v)"
  using itoa_total [of 10 v] atoi_itoa [OF _ assms] by auto

theorem itoa_atoi_witness:
  "\<exists>s. itoa 2025 10 = Inr s \<and> atoi_10 (s @ [0]) = Inr 2025 \<and> atoi_10 (45 # s @ [0]) = Inr (- 2025)"
  using itoa_atoi [of 2025 0 "[]"] by (simp add: isDigit_def)

text \<open>C39: the argument of a command names, with any number of spaces before it, the path below
  the current directory with exactly one slash between, cut off at 127 characters and always
  terminated inside the path buffer.\<close>

theorem full_path_meaning:
  assumes "terminated cwd" and "cstr cwd \<noteq> []" and "length (cstr cwd) < MAX_PATH_LENGTH - 1"
    and "l = name @ replicate k 32 @ w @ 0 # r" and "length l \<le> MAX_CMD_LENGTH"
    and "0 \<notin> set w" and "w \<noteq> [] \<longrightarrow> hd w \<noteq> 32"
  shows "\<exists>b. full_path cwd l (length name) = Inr b \<and> length b = MAX_PATH_LENGTH \<and> terminated b \<and>
    cstr b = take (MAX_PATH_LENGTH - 1) (slashed (cstr cwd) @ w)"
  using assms by (rule full_path_ok)

theorem full_path_meaning_witness:
  "\<exists>b. full_path [47, 97, 0] [114, 109, 32, 120, 0] (length [114 :: u8, 109]) = Inr b \<and> cstr b = [47, 97, 47, 120]"
  using full_path_meaning [of "[47, 97, 0]" "[114, 109, 32, 120, 0]" "[114, 109]" 1 "[120]" "[]"]
  by (auto simp: slashed_def MAX_PATH_LENGTH_def MAX_CMD_LENGTH_def cmd_len_def)

end
