(* ===== verification/CdSpec.thy ===== *)
theory CdSpec
  imports ShellTextSpec
begin

text \<open>
  What \<^verbatim>\<open>cd\<close> makes of its argument: the path walked component by component from the current
  directory, or from the root.
\<close>

section \<open>Walking\<close>

datatype item = Up | Name "u8 list"

fun item_text :: "item \<Rightarrow> u8 list" where
  "item_text Up = [46, 46]"
| "item_text (Name n) = n"

fun joined :: "item list \<Rightarrow> u8 list" where
  "joined [] = []"
| "joined [x] = item_text x"
| "joined (x # y # ys) = item_text x @ 47 # joined (y # ys)"

fun walk :: "u8 list list \<Rightarrow> item \<Rightarrow> u8 list list" where
  "walk ps Up = butlast ps"
| "walk ps (Name n) = ps @ [n]"

definition dir_text :: "u8 list list \<Rightarrow> u8 list" where
  "dir_text ps = 47 # concat (map (\<lambda>n. n @ [47]) ps)"

definition plain :: "u8 list \<Rightarrow> bool" where
  "plain n \<longleftrightarrow> n \<noteq> [] \<and> (\<forall>c \<in> set n. isChar c \<or> isDigit c)"

fun item_ok :: "item \<Rightarrow> bool" where
  "item_ok Up \<longleftrightarrow> True"
| "item_ok (Name n) \<longleftrightarrow> plain n"

lemma plain_chars: "isChar c \<or> isDigit c \<Longrightarrow> c \<noteq> 0 \<and> c \<noteq> 47 \<and> c \<noteq> 46 \<and> c \<noteq> 32"
  by (auto simp: isChar_def isDigit_def)

lemma dir_text_snoc: "dir_text (ps @ [n]) = dir_text ps @ n @ [47]"
  by (simp add: dir_text_def)

lemma dir_text_nonempty [simp]: "dir_text ps \<noteq> []" "0 < length (dir_text ps)"
  by (simp_all add: dir_text_def)

lemma dir_text_hd: "dir_text ps ! 0 = 47"
  by (simp add: dir_text_def)

lemma dir_text_last: "last (dir_text ps) = 47"
proof (cases ps rule: rev_cases)
  case Nil
  then show ?thesis by (simp add: dir_text_def)
qed (simp add: dir_text_snoc)

lemma slashed_dir_text: "slashed (dir_text ps) = dir_text ps"
  by (simp add: slashed_def dir_text_last)

lemma slashed_name: "plain n \<Longrightarrow> slashed (dir_text ps @ n) = dir_text (ps @ [n])"
  using plain_chars [of "last n"] by (auto simp: slashed_def plain_def dir_text_snoc)

lemma dir_text_no_zero: "\<forall>n \<in> set ps. plain n \<Longrightarrow> 0 \<notin> set (dir_text ps)"
proof (induction ps rule: rev_induct)
  case Nil
  then show ?case by (simp add: dir_text_def)
next
  case (snoc n ps)
  then have "0 \<notin> set n" using plain_chars [of 0] by (auto simp: plain_def)
  with snoc show ?case by (simp add: dir_text_snoc)
qed

section \<open>The loop\<close>

definition text_in :: "u8 list \<Rightarrow> nat \<Rightarrow> u8 list \<Rightarrow> bool" where
  "text_in b idx t \<longleftrightarrow> length b = MAX_PATH_LENGTH \<and> idx = length t \<and> take idx b = t"

lemma text_in_D:
  assumes "text_in b idx t"
  shows "length b = MAX_PATH_LENGTH" "idx = length t" "take idx b = t"
  using assms unfolding text_in_def by blast+

lemma text_in_nth: "text_in b idx t \<Longrightarrow> j < length t \<Longrightarrow> b ! j = t ! j"
  unfolding text_in_def by (metis nth_take)

lemma text_in_snoc:
  assumes "text_in b idx t" and "idx < MAX_PATH_LENGTH - 1"
  shows "wr b idx c = Inr (b[idx := c])" and "text_in (b[idx := c]) (idx + 1) (t @ [c])"
proof -
  have i: "idx < length b" using text_in_D [OF assms(1)] assms(2) by simp
  then show "wr b idx c = Inr (b[idx := c])" by simp
  show "text_in (b[idx := c]) (idx + 1) (t @ [c])"
    using text_in_D [OF assms(1)] i by (simp add: text_in_def take_Suc_conv_app_nth)
qed

lemma cd_name:
  "drop i l = n @ rest \<Longrightarrow> \<forall>c \<in> set n. isChar c \<or> isDigit c \<Longrightarrow> text_in b idx t \<Longrightarrow>
   idx + length n \<le> MAX_PATH_LENGTH - 1 \<Longrightarrow>
   \<exists>b'. cd_loop l i b idx = cd_loop l (i + length n) b' (idx + length n) \<and>
     text_in b' (idx + length n) (t @ n)"
proof (induction n arbitrary: i b idx t)
  case Nil
  then show ?case by auto
next
  case (Cons c n)
  have i: "i < length l" "l ! i = c"
    using Cons.prems(1) by (auto simp: nth_via_drop intro: ccontr)
  have d: "drop (i + 1) l = n @ rest"
    using Cons.prems(1) by (metis Suc_eq_plus1 drop_Suc list.sel(3) append_Cons tl_drop)
  have c: "isChar c \<or> isDigit c" "c \<noteq> 0" "c \<noteq> 47" "c \<noteq> 46"
    using Cons.prems(2) plain_chars [of c] by auto
  have idx: "idx < MAX_PATH_LENGTH - 1" using Cons.prems(4) by simp
  note w = text_in_snoc [OF Cons.prems(3) idx, of c]
  have step: "cd_loop l i b idx = cd_loop l (i + 1) (b[idx := c]) (idx + 1)"
    using i c idx w(1) by (subst cd_loop.simps) simp
  obtain b' where "cd_loop l (i + 1) (b[idx := c]) (idx + 1) =
      cd_loop l (i + 1 + length n) b' (idx + 1 + length n)"
    "text_in b' (idx + 1 + length n) ((t @ [c]) @ n)"
    using Cons.IH [OF d _ w(2)] Cons.prems(2,4) by auto
  then show ?case using step by auto
qed

lemma back_to_slash_stop:
  "(\<And>j. k < j \<Longrightarrow> j \<le> k + m \<Longrightarrow> b ! j \<noteq> 47) \<Longrightarrow> k = 0 \<or> b ! k = 47 \<Longrightarrow>
   back_to_slash b (k + m) = k"
proof (induction m)
  case 0
  then show ?case by (cases k) auto
next
  case (Suc m)
  have "b ! Suc (k + m) \<noteq> 47" using Suc.prems(1) [of "Suc (k + m)"] by simp
  then show ?case using Suc by simp
qed

lemma dotdot_ok:
  assumes "text_in b idx (dir_text ps)" and "\<forall>n \<in> set ps. plain n"
  shows "\<exists>b'. dotdot b idx = Inr (b', length (dir_text (butlast ps))) \<and>
    text_in b' (length (dir_text (butlast ps))) (dir_text (butlast ps))"
proof (cases ps rule: rev_cases)
  case Nil
  then show ?thesis using assms(1) text_in_D [OF assms(1)]
    by (simp add: dotdot_def dir_text_def)
next
  case (snoc qs n)
  define D where "D = length (dir_text qs)"
  have n: "plain n" using assms(2) snoc by simp
  then have len: "0 < length n" by (simp add: plain_def)
  have D: "0 < D" by (simp add: D_def)
  have t: "dir_text ps = dir_text qs @ n @ [47]" by (simp add: snoc dir_text_snoc)
  have idx: "idx = D + length n + 1" using text_in_D(2) [OF assms(1)] by (simp add: t D_def)
  have nth: "b ! j = (dir_text qs @ n @ [47]) ! j" if "j < D + length n + 1" for j
    using text_in_nth [OF assms(1), of j] that by (simp add: t D_def)
  have slash: "b ! (D - 1) = 47"
    using nth [of "D - 1"] D dir_text_last [of qs]
    by (simp add: nth_append D_def last_conv_nth)
  have name: "b ! j \<noteq> 47" if "D - 1 < j" "j \<le> D - 1 + length n" for j
  proof -
    have j: "D \<le> j" "j < D + length n" using that D by linarith+
    have "(dir_text qs @ n @ [47]) ! j = (n @ [47]) ! (j - D)"
      using j(1) by (simp add: nth_append D_def)
    also have "\<dots> = n ! (j - D)" using j by (simp add: nth_append less_diff_conv2)
    finally have "b ! j = n ! (j - D)" using nth [of j] j(2) by simp
    moreover have "n ! (j - D) \<in> set n" using that D by (intro nth_mem) linarith
    ultimately show ?thesis using n plain_chars by (metis plain_def)
  qed
  have "idx - 2 = (D - 1) + length n - 0" using idx D len by simp
  then have i2: "idx - 2 = (D - 1) + length n" by simp
  have bts: "back_to_slash b (idx - 2) = D - 1"
    unfolding i2 using name slash by (intro back_to_slash_stop) auto
  have tk: "text_in b D (dir_text qs)"
    using text_in_D [OF assms(1)] idx unfolding text_in_def D_def t
    by (metis (no_types) append_eq_conv_conj take_take min.absorb1 le_add1 add.assoc)
  have b0: "b ! 0 = 47" using nth [of 0] dir_text_hd [of qs] D by (simp add: nth_append D_def)
  have lb: "0 < length b" using text_in_D(1) [OF assms(1)] by (simp add: MAX_PATH_LENGTH_def)
  have "dotdot b idx = Inr (b, D)"
  proof (cases "D = 1")
    case True
    have "b[0 := 47] = b" using b0 by (metis list_update_id)
    then show ?thesis using True bts lb idx len by (simp add: dotdot_def)
  next
    case False
    then show ?thesis using bts D idx len by (simp add: dotdot_def)
  qed
  then show ?thesis using tk by (auto simp: snoc D_def)
qed


lemma drop_append_at: "drop i l = xs @ ys \<Longrightarrow> drop (i + length xs) l = ys"
  by (metis append_eq_conv_conj drop_drop add.commute)

text \<open>One item, and the slash behind it.\<close>

lemma cd_item:
  assumes d: "drop i l = item_text x @ rest" "i < length l" "item_ok x"
    and t: "text_in b idx (dir_text ps)" "\<forall>n \<in> set ps. plain n"
    and len: "idx + length (item_text x) \<le> MAX_PATH_LENGTH - 1"
  shows "\<exists>b' idx' t. cd_loop l i b idx = cd_loop l (i + length (item_text x)) b' idx' \<and>
    text_in b' idx' t \<and> slashed t = dir_text (walk ps x) \<and> idx' \<le> idx + length (item_text x) \<and>
    t ! 0 = 47 \<and> t \<noteq> []"
  (is "\<exists>b' idx' t. ?P b' idx' t")
proof (cases x)
  case (Name n)
  have n: "plain n" using d(3) Name by simp
  obtain b' where "cd_loop l i b idx = cd_loop l (i + length n) b' (idx + length n)"
    "text_in b' (idx + length n) (dir_text ps @ n)"
    using cd_name [of i l n rest b idx "dir_text ps"] d(1) t(1) len n Name
    by (auto simp: plain_def)
  moreover have "(dir_text ps @ n) ! 0 = 47" using dir_text_hd [of ps] by (simp add: nth_append)
  ultimately show ?thesis using slashed_name [OF n, of ps] Name
    by (intro exI [of _ b'] exI [of _ "idx + length n"] exI [of _ "dir_text ps @ n"]) simp
next
  case Up
  have c: "l ! i = 46" using d(1,2) Up by (simp add: nth_via_drop)
  have "drop (i + 1) l = 46 # rest"
    using d(1) Up by (metis Suc_eq_plus1 drop_Suc item_text.simps(1) append_Cons append_Nil list.sel(3) tl_drop)
  then have i1: "i + 1 < length l" "l ! (i + 1) = 46"
    by (auto simp: nth_via_drop intro: ccontr)
  obtain b' where b': "dotdot b idx = Inr (b', length (dir_text (butlast ps)))"
    "text_in b' (length (dir_text (butlast ps))) (dir_text (butlast ps))"
    using dotdot_ok [OF t] by blast
  have idx: "idx < MAX_PATH_LENGTH - 1" using len Up by simp
  have "cd_loop l i b idx = cd_loop l (i + 2) b' (length (dir_text (butlast ps)))"
    using c d(2) i1 idx b'(1) by (subst cd_loop.simps) simp
  moreover have "length (dir_text (butlast ps)) \<le> idx + 2"
  proof (cases ps rule: rev_cases)
    case (snoc qs n)
    then show ?thesis using text_in_D(2) [OF t(1)] by (simp add: dir_text_snoc)
  qed (use text_in_D(2) [OF t(1)] in simp)
  ultimately show ?thesis using b'(2) Up dir_text_hd [of "butlast ps"]
    by (intro exI [of _ b'] exI [of _ "length (dir_text (butlast ps))"]
      exI [of _ "dir_text (butlast ps)"]) (simp add: slashed_dir_text)
qed

lemma cd_slash:
  assumes "i < length l" "l ! i = 47" and t: "text_in b idx t" "t ! 0 = 47" "t \<noteq> []"
    and len: "idx < MAX_PATH_LENGTH - 1"
  shows "\<exists>b' idx'. cd_loop l i b idx = cd_loop l (i + 1) b' idx' \<and>
    text_in b' idx' (slashed t) \<and> idx' \<le> idx + 1"
proof (cases "last t = 47")
  case True
  have "b ! (idx - 1) = 47"
    using text_in_nth [OF t(1), of "idx - 1"] text_in_D(2) [OF t(1)] t(3) True
    by (simp add: last_conv_nth)
  then have "cd_loop l i b idx = cd_loop l (i + 1) b idx"
    using assms(1,2) len by (subst cd_loop.simps) simp
  then show ?thesis using t(1) True
    by (intro exI [of _ b] exI [of _ idx]) (simp add: slashed_def)
next
  case False
  have "b ! (idx - 1) \<noteq> 47"
    using text_in_nth [OF t(1), of "idx - 1"] text_in_D(2) [OF t(1)] t(3) False
    by (simp add: last_conv_nth)
  moreover have "idx \<noteq> 1"
  proof
    assume "idx = 1"
    then have "length t = 1" using text_in_D(2) [OF t(1)] by simp
    then show False using False t(2,3) by (metis One_nat_def diff_Suc_1 last_conv_nth)
  qed
  moreover have "0 < idx" using text_in_D(2) [OF t(1)] t(3) by simp
  ultimately have "cd_loop l i b idx = cd_loop l (i + 1) (b[idx := 47]) (idx + 1)"
    using assms(1,2) len text_in_snoc(1) [OF t(1) len] by (subst cd_loop.simps) simp
  then show ?thesis using text_in_snoc(2) [OF t(1) len, of 47] False
    by (intro exI [of _ "b[idx := 47]"] exI [of _ "idx + 1"]) (simp add: slashed_def)
qed

lemma cd_end:
  assumes "i < length l" "l ! i = 0"
  shows "cd_loop l i b idx = Inr (b, idx, True)"
  using assms by (subst cd_loop.simps) simp

lemma walk_plain: "\<forall>n \<in> set ps. plain n \<Longrightarrow> item_ok x \<Longrightarrow> \<forall>n \<in> set (walk ps x). plain n"
  by (cases x) (auto dest: in_set_butlastD)

lemma cd_items:
  "drop i l = joined items @ 0 # r \<Longrightarrow> i < length l \<Longrightarrow> \<forall>x \<in> set items. item_ok x \<Longrightarrow>
   text_in b idx (dir_text ps) \<Longrightarrow> \<forall>n \<in> set ps. plain n \<Longrightarrow>
   idx + length (joined items) < MAX_PATH_LENGTH - 1 \<Longrightarrow>
   \<exists>b' idx' t. cd_loop l i b idx = Inr (b', idx', True) \<and> text_in b' idx' t \<and>
     slashed t = dir_text (foldl walk ps items) \<and> idx' < MAX_PATH_LENGTH - 1"
proof (induction items arbitrary: i b idx ps rule: joined.induct)
  case 1
  then have "l ! i = 0" by (simp add: nth_via_drop)
  then show ?case using 1 cd_end [of i l b idx]
    by (intro exI [of _ b] exI [of _ idx] exI [of _ "dir_text ps"]) (simp add: slashed_dir_text)
next
  case (2 x)
  obtain b' idx' t where s: "cd_loop l i b idx = cd_loop l (i + length (item_text x)) b' idx'"
    "text_in b' idx' t" "slashed t = dir_text (walk ps x)" "idx' \<le> idx + length (item_text x)"
    using cd_item [of i l x "0 # r" b idx ps] 2(1-6) by fastforce
  have d: "drop (i + length (item_text x)) l = 0 # r"
    using drop_append_at [of i l "item_text x"] 2(1) by simp
  then have "i + length (item_text x) < length l" by (auto intro: ccontr)
  moreover have "l ! (i + length (item_text x)) = 0" using d by (simp add: nth_via_drop)
  ultimately have "cd_loop l i b idx = Inr (b', idx', True)"
    using s(1) cd_end [of "i + length (item_text x)" l b' idx'] by simp
  then show ?case using s(2-4) 2(6)
    by (intro exI [of _ b'] exI [of _ idx'] exI [of _ t]) simp
next
  case (3 x y ys)
  let ?k = "i + length (item_text x)"
  obtain b' idx' t where s: "cd_loop l i b idx = cd_loop l ?k b' idx'"
    "text_in b' idx' t" "slashed t = dir_text (walk ps x)" "idx' \<le> idx + length (item_text x)"
    "t ! 0 = 47" "t \<noteq> []"
    using cd_item [of i l x "47 # joined (y # ys) @ 0 # r" b idx ps] 3(2-7) by fastforce
  have d: "drop ?k l = 47 # joined (y # ys) @ 0 # r"
    using drop_append_at [of i l "item_text x"] 3(2) by simp
  then have k: "?k < length l" "l ! ?k = 47" by (auto simp: nth_via_drop intro: ccontr)
  have d1: "drop (?k + 1) l = joined (y # ys) @ 0 # r"
    using d by (metis Suc_eq_plus1 drop_Suc list.sel(3) tl_drop)
  have k1: "?k + 1 < length l"
  proof (rule ccontr)
    assume "\<not> ?k + 1 < length l"
    then show False using d1 by simp
  qed
  have "idx' < MAX_PATH_LENGTH - 1" using s(4) 3(7) by simp
  from cd_slash [OF k s(2,5,6) this] obtain b2 idx2 where
    s2: "cd_loop l ?k b' idx' = cd_loop l (?k + 1) b2 idx2" "text_in b2 idx2 (slashed t)"
      "idx2 \<le> idx' + 1"
    by blast
  have "\<exists>b3 idx3 t3. cd_loop l (?k + 1) b2 idx2 = Inr (b3, idx3, True) \<and> text_in b3 idx3 t3 \<and>
     slashed t3 = dir_text (foldl walk (walk ps x) (y # ys)) \<and> idx3 < MAX_PATH_LENGTH - 1"
  proof (rule 3(1) [OF d1 k1])
    show "text_in b2 idx2 (dir_text (walk ps x))" using s2(2) s(3) by simp
    show "\<forall>n \<in> set (walk ps x). plain n" using walk_plain [OF 3(6), of x] 3(4) by simp
    show "idx2 + length (joined (y # ys)) < MAX_PATH_LENGTH - 1"
      using s2(3) s(4) 3(7) by simp
  qed (use 3(4) in simp)
  then show ?case using s(1) s2(1) by simp
qed


section \<open>The whole command\<close>

definition arg_text :: "bool \<Rightarrow> item list \<Rightarrow> u8 list" where
  "arg_text absolute items = (if absolute then [47] else []) @ joined items"

lemma item_text_hd: "item_ok x \<Longrightarrow> item_text x \<noteq> [] \<and> hd (item_text x) \<noteq> 32 \<and>
    hd (item_text x) \<noteq> 0 \<and> hd (item_text x) \<noteq> 47"
proof (cases x)
  case (Name n)
  assume "item_ok x"
  then have "n \<noteq> []" "isChar (hd n) \<or> isDigit (hd n)" using Name by (auto simp: plain_def)
  then show ?thesis using plain_chars [of "hd n"] Name by simp
qed simp

lemma joined_hd:
  assumes "\<forall>x \<in> set items. item_ok x" and "items \<noteq> []"
  shows "joined items \<noteq> [] \<and> hd (joined items) \<notin> {32, 0, 47}"
  using assms item_text_hd [of "hd items"] by (cases items rule: joined.cases) auto

lemma text_in_slashed:
  assumes "text_in b idx t" and "idx < MAX_PATH_LENGTH - 1" and "0 \<notin> set t"
  shows "\<exists>b'. wr b idx 0 = Inr b' \<and> terminated b' \<and> cstr b' = t"
proof -
  have i: "idx < length b" using text_in_D [OF assms(1)] assms(2) by simp
  have "b[idx := 0] = t @ 0 # drop (Suc idx) b"
    unfolding upd_conv_take_nth_drop [OF i] text_in_D(3) [OF assms(1)] ..
  then show ?thesis using i assms(3) by simp
qed

lemma foldl_walk_plain:
  "\<forall>n \<in> set ps. plain n \<Longrightarrow> \<forall>x \<in> set items. item_ok x \<Longrightarrow>
   \<forall>n \<in> set (foldl walk ps items). plain n"
proof (induction items arbitrary: ps)
  case (Cons x items)
  have "item_ok x" "\<forall>x \<in> set items. item_ok x" using Cons.prems(2) by simp_all
  from Cons.IH [OF walk_plain [OF Cons.prems(1) this(1)] this(2)] show ?case by simp
qed simp

lemma slashed_zero: "0 \<notin> set (slashed t) \<Longrightarrow> 0 \<notin> set t"
  by (auto simp: slashed_def split: if_splits)

lemma cd_start:
  assumes "terminated cwd" "slashed (cstr cwd) = dir_text ps" "cstr cwd \<noteq> []"
    and "length (dir_text ps) < MAX_PATH_LENGTH - 1"
  shows "\<exists>b idx. cwd_prefix cwd = Inr (b, idx) \<and> text_in b idx (dir_text ps)"
proof -
  have "length (cstr cwd) \<le> length (dir_text ps)"
    unfolding assms(2) [symmetric] by (simp add: slashed_def)
  then have "length (cstr cwd) < MAX_PATH_LENGTH - 1" using assms(4) by simp
  from cwd_prefix_ok [OF assms(1,3) this] show ?thesis
    using assms(2,4) by (simp add: text_in_def)
qed

lemma cd_path_ok:
  assumes cwd: "terminated cwd" "slashed (cstr cwd) = dir_text ps" "cstr cwd \<noteq> []"
    "\<forall>n \<in> set ps. plain n"
    and items: "\<forall>x \<in> set items. item_ok x" "absolute \<or> items \<noteq> []"
    and line: "l = c1 # c2 # replicate k 32 @ arg_text absolute items @ 0 # r"
      "length l \<le> MAX_CMD_LENGTH"
    and len: "length (dir_text ps) + length (joined items) < MAX_PATH_LENGTH - 1"
  shows "\<exists>b. cd_path cwd l = Inr (Some (b, True)) \<and> terminated b \<and>
    slashed (cstr b) = dir_text (foldl walk (if absolute then [] else ps) items)"
proof -
  define i where "i = 2 + k"
  define c where "c = hd (arg_text absolute items)"
  have c: "arg_text absolute items \<noteq> []" "c \<noteq> 32" "c \<noteq> 0" "c = 47 \<longleftrightarrow> absolute"
    using joined_hd [OF items(1)] items(2) by (auto simp: arg_text_def c_def)
  have d: "drop i l = arg_text absolute items @ 0 # r" unfolding i_def line(1) by simp
  have i: "i < length l" unfolding i_def line(1) by simp
  have li: "l ! i = c" using d i c(1) unfolding c_def by (metis hd_append2 hd_drop_conv_nth)
  have sk: "skip_spaces l 2 = Inr i"
  proof (rule skip_spaces_run)
    show "l ! j = 32" if "2 \<le> j" "j < i" for j
      using that unfolding i_def line(1) by (auto simp: nth_append nth_Cons split: nat.splits)
    show "l ! i \<noteq> 32" using li c(2) by simp
    show "i \<le> MAX_CMD_LENGTH" using i line(2) by simp
  qed (use i in \<open>simp_all add: i_def\<close>)
  define ps' where "ps' = (if absolute then [] else ps)"
  have short: "length (dir_text ps') \<le> length (dir_text ps)" by (simp add: ps'_def dir_text_def)
  obtain b idx j where start: "(if c = 47 then Inr ((replicate MAX_PATH_LENGTH 0)[0 := 47], 1, i + 1)
      else andthen (cwd_prefix cwd) (\<lambda>(b, idx). Inr (b, idx, i))) = Inr (b, idx, j)"
    "text_in b idx (dir_text ps')" "drop j l = joined items @ 0 # r" "j < length l"
  proof (cases absolute)
    case True
    have "text_in ((replicate MAX_PATH_LENGTH 0)[0 := 47]) 1 (dir_text ps')"
      using True by (simp add: text_in_def ps'_def dir_text_def take_Suc_conv_app_nth MAX_PATH_LENGTH_def)
    moreover have "drop (i + 1) l = joined items @ 0 # r"
      using drop_append_at [of i l "[47]"] d True by (simp add: arg_text_def)
    moreover have "i + 1 < length l"
    proof (rule ccontr)
      assume "\<not> i + 1 < length l"
      then show False using \<open>drop (i + 1) l = joined items @ 0 # r\<close> by simp
    qed
    ultimately show ?thesis using True c(4) by (intro that) auto
  next
    case False
    obtain b idx where "cwd_prefix cwd = Inr (b, idx)" "text_in b idx (dir_text ps)"
      using cd_start [OF cwd(1-3)] len by auto
    then show ?thesis using False c(4) d i
      by (intro that [of b idx i]) (auto simp: ps'_def arg_text_def)
  qed
  have pl: "\<forall>n \<in> set ps'. plain n" using cwd(4) by (simp add: ps'_def)
  have "idx + length (joined items) < MAX_PATH_LENGTH - 1"
    using text_in_D(2) [OF start(2)] short len by simp
  from cd_items [OF start(3,4) items(1) start(2) pl this] obtain b' idx' t where
    e: "cd_loop l j b idx = Inr (b', idx', True)" "text_in b' idx' t"
    "slashed t = dir_text (foldl walk ps' items)" "idx' < MAX_PATH_LENGTH - 1"
    by blast
  have "0 \<notin> set t"
    using e(3) dir_text_no_zero [OF foldl_walk_plain [OF pl items(1)]] slashed_zero [of t] by simp
  from text_in_slashed [OF e(2,4) this] obtain b2 where
    b2: "wr b' idx' 0 = Inr b2" "terminated b2" "cstr b2 = t"
    by blast
  have "rd l i = Inr c" using i li by simp
  then have "cd_path cwd l = Inr (Some (b2, True))"
    unfolding cd_path_def sk andthen_Inr using c(3) start(1) e(1) b2(1) by simp
  then show ?thesis using b2(2,3) e(3) by (auto simp: ps'_def)
qed


section \<open>Properties\<close>

text \<open>C22: for every current directory and every argument built from plain names and \<^verbatim>\<open>..\<close>,
  relative or from the root, the path \<^verbatim>\<open>cd\<close> asks for is the directory reached by walking the
  argument component by component: a name goes down, \<^verbatim>\<open>..\<close> goes up and stays at the root.\<close>

theorem cd_path_walk:
  assumes "terminated cwd" and "slashed (cstr cwd) = dir_text ps" and "cstr cwd \<noteq> []"
    and "\<forall>n \<in> set ps. plain n"
    and "\<forall>x \<in> set items. item_ok x" and "absolute \<or> items \<noteq> []"
    and "l = c1 # c2 # replicate k 32 @ arg_text absolute items @ 0 # r"
    and "length l \<le> MAX_CMD_LENGTH"
    and "length (dir_text ps) + length (joined items) < MAX_PATH_LENGTH - 1"
  shows "\<exists>b. cd_path cwd l = Inr (Some (b, True)) \<and> terminated b \<and>
    slashed (cstr b) = dir_text (foldl walk (if absolute then [] else ps) items)"
  using assms by (rule cd_path_ok)

text \<open>\<^verbatim>\<open>cd ../b\<close> in \<^verbatim>\<open>/a\<close>.\<close>

theorem cd_path_walk_witness:
  "\<exists>b. cd_path [47, 97, 0] [99, 100, 32, 46, 46, 47, 98, 0] = Inr (Some (b, True)) \<and>
     slashed (cstr b) = [47, 98, 47]"
  using cd_path_walk [of "[47, 97, 0]" "[[97]]" "[Up, Name [98]]" False
    "[99, 100, 32, 46, 46, 47, 98, 0]" 99 100 1 "[]"]
  by (auto simp: slashed_def dir_text_def plain_def isChar_def arg_text_def MAX_PATH_LENGTH_def
    MAX_CMD_LENGTH_def cmd_len_def)

end
