(* ===== verification/ShellSpec.thy ===== *)
theory ShellSpec
  imports Shell OpenFile CdSpec
begin

text \<open>
  The shell together with the file system: \<^verbatim>\<open>cat\<close> ends and prints the file, and a turn of the
  shell's loop keeps the history of the lines.
\<close>

section \<open>Printing a file to its end\<close>

lemma cat_loop_ok:
  "open_at s fd g h p \<Longrightarrow> whole_file s h i \<Longrightarrow> p \<le> i_size i \<Longrightarrow>
   cat_loop t fd out s =
     Some (Inr (out @ filter (\<lambda>c. c \<noteq> 0) (fbytes s i p (i_size i)), moved s g (i_size i)))"
proof (induction "i_size i - p" arbitrary: s p out rule: less_induct)
  case less
  have step: "user_file_read t fd 200 s =
    (if p < i_size i
     then Inr (int (min 200 (i_size i - p)), fbytes s i p (p + min 200 (i_size i - p)),
               moved s g (p + min 200 (i_size i - p)))
     else Inr (-4, [], s))"
    by (rule read_step [OF less.prems(1,2)]) simp_all
  show ?case
  proof (cases "p < i_size i")
    case False
    then have "p = i_size i" using less.prems(3) by simp
    then show ?thesis using step moved_same [OF less.prems(1)]
      by (subst cat_loop.simps) (simp add: fbytes_def)
  next
    case True
    define m where "m = min 200 (i_size i - p)"
    have m: "0 < m" "p + m \<le> i_size i" using True by (auto simp: m_def)
    have read: "user_file_read t fd 200 s = Inr (int m, fbytes s i p (p + m), moved s g (p + m))"
      using step True by (simp add: m_def)
    have g: "g < length (file_table s)" using less.prems(1) by (simp add: open_at_def)
    let ?out = "out @ filter (\<lambda>c. c \<noteq> 0) (fbytes s i p (p + m))"
    have IH: "cat_loop t fd ?out (moved s g (p + m)) =
      Some (Inr (?out @ filter (\<lambda>c. c \<noteq> 0) (fbytes (moved s g (p + m)) i (p + m) (i_size i)),
        moved (moved s g (p + m)) g (i_size i)))"
      by (rule less.hyps [OF _ open_at_moved [OF less.prems(1)]]) (use m less.prems(2) in simp_all)
    have "cat_loop t fd out s = cat_loop t fd ?out (moved s g (p + m))"
      using read by (subst cat_loop.simps) simp
    then show ?thesis
      using IH fbytes_append [of p "p + m" "i_size i" s i] m(2) moved_moved [OF g]
      by (simp flip: filter_append)
  qed
qed


section \<open>A turn of the shell\<close>

lemma in_thread_history:
  "in_thread f sh = Inr (out, go_on, sh') \<Longrightarrow> cmd_history sh' = cmd_history sh"
  by (auto simp: in_thread_def andthen_eq_Inr_iff)

lemma run_command_history:
  assumes "\<And>c sh out go_on sh'. other c l sh = Inr (out, go_on, sh') \<Longrightarrow> cmd_history sh' = cmd_history sh"
    and "run_command other t c l sh = Inr (out, go_on, sh')"
  shows "cmd_history sh' = cmd_history sh"
  using assms(2)
  by (cases c)
     (auto simp: run_command_def andthen_eq_Inr_iff split: option.splits
       dest: in_thread_history assms(1))

lemma run_commands_history:
  assumes "\<And>c sh out go_on sh'. other c l sh = Inr (out, go_on, sh') \<Longrightarrow> cmd_history sh' = cmd_history sh"
  shows "run_commands other t cs l sh = Inr (out, go_on, sh') \<Longrightarrow> cmd_history sh' = cmd_history sh"
proof (induction cs arbitrary: sh out)
  case (Cons c cs)
  obtain out1 go1 sh1 where c: "run_command other t c l sh = Inr (out1, go1, sh1)"
    using Cons.prems by (auto simp: andthen_eq_Inr_iff)
  have "cmd_history sh1 = cmd_history sh" by (rule run_command_history [OF assms c])
  then show ?case using Cons.prems Cons.IH [of sh1] c
    by (auto simp: andthen_eq_Inr_iff split: if_splits)
qed simp

text \<open>Editing a line keeps the lines of the history and makes a line without backspaces.\<close>

lemma edited_lines:
  "edited l h keys = Some (l', rest, h') \<Longrightarrow> lines_ok h \<Longrightarrow> 8 \<notin> set l \<Longrightarrow>
   lines_ok h' \<and> commands h' = commands h \<and> 8 \<notin> set l'"
proof (induction keys arbitrary: l h)
  case (Cons c ks)
  show ?case
  proof (cases "c = 0x80 \<or> c = 0x81")
    case True
    define g where "g = (if c = 0x80 then history_get_prev h else history_get_next h)"
    have ed: "edited l h (c # ks) = (if cmd_len \<le> length l then None else case g of
              Inl _ \<Rightarrow> None
            | Inr (h, None) \<Rightarrow> edited l h ks
            | Inr (h, Some e) \<Rightarrow> edited (cstr e) h ks)"
      using True by (auto simp: g_def)
    obtain h1 p where g: "g = Inr (h1, p)"
      using ed Cons.prems(1) by (cases g) (auto split: if_splits)
    have same: "commands h1 = commands h"
      using g history_get_prev_ok [of h] history_get_next_ok [of h] Cons.prems(2)
      by (auto simp: g_def commands_def lines_ok_def split: if_splits)
    show ?thesis
    proof (cases p)
      case None
      have "lines_ok h1" using get_none [OF Cons.prems(2), of "c = 0x80"] g None by (auto simp: g_def)
      then show ?thesis using Cons.IH [of l h1] ed g None Cons.prems same by (auto split: if_splits)
    next
      case (Some e)
      have "lines_ok h1" "8 \<notin> set (cstr e)"
        using get_line [OF Cons.prems(2), of "c = 0x80"] g Some by (auto simp: g_def)
      then show ?thesis using Cons.IH [of "cstr e" h1] ed g Some Cons.prems same
        by (auto split: if_splits)
    qed
  next
    case False
    then show ?thesis
      using Cons.IH [of "butlast l" h] Cons.IH [of "l @ [c]" h] Cons.prems
      by (auto split: if_splits dest: in_set_butlastD)
  qed
qed simp


lemma shell_turn_ok:
  assumes other: "\<And>c l sh out go_on sh'. other c l sh = Inr (out, go_on, sh') \<Longrightarrow>
      cmd_history sh' = cmd_history sh"
    and ok: "lines_ok (cmd_history sh)" "0 \<notin> set keys" "length blk = cmd_len"
    and line: "edited [] (cmd_history sh) keys = Some (l, rest, h)" "l \<noteq> []"
    and turn: "my_shell_turn other t (Some blk) keys sh = Inr (out, keys', True, sh')"
  shows "keys' = rest \<and> lines_ok (cmd_history sh') \<and>
    commands (cmd_history sh') = take 10 (l # commands (cmd_history sh))"
proof -
  obtain b where b: "readline (replicate cmd_len 0) 0 cmd_len (cmd_history sh) keys = Inr (b, rest, h)"
    "terminated b" "cstr b = l" "length b = cmd_len"
    using readline_edited [of "replicate cmd_len 0" 0 "[]" "cmd_history sh" keys l rest h] ok line(1)
    by (auto simp: holds_def)
  have h: "lines_ok h" "commands h = commands (cmd_history sh)" "8 \<notin> set l"
    using edited_lines [OF line(1) ok(1)] by auto
  have b0: "b ! 0 \<noteq> 0" using b(3,4) line(2) by (cases b) (auto split: if_splits)
  obtain out1 sh1 where r: "run_commands other t (dispatch b) b (sh\<lparr>cmd_history := h\<rparr>) = Inr (out1, True, sh1)"
    "andthen (history_push (cmd_history sh1) b (Some blk)) (\<lambda>h'. Inr (h', rest, sh1\<lparr>cmd_history := h'\<rparr>))
      = Inr (cmd_history sh', keys', sh')"
    using turn b(1) b0
    by (auto simp: my_shell_turn_def andthen_eq_Inr_iff Let_def split: if_splits)
  have c: "cmd_history sh1 = h" using run_commands_history [OF other r(1)] by simp
  have "length (cstr b) < cmd_len" using terminated_length [OF b(2)] b(4) by simp
  then obtain h2 where h2: "history_push h b (Some blk) = Inr h2" "history_ok h2"
    "commands h2 = take 10 (cstr b # commands h)"
    using history_push_ok [of h blk b] h(1) ok(3) b(2) by (auto simp: lines_ok_def)
  have "8 \<notin> set e" if "e \<in> set (commands h2)" for e
  proof -
    have "e \<in> set (l # commands h)" using that h2(3) b(3) by (auto dest: in_set_takeD)
    then show ?thesis using h(1,3) by (auto simp: lines_ok_def commands_def)
  qed
  then have "lines_ok h2" using h2(2) by (simp add: lines_ok_def commands_def)
  then show ?thesis using r(2) c h2(1,3) h(2) b(3) by simp
qed

definition sample_shell :: shell where
  "sample_shell = \<lparr>cwd_cache = 47 # replicate 63 0, cmd_history = history_init, sh_fs = sample_fs\<rparr>"

section \<open>What the shell prints\<close>

lemma directives_text:
  "0 \<notin> set xs \<Longrightarrow> 37 \<notin> set xs \<Longrightarrow>
   directives (xs @ f) = map_option (\<lambda>ds. map Lit xs @ ds) (directives f)"
proof (induction xs)
  case Nil
  show ?case by (cases "directives f") simp_all
next
  case (Cons c xs)
  then show ?case by (cases "directives f") (auto simp: directives.simps)
qed

lemma render_text: "render (map Lit xs @ ds) args = xs @ render ds args"
  by (induction xs) simp_all

lemma typed_text: "0 \<notin> set xs \<Longrightarrow> typed ds args \<Longrightarrow> typed (map Lit xs @ ds) args"
  by (induction xs) (auto intro: typed.lit)

lemma prompt_text:
  "text_of ''[user&localhost %s]$ '' @ [0] = text_of ''[user&localhost '' @ 37 # 115 # text_of '']$ '' @ [0]"
  by (simp add: text_of_def)

lemma prompt_ok:
  assumes "terminated cwd" and "length (cstr cwd) < 128"
  shows "print_prompt cwd = Inr (text_of ''[user&localhost '' @ cstr cwd @ text_of '']$ '')"
proof -
  let ?a = "text_of ''[user&localhost ''" and ?b = "text_of '']$ ''"
  let ?ds = "map Lit ?a @ Str # map Lit ?b @ []"
  have nz: "0 \<notin> set ?a" "37 \<notin> set ?a" "0 \<notin> set ?b" "37 \<notin> set ?b"
    by (simp_all add: text_of_def)
  have "directives (37 # 115 # ?b @ [0]) = Some (Str # map Lit ?b @ [])"
    using directives_text [OF nz(3,4), of "[0]"]
    by (simp add: directives.simps parse_padding_def)
  then have d: "directives (?a @ 37 # 115 # ?b @ [0]) = Some ?ds"
    using directives_text [OF nz(1,2)] by simp
  have t: "typed ?ds [Ptr cwd]"
    by (intro typed_text nz typed.str typed.nil assms(1))
  have r: "render ?ds [Ptr cwd] = ?a @ cstr cwd @ ?b @ []"
    by (simp only: render_text render.simps)
  have "length (render ?ds [Ptr cwd]) < 256"
    using assms(2) unfolding r by (simp add: text_of_def)
  from printf_typed [OF d t this] show ?thesis
    unfolding print_prompt_def prompt_text r by simp
qed

section \<open>Properties\<close>


definition cat_fs :: fs where
  "cat_fs = sample_fs\<lparr>fd_table := [0, 1, 2, 5, -1, -1, -1, -1],
     file_table := (replicate 32 \<lparr>fd_pos = 0, fd_flag = 0, fd_inode = Nothing\<rparr>)
       [5 := \<lparr>fd_pos = 0, fd_flag = 0, fd_inode = Inode_at 1\<rparr>]\<rparr>"




end
