(* ===== verification/Editor.thy ===== *)
theory Editor
  imports CString FsBase
begin

text \<open>
  \<^verbatim>\<open>kernel/editor/editor.c\<close>: the screen editor's buffer, its lines, and what each key does.

  The counters are \<^verbatim>\<open>uint32_t\<close>, kept as naturals below \<open>2 ^ 32\<close> with their sums and
  differences reduced by \<open>u\<close>; \<^verbatim>\<open>display_start_line\<close> and \<^verbatim>\<open>display_end_line\<close> are \<^verbatim>\<open>int\<close>.
  The text is the \<^verbatim>\<open>BUF_SIZE\<close> bytes of \<^verbatim>\<open>content\<close>.  The page of \<^verbatim>\<open>line_offsets\<close> is freed and
  taken again by every \<^verbatim>\<open>split_lines\<close>, so the table of 1024 words is fresh and zero each time.
  What is drawn on the screen is left out, but for the text \<open>display_content\<close> prints.
\<close>

section \<open>The buffer\<close>

definition BUF_SIZE :: nat where
  "BUF_SIZE = 20 * 4096"

record editor_buf =
  size :: nat
  capacity :: nat
  cursor_x :: nat
  cursor_y :: nat
  pos :: nat
  display_start_line :: int
  display_end_line :: int
  line_count :: nat
  line_offsets :: "nat list"
  edit_mode :: bool
  content :: "u8 list"

definition u :: "int \<Rightarrow> nat" where
  "u z = nat (z mod 2 ^ 32)"

lemma u_nat [simp]: "n < 2 ^ 32 \<Longrightarrow> u (int n) = n"
  by (simp add: u_def)

lemma u_range [simp]: "0 \<le> z \<Longrightarrow> z < 2 ^ 32 \<Longrightarrow> u z = nat z"
  by (simp add: u_def)

text \<open>The line the cursor is on: \<^verbatim>\<open>cursor_y + display_start_line\<close>.\<close>

definition cur_line :: "editor_buf \<Rightarrow> nat" where
  "cur_line b = u (int (cursor_y b) + display_start_line b)"

text \<open>Start of a line, its end before the newline, and its length.\<close>

definition line_span :: "editor_buf \<Rightarrow> nat \<Rightarrow> (nat \<times> nat) cres" where
  "line_span b line =
     andthen (rd (line_offsets b) line) (\<lambda>line_start.
       if u (int line + 1) < line_count b
       then andthen (rd (line_offsets b) (line + 1)) (\<lambda>nxt. Inr (line_start, u (int nxt - 1)))
       else Inr (line_start, size b))"

definition line_len :: "editor_buf \<Rightarrow> nat \<Rightarrow> nat cres" where
  "line_len b line =
     andthen (line_span b line) (\<lambda>(line_start, line_end). Inr (u (int line_end - int line_start)))"

definition clamp_line :: "editor_buf \<Rightarrow> nat \<Rightarrow> nat" where
  "clamp_line b line = (if line \<ge> line_count b then u (int (line_count b) - 1) else line)"

definition update_pos :: "editor_buf \<Rightarrow> editor_buf cres" where
  "update_pos b =
     (let line = clamp_line b (cur_line b)
      in andthen (line_span b line) (\<lambda>(line_start, line_end).
         let line_length = u (int line_end - int line_start);
             x = (if cursor_x b > line_length then line_length else cursor_x b)
         in Inr (b\<lparr>pos := u (int line_start + int x)\<rparr>)))"

section \<open>Lines\<close>

text \<open>The loop of \<^verbatim>\<open>split_lines\<close> over the text \<open>cs\<close> that starts at \<open>i\<close>: a line ends behind a
  newline or after 80 characters, and the 1000th line is the last.  The offsets found are the
  result.\<close>

fun split_loop :: "u8 list \<Rightarrow> nat \<Rightarrow> nat \<Rightarrow> nat \<Rightarrow> nat list" where
  "split_loop [] i count len = []"
| "split_loop (c # cs) i count len =
     (if c = 10
      then if count < 1000 then (i + 1) # split_loop cs (i + 1) (count + 1) 0 else []
      else if len + 1 \<ge> 80
      then if count < 1000 then (i + 1) # split_loop cs (i + 1) (count + 1) 0 else []
      else split_loop cs (i + 1) count (len + 1))"

definition split_lines :: "editor_buf \<Rightarrow> editor_buf cres" where
  "split_lines b =
     (if size b \<le> length (content b)
      then let offs = 0 # split_loop (take (size b) (content b)) 0 1 0
           in Inr (b\<lparr>line_count := length offs,
                     line_offsets := offs @ replicate (1024 - length offs) 0\<rparr>)
      else Inl Wild)"

text \<open>The text drawn: one line after the other, zero and backspace as spaces.\<close>

definition shown :: "u8 \<Rightarrow> u8" where
  "shown c = (if c = 0 \<or> c = 8 then 32 else c)"

function display_lines :: "editor_buf \<Rightarrow> nat \<Rightarrow> nat \<Rightarrow> u8 list cres" where
  "display_lines b line_num end_line =
     (if line_num < end_line
      then
        andthen (line_span b line_num) (\<lambda>(line_start, line_end).
        andthen (if line_end \<le> length (content b) \<or> line_end \<le> line_start then Inr () else Inl Wild) (\<lambda>_.
        andthen (display_lines b (line_num + 1) end_line) (\<lambda>rest.
        Inr (map shown (drop line_start (take line_end (content b))) @ [10] @ rest))))
      else Inr [])"
  by pat_completeness auto
termination
  by (relation "measure (\<lambda>(b, n, e). e - n)") auto

declare display_lines.simps [simp del]

definition display_content :: "editor_buf \<Rightarrow> u8 list cres" where
  "display_content b =
     (let current_line = u (display_start_line b);
          end_line = u (display_end_line b)
      in display_lines b current_line (if end_line > line_count b then line_count b else end_line))"

text \<open>\<^verbatim>\<open>cursor_y\<close> is unsigned, so the branch for a negative one is never taken.\<close>

definition update_cursor_position :: "editor_buf \<Rightarrow> editor_buf cres" where
  "update_cursor_position b =
     (let current_line = cur_line b;
          b = (if current_line \<ge> line_count b
               then b\<lparr>cursor_y := u (int (line_count b) - 1 - display_start_line b)\<rparr> else b);
          current_line = clamp_line b current_line
      in andthen (line_len b current_line) (\<lambda>line_length.
         let b = (if cursor_x b > line_length then b\<lparr>cursor_x := line_length\<rparr> else b)
         in if cursor_y b \<ge> 22
            then
              if u (display_end_line b) < line_count b
              then
                let b = b\<lparr>display_start_line := display_start_line b + 1,
                          display_end_line := display_end_line b + 1, cursor_y := 21\<rparr>
                in andthen (display_content b) (\<lambda>_. Inr b)
              else Inr (b\<lparr>cursor_y := 21\<rparr>)
            else Inr b))"

section \<open>Editing\<close>

definition few_lines :: "editor_buf \<Rightarrow> editor_buf" where
  "few_lines b = (if line_count b \<le> 22 then b\<lparr>display_end_line := int (line_count b)\<rparr> else b)"

text \<open>Moving the rest of the text up by one and writing the character.\<close>

definition insert_at :: "u8 list \<Rightarrow> nat \<Rightarrow> nat \<Rightarrow> u8 \<Rightarrow> u8 list cres" where
  "insert_at text p n c =
     (if n < length text
      then Inr (take p text @ [c] @ drop p (take n text) @ drop (n + 1) text)
      else Inl Wild)"

definition insert_char :: "editor_buf \<Rightarrow> u8 \<Rightarrow> editor_buf cres" where
  "insert_char b c =
     (if size b \<ge> u (int (capacity b) - 1) then Inr b
      else
        let p = (if pos b > size b then size b else pos b)
        in andthen (insert_at (content b) p (size b) c) (\<lambda>text.
           let b = b\<lparr>content := text, size := size b + 1, pos := u (int (pos b) + 1)\<rparr>;
               b = (if c = 10 then b\<lparr>cursor_x := 0, cursor_y := u (int (cursor_y b) + 1)\<rparr>
                    else b\<lparr>cursor_x := u (int (cursor_x b) + 1)\<rparr>)
           in andthen (split_lines b) (\<lambda>b. update_cursor_position (few_lines b))))"

definition delete_at :: "u8 list \<Rightarrow> nat \<Rightarrow> nat \<Rightarrow> u8 list cres" where
  "delete_at text p n =
     (if n \<le> length text
      then Inr (if p < n - 1
                then take p text @ drop (p + 1) (take n text) @ drop (n - 1) text else text)
      else Inl Wild)"

text \<open>\<^verbatim>\<open>cursor_x\<close> goes to the end of the line above, in the table before the deletion.\<close>

definition to_line_end :: "editor_buf \<Rightarrow> editor_buf cres" where
  "to_line_end b =
     andthen (line_len b (clamp_line b (cur_line b))) (\<lambda>len. Inr (b\<lparr>cursor_x := len\<rparr>))"

definition delete_char :: "editor_buf \<Rightarrow> editor_buf cres" where
  "delete_char b =
     (if size b > 0 \<and> pos b > 0
      then
        let p = pos b - 1
        in andthen (rd (content b) p) (\<lambda>deleted_char.
           andthen (delete_at (content b) p (size b)) (\<lambda>text.
           let b = b\<lparr>content := text, size := size b - 1, pos := pos b - 1\<rparr>
           in andthen
                (if deleted_char = 10
                 then
                   if cursor_y b > 0 then to_line_end (b\<lparr>cursor_y := cursor_y b - 1\<rparr>)
                   else if display_start_line b > 0
                   then to_line_end (b\<lparr>display_start_line := display_start_line b - 1,
                                       display_end_line := display_end_line b - 1\<rparr>)
                   else Inr b
                 else Inr (if cursor_x b > 0 then b\<lparr>cursor_x := cursor_x b - 1\<rparr> else b)) (\<lambda>b.
              andthen (split_lines b) (\<lambda>b. update_cursor_position (few_lines b)))))
      else Inr b)"

section \<open>Keys\<close>

definition clamp_x :: "editor_buf \<Rightarrow> editor_buf cres" where
  "clamp_x b =
     andthen (line_len b (cur_line b)) (\<lambda>len.
       Inr (if cursor_x b > len then b\<lparr>cursor_x := len\<rparr> else b))"

definition key_up :: "editor_buf \<Rightarrow> editor_buf cres" where
  "key_up b =
     (if cursor_y b > 0
      then andthen (clamp_x (b\<lparr>cursor_y := cursor_y b - 1\<rparr>)) (\<lambda>b.
           andthen (update_pos b) update_cursor_position)
      else if display_start_line b > 0
      then andthen (clamp_x (b\<lparr>display_start_line := display_start_line b - 1,
                              display_end_line := display_end_line b - 1\<rparr>)) (\<lambda>b.
           andthen (update_pos b) (\<lambda>b. andthen (display_content b) (\<lambda>_. Inr b)))
      else Inr b)"

definition key_down :: "editor_buf \<Rightarrow> editor_buf cres" where
  "key_down b =
     (if cursor_y b < 21
      then if u (int (cursor_y b) + display_start_line b + 1) < line_count b
           then andthen (clamp_x (b\<lparr>cursor_y := cursor_y b + 1\<rparr>)) (\<lambda>b.
                andthen (update_pos b) update_cursor_position)
           else Inr b
      else if u (display_end_line b) < line_count b
      then andthen (clamp_x (b\<lparr>display_start_line := display_start_line b + 1,
                              display_end_line := display_end_line b + 1\<rparr>)) (\<lambda>b.
           andthen (update_pos b) (\<lambda>b. andthen (display_content b) (\<lambda>_. Inr b)))
      else Inr b)"

definition key_left :: "editor_buf \<Rightarrow> editor_buf cres" where
  "key_left b =
     update_cursor_position
       (if cursor_x b > 0 then b\<lparr>cursor_x := cursor_x b - 1, pos := u (int (pos b) - 1)\<rparr> else b)"

definition key_right :: "editor_buf \<Rightarrow> editor_buf cres" where
  "key_right b =
     andthen
       (if pos b < size b
        then
          andthen (rd (content b) (pos b)) (\<lambda>c.
          let x = (if u (int (cursor_x b) + 1) \<ge> 80 then 79 else u (int (cursor_x b) + 1))
          in Inr (if c \<noteq> 10 then b\<lparr>cursor_x := x, pos := pos b + 1\<rparr>
                  else b\<lparr>cursor_x := 0, cursor_y := u (int (cursor_y b) + 1), pos := pos b + 1\<rparr>))
        else Inr b) update_cursor_position"

datatype next_step = Go_on editor_buf | Save editor_buf | Quit editor_buf

text \<open>One turn of the loop of \<^verbatim>\<open>editor_main\<close>, from drawing to the key.  Arrow keys are
  \<^verbatim>\<open>0x80\<close>, \<^verbatim>\<open>0x81\<close>, \<^verbatim>\<open><\<close> and \<^verbatim>\<open>>\<close>.\<close>

definition editor_key :: "editor_buf \<Rightarrow> u8 \<Rightarrow> next_step cres" where
  "editor_key b c =
     (if \<not> edit_mode b
      then
        if c = 105 then Inr (Go_on (b\<lparr>edit_mode := True\<rparr>))
        else if c = 115 then Inr (Save b)
        else if c = 113 then Inr (Quit b)
        else andthen
          (if c = 0x80 then key_up b
           else if c = 0x81 then key_down b
           else if c = 60 then key_left b
           else if c = 62 then key_right b
           else Inr b) (\<lambda>b. Inr (Go_on b))
      else if c = 27 then Inr (Go_on (b\<lparr>edit_mode := False\<rparr>))
      else andthen (if c = 8 then delete_char b else insert_char b c) (\<lambda>b. Inr (Go_on b)))"

fun edit_loop :: "editor_buf \<Rightarrow> u8 list \<Rightarrow> next_step cres" where
  "edit_loop b [] = Inl Blocked"
| "edit_loop b (c # cs) =
     andthen (display_content b) (\<lambda>_.
     andthen (editor_key b c) (\<lambda>r. case r of Go_on b \<Rightarrow> edit_loop b cs | _ \<Rightarrow> Inr r))"

text \<open>The buffer \<^verbatim>\<open>editor_main\<close> starts with, on a text of \<open>n\<close> bytes: a final zero byte is
  dropped.\<close>

definition editor_open :: "u8 list \<Rightarrow> nat \<Rightarrow> editor_buf cres" where
  "editor_open text n =
     (let n = (if n > 0 \<and> text ! (n - 1) = 0 then n - 1 else n)
      in andthen (split_lines \<lparr>size = n, capacity = BUF_SIZE, cursor_x = 0, cursor_y = 0, pos = 0,
              display_start_line = 0, display_end_line = 0, line_count = 0, line_offsets = [],
              edit_mode = False, content = text\<rparr>) (\<lambda>b.
         Inr (b\<lparr>display_end_line := (if line_count b > 22 then 22 else int (line_count b))\<rparr>)))"

end
