(* ===== verification/EditorSpec.thy ===== *)
theory EditorSpec
  imports Editor
begin

text \<open>
  What the editor does to its text: the table of lines is a division of the text into screen
  lines, and a key inserts or removes one character and nothing else.
\<close>

section \<open>Lines\<close>

text \<open>The lines of a text: cut behind each newline and after 80 characters; \<open>acc\<close> is the line
  begun.\<close>

fun screen_lines :: "u8 list \<Rightarrow> u8 list \<Rightarrow> u8 list list" where
  "screen_lines acc [] = [acc]"
| "screen_lines acc (c # cs) =
     (if c = 10 \<or> length acc + 1 \<ge> 80 then (acc @ [c]) # screen_lines [] cs
      else screen_lines (acc @ [c]) cs)"

text \<open>The offsets at which the lines start, and the cut at 1000 lines.\<close>

fun starts_from :: "nat \<Rightarrow> u8 list list \<Rightarrow> nat list" where
  "starts_from i [] = []"
| "starts_from i (l # ls) = i # starts_from (i + length l) ls"

lemma starts_from_shift: "length (starts_from i ls) = length ls"
  by (induction ls arbitrary: i) simp_all

lemma screen_lines_nonempty: "screen_lines acc cs \<noteq> []"
  by (induction cs arbitrary: acc) auto

lemma screen_lines_concat: "concat (screen_lines acc cs) = acc @ cs"
  by (induction acc cs rule: screen_lines.induct) auto

lemma screen_lines_short:
  "length acc < 80 \<Longrightarrow> l \<in> set (screen_lines acc cs) \<Longrightarrow> length l \<le> 80"
  by (induction acc cs rule: screen_lines.induct) (auto split: if_splits)

lemma screen_lines_newline:
  "10 \<notin> set acc \<Longrightarrow> l \<in> set (screen_lines acc cs) \<Longrightarrow> 10 \<notin> set (butlast l)"
  by (induction acc cs rule: screen_lines.induct) (auto split: if_splits dest: in_set_butlastD)

lemma split_loop_starts:
  "split_loop cs (j + length acc) count (length acc) =
   take (1000 - count) (tl (starts_from j (screen_lines acc cs)))"
proof (induction cs arbitrary: j acc count)
  case Nil
  then show ?case by simp
next
  case (Cons c cs)
  show ?case
  proof (cases "c = 10 \<or> length acc + 1 \<ge> 80")
    case True
    let ?i = "j + length acc + 1"
    obtain l ls where l: "screen_lines [] cs = l # ls"
      using screen_lines_nonempty [of "[]" cs] by (cases "screen_lines [] cs") auto
    have IH: "split_loop cs ?i (count + 1) 0 = take (1000 - (count + 1)) (tl (starts_from ?i (l # ls)))"
      using Cons.IH [of ?i "[]" "count + 1"] l by simp
    show ?thesis
    proof (cases "count < 1000")
      case c: True
      then have n: "1000 - count = Suc (1000 - (count + 1))" by simp
      show ?thesis using True IH l c unfolding n by auto
    next
      case False
      then show ?thesis using True l by auto
    qed
  next
    case False
    then show ?thesis using Cons.IH [of j "acc @ [c]" count] by simp
  qed
qed

definition line_starts :: "u8 list \<Rightarrow> nat list" where
  "line_starts text = take 1000 (starts_from 0 (screen_lines [] text))"

lemma split_loop_line_starts: "0 # split_loop text 0 1 0 = line_starts text"
proof -
  obtain l ls where l: "screen_lines [] text = l # ls"
    using screen_lines_nonempty [of "[]" "text"] by (cases "screen_lines [] text") auto
  have "split_loop text 0 1 0 = take 999 (tl (starts_from 0 (l # ls)))"
    using split_loop_starts [of "text" 0 "[]" 1] l by simp
  moreover have "take 1000 (0 # xs) = 0 # take 999 xs" for xs :: "nat list" by (simp add: take_Cons')
  ultimately show ?thesis unfolding line_starts_def l by simp
qed

lemma starts_from_bounds:
  "\<forall>l \<in> set (butlast ls). l \<noteq> [] \<Longrightarrow> k < length ls \<Longrightarrow>
   i + k \<le> starts_from i ls ! k \<and> starts_from i ls ! k \<le> i + length (concat ls)"
proof (induction ls arbitrary: i k)
  case (Cons l ls)
  show ?case
  proof (cases k)
    case (Suc m)
    then have ne: "ls \<noteq> []" using Cons.prems(2) by auto
    then have "l \<noteq> []" "\<forall>l \<in> set (butlast ls). l \<noteq> []" using Cons.prems(1) by auto
    then have "1 \<le> length l" by (simp add: Suc_leI)
    moreover have "i + length l + m \<le> starts_from (i + length l) ls ! m \<and>
        starts_from (i + length l) ls ! m \<le> i + length l + length (concat ls)"
      using Cons.IH [of m "i + length l"] Cons.prems \<open>\<forall>l \<in> set (butlast ls). l \<noteq> []\<close> Suc by simp
    ultimately show ?thesis using Suc by simp
  qed simp
qed simp

lemma screen_lines_butlast: "l \<in> set (butlast (screen_lines acc cs)) \<Longrightarrow> l \<noteq> []"
proof (induction acc cs rule: screen_lines.induct)
  case (2 acc c cs)
  then show ?case using screen_lines_nonempty [of "[]" cs] by (auto split: if_splits)
qed simp

lemma line_starts_bounds:
  assumes "k < length (line_starts text)"
  shows "k \<le> line_starts text ! k" and "line_starts text ! k \<le> length text"
proof -
  have "k < length (screen_lines [] text)"
    using assms by (simp add: line_starts_def starts_from_shift)
  from starts_from_bounds [OF _ this, of 0] screen_lines_butlast
  show "k \<le> line_starts text ! k" "line_starts text ! k \<le> length text"
    using assms screen_lines_concat [of "[]" "text"] by (auto simp: line_starts_def)
qed

lemma line_starts_length: "0 < length (line_starts text)" "length (line_starts text) \<le> 1000"
  using screen_lines_nonempty [of "[]" "text"] by (auto simp: line_starts_def starts_from_shift)

section \<open>The buffer\<close>

definition text_of :: "editor_buf \<Rightarrow> u8 list" where
  "text_of b = take (size b) (content b)"

text \<open>The storage is right, and the table of lines has its size.\<close>

definition store_ok :: "editor_buf \<Rightarrow> bool" where
  "store_ok b \<longleftrightarrow> length (content b) = BUF_SIZE \<and> capacity b = BUF_SIZE \<and> size b < BUF_SIZE \<and>
     length (line_offsets b) = 1024 \<and> 0 < line_count b \<and> line_count b \<le> 1000"

text \<open>The table is the table of the text.\<close>

definition table_ok :: "editor_buf \<Rightarrow> bool" where
  "table_ok b \<longleftrightarrow> line_count b = length (line_starts (text_of b)) \<and>
     take (line_count b) (line_offsets b) = line_starts (text_of b)"

definition same_text :: "editor_buf \<Rightarrow> editor_buf \<Rightarrow> bool" where
  "same_text b b' \<longleftrightarrow> size b' = size b \<and> content b' = content b \<and> capacity b' = capacity b \<and>
     pos b' = pos b \<and> line_count b' = line_count b \<and> line_offsets b' = line_offsets b \<and>
     edit_mode b' = edit_mode b"

lemma same_text_refl [simp]: "same_text b b"
  by (simp add: same_text_def)

lemma same_text_trans: "same_text a b \<Longrightarrow> same_text b c \<Longrightarrow> same_text a c"
  by (simp add: same_text_def)

lemma same_text_ok:
  "same_text b b' \<Longrightarrow> store_ok b' = store_ok b"
  "same_text b b' \<Longrightarrow> table_ok b' = table_ok b"
  "same_text b b' \<Longrightarrow> text_of b' = text_of b"
  by (simp_all add: same_text_def store_ok_def table_ok_def text_of_def)

lemma line_table_nth:
  assumes "table_ok b" and "k < line_count b"
  shows "line_offsets b ! k = line_starts (text_of b) ! k"
  using assms by (metis nth_take table_ok_def)

lemma size_text: "store_ok b \<Longrightarrow> length (text_of b) = size b"
  by (simp add: text_of_def store_ok_def)

lemma clamp_line_less: "store_ok b \<Longrightarrow> clamp_line b k < line_count b"
  by (auto simp: clamp_line_def store_ok_def)

lemma line_len_ok:
  assumes "store_ok b" and "k < 1023"
  shows "\<exists>n. line_len b k = Inr n"
  using assms by (auto simp: line_len_def line_span_def store_ok_def)

lemma line_span_ok:
  assumes "store_ok b" and "table_ok b" and "k < line_count b"
  shows "\<exists>x y. line_span b k = Inr (x, y) \<and> y \<le> size b"
proof -
  have k: "k < 1000" "k < length (line_offsets b)" "u (int k + 1) = k + 1"
    using assms(1,3) by (auto simp: store_ok_def)
  show ?thesis
  proof (cases "k + 1 < line_count b")
    case True
    have "line_offsets b ! (k + 1) = line_starts (text_of b) ! (k + 1)"
      by (rule line_table_nth [OF assms(2) True])
    moreover have "k + 1 < length (line_starts (text_of b))" using assms(2) True by (simp add: table_ok_def)
    ultimately have o: "1 \<le> line_offsets b ! (k + 1)" "line_offsets b ! (k + 1) \<le> size b"
      using line_starts_bounds [of "k + 1" "text_of b"] size_text [OF assms(1)] by auto
    have "size b < 2 ^ 32" using assms(1) by (simp add: store_ok_def BUF_SIZE_def)
    then have "u (int (line_offsets b ! (k + 1)) - 1) \<le> size b"
      using o by (subst u_range) auto
    moreover have "k + 1 < length (line_offsets b)" using assms(1) k(1) by (simp add: store_ok_def)
    ultimately show ?thesis using True k by (simp add: line_span_def)
  next
    case False
    then show ?thesis using k by (simp add: line_span_def)
  qed
qed

lemma display_lines_ok:
  assumes "store_ok b" and "table_ok b" and "e \<le> line_count b"
  shows "\<exists>out. display_lines b n e = Inr out"
  using assms
proof (induction b n e rule: display_lines.induct)
  case (1 b n e)
  show ?case
  proof (cases "n < e")
    case True
    obtain x y where xy: "line_span b n = Inr (x, y)" "y \<le> size b"
      using line_span_ok [OF 1(2,3), of n] True 1(4) by auto
    have y: "y \<le> length (content b)" using xy(2) 1(2) by (simp add: store_ok_def)
    obtain out where "display_lines b (n + 1) e = Inr out"
      using 1 True xy(1) y by fastforce
    then show ?thesis using True xy(1) y by (subst display_lines.simps) simp
  next
    case False
    then show ?thesis by (subst display_lines.simps) simp
  qed
qed


lemma display_content_ok:
  assumes "store_ok b" and "table_ok b"
  shows "\<exists>out. display_content b = Inr out"
  using display_lines_ok [OF assms] by (auto simp: display_content_def Let_def)

lemma split_lines_ok:
  assumes "length (content b) = BUF_SIZE" "capacity b = BUF_SIZE" "size b < BUF_SIZE"
  shows "\<exists>b'. split_lines b = Inr b' \<and> store_ok b' \<and> table_ok b' \<and> text_of b' = text_of b \<and>
    size b' = size b \<and> pos b' = pos b \<and> content b' = content b \<and> edit_mode b' = edit_mode b"
proof -
  let ?t = "take (size b) (content b)"
  define offs where "offs = line_starts ?t"
  have s: "0 # split_loop ?t 0 1 0 = offs" by (simp only: offs_def split_loop_line_starts)
  have l: "0 < length offs" "length offs \<le> 1000" using line_starts_length by (simp_all add: offs_def)
  have "split_lines b = Inr (b\<lparr>line_count := length offs,
      line_offsets := offs @ replicate (1024 - length offs) 0\<rparr>)"
    using assms unfolding split_lines_def s Let_def by simp
  then show ?thesis using assms l
    by (simp add: store_ok_def table_ok_def text_of_def offs_def [symmetric])
qed

lemma update_cursor_position_ok:
  assumes st: "store_ok b" and tb: "table_ok b"
  shows "\<exists>b'. update_cursor_position b = Inr b' \<and> same_text b b' \<and> cursor_y b' \<le> 21"
proof -
  define b1 where "b1 = (if cur_line b \<ge> line_count b
      then b\<lparr>cursor_y := u (int (line_count b) - 1 - display_start_line b)\<rparr> else b)"
  define k where "k = clamp_line b1 (cur_line b)"
  have "clamp_line b1 (cur_line b) = clamp_line b (cur_line b)"
    by (simp add: clamp_line_def b1_def)
  then have k: "k < line_count b" using clamp_line_less [OF st] by (simp add: k_def)
  have b1: "same_text b b1" by (simp add: b1_def same_text_def)
  then have st1: "store_ok b1" "table_ok b1" using same_text_ok st tb by auto
  have "k < 1000" using k st by (simp add: store_ok_def)
  then obtain n where n: "line_len b1 k = Inr n" using line_len_ok [OF st1(1), of k] by auto
  define b2 where "b2 = (if cursor_x b1 > n then b1\<lparr>cursor_x := n\<rparr> else b1)"
  have b2: "same_text b b2" using b1 by (simp add: b2_def same_text_def)
  define b3 where "b3 = b2\<lparr>display_start_line := display_start_line b2 + 1,
      display_end_line := display_end_line b2 + 1, cursor_y := 21\<rparr>"
  have b3: "same_text b b3" using b2 by (simp add: b3_def same_text_def)
  obtain out where out: "display_content b3 = Inr out"
    using display_content_ok same_text_ok [OF b3] st tb by blast
  have "update_cursor_position b =
      (if cursor_y b2 \<ge> 22
       then if u (display_end_line b2) < line_count b2 then Inr b3 else Inr (b2\<lparr>cursor_y := 21\<rparr>)
       else Inr b2)"
    unfolding update_cursor_position_def Let_def b1_def [symmetric] k_def [symmetric] n andthen_Inr
      b2_def [symmetric] b3_def [symmetric] out by simp
  moreover have "same_text b (b2\<lparr>cursor_y := 21\<rparr>)" using b2 by (simp add: same_text_def)
  moreover have "cursor_y b3 = 21" by (simp add: b3_def)
  ultimately show ?thesis using b2 b3 by (auto split: if_splits)
qed

lemma settle_ok:
  assumes "length (content b) = BUF_SIZE" "capacity b = BUF_SIZE" "size b < BUF_SIZE"
  shows "\<exists>b'. andthen (split_lines b) (\<lambda>b. update_cursor_position (few_lines b)) = Inr b' \<and>
    store_ok b' \<and> table_ok b' \<and> text_of b' = text_of b \<and> size b' = size b \<and> pos b' = pos b \<and>
    edit_mode b' = edit_mode b \<and> cursor_y b' \<le> 21"
proof -
  obtain b1 where b1: "split_lines b = Inr b1" "store_ok b1" "table_ok b1" "text_of b1 = text_of b"
    "size b1 = size b" "pos b1 = pos b" "edit_mode b1 = edit_mode b"
    using split_lines_ok [OF assms] by blast
  have f: "same_text b1 (few_lines b1)" by (simp add: few_lines_def same_text_def)
  obtain b2 where b2: "update_cursor_position (few_lines b1) = Inr b2" "same_text (few_lines b1) b2"
    "cursor_y b2 \<le> 21"
    using update_cursor_position_ok [of "few_lines b1"] same_text_ok [OF f] b1(2,3) by auto
  note t = same_text_trans [OF f b2(2)]
  have "size b2 = size b1" "pos b2 = pos b1" "edit_mode b2 = edit_mode b1"
    using t by (simp_all add: same_text_def)
  then show ?thesis using b1 b2 same_text_ok [OF t] by simp
qed

section \<open>Inserting and deleting\<close>

lemma insert_at_text:
  assumes "p \<le> n" "n < length xs"
  shows "\<exists>ys. insert_at xs p n c = Inr ys \<and> length ys = length xs \<and>
    take (n + 1) ys = take p xs @ c # drop p (take n xs)"
  using assms by (simp add: insert_at_def min_absorb1 Suc_diff_le)

lemma delete_at_text:
  assumes "p < n" "n \<le> length xs"
  shows "\<exists>ys. delete_at xs p n = Inr ys \<and> length ys = length xs \<and>
    take (n - 1) ys = take p xs @ drop (p + 1) (take n xs)"
proof (cases "p < n - 1")
  case True
  then show ?thesis using assms by (simp add: delete_at_def min_absorb1)
next
  case False
  then have "p = n - 1" using assms(1) by simp
  then show ?thesis using assms by (simp add: delete_at_def)
qed

lemma insert_char_ok:
  assumes b: "store_ok b" and p: "pos b \<le> size b" and room: "size b < BUF_SIZE - 1"
  shows "\<exists>b'. insert_char b c = Inr b' \<and> store_ok b' \<and> table_ok b' \<and>
    text_of b' = take (pos b) (text_of b) @ c # drop (pos b) (text_of b) \<and>
    size b' = size b + 1 \<and> pos b' = pos b + 1 \<and> edit_mode b' = edit_mode b"
proof -
  have sz: "size b < length (content b)" "u (int (capacity b) - 1) = BUF_SIZE - 1"
    using b by (auto simp: store_ok_def BUF_SIZE_def)
  obtain ys where ys: "insert_at (content b) (pos b) (size b) c = Inr ys" "length ys = length (content b)"
    "take (size b + 1) ys = take (pos b) (content b) @ c # drop (pos b) (take (size b) (content b))"
    using insert_at_text [OF p sz(1)] by blast
  define b1 where "b1 = b\<lparr>content := ys, size := size b + 1, pos := u (int (pos b) + 1)\<rparr>"
  define b2 where "b2 = (if c = 10 then b1\<lparr>cursor_x := 0, cursor_y := u (int (cursor_y b1) + 1)\<rparr>
                    else b1\<lparr>cursor_x := u (int (cursor_x b1) + 1)\<rparr>)"
  have up: "u (int (pos b) + 1) = pos b + 1" using p room by (simp add: BUF_SIZE_def)
  have b2: "content b2 = ys" "size b2 = size b + 1" "pos b2 = pos b + 1" "capacity b2 = capacity b"
    "edit_mode b2 = edit_mode b"
    by (simp_all add: b2_def b1_def up)
  have ins: "insert_char b c = andthen (split_lines b2) (\<lambda>b. update_cursor_position (few_lines b))"
    using room p sz(2) ys(1) unfolding insert_char_def Let_def b2_def b1_def by simp
  have st2: "length (content b2) = BUF_SIZE" "capacity b2 = BUF_SIZE" "size b2 < BUF_SIZE"
    using b room ys(2) b2 by (auto simp: store_ok_def)
  have "text_of b2 = take (pos b) (text_of b) @ c # drop (pos b) (text_of b)"
    using ys(3) p by (simp add: text_of_def b2 min_absorb1)
  then show ?thesis using settle_ok [OF st2] ins b2 by auto
qed

lemma to_line_end_ok:
  assumes "length (line_offsets b) = 1024" "0 < line_count b" "line_count b \<le> 1000"
  shows "\<exists>x. to_line_end b = Inr (b\<lparr>cursor_x := x\<rparr>)"
proof -
  have "clamp_line b (cur_line b) < 1000" using assms by (auto simp: clamp_line_def)
  then have "\<exists>n. line_len b (clamp_line b (cur_line b)) = Inr n"
    using assms(1) by (auto simp: line_len_def line_span_def)
  then show ?thesis by (auto simp: to_line_end_def)
qed

lemma delete_char_ok:
  assumes b: "store_ok b" and p: "0 < pos b" "pos b \<le> size b"
  shows "\<exists>b'. delete_char b = Inr b' \<and> store_ok b' \<and> table_ok b' \<and>
    text_of b' = take (pos b - 1) (text_of b) @ drop (pos b) (text_of b) \<and>
    size b' = size b - 1 \<and> pos b' = pos b - 1 \<and> edit_mode b' = edit_mode b"
proof -
  have sz: "size b < length (content b)" using b by (simp add: store_ok_def)
  obtain ys where ys: "delete_at (content b) (pos b - 1) (size b) = Inr ys" "length ys = length (content b)"
    "take (size b - 1) ys = take (pos b - 1) (content b) @ drop (pos b) (take (size b) (content b))"
  proof -
    have "pos b - 1 + 1 = pos b" "pos b - 1 < size b" using p by auto
    then show ?thesis
      using that delete_at_text [of "pos b - 1" "size b" "content b"] sz by fastforce
  qed
  define c where "c = content b ! (pos b - 1)"
  have rdc: "rd (content b) (pos b - 1) = Inr c" using p sz by (simp add: c_def)
  define b1 where "b1 = b\<lparr>content := ys, size := size b - 1, pos := pos b - 1\<rparr>"
  define m where "m = (if c = 10
                 then
                   if cursor_y b1 > 0 then to_line_end (b1\<lparr>cursor_y := cursor_y b1 - 1\<rparr>)
                   else if display_start_line b1 > 0
                   then to_line_end (b1\<lparr>display_start_line := display_start_line b1 - 1,
                                       display_end_line := display_end_line b1 - 1\<rparr>)
                   else Inr b1
                 else Inr (if cursor_x b1 > 0 then b1\<lparr>cursor_x := cursor_x b1 - 1\<rparr> else b1))"
  have tab: "length (line_offsets b1) = 1024" "0 < line_count b1" "line_count b1 \<le> 1000"
    using b by (simp_all add: b1_def store_ok_def)
  have "\<exists>b2. m = Inr b2 \<and> content b2 = content b1 \<and> size b2 = size b1 \<and> pos b2 = pos b1 \<and>
      capacity b2 = capacity b1 \<and> edit_mode b2 = edit_mode b1"
    using to_line_end_ok [of "b1\<lparr>cursor_y := cursor_y b1 - 1\<rparr>"] tab
      to_line_end_ok [of "b1\<lparr>display_start_line := display_start_line b1 - 1,
                                       display_end_line := display_end_line b1 - 1\<rparr>"]
    by (auto simp: m_def)
  then obtain b2 where m: "m = Inr b2" and b2: "content b2 = ys" "size b2 = size b - 1"
    "pos b2 = pos b - 1" "capacity b2 = capacity b" "edit_mode b2 = edit_mode b"
    by (auto simp: b1_def)
  have del: "delete_char b = andthen (split_lines b2) (\<lambda>b. update_cursor_position (few_lines b))"
    using p m unfolding delete_char_def Let_def rdc ys(1) andthen_Inr b1_def [symmetric] m_def [symmetric]
    by simp
  have st2: "length (content b2) = BUF_SIZE" "capacity b2 = BUF_SIZE" "size b2 < BUF_SIZE"
    using b ys(2) b2 by (auto simp: store_ok_def)
  have "text_of b2 = take (pos b - 1) (text_of b) @ drop (pos b) (text_of b)"
    using ys(3) p by (simp add: text_of_def b2 min_absorb1)
  then show ?thesis using settle_ok [OF st2] del b2 by auto
qed


section \<open>A session\<close>

text \<open>The characters typed before the cursor.\<close>

definition type_key :: "u8 list \<Rightarrow> u8 \<Rightarrow> u8 list" where
  "type_key l c = (if c = 8 then butlast l else l @ [c])"

text \<open>The buffer holds \<open>l\<close> before the cursor and \<open>r\<close> behind it.\<close>

definition holds_text :: "editor_buf \<Rightarrow> u8 list \<Rightarrow> u8 list \<Rightarrow> bool" where
  "holds_text b l r \<longleftrightarrow> store_ok b \<and> table_ok b \<and> text_of b = l @ r \<and> pos b = length l"

lemma holds_text_size: "holds_text b l r \<Longrightarrow> size b = length l + length r"
  using size_text [of b] by (simp add: holds_text_def)

lemma key_typed:
  assumes h: "holds_text b l r" and e: "edit_mode b" and c: "c \<noteq> 27"
    and room: "length l + length r < BUF_SIZE - 1"
  shows "\<exists>b'. editor_key b c = Inr (Go_on b') \<and> holds_text b' (type_key l c) r \<and> edit_mode b'"
proof (cases "c = 8")
  case False
  have p: "pos b \<le> size b" "size b < BUF_SIZE - 1"
    using h holds_text_size [OF h] room by (auto simp: holds_text_def)
  obtain b' where b': "insert_char b c = Inr b'" "store_ok b'" "table_ok b'"
    "text_of b' = take (pos b) (text_of b) @ c # drop (pos b) (text_of b)"
    "pos b' = pos b + 1" "edit_mode b' = edit_mode b"
    using insert_char_ok [OF _ p] h by (auto simp: holds_text_def)
  then show ?thesis using h e c False by (auto simp: editor_key_def holds_text_def type_key_def)
next
  case True
  show ?thesis
  proof (cases l rule: rev_cases)
    case Nil
    then have "delete_char b = Inr b" using h by (simp add: delete_char_def holds_text_def)
    then show ?thesis using h e c True Nil by (auto simp: editor_key_def type_key_def)
  next
    case (snoc l' x)
    have p: "0 < pos b" "pos b \<le> size b"
      using h snoc holds_text_size [OF h] by (auto simp: holds_text_def)
    obtain b' where b': "delete_char b = Inr b'" "store_ok b'" "table_ok b'"
      "text_of b' = take (pos b - 1) (text_of b) @ drop (pos b) (text_of b)"
      "pos b' = pos b - 1" "edit_mode b' = edit_mode b"
      using delete_char_ok [OF _ p] h by (auto simp: holds_text_def)
    then show ?thesis using h e c True snoc by (auto simp: editor_key_def holds_text_def type_key_def)
  qed
qed

lemma type_key_length: "length (type_key l c) \<le> length l + 1"
  by (cases "c = 8") (simp_all add: type_key_def)

lemma mode_simps [simp]:
  "store_ok (b\<lparr>edit_mode := m\<rparr>) = store_ok b" "table_ok (b\<lparr>edit_mode := m\<rparr>) = table_ok b"
  "text_of (b\<lparr>edit_mode := m\<rparr>) = text_of b"
  "holds_text (b\<lparr>edit_mode := m\<rparr>) l r = holds_text b l r"
  by (simp_all add: store_ok_def table_ok_def text_of_def holds_text_def)

lemma session_ok:
  "holds_text b l r \<Longrightarrow> edit_mode b \<Longrightarrow> 27 \<notin> set ks \<Longrightarrow>
   length l + length r + length ks < BUF_SIZE \<Longrightarrow>
   \<exists>b'. edit_loop b (ks @ [27, 115]) = Inr (Save b') \<and> store_ok b' \<and>
     text_of b' = foldl type_key l ks @ r"
proof (induction ks arbitrary: b l)
  case Nil
  obtain out where d: "display_content b = Inr out"
    using display_content_ok [of b] Nil(1) by (auto simp: holds_text_def)
  let ?b = "b\<lparr>edit_mode := False\<rparr>"
  have "store_ok ?b" "table_ok ?b" "text_of ?b = text_of b"
    using Nil(1) by (simp_all add: holds_text_def)
  moreover from this obtain out2 where "display_content ?b = Inr out2"
    using display_content_ok by blast
  ultimately show ?case using Nil d by (simp add: editor_key_def holds_text_def)
next
  case (Cons c ks)
  obtain out where d: "display_content b = Inr out"
    using display_content_ok [of b] Cons.prems(1) by (auto simp: holds_text_def)
  obtain b' where b': "editor_key b c = Inr (Go_on b')" "holds_text b' (type_key l c) r" "edit_mode b'"
  proof -
    have "length l + length r < BUF_SIZE - 1" using Cons.prems(4) by simp
    then show ?thesis using that key_typed [OF Cons.prems(1,2), of c] Cons.prems(3) by auto
  qed
  have "length (type_key l c) + length r + length ks < BUF_SIZE"
    using type_key_length [of l c] Cons.prems(4) by simp
  then show ?case using Cons.IH [OF b'(2,3)] Cons.prems(3) d b'(1) by simp
qed

lemma editor_open_ok:
  assumes "length xs = BUF_SIZE" and "n < BUF_SIZE" and "n > 0 \<longrightarrow> xs ! (n - 1) \<noteq> 0"
  shows "\<exists>b. editor_open xs n = Inr b \<and> holds_text b [] (take n xs) \<and> \<not> edit_mode b"
proof -
  define b0 where "b0 = \<lparr>size = n, capacity = BUF_SIZE, cursor_x = 0, cursor_y = 0, pos = 0,
              display_start_line = 0, display_end_line = 0, line_count = 0, line_offsets = [],
              edit_mode = False, content = xs\<rparr>"
  have b0: "length (content b0) = BUF_SIZE" "capacity b0 = BUF_SIZE" "size b0 < BUF_SIZE"
    using assms by (simp_all add: b0_def)
  obtain b1 where b1: "split_lines b0 = Inr b1" "store_ok b1" "table_ok b1" "text_of b1 = text_of b0"
    "pos b1 = pos b0" "edit_mode b1 = edit_mode b0"
    using split_lines_ok [OF b0] by blast
  let ?b = "b1\<lparr>display_end_line := (if line_count b1 > 22 then 22 else int (line_count b1))\<rparr>"
  have "same_text b1 ?b" by (simp add: same_text_def)
  note t = same_text_ok [OF this]
  have "editor_open xs n = Inr ?b"
    using assms(3) b1(1) by (auto simp: editor_open_def Let_def b0_def [symmetric])
  moreover have "holds_text ?b [] (take n xs)"
    using t b1 by (simp add: holds_text_def b0_def text_of_def)
  moreover have "\<not> edit_mode ?b" using b1(6) by (simp add: b0_def)
  ultimately show ?thesis by blast
qed

section \<open>Properties\<close>



text \<open>what \<^verbatim>\<open>split_lines\<close> computes is the division of the text into screen lines: the
  offsets are the starts of the first thousand lines, the lines are the text cut in pieces of at
  most 80 characters, and a newline only ever ends a line.\<close>

theorem split_lines_divides:
  assumes "length (content b) = BUF_SIZE" and "capacity b = BUF_SIZE" and "size b < BUF_SIZE"
  shows "\<exists>b'. split_lines b = Inr b' \<and> line_count b' \<le> 1000 \<and>
    take (line_count b') (line_offsets b') =
      take 1000 (starts_from 0 (screen_lines [] (text_of b))) \<and>
    concat (screen_lines [] (text_of b)) = text_of b \<and>
    (\<forall>l \<in> set (screen_lines [] (text_of b)). length l \<le> 80 \<and> 10 \<notin> set (butlast l))"
proof -
  obtain b' where b': "split_lines b = Inr b'" "store_ok b'" "table_ok b'" "text_of b' = text_of b"
    using split_lines_ok [OF assms] by blast
  show ?thesis
    using b' screen_lines_concat [of "[]"] screen_lines_short [of "[]"] screen_lines_newline [of "[]"]
    by (auto simp: store_ok_def table_ok_def line_starts_def)
qed

theorem split_lines_divides_witness:
  "\<exists>b b'. text_of b = [97, 10, 98] \<and> split_lines b = Inr b' \<and>
     take (line_count b') (line_offsets b') = [0, Suc (Suc 0)]"
proof -
  let ?b = "\<lparr>size = 3, capacity = BUF_SIZE, cursor_x = 0, cursor_y = 0, pos = 0,
              display_start_line = 0, display_end_line = 0, line_count = 0, line_offsets = [],
              edit_mode = False, content = [97, 10, 98] @ replicate (BUF_SIZE - 3) 0\<rparr>"
  have t: "text_of ?b = [97, 10, 98]" by (simp add: text_of_def)
  obtain b' where "split_lines ?b = Inr b'"
    "take (line_count b') (line_offsets b') = take 1000 (starts_from 0 (screen_lines [] (text_of ?b)))"
    using split_lines_divides [of ?b] by (auto simp: BUF_SIZE_def)
  moreover have "take 1000 (starts_from 0 (screen_lines [] (text_of ?b))) = [0, Suc (Suc 0)]"
    unfolding t by simp
  ultimately show ?thesis using t by metis
qed

end
