(* ===== verification/EditorMain.thy ===== *)
theory EditorMain
  imports Editor Shell
begin

text \<open>
  \<^verbatim>\<open>editor_main\<close> of \<^verbatim>\<open>kernel/editor/editor.c\<close>: loading the file, the key of an encrypted one,
  the session of Editor, and saving.

  \<open>room\<close> tells whether the kernel has the 20 pages of the text and the pages of the lines and
  the keys.  \<open>garbage\<close> are the 16 uninitialised bytes of \<^verbatim>\<open>key\<close>.
\<close>

text \<open>The text of the file in the zeroed buffer, and the size; \<open>None\<close> when the file does not open.\<close>

definition load_text :: "nat \<Rightarrow> u8 list \<Rightarrow> fs \<Rightarrow> ((u8 list \<times> int) option \<times> fs) cres" where
  "load_text t path s =
     andthen (user_file_open path O_RDWR s) (\<lambda>(fd, s).
     andthen (sys_get_file_size fd s) (\<lambda>fsize.
       if fd = -1 then Inr (None, s)
       else
         andthen (user_file_seekp fd 0 SEEK_SET s) (\<lambda>(_, s).
         andthen (user_file_read t fd BUF_SIZE s) (\<lambda>(_, bs, s).
         andthen (user_file_close fd s) (\<lambda>(_, s).
         Inr (Some (bs @ replicate (BUF_SIZE - length bs) 0, fsize), s))))))"

text \<open>\<^verbatim>\<open>while((c=getchar())!='\n') key[i++]=c;\<close>\<close>

fun type_in_key :: "u8 list \<Rightarrow> nat \<Rightarrow> u8 list \<Rightarrow> (u8 list \<times> u8 list) cres" where
  "type_in_key key i [] = Inl Blocked"
| "type_in_key key i (c # cs) =
     (if c = 10 then Inr (key, cs)
      else andthen (wr key i c) (\<lambda>key. type_in_key key (i + 1) cs))"

text \<open>The key typed is the one recorded for the file.\<close>

definition key_matches ::
    "nat \<Rightarrow> u8 list \<Rightarrow> u8 list \<Rightarrow> fs \<Rightarrow> (bool \<times> int \<times> fs) cres" where
  "key_matches t path key s =
     andthen (user_file_open (text_of ''/keys'' @ [0]) O_RDONLY s) (\<lambda>(fd_keys, s).
     andthen (sys_get_file_size fd_keys s) (\<lambda>ksize.
     andthen (user_file_seekp fd_keys 0 SEEK_SET s) (\<lambda>(_, s).
     andthen (user_file_read t fd_keys (uint32 ksize) s) (\<lambda>(_, bs, s).
     andthen (if length bs \<le> 4096 then Inr () else Inl Wild) (\<lambda>_.
     let keys_buf = bs @ replicate (4096 - length bs) 0
     in andthen (key_index keys_buf path ksize 0) (\<lambda>j.
        andthen (strcmp (drop (j + MAX_PATH_LENGTH + 1) keys_buf) key) (\<lambda>r.
        Inr (r = 0, fd_keys, s))))))))"

text \<open>The attributes of the file, and for an encrypted one the key and the decrypted text; \<open>None\<close>
  when the key is wrong.  The keys of the keyboard not used are the last result.\<close>

definition unlock_text ::
    "nat \<Rightarrow> u8 list \<Rightarrow> u8 list \<Rightarrow> u8 list \<Rightarrow> u8 list \<Rightarrow> nat \<Rightarrow> fs \<Rightarrow>
     ((u8 list \<times> nat \<times> u8 list option) option \<times> u8 list \<times> fs) cres" where
  "unlock_text t garbage path keys xs n s =
     andthen (user_file_open path O_RDWR s) (\<lambda>(fd, s).
     andthen (sys_get_file_attr fd s) (\<lambda>flag.
       if (word_of_int flag :: u32) AND INODE_ENCRYPTED \<noteq> 0
       then
         andthen (type_in_key garbage 0 keys) (\<lambda>(key, keys).
         andthen (key_matches t path key s) (\<lambda>(ok, fd_keys, s).
           if \<not> ok
           then andthen (user_file_close fd s) (\<lambda>(_, s).
                andthen (user_file_close fd_keys s) (\<lambda>(_, s). Inr (None, keys, s)))
           else
             andthen (user_file_close fd_keys s) (\<lambda>(_, s).
             andthen (SM4_ECB_Decrypt (Some xs) n (Some n) (Some (SM4_KeySchedule key))) (\<lambda>(_, ys, m).
             andthen (user_file_close fd s) (\<lambda>(_, s).
             Inr (Some (the ys, the m, Some key), keys, s))))))
       else
         andthen (user_file_close fd s) (\<lambda>(_, s). Inr (Some (xs, n, None), keys, s))))"

text \<open>Saving: the text is encrypted again when the file is; what the file has behind the new end
  is cut off.\<close>

definition save_text ::
    "nat \<Rightarrow> u8 list \<Rightarrow> int \<Rightarrow> u8 list option \<Rightarrow> editor_buf \<Rightarrow> fs \<Rightarrow> fs cres" where
  "save_text t path fsize key b s =
     andthen
       (case key of
          None \<Rightarrow> Inr (content b, size b)
        | Some k \<Rightarrow>
            andthen (SM4_ECB_Encrypt (Some (content b)) (size b) (u (int (size b) + 100))
                       (Some (size b)) (Some (SM4_KeySchedule k))) (\<lambda>(_, ys, m).
            Inr (the ys, the m))) (\<lambda>(xs, n).
     andthen (user_file_open path O_RDWR s) (\<lambda>(fd, s).
       if fd = -1 then Inr s
       else
         andthen (user_file_seekp fd 0 SEEK_SET s) (\<lambda>(_, s).
         andthen (user_file_write t fd xs n s) (\<lambda>(_, s).
         andthen
           (if u fsize > n
            then andthen (user_file_seekp fd (int32 (int n)) SEEK_SET s) (\<lambda>(_, s).
                 andthen (user_file_remove_some_content fd (int32 (fsize - int n)) s) (\<lambda>(_, s). Inr s))
            else Inr s) (\<lambda>s.
         andthen (user_file_close fd s) (\<lambda>(_, s). Inr s))))))"

text \<open>The result is the state, and whether the file was saved.\<close>

definition editor_main ::
    "bool \<Rightarrow> nat \<Rightarrow> u8 list \<Rightarrow> u8 list \<Rightarrow> u8 list \<Rightarrow> fs \<Rightarrow> (bool \<times> fs) cres" where
  "editor_main room t garbage path keys s =
     (if \<not> room then Inr (False, s)
      else
        andthen (load_text t path s) (\<lambda>(loaded, s).
          case loaded of
            None \<Rightarrow> Inr (False, s)
          | Some (xs, fsize) \<Rightarrow>
              andthen (unlock_text t garbage path keys xs (u fsize) s) (\<lambda>(unlocked, keys, s).
                case unlocked of
                  None \<Rightarrow> Inr (False, s)
                | Some (xs, n, key) \<Rightarrow>
                    andthen (editor_open xs n) (\<lambda>b.
                    andthen (edit_loop b keys) (\<lambda>r.
                      case r of
                        Save b \<Rightarrow> andthen (save_text t path fsize key b s) (\<lambda>s. Inr (True, s))
                      | _ \<Rightarrow> Inr (False, s))))))"

end
