(* ===== verification/Interrupt.thy ===== *)
theory Interrupt
  imports Prelude
begin

text \<open>
  \<^verbatim>\<open>kernel/interrupt/interrupt.c\<close>, the start of \<^verbatim>\<open>kernel/device/timer.c\<close> and the handlers the
  drivers register: the interrupt descriptor table, the table of handlers behind it, the
  interrupt controllers, the interrupt flag, and sleeping by the clock.

  A gate is the structure the processor reads; \<open>gate_offset\<close>, \<open>gate_dpl\<close> and the like say how it
  reads it.  The addresses of the assembly entries are arguments: \<open>entries\<close> is what is stored
  from \<^verbatim>\<open>intr_entry_table\<close> on, of which \<^verbatim>\<open>interrupt.S\<close> fills the first 48 words.  Writes to
  ports are kept in their order.
\<close>

section \<open>Constants\<close>

definition IDT_DESC_CNT :: nat where "IDT_DESC_CNT = 0x81"
definition SELECTOR_K_CODE :: u16 where "SELECTOR_K_CODE = push_bit 3 1 + push_bit 2 0 + 0"
definition IDT_DESC_ATTR_DPL0 :: u8 where "IDT_DESC_ATTR_DPL0 = push_bit 7 1 + push_bit 5 0 + 0xE"
definition IDT_DESC_ATTR_DPL3 :: u8 where "IDT_DESC_ATTR_DPL3 = push_bit 7 1 + push_bit 5 3 + 0xE"
definition PIC_M_CTRL :: nat where "PIC_M_CTRL = 0x20"
definition PIC_M_DATA :: nat where "PIC_M_DATA = 0x21"
definition PIC_S_CTRL :: nat where "PIC_S_CTRL = 0xa0"
definition PIC_S_DATA :: nat where "PIC_S_DATA = 0xa1"
definition EFLAGS_IF :: u32 where "EFLAGS_IF = 0x00000200"

lemmas pic_ports = PIC_M_CTRL_def PIC_M_DATA_def PIC_S_CTRL_def PIC_S_DATA_def

section \<open>The tables\<close>

record gate_desc =
  func_offset_low_word :: u16
  selector :: u16
  dcount :: u8
  attribute :: u8
  func_offset_high_word :: u16

text \<open>The functions the kernel stores in \<^verbatim>\<open>idt_table\<close>; \<open>No_handler\<close> is the null pointer.\<close>

datatype intr_handler =
  No_handler | General_intr_handler | Intr_timer_handler | Intr_keyboard_handler | Intr_hd_handler

record intr_tables =
  idt :: "gate_desc list"
  idt_table :: "intr_handler list"
  intr_name :: "string list"
  port_writes :: "(nat \<times> u8) list"

definition make_idt_desc :: "u8 \<Rightarrow> u32 \<Rightarrow> gate_desc" where
  "make_idt_desc attr handler =
     \<lparr>func_offset_low_word = ucast (handler AND 0x0000ffff),
      selector = SELECTOR_K_CODE,
      dcount = 0,
      attribute = attr,
      func_offset_high_word = ucast (drop_bit 16 (handler AND 0xffff0000))\<rparr>"

fun init_gates :: "nat \<Rightarrow> u32 list \<Rightarrow> gate_desc list \<Rightarrow> gate_desc list cres" where
  "init_gates 0 entries t = Inr t"
| "init_gates (Suc n) entries t =
     andthen (init_gates n entries t) (\<lambda>t.
     andthen (rd entries n) (\<lambda>e.
     wr t n (make_idt_desc IDT_DESC_ATTR_DPL0 e)))"

definition idt_desc_init :: "u32 list \<Rightarrow> u32 \<Rightarrow> intr_tables \<Rightarrow> intr_tables cres" where
  "idt_desc_init entries syscall_handler st =
     (let lastindex = IDT_DESC_CNT - 1
      in andthen (init_gates IDT_DESC_CNT entries (idt st)) (\<lambda>t.
         andthen (wr t lastindex (make_idt_desc IDT_DESC_ATTR_DPL3 syscall_handler)) (\<lambda>t.
         Inr (st\<lparr>idt := t\<rparr>))))"

definition exception_names :: "string list" where
  "exception_names =
     [''#DE Divide Error'', ''#DB Debug Exception'', ''NMI Interrupt'', ''#BP Breakpoint Exception'',
      ''#OF Overflow Exception'', ''#BR BOUND Range Exceeded Exception'', ''#UD Invalid Opcode Exception'',
      ''#NM Device Not Available Exception'', ''#DF Double Fault Exception'', ''Coprocessor Segment Overrun'',
      ''#TS Invalid TSS Exception'', ''#NP Segment Not Present'', ''#SS Stack Fault Exception'',
      ''#GP General Protection Exception'', ''#PF Page-Fault Exception'', ''unknown'',
      ''#MF x87 FPU Floating-Point Error'', ''#AC Alignment Check Exception'', ''#MC Machine-Check Exception'',
      ''#XF SIMD Floating-Point Exception'']"

definition exception_init :: "intr_tables \<Rightarrow> intr_tables" where
  "exception_init st =
     st\<lparr>idt_table := replicate IDT_DESC_CNT General_intr_handler,
        intr_name := exception_names @ replicate (IDT_DESC_CNT - 20) ''unknown''\<rparr>"

definition outb :: "nat \<Rightarrow> u8 \<Rightarrow> intr_tables \<Rightarrow> intr_tables" where
  "outb port data st = st\<lparr>port_writes := port_writes st @ [(port, data)]\<rparr>"

definition pic_init :: "intr_tables \<Rightarrow> intr_tables" where
  "pic_init st =
     (let st = outb PIC_M_CTRL 0x11 st; st = outb PIC_M_DATA 0x20 st;
          st = outb PIC_M_DATA 0x04 st; st = outb PIC_M_DATA 0x01 st;
          st = outb PIC_S_CTRL 0x11 st; st = outb PIC_S_DATA 0x28 st;
          st = outb PIC_S_DATA 0x02 st; st = outb PIC_S_DATA 0x01 st;
          st = outb PIC_M_DATA 0xf8 st
      in outb PIC_S_DATA 0x3f st)"

text \<open>The operand of \<^verbatim>\<open>lidt\<close>; the cast of the pointer to 64 bits extends its sign, into bytes the
  instruction does not read.\<close>

definition idt_operand :: "u32 \<Rightarrow> u64" where
  "idt_operand idt_addr = of_nat (IDT_DESC_CNT * 8 - 1) OR push_bit 16 (scast idt_addr)"

definition idt_init :: "u32 list \<Rightarrow> u32 \<Rightarrow> intr_tables \<Rightarrow> intr_tables cres" where
  "idt_init entries syscall_handler st =
     andthen (idt_desc_init entries syscall_handler st) (\<lambda>st. Inr (pic_init (exception_init st)))"

definition register_handler :: "u8 \<Rightarrow> intr_handler \<Rightarrow> intr_tables \<Rightarrow> intr_tables cres" where
  "register_handler vector_no handler st =
     andthen (wr (idt_table st) (unat vector_no) handler) (\<lambda>t. Inr (st\<lparr>idt_table := t\<rparr>))"

text \<open>What an interrupt entry of \<^verbatim>\<open>interrupt.S\<close> calls.\<close>

definition handler_of :: "nat \<Rightarrow> intr_tables \<Rightarrow> intr_handler cres" where
  "handler_of vec_nr st = rd (idt_table st) vec_nr"

text \<open>What the handler of the other vectors prints, given \<^verbatim>\<open>cr2\<close> and the saved registers.  It
  returns in every case.\<close>

datatype console_out = Put_string string | Put_char char | Put_int u32

definition general_intr_handler :: "u8 \<Rightarrow> u32 \<Rightarrow> u32 \<Rightarrow> u32 \<Rightarrow> console_out list" where
  "general_intr_handler vec_nr cr2 eip ebp =
     (if vec_nr = 0x27 \<or> vec_nr = 0x2f then []
      else if vec_nr = 14
      then [Put_string (CHR 0x0A # ''page fault addr is ''), Put_int cr2, Put_char CHR 0x0A,
            Put_string ''eip:'', Put_int eip, Put_char CHR '' '', Put_string ''ebp:'', Put_int ebp]
      else [])"

section \<open>The interrupt flag\<close>

datatype intr_status = INTR_OFF | INTR_ON

text \<open>Functions on the flags register: the result and the register afterwards.\<close>

definition sti :: "u32 \<Rightarrow> u32" where "sti eflags = eflags OR EFLAGS_IF"
definition cli :: "u32 \<Rightarrow> u32" where "cli eflags = eflags AND NOT EFLAGS_IF"

definition intr_get_status :: "u32 \<Rightarrow> intr_status" where
  "intr_get_status eflags = (if EFLAGS_IF AND eflags \<noteq> 0 then INTR_ON else INTR_OFF)"

definition intr_enable :: "u32 \<Rightarrow> intr_status \<times> u32" where
  "intr_enable eflags =
     (if INTR_ON = intr_get_status eflags then (INTR_ON, eflags) else (INTR_OFF, sti eflags))"

definition intr_disable :: "u32 \<Rightarrow> intr_status \<times> u32" where
  "intr_disable eflags =
     (if INTR_ON = intr_get_status eflags then (INTR_ON, cli eflags) else (INTR_OFF, eflags))"

definition intr_set_status_eflags :: "intr_status \<Rightarrow> u32 \<Rightarrow> intr_status \<times> u32" where
  "intr_set_status_eflags status eflags =
     (if status = INTR_ON then intr_enable eflags else intr_disable eflags)"

section \<open>The clock\<close>

definition frequency_set :: "nat \<Rightarrow> u8 \<Rightarrow> u8 \<Rightarrow> u8 \<Rightarrow> u16 \<Rightarrow> intr_tables \<Rightarrow> intr_tables" where
  "frequency_set counter_port counter_no rwl counter_mode counter_value st =
     (let st = outb 0x43 (push_bit 6 counter_no OR push_bit 4 rwl OR push_bit 1 counter_mode) st;
          st = outb counter_port (ucast counter_value) st
      in outb counter_port (ucast (drop_bit 8 counter_value)) st)"

definition COUNTER0_VALUE :: u16 where "COUNTER0_VALUE = of_nat (1193180 div 1000)"

definition timer_init :: "intr_tables \<Rightarrow> intr_tables cres" where
  "timer_init st = register_handler 0x20 Intr_timer_handler (frequency_set 0x40 0 3 2 COUNTER0_VALUE st)"

text \<open>\<open>obs\<close> are the values of \<^verbatim>\<open>ticks\<close> the tests of the loop read, one \<^verbatim>\<open>thread_yield\<close> apart.
  The result is the number of yields; \<open>None\<close> when the loop goes on behind the last of them.\<close>

fun ticks_to_sleep :: "u32 \<Rightarrow> u32 \<Rightarrow> u32 list \<Rightarrow> nat option" where
  "ticks_to_sleep start_tick sleep_ticks [] = None"
| "ticks_to_sleep start_tick sleep_ticks (t # obs) =
     (if t - start_tick < sleep_ticks
      then map_option Suc (ticks_to_sleep start_tick sleep_ticks obs)
      else Some 0)"

definition mil_seconds_per_intr :: u32 where "mil_seconds_per_intr = 1000 div 1000"

definition mtime_sleep :: "u32 \<Rightarrow> u32 \<Rightarrow> u32 list \<Rightarrow> nat option cres" where
  "mtime_sleep m_seconds start_tick obs =
     (let sleep_ticks = (m_seconds + mil_seconds_per_intr - 1) div mil_seconds_per_intr
      in andthen (assert_c (sleep_ticks > 0)) (\<lambda>_. Inr (ticks_to_sleep start_tick sleep_ticks obs)))"

section \<open>How the hardware reads them\<close>

definition gate_offset :: "gate_desc \<Rightarrow> u32" where
  "gate_offset g = push_bit 16 (ucast (func_offset_high_word g)) OR ucast (func_offset_low_word g)"

definition gate_dpl :: "gate_desc \<Rightarrow> u8" where
  "gate_dpl g = drop_bit 5 (attribute g) AND 3"

text \<open>A present 32 bit interrupt gate to the kernel's code segment.\<close>

definition intr_gate :: "gate_desc \<Rightarrow> bool" where
  "intr_gate g \<longleftrightarrow> bit (attribute g) 7 \<and> \<not> bit (attribute g) 4 \<and> attribute g AND 0xf = 0xe \<and> selector g = 8"

text \<open>An 8259 controller behind the ports \<open>ctrl\<close> and \<open>ctrl + 1\<close>: a control word with bit 4 set
  starts an initialisation, in which the next three data words are the first vector, the
  cascade line and the mode; after it data words are the mask of the disabled lines.\<close>

record pic =
  vector_base :: u8
  imr :: u8
  icw :: nat

fun pic_write :: "nat \<Rightarrow> nat \<times> u8 \<Rightarrow> pic \<Rightarrow> pic" where
  "pic_write ctrl (port, d) p =
     (if port = ctrl then if bit d 4 then p\<lparr>icw := 1, imr := 0\<rparr> else p
      else if port = ctrl + 1
      then if icw p = 1 then p\<lparr>vector_base := d, icw := 2\<rparr>
           else if icw p = 2 then p\<lparr>icw := 3\<rparr>
           else if icw p = 3 then p\<lparr>icw := 0\<rparr>
           else p\<lparr>imr := d\<rparr>
      else p)"

text \<open>The vectors of the lines a controller lets through.\<close>

definition enabled_vectors :: "pic \<Rightarrow> nat list" where
  "enabled_vectors p = map (\<lambda>i. unat (vector_base p) + i) (filter (\<lambda>i. \<not> bit (imr p) i) [0..<8])"

definition controller :: "nat \<Rightarrow> intr_tables \<Rightarrow> pic \<Rightarrow> pic" where
  "controller ctrl st p = fold (pic_write ctrl) (port_writes st) p"

section \<open>Gates\<close>

lemma half_masks: "(0x0000ffff :: u32) = mask 16" "(0xffff0000 :: u32) = push_bit 16 (mask 16)"
  by (simp_all add: mask_eq_exp_minus_1 push_bit_eq_mult)

lemma gate_offset_make [simp]: "gate_offset (make_idt_desc a f) = f"
  unfolding gate_offset_def make_idt_desc_def gate_desc.select_convs half_masks
  by (rule bit_word_eqI) (auto simp: bit_simps)

lemma gate_attrs: "IDT_DESC_ATTR_DPL0 = 0x8e" "IDT_DESC_ATTR_DPL3 = 0xee" "SELECTOR_K_CODE = 8"
  by (simp_all add: IDT_DESC_ATTR_DPL0_def IDT_DESC_ATTR_DPL3_def SELECTOR_K_CODE_def push_bit_eq_mult)

lemma attr_bits: "bit (0x8e :: u8) 7" "\<not> bit (0x8e :: u8) 4" "(0x8e :: u8) AND 0xf = 0xe" "drop_bit 5 (0x8e :: u8) AND 3 = 0"
  "bit (0xee :: u8) 7" "\<not> bit (0xee :: u8) 4" "(0xee :: u8) AND 0xf = 0xe" "drop_bit 5 (0xee :: u8) AND 3 = 3"
  by (simp_all add: bit_iff_odd drop_bit_eq_div)

lemma intr_gate_make [simp]:
  "intr_gate (make_idt_desc IDT_DESC_ATTR_DPL0 f)" "intr_gate (make_idt_desc IDT_DESC_ATTR_DPL3 f)"
  by (simp_all only: intr_gate_def make_idt_desc_def gate_attrs gate_desc.select_convs attr_bits simp_thms)

lemma gate_dpl_make [simp]:
  "gate_dpl (make_idt_desc IDT_DESC_ATTR_DPL0 f) = 0" "gate_dpl (make_idt_desc IDT_DESC_ATTR_DPL3 f) = 3"
  by (simp_all only: gate_dpl_def make_idt_desc_def gate_attrs gate_desc.select_convs attr_bits)

lemma init_gates_run:
  assumes "n \<le> length entries" and "n \<le> length t"
  shows "init_gates n entries t = Inr (map (make_idt_desc IDT_DESC_ATTR_DPL0) (take n entries) @ drop n t)"
  using assms
proof (induction n)
  case (Suc n)
  let ?g = "make_idt_desc IDT_DESC_ATTR_DPL0"
  have e: "take (Suc n) entries = take n entries @ [entries ! n]" "drop n t = t ! n # drop (Suc n) t"
    using Suc.prems by (simp_all add: take_Suc_conv_app_nth Cons_nth_drop_Suc)
  have "(map ?g (take n entries) @ drop n t)[n := ?g (entries ! n)] =
    map ?g (take (Suc n) entries) @ drop (Suc n) t"
    using Suc.prems unfolding e by (simp add: list_update_append)
  then show ?case using Suc by simp
qed simp

lemma cnt_pos: "0 < IDT_DESC_CNT"
  by (simp add: IDT_DESC_CNT_def)

lemma idt_desc_init_run:
  assumes "IDT_DESC_CNT \<le> length entries" and "length (idt st) = IDT_DESC_CNT"
  shows "idt_desc_init entries h st =
    Inr (st\<lparr>idt := (map (make_idt_desc IDT_DESC_ATTR_DPL0) (take IDT_DESC_CNT entries))
      [IDT_DESC_CNT - 1 := make_idt_desc IDT_DESC_ATTR_DPL3 h]\<rparr>)"
  using assms cnt_pos by (simp add: idt_desc_init_def init_gates_run Let_def)

lemma idt_init_run:
  assumes "IDT_DESC_CNT \<le> length entries" and "length (idt st) = IDT_DESC_CNT"
  obtains st' where "idt_init entries h st = Inr st'"
    and "idt st' = (map (make_idt_desc IDT_DESC_ATTR_DPL0) (take IDT_DESC_CNT entries))
      [IDT_DESC_CNT - 1 := make_idt_desc IDT_DESC_ATTR_DPL3 h]"
    and "idt_table st' = replicate IDT_DESC_CNT General_intr_handler"
    and "port_writes st' = port_writes st @ [(0x20, 0x11), (0x21, 0x20), (0x21, 0x04), (0x21, 0x01),
      (0xa0, 0x11), (0xa1, 0x28), (0xa1, 0x02), (0xa1, 0x01), (0x21, 0xf8), (0xa1, 0x3f)]"
  using idt_desc_init_run [OF assms, of h]
  by (simp add: idt_init_def pic_init_def exception_init_def outb_def pic_ports)

text \<open>After \<^verbatim>\<open>idt_init\<close> the processor finds, for every vector below \<^verbatim>\<open>0x80\<close>, an interrupt gate of
  the kernel to the entry stored for it, and for \<^verbatim>\<open>0x80\<close> the only gate a user program may call,
  which leads to \<^verbatim>\<open>syscall_handler\<close>; nothing else is in the table.\<close>

theorem idt_gates:
  assumes "IDT_DESC_CNT \<le> length entries" and "length (idt st) = IDT_DESC_CNT"
  shows "\<exists>st'. idt_init entries h st = Inr st' \<and> length (idt st') = 0x81 \<and>
    (\<forall>v \<in> {..<0x81}. intr_gate (idt st' ! v) \<and>
       gate_offset (idt st' ! v) = (if v = 0x80 then h else entries ! v) \<and>
       gate_dpl (idt st' ! v) = (if v = 0x80 then 3 else 0))"
proof -
  obtain st' where "idt_init entries h st = Inr st'"
    and "idt st' = (map (make_idt_desc IDT_DESC_ATTR_DPL0) (take IDT_DESC_CNT entries))
      [IDT_DESC_CNT - 1 := make_idt_desc IDT_DESC_ATTR_DPL3 h]"
    by (rule idt_init_run [OF assms])
  then show ?thesis using assms(1)
    by (intro exI [of _ st']) (auto simp: IDT_DESC_CNT_def nth_list_update)
qed

text \<open>The tables at boot, static objects filled with zeros.\<close>

definition boot_tables :: intr_tables where
  "boot_tables =
     \<lparr>idt = replicate IDT_DESC_CNT \<lparr>func_offset_low_word = 0, selector = 0, dcount = 0, attribute = 0,
        func_offset_high_word = 0\<rparr>,
      idt_table = replicate IDT_DESC_CNT No_handler, intr_name = replicate IDT_DESC_CNT [], port_writes = []\<rparr>"

lemma length_boot_idt [simp]: "length (idt boot_tables) = IDT_DESC_CNT"
  by (simp add: boot_tables_def)

lemma idt_gates_witness:
  "\<exists>st'. idt_init (replicate IDT_DESC_CNT 0xc0001500) 0xc0001234 boot_tables = Inr st' \<and> length (idt st') = 0x81"
  using idt_gates [of "replicate IDT_DESC_CNT 0xc0001500" boot_tables "0xc0001234"] by auto

section \<open>The flag\<close>

lemma EFLAGS_IF_bit: "EFLAGS_IF = push_bit 9 1"
  by (simp add: EFLAGS_IF_def push_bit_eq_mult)

lemma if_bit: "EFLAGS_IF AND e \<noteq> 0 \<longleftrightarrow> bit e 9"
  using mask_test [of e 9] by (simp only: EFLAGS_IF_bit and.commute) simp

lemma bit_EFLAGS_IF: "bit EFLAGS_IF n \<longleftrightarrow> n = 9"
  unfolding EFLAGS_IF_bit bit_push_bit_iff by (auto simp: bit_1_iff simp del: push_bit_of_1 push_bit_numeral)

lemma status_of: "intr_get_status e = (if bit e 9 then INTR_ON else INTR_OFF)"
  by (simp add: intr_get_status_def if_bit)

lemma sti_cli: "bit e 9 \<Longrightarrow> sti (cli e) = e" "bit e 9 \<Longrightarrow> sti e = e" "\<not> bit e 9 \<Longrightarrow> cli (sti e) = e"
  by (rule bit_word_eqI; auto simp: sti_def cli_def bit_simps bit_EFLAGS_IF)+

lemma bit_sti_cli [simp]: "bit (sti e) 9" "\<not> bit (cli e) 9"
  by (auto simp: sti_def cli_def bit_simps bit_EFLAGS_IF)

text \<open>A critical section, \<^verbatim>\<open>old = intr_disable()\<close>, \<^verbatim>\<open>intr_set_status(old)\<close>, runs with interrupts off and
  leaves every bit of the flags as it was, whether interrupts were on or off; so does the
  converse bracket of the disk driver, \<^verbatim>\<open>intr_enable()\<close>.\<close>

theorem intr_bracket:
  "(case intr_disable e of (old, e') \<Rightarrow> intr_get_status e' = INTR_OFF \<and> snd (intr_set_status_eflags old e') = e) \<and>
   (case intr_enable e of (old, e') \<Rightarrow> intr_get_status e' = INTR_ON \<and> snd (intr_set_status_eflags old e') = e)"
  by (simp add: intr_disable_def intr_enable_def intr_set_status_eflags_def status_of sti_cli)

section \<open>Sleeping\<close>

lemma ticks_to_sleep_first:
  assumes "k < length obs" and "n \<le> obs ! k - s0" and "\<forall>i < k. obs ! i - s0 < n"
  shows "ticks_to_sleep s0 n obs = Some k"
  using assms
proof (induction obs arbitrary: k)
  case (Cons t obs)
  show ?case
  proof (cases k)
    case 0
    then show ?thesis using Cons.prems by (simp add: linorder_not_less)
  next
    case (Suc j)
    have "ticks_to_sleep s0 n obs = Some j"
      using Cons.prems Suc by (intro Cons.IH) (auto dest: spec [of _ "Suc _"])
    moreover have "t - s0 < n" using Cons.prems(3) Suc by force
    ultimately show ?thesis using Suc by simp
  qed
qed simp

lemma tick_diff:
  assumes "f < 2 ^ 32"
  shows "unat (of_nat (s + f) - of_nat s :: u32) = f"
proof -
  have "(of_nat (s + f) - of_nat s :: u32) = of_nat f" by simp
  then show ?thesis using assms by (simp add: unat_of_nat)
qed

text \<open>C33: \<^verbatim>\<open>mtime_sleep\<close> returns at its first look at the clock at which \<open>m\<close> milliseconds have passed, one
  tick being one, also when the counter of ticks wraps around in between; asked for no time it
  stops the kernel.\<close>

theorem mtime_sleep_wakes:
  fixes el :: "nat list"
  assumes "\<forall>f \<in> set el. f < 2 ^ 32" and "k < length el"
    and "unat m \<le> el ! k" and "\<forall>i < k. el ! i < unat m"
  shows "mtime_sleep m (of_nat s) (map (\<lambda>f. of_nat (s + f)) el) =
    (if m = 0 then Inl Assertion else Inr (Some k))"
proof (cases "m = 0")
  case False
  have el: "unat (of_nat (s + el ! i) - of_nat s :: u32) = el ! i" if "i < length el" for i
    using tick_diff assms(1) that by simp
  have "ticks_to_sleep (of_nat s) m (map (\<lambda>f. of_nat (s + f)) el) = Some k"
    using assms(2-4) el
    by (intro ticks_to_sleep_first) (auto simp: word_le_nat_alt word_less_nat_alt simp del: of_nat_add)
  then show ?thesis using False
    by (simp add: mtime_sleep_def mil_seconds_per_intr_def word_gt_0)
qed (simp add: mtime_sleep_def mil_seconds_per_intr_def)

lemma mtime_sleep_wakes_witness:
  "mtime_sleep 10 (of_nat 4294967290) (map (\<lambda>f. of_nat (4294967290 + f)) [0, 4, 9, 12, 30]) = Inr (Some 3)"
proof -
  have e: "[0, 4, 9, 12, 30] ! 3 = (12 :: nat)" by simp
  have "\<forall>i < 3. [0, 4, 9, 12, 30] ! i < (10 :: nat)" by (simp add: numeral_3_eq_3 All_less_Suc)
  then show ?thesis
    using mtime_sleep_wakes [of "[0, 4, 9, 12, 30]" 3 10 4294967290] e by (simp only: list.set) simp
qed

end
