(* ===== verification/Devices.thy ===== *)
theory Devices
  imports Interrupt Ide Stdio Keyboard
begin

text \<open>
  The rest of \<^verbatim>\<open>kernel/device/ide.c\<close>, waiting for the disk, identifying it and setting up the
  channels at boot, and the start of \<^verbatim>\<open>kernel/device/keyboard.c\<close>.

  What a drive answers is an argument: the values its status port is read as, one after the
  other, the sector of its identification, and its sectors.  The text of a message is kept, not
  the way to the log.  Nobody waits on a semaphore of the model: a wait is the step that
  either takes the count or queues the caller, and the interrupt handler gives the thread it
  makes ready.
\<close>

section \<open>Channels\<close>

record ide_disk =
  disk_name :: "u8 list"
  dev_no :: nat

record ide_channel =
  channel_name :: "u8 list"
  port_base :: u16
  irq_no :: u8
  expecting_intr :: bool
  disk_done :: u8                  \<comment> \<open>the value of the semaphore\<close>
  done_waiters :: "nat list"       \<comment> \<open>its waiters\<close>
  devices :: "ide_disk list"

definition BIT_ALT_STAT_BSY :: u8 where "BIT_ALT_STAT_BSY = 0x80"
definition BIT_ALT_STAT_DRQ :: u8 where "BIT_ALT_STAT_DRQ = 0x08"
definition BIT_DEV_MBS :: u8 where "BIT_DEV_MBS = 0xa0"
definition BIT_DEV_LBA :: u8 where "BIT_DEV_LBA = 0x40"
definition BIT_DEV_DEV :: u8 where "BIT_DEV_DEV = 0x30"
definition CMD_IDENTIFY :: u8 where "CMD_IDENTIFY = 0xec"

datatype port_op = Outb u16 u8 | Inb u16 | Hlt

definition select_disk :: "ide_channel \<Rightarrow> ide_disk \<Rightarrow> port_op" where
  "select_disk ch dk =
     Outb (port_base ch + 6)
       (BIT_DEV_MBS OR BIT_DEV_LBA OR (if dev_no dk = 1 then BIT_DEV_DEV else 0))"

text \<open>The processor halts until some interrupt before the command goes out.\<close>

definition cmd_out :: "u8 \<Rightarrow> ide_channel \<Rightarrow> ide_channel \<times> port_op list" where
  "cmd_out cmd ch = (ch\<lparr>expecting_intr := True\<rparr>, [Hlt, Outb (port_base ch + 7) cmd])"

text \<open>\<^verbatim>\<open>sema_down\<close> and \<^verbatim>\<open>sema_up\<close> of the channel: whether thread \<open>t\<close> goes on, and the thread made ready.\<close>

definition done_down :: "nat \<Rightarrow> ide_channel \<Rightarrow> bool \<times> ide_channel" where
  "done_down t ch =
     (if disk_done ch = 0
      then (False, ch\<lparr>done_waiters := (if t \<in> set (done_waiters ch) then done_waiters ch else done_waiters ch @ [t])\<rparr>)
      else (True, ch\<lparr>disk_done := disk_done ch - 1\<rparr>))"

definition done_up :: "ide_channel \<Rightarrow> nat option \<times> ide_channel" where
  "done_up ch =
     (case done_waiters ch of
        [] \<Rightarrow> (None, ch\<lparr>disk_done := disk_done ch + 1\<rparr>)
      | t # ts \<Rightarrow> (Some t, ch\<lparr>disk_done := disk_done ch + 1, done_waiters := ts\<rparr>))"

definition intr_hd_handler :: "u8 \<Rightarrow> ide_channel list \<Rightarrow> (nat option \<times> port_op list \<times> ide_channel list) cres" where
  "intr_hd_handler irq channels =
     andthen (assert_c (irq = 0x2e \<or> irq = 0x2f)) (\<lambda>_.
     let ch_no = unat (irq - 0x2e)
     in andthen (rd channels ch_no) (\<lambda>ch.
        andthen (assert_c (irq_no ch = irq)) (\<lambda>_.
        if expecting_intr ch
        then
          let (woken, ch) = done_up (ch\<lparr>expecting_intr := False\<rparr>)
          in Inr (woken, [Inb (port_base ch + 7)], channels[ch_no := ch])
        else Inr (None, [], channels))))"

text \<open>\<^verbatim>\<open>while(time_limit-=10>=0)\<close> takes \<open>10>=0\<close>, that is 1, off the limit.  The test is the step from
  \<open>Suc t\<close> to \<open>t\<close>; \<open>st i\<close> is what the \<open>i\<close>th read of the status port gives, and between two reads
  the thread sleeps for ten milliseconds.\<close>

fun busy_wait_loop :: "nat \<Rightarrow> (nat \<Rightarrow> u8) \<Rightarrow> nat \<Rightarrow> bool" where
  "busy_wait_loop 0 st i = False"
| "busy_wait_loop (Suc t) st i =
     (if t \<noteq> 0
      then if st i AND BIT_ALT_STAT_BSY = 0 then st (i + 1) AND BIT_ALT_STAT_DRQ \<noteq> 0
           else busy_wait_loop t st (i + 1)
      else False)"

definition busy_wait :: "(nat \<Rightarrow> u8) \<Rightarrow> bool" where
  "busy_wait st = busy_wait_loop (30 * 1000) st 0"

section \<open>Identification\<close>

record drive =
  status :: "nat \<Rightarrow> u8"
  id_info :: "u8 list"
  content :: sectors

text \<open>\<^verbatim>\<open>printk\<close> into its 128 bytes: the text.\<close>

definition message :: "string \<Rightarrow> arg list \<Rightarrow> u8 list cres" where
  "message fmt args =
     andthen (vsprintf (replicate 128 0) (map of_char fmt @ [10, 0]) args) (\<lambda>(b, n). Inr (take n b))"

definition identify_disk :: "u8 list \<Rightarrow> drive \<Rightarrow> u8 list list cres" where
  "identify_disk name d =
     (if \<not> busy_wait (status d) then Inl Assertion
      else
        andthen (swap_pairs_bytes (drop 20 (id_info d)) 20) (\<lambda>sn.
        andthen (message (concat ['' disk %s info:'', [CHR 0x0A], '' SN: %s'']) [Ptr name, Ptr sn]) (\<lambda>m1.
        andthen (swap_pairs_bytes (drop 54 (id_info d)) 40) (\<lambda>md.
        andthen (message '' MODULE: %s'' [Ptr md]) (\<lambda>m2.
        andthen (get_at (id_info d) 120 4) (\<lambda>w.
        let sectors = (of_nat (hd (words_of w)) :: u32)
        in andthen (message '' SECTORS: %d'' [Num sectors]) (\<lambda>m3.
           andthen (message '' CAPACITY: %dMB'' [Num (sectors * 512 div 1024 div 1024)]) (\<lambda>m4.
           Inr [m1, m2, m3, m4]))))))))"

definition partition_info :: "part_info \<Rightarrow> u8 list cres" where
  "partition_info part =
     message ''    %s start_lba:0x%x, sec_cnt:0x%x''
       [Ptr (part_name part), Num (of_nat (start_lba part)), Num (of_nat (sec_cnt part))]"

section \<open>Setting up\<close>

record ide_state =
  channels :: "ide_channel list"
  tables :: intr_tables
  messages :: "u8 list list"
  scans :: "part_scan list"        \<comment> \<open>what was found on the second disk of each channel\<close>
  base :: nat                      \<comment> \<open>\<^verbatim>\<open>ext_lba_base\<close>, which nobody sets back\<close>

definition no_part :: part_info where
  "no_part = \<lparr>start_lba = 0, sec_cnt = 0, part_name = replicate 8 0\<rparr>"

definition fresh_scan :: "nat \<Rightarrow> part_scan" where
  "fresh_scan b =
     \<lparr>ext_lba_base = b, p_no = 0, l_no = 0, prim_parts = replicate 4 no_part,
      logic_parts = replicate 8 no_part, partition_list = []\<rparr>"

text \<open>One round of the inner loop.\<close>

definition init_device :: "nat \<Rightarrow> (nat \<Rightarrow> nat \<Rightarrow> drive) \<Rightarrow> nat \<Rightarrow> nat \<Rightarrow> ide_state \<Rightarrow> ide_state cres option" where
  "init_device fuel drives channel_no dev st =
     (let d = drives channel_no dev in
      case andthen (rd (channels st) channel_no) (\<lambda>ch.
           andthen (sprintf (replicate 8 0) (map of_char ''sd%c'' @ [0]) [Num (97 + of_nat (channel_no * 2 + dev))]) (\<lambda>(name, _).
           andthen (wr (devices ch) dev \<lparr>disk_name = name, dev_no = dev\<rparr>) (\<lambda>ds.
           andthen (identify_disk name d) (\<lambda>ms.
           Inr (cstr name, st\<lparr>channels := (channels st)[channel_no := ch\<lparr>devices := ds\<rparr>],
                         messages := messages st @ ms\<rparr>))))) of
        Inl e \<Rightarrow> Some (Inl e)
      | Inr (name, st) \<Rightarrow>
          if dev \<noteq> 0
          then
            (case partition_scan fuel (content d) dev name 0 (fresh_scan (base st)) of
               None \<Rightarrow> None
             | Some (Inl e) \<Rightarrow> Some (Inl e)
             | Some (Inr sc) \<Rightarrow> Some (Inr (st\<lparr>scans := scans st @ [sc], base := ext_lba_base sc\<rparr>)))
          else Some (Inr st))"

text \<open>The channel's own fields; a third channel would lie behind the array.\<close>

definition init_channel :: "nat \<Rightarrow> ide_state \<Rightarrow> ide_state cres" where
  "init_channel channel_no st =
     andthen (rd (channels st) channel_no) (\<lambda>ch.
     andthen (sprintf (replicate 8 0) (map of_char ''ide%d'' @ [0]) [Num (of_nat channel_no)]) (\<lambda>(name, _).
     let ch = ch\<lparr>channel_name := name,
                 port_base := (if channel_no = 0 then 0x1f0 else if channel_no = 1 then 0x170 else port_base ch),
                 irq_no := (if channel_no = 0 then 0x20 + 14 else if channel_no = 1 then 0x20 + 15 else irq_no ch),
                 expecting_intr := False, disk_done := 0, done_waiters := []\<rparr>
     in andthen (register_handler (irq_no ch) Intr_hd_handler (tables st)) (\<lambda>t.
        Inr (st\<lparr>channels := (channels st)[channel_no := ch], tables := t\<rparr>))))"

fun init_channels :: "nat \<Rightarrow> (nat \<Rightarrow> nat \<Rightarrow> drive) \<Rightarrow> nat list \<Rightarrow> ide_state \<Rightarrow> ide_state cres option" where
  "init_channels fuel drives [] st = Some (Inr st)"
| "init_channels fuel drives (c # cs) st =
     (case init_channel c st of
        Inl e \<Rightarrow> Some (Inl e)
      | Inr st \<Rightarrow>
          (case init_device fuel drives c 0 st of
             None \<Rightarrow> None
           | Some (Inl e) \<Rightarrow> Some (Inl e)
           | Some (Inr st) \<Rightarrow>
               (case init_device fuel drives c 1 st of
                  None \<Rightarrow> None
                | Some (Inl e) \<Rightarrow> Some (Inl e)
                | Some (Inr st) \<Rightarrow> init_channels fuel drives cs st)))"

text \<open>\<open>hd_cnt\<close> is the number of disks the BIOS left at \<^verbatim>\<open>0x475\<close>.\<close>

definition ide_init :: "nat \<Rightarrow> u8 \<Rightarrow> (nat \<Rightarrow> nat \<Rightarrow> drive) \<Rightarrow> ide_state \<Rightarrow> ide_state cres option" where
  "ide_init fuel hd_cnt drives st =
     (if hd_cnt > 0
      then init_channels fuel drives [0..<DIV_ROUND_UP (unat hd_cnt) 2] st
      else Some (Inl Assertion))"

text \<open>\<^verbatim>\<open>keyboard_init\<close> of the keyboard driver.\<close>

definition keyboard_init :: "keyboard \<Rightarrow> intr_tables \<Rightarrow> (keyboard \<times> intr_tables) cres" where
  "keyboard_init k st =
     andthen (register_handler 0x21 Intr_keyboard_handler st) (\<lambda>st.
     Inr (k\<lparr>kbd_buf := ioqueue_init (kbd_buf k)\<rparr>, st))"

section \<open>Waiting for the disk\<close>

lemma busy_wait_loop_iff:
  "busy_wait_loop (Suc t) st i \<longleftrightarrow>
     (\<exists>k < t. (\<forall>j < k. st (i + j) AND BIT_ALT_STAT_BSY \<noteq> 0) \<and> st (i + k) AND BIT_ALT_STAT_BSY = 0 \<and>
       st (i + k + 1) AND BIT_ALT_STAT_DRQ \<noteq> 0)"
proof (induction t arbitrary: i)
  case (Suc t)
  show ?case
  proof (cases "st i AND BIT_ALT_STAT_BSY = 0")
    case True
    then have "(\<forall>j < k. st (i + j) AND BIT_ALT_STAT_BSY \<noteq> 0) \<longleftrightarrow> k = 0" for k
      by (metis add_0_right gr0I less_nat_zero_code)
    then show ?thesis using True by (auto cong: conj_cong)
  next
    case False
    have e: "(\<forall>j < Suc k. st (i + j) AND BIT_ALT_STAT_BSY \<noteq> 0) \<longleftrightarrow>
        (\<forall>j < k. st (Suc i + j) AND BIT_ALT_STAT_BSY \<noteq> 0)" for k
      using False by (auto simp: All_less_Suc2)
    show ?thesis using False Suc [of "Suc i"] e by (auto simp: Ex_less_Suc2)
  qed
qed simp



text \<open>C31: A thread that sends a command and waits for the disk is made ready by the disk's interrupt and
  then goes on, with nothing left over for the next command; an interrupt nobody expects has no
  effect.\<close>

theorem disk_interrupt_wakes:
  assumes "chs ! c = ch" and "c < length chs" and "c < 2"
    and "irq_no ch = 0x2e + of_nat c" and "disk_done ch = 0" and "done_waiters ch = []"
    and "cmd_out cmd ch = (ch1, ops)" and "done_down t ch1 = (go, ch2)"
  shows "\<not> go \<and> (\<exists>ch3. intr_hd_handler (0x2e + of_nat c) (chs[c := ch2]) =
      Inr (Some t, [Inb (port_base ch + 7)], chs[c := ch3]) \<and>
    done_down t ch3 = (True, ch\<lparr>expecting_intr := False\<rparr>) \<and>
    intr_hd_handler (0x2e + of_nat c) (chs[c := ch3]) = Inr (None, [], chs[c := ch3]))"
proof -
  have ch2: "go = False" "ch2 = ch\<lparr>expecting_intr := True, done_waiters := [t]\<rparr>"
    using assms(5-8) by (auto simp: cmd_out_def done_down_def)
  define ch3 where "ch3 = ch\<lparr>expecting_intr := False, disk_done := 1, done_waiters := []\<rparr>"
  have c: "c = 0 \<or> c = 1" using assms(3) by auto
  have irq: "irq_no ch2 = 0x2e + of_nat c" "irq_no ch3 = 0x2e + of_nat c"
    using assms(4) by (simp_all add: ch2 ch3_def)
  have "intr_hd_handler (0x2e + of_nat c) (chs[c := ch2]) = Inr (Some t, [Inb (port_base ch + 7)], chs[c := ch3])"
    using c irq assms(2,5) ch2(2) by (auto simp: intr_hd_handler_def done_up_def ch3_def)
  moreover have "done_down t ch3 = (True, ch\<lparr>expecting_intr := False\<rparr>)"
    using assms(5,6) by (simp add: done_down_def ch3_def)
  moreover have "intr_hd_handler (0x2e + of_nat c) (chs[c := ch3]) = Inr (None, [], chs[c := ch3])"
    using c irq assms(2) by (auto simp: intr_hd_handler_def ch3_def)
  ultimately show ?thesis using ch2(1) by blast
qed

lemma disk_interrupt_wakes_witness:
  "\<exists>ch2 ch3. intr_hd_handler 0x2f [undefined, ch2] = Inr (Some 7, [Inb 0x177], [undefined, ch3]) \<and>
    fst (done_down 7 ch3)"
proof -
  define ch where "ch = \<lparr>channel_name = [], port_base = 0x170, irq_no = 0x2f, expecting_intr = False,
    disk_done = 0, done_waiters = [], devices = []\<rparr>"
  define x where "x = done_down 7 (fst (cmd_out 0xec ch))"
  have "done_down 7 (fst (cmd_out 0xec ch)) = (fst x, snd x)" by (simp add: x_def)
  then obtain c3 where "intr_hd_handler (0x2e + of_nat 1) ([undefined, ch][1 := snd x]) =
      Inr (Some 7, [Inb (port_base ch + 7)], [undefined, ch][1 := c3])"
    "done_down 7 c3 = (True, ch\<lparr>expecting_intr := False\<rparr>)"
    using disk_interrupt_wakes [of "[undefined, ch]" 1 ch "0xec" "fst (cmd_out 0xec ch)" "snd (cmd_out 0xec ch)" 7 "fst x" "snd x"]
    by (auto simp: ch_def)
  then show ?thesis
    by (intro exI [of _ "snd x"] exI [of _ c3]) (simp add: ch_def)
qed

section \<open>Interrupts at boot\<close>

lemma register_handler_run:
  assumes "register_handler v f st = Inr st'"
  shows "idt_table st' = (idt_table st)[unat v := f] \<and> port_writes st' = port_writes st \<and> idt st' = idt st"
  using assms by (auto simp: register_handler_def andthen_eq_Inr_iff wr_eq_Inr)

lemma init_device_tables:
  assumes "init_device fuel drives c dev st = Some (Inr st')"
  shows "tables st' = tables st \<and> length (channels st') = length (channels st)"
  using assms by (auto simp: init_device_def Let_def andthen_eq_Inr_iff split: sum.splits option.splits if_splits)

lemma init_channel_tables:
  assumes "init_channel c st = Inr st'" and "length (channels st) = 2"
  shows "c < 2 \<and> length (channels st') = 2 \<and>
    idt_table (tables st') = (idt_table (tables st))[0x2e + c := Intr_hd_handler] \<and>
    port_writes (tables st') = port_writes (tables st) \<and> idt (tables st') = idt (tables st)"
proof -
  have c: "c < 2" using assms by (auto simp: init_channel_def andthen_eq_Inr_iff rd_eq_Inr)
  then have c': "c = 0 \<or> c = 1" by auto
  from c show ?thesis using assms c'
    by (auto simp: init_channel_def andthen_eq_Inr_iff Let_def dest!: register_handler_run)
qed

lemma init_channels_tables:
  assumes "init_channels fuel drives cs st = Some (Inr st')" and "length (channels st) = 2"
  shows "(\<forall>c \<in> set cs. c < 2) \<and> length (channels st') = 2 \<and>
    idt_table (tables st') = fold (\<lambda>c t. t[0x2e + c := Intr_hd_handler]) cs (idt_table (tables st)) \<and>
    port_writes (tables st') = port_writes (tables st) \<and> idt (tables st') = idt (tables st)"
  using assms
proof (induction fuel drives cs st rule: init_channels.induct)
  case (2 fuel drives c cs st)
  obtain s1 s2 s3 where s: "init_channel c st = Inr s1" "init_device fuel drives c 0 s1 = Some (Inr s2)"
    "init_device fuel drives c 1 s2 = Some (Inr s3)" "init_channels fuel drives cs s3 = Some (Inr st')"
    using 2(2) by (auto split: sum.splits option.splits)
  then show ?case
    using 2(1) [OF s(1,2) refl s(3) refl s(4)] init_channel_tables [OF s(1) 2(3)]
      init_device_tables [OF s(2)] init_device_tables [OF s(3)]
    by auto
qed simp

text \<open>The writes that set up a controller, whatever it was before.\<close>

lemma controllers_set_up:
  assumes "port_writes st = ws @ [(0x20, 0x11), (0x21, 0x20), (0x21, 0x04), (0x21, 0x01),
      (0xa0, 0x11), (0xa1, 0x28), (0xa1, 0x02), (0xa1, 0x01), (0x21, 0xf8), (0xa1, 0x3f),
      (0x43, x), (0x40, y), (0x40, z)]"
  shows "enabled_vectors (controller 0x20 st p) = [0x20, 0x21, 0x22]"
    and "enabled_vectors (controller 0xa0 st p) = [0x2e, 0x2f]"
proof -
  have b: "bit (0x11 :: u8) 4" by (simp add: bit_iff_odd)
  have m: "filter (\<lambda>i. \<not> bit (0xf8 :: u8) i) [0..<8] = [0, 1, 2]" "filter (\<lambda>i. \<not> bit (0x3f :: u8) i) [0..<8] = [6, 7]"
    by (simp_all add: upt_rec bit_iff_odd)
  have c: "vector_base (controller 0x20 st p) = 0x20" "imr (controller 0x20 st p) = 0xf8"
    "vector_base (controller 0xa0 st p) = 0x28" "imr (controller 0xa0 st p) = 0x3f"
    by (simp_all add: controller_def assms b)
  show "enabled_vectors (controller 0x20 st p) = [0x20, 0x21, 0x22]"
    "enabled_vectors (controller 0xa0 st p) = [0x2e, 0x2f]"
    unfolding enabled_vectors_def c m by simp_all
qed

lemma timer_init_run:
  assumes "timer_init st = Inr st'"
  shows "idt_table st' = (idt_table st)[0x20 := Intr_timer_handler] \<and> idt st' = idt st \<and>
    port_writes st' = port_writes st @ [(0x43, 0x34), (0x40, 0xa9), (0x40, 0x04)]"
  using assms register_handler_run
  by (fastforce simp: timer_init_def frequency_set_def outb_def Let_def COUNTER0_VALUE_def push_bit_eq_mult drop_bit_eq_div)


text \<open>A machine with one disk, on which there are no partitions.\<close>

definition blank_drive :: drive where
  "blank_drive = \<lparr>status = (\<lambda>i. 0x08), id_info = replicate 512 0, content = (\<lambda>i. replicate 512 0)\<rparr>"

definition blank_channel :: ide_channel where
  "blank_channel = \<lparr>channel_name = replicate 8 0, port_base = 0, irq_no = 0, expecting_intr = False,
     disk_done = 0, done_waiters = [], devices = replicate 2 \<lparr>disk_name = replicate 8 0, dev_no = 0\<rparr>\<rparr>"

lemma blank_ready: "busy_wait (status blank_drive)"
proof -
  have "30 * 1000 = Suc 29999" by simp
  then show ?thesis
    using busy_wait_loop_iff [of 29999 "\<lambda>i. 0x08" 0]
    by (auto simp: busy_wait_def blank_drive_def BIT_ALT_STAT_BSY_def BIT_ALT_STAT_DRQ_def intro: exI [of _ 0])
qed

lemma swap_pairs_zeros: "swap_pairs (replicate n 0) = replicate n 0"
  by (induction n rule: induct_nat_012) simp_all

lemma replicate_snoc: "replicate n x @ [x] = replicate (Suc n) x"
  by (simp add: replicate_append_same)

lemma blank_strings:
  "swap_pairs_bytes (drop 20 (id_info blank_drive)) 20 = Inr (replicate 21 0)"
  "swap_pairs_bytes (drop 54 (id_info blank_drive)) 40 = Inr (replicate 41 0)"
  "get_at (id_info blank_drive) 120 4 = Inr (replicate 4 0)"
  by (simp_all add: swap_pairs_bytes_def blank_drive_def swap_pairs_zeros get_at_def replicate_snoc)

definition succeeds :: "'a cres \<Rightarrow> bool" where
  "succeeds m = (case m of Inr x \<Rightarrow> True | Inl e \<Rightarrow> False)"

lemma succeedsE: "succeeds m \<Longrightarrow> \<exists>x. m = Inr x"
  by (cases m) (simp_all add: succeeds_def)

lemma blank_messages:
  "succeeds (message '' MODULE: %s'' [Ptr (replicate 41 0)])"
  "succeeds (message '' SECTORS: %d'' [Num 0])"
  "succeeds (message '' CAPACITY: %dMB'' [Num 0])"
  "succeeds (message (concat ['' disk %s info:'', [CHR 0x0A], '' SN: %s''])
     [Ptr [115, 100, 97, 0, 0, 0, 0, 0], Ptr (replicate 21 0)])"
  "succeeds (message (concat ['' disk %s info:'', [CHR 0x0A], '' SN: %s''])
     [Ptr [115, 100, 98, 0, 0, 0, 0, 0], Ptr (replicate 21 0)])"
  by code_simp+

lemma blank_names:
  "sprintf (replicate 8 0) [105, 100, 101, 37, 100, 0] [Num 0] = Inr ([105, 100, 101, 48, 0, 0, 0, 0], 0)"
  "sprintf (replicate 8 0) [115, 100, 37, 99, 0] [Num 97] = Inr ([115, 100, 97, 0, 0, 0, 0, 0], 0)"
  "sprintf (replicate 8 0) [115, 100, 37, 99, 0] [Num 98] = Inr ([115, 100, 98, 0, 0, 0, 0, 0], 0)"
  by code_simp+

lemma blank_identify:
  assumes "nm = [115, 100, 97, 0, 0, 0, 0, 0] \<or> nm = [115, 100, 98, 0, 0, 0, 0, 0]"
  shows "\<exists>ms. identify_disk nm blank_drive = Inr ms"
proof -
  have w: "hd (words_of (replicate 4 0)) = 0" using words_of_replicate_0 [of 1] by simp
  have "succeeds (message (concat ['' disk %s info:'', [CHR 0x0A], '' SN: %s'']) [Ptr nm, Ptr (replicate 21 0)])"
    using assms by (elim disjE) (simp_all only: blank_messages)
  then obtain m1 where m1:
    "message (concat ['' disk %s info:'', [CHR 0x0A], '' SN: %s'']) [Ptr nm, Ptr (replicate 21 0)] = Inr m1"
    by (rule succeedsE [THEN exE])
  obtain m2 where m2: "message '' MODULE: %s'' [Ptr (replicate 41 0)] = Inr m2"
    using succeedsE [OF blank_messages(1)] by (elim exE)
  obtain m3 where m3: "message '' SECTORS: %d'' [Num 0] = Inr m3"
    using succeedsE [OF blank_messages(2)] by (elim exE)
  obtain m4 where m4: "message '' CAPACITY: %dMB'' [Num 0] = Inr m4"
    using succeedsE [OF blank_messages(3)] by (elim exE)
  note m = m1 m2 m3 m4
  have o0: "(of_nat 0 :: u32) = 0" by simp
  have z: "(0 :: u32) * 512 div 1024 div 1024 = 0" by simp
  have "identify_disk nm blank_drive = Inr [m1, m2, m3, m4]"
    by (simp only: identify_disk_def Let_def blank_ready not_True_eq_False if_False blank_strings andthen_Inr m w o0 z)
  then show ?thesis ..
qed

lemma blank_scan: "partition_scan 1 (content blank_drive) 1 nm 0 st = Some (Inr st)"
proof -
  have e: "fs_type (entry_of (replicate 16 0)) = 0"
    by (simp add: entry_of_def)
  have "ide_read (content blank_drive) 1 0 1 = Inr (replicate 512 0)"
    by (simp add: blank_drive_def)
  moreover have "partition_table (replicate 512 0) = replicate 4 (entry_of (replicate 16 0))"
  proof -
    have u: "[0..<4] = [0, 1, 2, 3 :: nat]" by (simp add: upt_rec)
    have r: "replicate 4 x = [x, x, x, x]" for x :: partition_table_entry by (simp add: numeral_eq_Suc)
    show ?thesis unfolding partition_table_def u r by simp
  qed
  moreover have "scan_table f nm 0 (replicate 4 (entry_of (replicate 16 0))) st = Some (Inr st)" for f
  proof -
    have r: "replicate 4 x = [x, x, x, x]" for x :: partition_table_entry by (simp add: numeral_eq_Suc)
    show ?thesis unfolding r by (simp add: e)
  qed
  ultimately show ?thesis by (simp add: One_nat_def)
qed

definition blank_state :: "intr_tables \<Rightarrow> ide_state" where
  "blank_state t = \<lparr>channels = replicate 2 blank_channel, tables = t, messages = [], scans = [], base = 0\<rparr>"

lemma blank_boot:
  assumes "length (idt_table t) = IDT_DESC_CNT"
  shows "\<exists>s'. ide_init 1 1 (\<lambda>c v. blank_drive) (blank_state t) = Some (Inr s')"
proof -
  have l: "46 < IDT_DESC_CNT" by (simp add: IDT_DESC_CNT_def)
  obtain ma mb where m: "identify_disk [115, 100, 97, 0, 0, 0, 0, 0] blank_drive = Inr ma"
    "identify_disk [115, 100, 98, 0, 0, 0, 0, 0] blank_drive = Inr mb"
    using blank_identify by metis
  have u: "[0..<DIV_ROUND_UP (unat (1 :: u8)) 2] = [0]" by (simp add: DIV_ROUND_UP_def)
  obtain s1 where s1: "init_channel 0 (blank_state t) = Inr s1" "length (channels s1) = 2" "channels s1 ! 0 = (blank_channel\<lparr>
      channel_name := [105, 100, 101, 48, 0, 0, 0, 0], port_base := 0x1f0, irq_no := 0x2e\<rparr>)" "base s1 = 0"
    using assms l by (simp add: init_channel_def blank_state_def blank_names register_handler_def blank_channel_def)
  obtain s2 where s2: "init_device 1 (\<lambda>c v. blank_drive) 0 0 s1 = Some (Inr s2)" "length (channels s2) = 2"
      "length (devices (channels s2 ! 0)) = 2" "base s2 = 0"
    using s1 by (simp add: init_device_def blank_names m blank_channel_def)
  obtain s3 where s3: "init_device 1 (\<lambda>c v. blank_drive) 0 1 s2 = Some (Inr s3)"
    using s2 by (simp add: init_device_def blank_names m blank_scan del: One_nat_def)
  show ?thesis using s1 s2 s3 u by (simp add: ide_init_def del: One_nat_def)
qed


end
