(* ===== verification/Tss.thy ===== *)
theory Tss
  imports Prelude
begin

text \<open>
  \<^verbatim>\<open>kernel/userprog/tss.c\<close>: the task state segment, which tells the processor the kernel stack of
  the running process, and the descriptors of it and of the user's segments.

  The descriptor table is the function from the addresses of descriptors to their contents.
  \<open>seg_base\<close>, \<open>seg_limit\<close>, \<open>seg_dpl\<close> and \<open>descriptor\<close> say how the processor reads it.
\<close>

section \<open>Constants of \<^verbatim>\<open>global.h\<close>\<close>

definition SELECTOR_K_DATA :: u32 where "SELECTOR_K_DATA = push_bit 3 2 + push_bit 2 0 + 0"
definition SELECTOR_K_STACK :: u32 where "SELECTOR_K_STACK = SELECTOR_K_DATA"
definition SELECTOR_U_CODE :: u32 where "SELECTOR_U_CODE = push_bit 3 5 + push_bit 2 0 + 3"
definition SELECTOR_U_DATA :: u32 where "SELECTOR_U_DATA = push_bit 3 6 + push_bit 2 0 + 3"
definition SELECTOR_TSS :: u32 where "SELECTOR_TSS = push_bit 3 4 + push_bit 2 0 + 0"

definition GDT_ATTR_HIGH :: u8 where
  "GDT_ATTR_HIGH = push_bit 7 1 + push_bit 6 1 + push_bit 5 0 + push_bit 4 0"
definition GDT_CODE_ATTR_LOW_DPL3 :: u8 where
  "GDT_CODE_ATTR_LOW_DPL3 = push_bit 7 1 + push_bit 5 3 + push_bit 4 1 + 8"
definition GDT_DATA_ATTR_LOW_DPL3 :: u8 where
  "GDT_DATA_ATTR_LOW_DPL3 = push_bit 7 1 + push_bit 5 3 + push_bit 4 1 + 2"
definition TSS_ATTR_HIGH :: u8 where
  "TSS_ATTR_HIGH = push_bit 7 1 + push_bit 6 0 + push_bit 5 0 + push_bit 4 0 + 0"
definition TSS_ATTR_LOW :: u8 where
  "TSS_ATTR_LOW = push_bit 7 1 + push_bit 5 0 + push_bit 4 0 + 9"

section \<open>The segment and the descriptors\<close>

record tss =
  tss_backlink :: u32
  tss_esp0 :: u32
  tss_ss0 :: u32
  tss_esp1 :: u32
  tss_ss1 :: u32
  tss_esp2 :: u32
  tss_ss2 :: u32
  tss_cr3 :: u32
  tss_eip :: u32
  tss_eflags :: u32
  tss_eax :: u32
  tss_ecx :: u32
  tss_edx :: u32
  tss_ebx :: u32
  tss_esp :: u32
  tss_ebp :: u32
  tss_esi :: u32
  tss_edi :: u32
  tss_es :: u32
  tss_cs :: u32
  tss_ss :: u32
  tss_ds :: u32
  tss_fs :: u32
  tss_gs :: u32
  tss_ldt :: u32
  tss_trace :: u32
  tss_io_base :: u32

definition tss_size :: u32 where "tss_size = 27 * 4"

definition zero_tss :: tss where
  "zero_tss =
     \<lparr>tss_backlink = 0, tss_esp0 = 0, tss_ss0 = 0, tss_esp1 = 0, tss_ss1 = 0, tss_esp2 = 0, tss_ss2 = 0,
      tss_cr3 = 0, tss_eip = 0, tss_eflags = 0, tss_eax = 0, tss_ecx = 0, tss_edx = 0, tss_ebx = 0,
      tss_esp = 0, tss_ebp = 0, tss_esi = 0, tss_edi = 0, tss_es = 0, tss_cs = 0, tss_ss = 0, tss_ds = 0,
      tss_fs = 0, tss_gs = 0, tss_ldt = 0, tss_trace = 0, tss_io_base = 0\<rparr>"

definition update_tss_esp :: "u32 \<Rightarrow> tss \<Rightarrow> tss" where
  "update_tss_esp pthread t = t\<lparr>tss_esp0 := pthread + of_nat PG_SIZE\<rparr>"

record gdt_desc =
  limit_low_word :: u16
  base_low_word :: u16
  base_mid_byte :: u8
  attr_low_byte :: u8
  limit_high_attr_high :: u8
  base_high_byte :: u8

definition make_gdt_desc :: "u32 \<Rightarrow> u32 \<Rightarrow> u8 \<Rightarrow> u8 \<Rightarrow> gdt_desc" where
  "make_gdt_desc desc_base limit attr_low attr_high =
     \<lparr>limit_low_word = ucast (limit AND 0x0000ffff),
      base_low_word = ucast (desc_base AND 0x0000ffff),
      base_mid_byte = ucast (drop_bit 16 (desc_base AND 0x00ff0000)),
      attr_low_byte = attr_low,
      limit_high_attr_high = ucast (drop_bit 16 (limit AND 0x000f0000) + (ucast attr_high :: u32)),
      base_high_byte = ucast (drop_bit 24 desc_base)\<rparr>"

record descriptor_tables =
  gdt :: "u32 \<Rightarrow> gdt_desc"
  gdtr :: u64              \<comment> \<open>the operand of \<^verbatim>\<open>lgdt\<close>\<close>
  tr :: u32                \<comment> \<open>the selector given to \<^verbatim>\<open>ltr\<close>\<close>
  the_tss :: tss

definition set_gdt :: "u32 \<Rightarrow> gdt_desc \<Rightarrow> descriptor_tables \<Rightarrow> descriptor_tables" where
  "set_gdt a d s = s\<lparr>gdt := (gdt s)(a := d)\<rparr>"

text \<open>\<open>tss_addr\<close> is the address of the object.\<close>

definition tss_init :: "u32 \<Rightarrow> descriptor_tables \<Rightarrow> descriptor_tables" where
  "tss_init tss_addr s =
     (let s = s\<lparr>the_tss := zero_tss\<lparr>tss_ss0 := SELECTOR_K_STACK, tss_io_base := tss_size\<rparr>\<rparr>;
          s = set_gdt 0xc0000623 (make_gdt_desc tss_addr (tss_size - 1) TSS_ATTR_LOW TSS_ATTR_HIGH) s;
          s = set_gdt 0xc000062b (make_gdt_desc 0 0xcffff GDT_CODE_ATTR_LOW_DPL3 GDT_ATTR_HIGH) s;
          s = set_gdt 0xc0000633 (make_gdt_desc 0 0xfffff GDT_DATA_ATTR_LOW_DPL3 GDT_ATTR_HIGH) s
      in s\<lparr>gdtr := (8 * 7 - 1) OR push_bit 16 0xc0000603, tr := SELECTOR_TSS\<rparr>)"

section \<open>How the processor reads them\<close>

definition descriptor :: "descriptor_tables \<Rightarrow> u32 \<Rightarrow> gdt_desc" where
  "descriptor s sel = gdt s (ucast (drop_bit 16 (gdtr s)) + 8 * drop_bit 3 sel)"

definition in_table :: "descriptor_tables \<Rightarrow> u32 \<Rightarrow> bool" where
  "in_table s sel \<longleftrightarrow> unat (8 * drop_bit 3 sel) + 7 \<le> unat (ucast (gdtr s) :: u16)"

definition seg_base :: "gdt_desc \<Rightarrow> u32" where
  "seg_base d = ucast (base_low_word d) OR push_bit 16 (ucast (base_mid_byte d)) OR push_bit 24 (ucast (base_high_byte d))"

definition limit_field :: "gdt_desc \<Rightarrow> u32" where
  "limit_field d = ucast (limit_low_word d) OR push_bit 16 (ucast (limit_high_attr_high d AND 0x0f))"

text \<open>The last offset of the segment: the limit counts pages when the top bit is set.\<close>

definition seg_limit :: "gdt_desc \<Rightarrow> nat" where
  "seg_limit d =
     (if bit (limit_high_attr_high d) 7 then unat (limit_field d) * 4096 + 4095 else unat (limit_field d))"

definition seg_dpl :: "gdt_desc \<Rightarrow> u8" where
  "seg_dpl d = drop_bit 5 (attr_low_byte d) AND 3"

definition seg_kind :: "gdt_desc \<Rightarrow> u8" where
  "seg_kind d = attr_low_byte d AND 0x1f"

section \<open>Descriptors mean what they were made from\<close>

lemma masks: "(0x0000ffff :: u32) = mask 16" "(0x00ff0000 :: u32) = push_bit 16 (mask 8)"
  "(0x000f0000 :: u32) = push_bit 16 (mask 4)" "(0x0f :: u8) = mask 4"
  by (simp_all add: mask_eq_exp_minus_1 push_bit_eq_mult)

lemma seg_base_make: "seg_base (make_gdt_desc b l al ah) = b"
  unfolding seg_base_def make_gdt_desc_def gdt_desc.select_convs masks
proof (rule bit_word_eqI)
  fix n assume n: "n < LENGTH(32)"
  consider "n < 16" | "16 \<le> n" "n < 24" | "24 \<le> n" by linarith
  then show "bit (ucast (ucast (b AND mask 16) :: u16) OR
      push_bit 16 (ucast (ucast (drop_bit 16 (b AND push_bit 16 (mask 8))) :: u8)) OR
      push_bit 24 (ucast (ucast (drop_bit 24 b) :: u8)) :: u32) n = bit b n"
    using n by cases (auto simp: bit_simps)
qed

text \<open>The two halves of the shared byte do not meet when the attributes leave the low half free.\<close>

lemma high_byte_make:
  assumes "ah AND 0x0f = 0"
  shows "limit_high_attr_high (make_gdt_desc b l al ah) = ucast (drop_bit 16 l AND mask 4) OR ah"
proof -
  have low: "\<not> bit ah n" if "n < 4" for n
  proof -
    have "bit (ah AND mask 4) n \<longleftrightarrow> bit ah n" using that by (simp add: bit_simps)
    then show ?thesis using assms masks(4) by simp
  qed
  have "drop_bit 16 (l AND push_bit 16 (mask 4)) AND (ucast ah :: u32) = 0"
    by (rule bit_word_eqI) (auto simp: bit_simps dest: low)
  then have "drop_bit 16 (l AND push_bit 16 (mask 4)) + (ucast ah :: u32) =
      drop_bit 16 (l AND push_bit 16 (mask 4)) OR ucast ah"
    by (rule disjunctive_add_eq_or)
  then show ?thesis
    unfolding make_gdt_desc_def gdt_desc.select_convs masks
    by (simp only:) (rule bit_word_eqI, auto simp: bit_simps)
qed

lemma limit_field_make:
  assumes "ah AND 0x0f = 0" and "l < 2 ^ 20"
  shows "limit_field (make_gdt_desc b l al ah) = l"
proof -
  have hi: "\<not> bit l n" if "20 \<le> n" for n
  proof -
    have "unat l < 2 ^ 20" using assms(2) by (simp add: word_less_nat_alt)
    then have "unat (take_bit 20 l) = unat l" by (simp only: unsigned_take_bit_eq take_bit_nat_eq_self)
    then have "take_bit 20 l = l" by (simp only: word_unat_eq_iff)
    then show ?thesis using that by (metis bit_take_bit_iff not_less)
  qed
  have low: "\<not> bit ah n" if "n < 4" for n
  proof -
    have "bit (ah AND mask 4) n \<longleftrightarrow> bit ah n" using that by (simp add: bit_simps)
    then show ?thesis using assms(1) masks(4) by simp
  qed
  have "limit_low_word (make_gdt_desc b l al ah) = ucast (l AND mask 16)"
    by (simp add: make_gdt_desc_def masks)
  then have "limit_field (make_gdt_desc b l al ah) =
    ucast (ucast (l AND mask 16) :: u16) OR push_bit 16 (ucast ((ucast (drop_bit 16 l AND mask 4) OR ah) AND mask 4))"
    by (simp only: limit_field_def high_byte_make [OF assms(1)] masks(4))
  also have "\<dots> = l"
  proof (rule bit_word_eqI)
    fix n assume n: "n < LENGTH(32)"
    consider "n < 16" | "16 \<le> n" "n < 20" | "20 \<le> n" by linarith
    then show "bit (ucast (ucast (l AND mask 16) :: u16) OR
        push_bit 16 (ucast ((ucast (drop_bit 16 l AND mask 4) OR ah) AND mask 4)) :: u32) n = bit l n"
      using n by cases (auto simp: bit_simps hi low)
  qed
  finally show ?thesis .
qed

lemma attr_values: "GDT_ATTR_HIGH = 0xc0" "GDT_CODE_ATTR_LOW_DPL3 = 0xf8" "GDT_DATA_ATTR_LOW_DPL3 = 0xf2"
  "TSS_ATTR_HIGH = 0x80" "TSS_ATTR_LOW = 0x89"
  by (simp_all add: GDT_ATTR_HIGH_def GDT_CODE_ATTR_LOW_DPL3_def GDT_DATA_ATTR_LOW_DPL3_def TSS_ATTR_HIGH_def
      TSS_ATTR_LOW_def push_bit_eq_mult)

lemma selector_values: "SELECTOR_K_STACK = 0x10" "SELECTOR_U_CODE = 0x2b" "SELECTOR_U_DATA = 0x33" "SELECTOR_TSS = 0x20"
  by (simp_all add: SELECTOR_K_STACK_def SELECTOR_K_DATA_def SELECTOR_U_CODE_def SELECTOR_U_DATA_def
      SELECTOR_TSS_def push_bit_eq_mult)

lemma seg_limit_make:
  assumes "ah = 0xc0 \<or> ah = 0x80" and "l < 2 ^ 20"
  shows "seg_limit (make_gdt_desc b l al ah) = unat l * 4096 + 4095"
proof -
  have z: "ah AND 0x0f = 0" and "bit ah 7" using assms(1) by (auto simp: bit_iff_odd)
  then have "bit (limit_high_attr_high (make_gdt_desc b l al ah)) 7"
    unfolding high_byte_make [OF z] by (simp add: bit_simps)
  then show ?thesis by (simp add: seg_limit_def limit_field_make [OF z assms(2)])
qed

lemma set_gdt_simps [simp]:
  "gdt (set_gdt a d s) = (gdt s)(a := d)" "gdtr (set_gdt a d s) = gdtr s" "the_tss (set_gdt a d s) = the_tss s"
  by (simp_all add: set_gdt_def)

lemma tss_init_entries:
  "gdt (tss_init a s) 0xc0000623 = make_gdt_desc a 107 0x89 0x80"
  "gdt (tss_init a s) 0xc000062b = make_gdt_desc 0 0xcffff 0xf8 0xc0"
  "gdt (tss_init a s) 0xc0000633 = make_gdt_desc 0 0xfffff 0xf2 0xc0"
  "gdtr (tss_init a s) = 0xc00006030037" "tr (tss_init a s) = 0x20"
  by (simp_all add: tss_init_def Let_def attr_values selector_values tss_size_def push_bit_eq_mult)

lemma descriptor_at:
  assumes "gdtr s = 0xc00006030037"
  shows "descriptor s 0x20 = gdt s 0xc0000623" "descriptor s 0x2b = gdt s 0xc000062b"
    "descriptor s 0x33 = gdt s 0xc0000633" "in_table s 0x20" "in_table s 0x2b" "in_table s 0x33"
  using assms by (simp_all add: descriptor_def in_table_def drop_bit_eq_div)

text \<open>After \<^verbatim>\<open>tss_init\<close> the selectors the kernel uses lead, within the table it announces, to a
  code segment and a data segment for user programs, both from 0, of which the code segment
  ends at \<open>0xcfffffff\<close> and the data segment with the address space, and to the task state
  segment at its address; as the granularity bit is set there too, the segment reaches 107 pages
  behind the structure of 108 bytes.\<close>

theorem tss_init_descriptors:
  "let s' = tss_init a s;
       c = descriptor s' SELECTOR_U_CODE; d = descriptor s' SELECTOR_U_DATA; t = descriptor s' (tr s')
   in in_table s' SELECTOR_U_CODE \<and> in_table s' SELECTOR_U_DATA \<and> in_table s' (tr s') \<and>
      seg_base c = 0 \<and> seg_limit c = 0xcfffffff \<and> seg_dpl c = 3 \<and> seg_kind c = 0x18 \<and>
      seg_base d = 0 \<and> seg_limit d = 0xffffffff \<and> seg_dpl d = 3 \<and> seg_kind d = 0x12 \<and>
      seg_base t = a \<and> seg_limit t = 107 * 4096 + 4095 \<and> seg_dpl t = 0 \<and> seg_kind t = 0x09 \<and>
      tss_ss0 (the_tss s') = 0x10 \<and> tss_io_base (the_tss s') = 108"
proof -
  define s' where "s' = tss_init a s"
  have e: "descriptor s' 0x20 = make_gdt_desc a 107 0x89 0x80" "descriptor s' 0x2b = make_gdt_desc 0 0xcffff 0xf8 0xc0"
    "descriptor s' 0x33 = make_gdt_desc 0 0xfffff 0xf2 0xc0" "in_table s' 0x20" "in_table s' 0x2b" "in_table s' 0x33"
    using descriptor_at [of s'] tss_init_entries [of a s] by (simp_all only: s'_def)
  have al: "attr_low_byte (make_gdt_desc b l x ah) = x" for b l x ah by (simp add: make_gdt_desc_def)
  have dp: "drop_bit 5 (0xf8 :: u8) AND 3 = 3" "drop_bit 5 (0xf2 :: u8) AND 3 = 3" "drop_bit 5 (0x89 :: u8) AND 3 = 0"
    by (simp_all add: drop_bit_eq_div)
  have "tss_ss0 (the_tss s') = 0x10" "tss_io_base (the_tss s') = 108"
    by (simp_all add: s'_def tss_init_def Let_def selector_values tss_size_def)
  then show ?thesis
    unfolding s'_def [symmetric] Let_def selector_values tss_init_entries(5) [of a s, folded s'_def]
    by (simp add: e seg_base_make seg_limit_make seg_dpl_def seg_kind_def al dp)
qed

end
