(* ===== verification/Syscall.thy ===== *)
theory Syscall
  imports Prelude
begin

text \<open>
  The system call layer: \<^verbatim>\<open>kernel/interrupt/syscall.c\<close> and \<^verbatim>\<open>kernel/subprogram/syscall.c\<close>, the two
  copies of the library, and the table the handler of interrupt \<^verbatim>\<open>0x80\<close> calls through.

  A library function is what it does to the registers before the interrupt: the number in \<open>eax\<close>
  and the arguments in \<open>ebx\<close>, \<open>ecx\<close> and \<open>edx\<close>; registers an instruction does not set keep what
  they hold.  The handler (\<^verbatim>\<open>interrupt.S\<close>) pushes the three registers, whatever the function
  takes, and calls the table's entry; a C function reads as many of them as it has parameters.
  What the functions do is modelled with their components.
\<close>

section \<open>Numbers and the table\<close>

definition syscall_nr :: nat where "syscall_nr = 32"

definition SYS_GETPID :: u32 where "SYS_GETPID = 0"
definition SYS_WRITE :: u32 where "SYS_WRITE = 1"
definition SYS_MALLOC :: u32 where "SYS_MALLOC = 2"
definition SYS_FREE :: u32 where "SYS_FREE = 3"
definition SYS_MKDIR :: u32 where "SYS_MKDIR = 4"
definition SYS_OPENFILE :: u32 where "SYS_OPENFILE = 5"
definition SYS_DELETE :: u32 where "SYS_DELETE = 6"
definition SYS_READ :: u32 where "SYS_READ = 7"
definition SYS_SEEK :: u32 where "SYS_SEEK = 8"
definition SYS_RSC :: u32 where "SYS_RSC = 9"
definition SYS_CLOSEFILE :: u32 where "SYS_CLOSEFILE = 10"
definition SYS_COPYFILE :: u32 where "SYS_COPYFILE = 11"
definition SYS_GETFILESIZE :: u32 where "SYS_GETFILESIZE = 12"
definition EXIT_PROCESS :: u32 where "EXIT_PROCESS = 13"
definition SYS_FORK :: u32 where "SYS_FORK = 14"
definition SYS_GETFILEATTRIBUTE :: u32 where "SYS_GETFILEATTRIBUTE = 15"
definition SYS_PIPE :: u32 where "SYS_PIPE = 16"
definition SYS_EXEC :: u32 where "SYS_EXEC = 17"
definition SYS_GETCHAR :: u32 where "SYS_GETCHAR = 18"
definition SYS_SET_FILE_ATTR :: u32 where "SYS_SET_FILE_ATTR = 19"
definition SYS_GET_FILE_ATTR :: u32 where "SYS_GET_FILE_ATTR = 20"

lemmas numbers = SYS_GETPID_def SYS_WRITE_def SYS_MALLOC_def SYS_FREE_def SYS_MKDIR_def SYS_OPENFILE_def
  SYS_DELETE_def SYS_READ_def SYS_SEEK_def SYS_RSC_def SYS_CLOSEFILE_def SYS_COPYFILE_def
  SYS_GETFILESIZE_def EXIT_PROCESS_def SYS_FORK_def SYS_GETFILEATTRIBUTE_def SYS_PIPE_def
  SYS_EXEC_def SYS_GETCHAR_def SYS_SET_FILE_ATTR_def SYS_GET_FILE_ATTR_def

text \<open>The kernel functions in the table.\<close>

datatype kernel_function =
  Sys_getpid | User_file_write | Sys_malloc | Sys_free | User_file_open | User_mkdir | User_file_read
  | User_file_seekp | User_file_remove_some_content | User_delete | User_file_close | User_file_copy
  | Sys_get_file_size | Exit_process | Sys_fork | Sys_get_file_attribute | Sys_pipe | Sys_execv
  | Sys_getchar | Sys_set_file_attr | Sys_get_file_attr

fun set_entries :: "(u32 \<times> kernel_function) list \<Rightarrow> kernel_function option list \<Rightarrow> kernel_function option list cres" where
  "set_entries [] t = Inr t"
| "set_entries ((n, f) # es) t = andthen (wr t (unat n) (Some f)) (\<lambda>t. set_entries es t)"

definition syscall_init :: "kernel_function option list \<Rightarrow> kernel_function option list cres" where
  "syscall_init syscall_table =
     set_entries
       [(SYS_GETPID, Sys_getpid), (SYS_WRITE, User_file_write), (SYS_MALLOC, Sys_malloc), (SYS_FREE, Sys_free),
        (SYS_OPENFILE, User_file_open), (SYS_MKDIR, User_mkdir), (SYS_READ, User_file_read),
        (SYS_SEEK, User_file_seekp), (SYS_RSC, User_file_remove_some_content), (SYS_DELETE, User_delete),
        (SYS_CLOSEFILE, User_file_close), (SYS_COPYFILE, User_file_copy), (SYS_GETFILESIZE, Sys_get_file_size),
        (EXIT_PROCESS, Exit_process), (SYS_FORK, Sys_fork), (SYS_GETFILEATTRIBUTE, Sys_get_file_attribute),
        (SYS_PIPE, Sys_pipe), (SYS_EXEC, Sys_execv), (SYS_GETCHAR, Sys_getchar),
        (SYS_SET_FILE_ATTR, Sys_set_file_attr), (SYS_GET_FILE_ATTR, Sys_get_file_attr)]
       syscall_table"

section \<open>The interrupt\<close>

record regs =
  eax :: u32
  ebx :: u32
  ecx :: u32
  edx :: u32

definition syscall0 :: "u32 \<Rightarrow> regs \<Rightarrow> regs" where
  "syscall0 NUMBER r = r\<lparr>eax := NUMBER\<rparr>"

definition syscall1 :: "u32 \<Rightarrow> u32 \<Rightarrow> regs \<Rightarrow> regs" where
  "syscall1 NUMBER ARG1 r = r\<lparr>eax := NUMBER, ebx := ARG1\<rparr>"

definition syscall2 :: "u32 \<Rightarrow> u32 \<Rightarrow> u32 \<Rightarrow> regs \<Rightarrow> regs" where
  "syscall2 NUMBER ARG1 ARG2 r = r\<lparr>eax := NUMBER, ebx := ARG1, ecx := ARG2\<rparr>"

definition syscall3 :: "u32 \<Rightarrow> u32 \<Rightarrow> u32 \<Rightarrow> u32 \<Rightarrow> regs \<Rightarrow> regs" where
  "syscall3 NUMBER ARG1 ARG2 ARG3 r = r\<lparr>eax := NUMBER, ebx := ARG1, ecx := ARG2, edx := ARG3\<rparr>"

definition syscall4 :: "u32 \<Rightarrow> u32 \<Rightarrow> u32 \<Rightarrow> u32 \<Rightarrow> regs \<Rightarrow> regs" where
  "syscall4 NUMBER ARG1 ARG2 ARG_PTR_3_4 r = r\<lparr>eax := NUMBER, ebx := ARG1, ecx := ARG2, edx := ARG_PTR_3_4\<rparr>"

text \<open>\<^verbatim>\<open>call [syscall_table+eax*4]\<close>: the function called and the words it finds as its arguments.  A
  number outside the table, or one of an empty entry, jumps to whatever is there.\<close>

definition syscall_handler :: "kernel_function option list \<Rightarrow> regs \<Rightarrow> (kernel_function \<times> u32 \<times> u32 \<times> u32) cres" where
  "syscall_handler syscall_table r =
     andthen (rd syscall_table (unat (eax r))) (\<lambda>e.
       case e of None \<Rightarrow> Inl Wild | Some f \<Rightarrow> Inr (f, ebx r, ecx r, edx r))"

section \<open>The library of the kernel\<close>

definition getpid :: "regs \<Rightarrow> regs" where "getpid = syscall0 SYS_GETPID"
definition write_call :: "u32 \<Rightarrow> u32 \<Rightarrow> u32 \<Rightarrow> regs \<Rightarrow> regs" where "write_call fd buf bufsize = syscall3 SYS_WRITE fd buf bufsize"
definition malloc :: "u32 \<Rightarrow> regs \<Rightarrow> regs" where "malloc sz = syscall1 SYS_MALLOC sz"
definition free :: "u32 \<Rightarrow> regs \<Rightarrow> regs" where "free ptr = syscall1 SYS_FREE ptr"
definition openFile :: "u32 \<Rightarrow> u8 \<Rightarrow> regs \<Rightarrow> regs" where "openFile pathname flags = syscall2 SYS_OPENFILE pathname (ucast flags)"
definition mkdir :: "u32 \<Rightarrow> regs \<Rightarrow> regs" where "mkdir pathname = syscall1 SYS_MKDIR pathname"
definition read :: "u32 \<Rightarrow> u32 \<Rightarrow> u32 \<Rightarrow> regs \<Rightarrow> regs" where "read fd buf bufsize = syscall3 SYS_READ fd buf bufsize"
definition seekp :: "u32 \<Rightarrow> u32 \<Rightarrow> u32 \<Rightarrow> regs \<Rightarrow> regs" where "seekp fd offset wh_type = syscall3 SYS_SEEK fd offset wh_type"
definition remove_some_cotent :: "u32 \<Rightarrow> u32 \<Rightarrow> regs \<Rightarrow> regs" where "remove_some_cotent fd sz = syscall2 SYS_RSC fd sz"
definition delete :: "u32 \<Rightarrow> regs \<Rightarrow> regs" where "delete pathname = syscall1 SYS_DELETE pathname"
definition closeFile :: "u32 \<Rightarrow> regs \<Rightarrow> regs" where "closeFile fd = syscall1 SYS_CLOSEFILE fd"
definition getfilesize :: "u32 \<Rightarrow> regs \<Rightarrow> regs" where "getfilesize fd = syscall1 SYS_GETFILESIZE fd"
definition process_exit :: "regs \<Rightarrow> regs" where "process_exit = syscall0 EXIT_PROCESS"
definition fork :: "regs \<Rightarrow> regs" where "fork = syscall0 SYS_FORK"
definition get_file_type :: "u32 \<Rightarrow> regs \<Rightarrow> regs" where "get_file_type filepath = syscall1 SYS_GETFILEATTRIBUTE filepath"
definition pipe :: "u32 \<Rightarrow> regs \<Rightarrow> regs" where "pipe fd = syscall1 SYS_PIPE fd"
definition execv :: "u32 \<Rightarrow> u32 \<Rightarrow> regs \<Rightarrow> regs" where "execv filepath argv = syscall2 SYS_EXEC filepath argv"
definition getchar :: "regs \<Rightarrow> regs" where "getchar = syscall0 SYS_GETCHAR"
definition set_file_attr :: "u32 \<Rightarrow> u32 \<Rightarrow> regs \<Rightarrow> regs" where "set_file_attr fd flags = syscall2 SYS_SET_FILE_ATTR fd flags"
definition get_file_attr :: "u32 \<Rightarrow> regs \<Rightarrow> regs" where "get_file_attr fd = syscall1 SYS_GET_FILE_ATTR fd"

text \<open>What the caller gets of the result: \<^verbatim>\<open>getchar\<close> returns a \<^verbatim>\<open>char\<close>, the others the word.\<close>

definition getchar_result :: "u32 \<Rightarrow> u8" where "getchar_result retval = ucast retval"

text \<open>\<^verbatim>\<open>sys_getpid\<close> widens the 16 bit number of the thread with its sign.\<close>

definition sys_getpid :: "16 word \<Rightarrow> u32" where "sys_getpid pid = scast pid"

text \<open>\<^verbatim>\<open>sys_write_console\<close>: what is printed, and the length returned.\<close>

definition sys_write_console :: "u8 list \<Rightarrow> (u8 list \<times> nat) cres" where
  "sys_write_console str =
     (if 0 \<in> set str then let s = takeWhile (\<lambda>c. c \<noteq> 0) str in Inr (s, length s) else Inl Wild)"

section \<open>The library of user programs\<close>

definition prog_getpid :: "regs \<Rightarrow> regs" where "prog_getpid = syscall0 SYS_GETPID"
definition prog_write :: "u32 \<Rightarrow> u32 \<Rightarrow> u32 \<Rightarrow> regs \<Rightarrow> regs" where "prog_write fd buf bufsize = syscall3 SYS_WRITE fd buf bufsize"
definition prog_malloc :: "u32 \<Rightarrow> regs \<Rightarrow> regs" where "prog_malloc sz = syscall1 SYS_MALLOC sz"
definition prog_free :: "u32 \<Rightarrow> regs \<Rightarrow> regs" where "prog_free ptr = syscall1 SYS_FREE ptr"
definition prog_openFile :: "u32 \<Rightarrow> u8 \<Rightarrow> regs \<Rightarrow> regs" where "prog_openFile pathname flags = syscall2 SYS_OPENFILE pathname (ucast flags)"
definition prog_mkdir :: "u32 \<Rightarrow> regs \<Rightarrow> regs" where "prog_mkdir pathname = syscall1 SYS_MKDIR pathname"
definition prog_read :: "u32 \<Rightarrow> u32 \<Rightarrow> u32 \<Rightarrow> regs \<Rightarrow> regs" where "prog_read fd buf bufsize = syscall3 SYS_READ fd buf bufsize"
definition prog_seekp :: "u32 \<Rightarrow> u32 \<Rightarrow> u32 \<Rightarrow> regs \<Rightarrow> regs" where "prog_seekp fd offset wh_type = syscall3 SYS_SEEK fd offset wh_type"
definition prog_remove_some_cotent :: "u32 \<Rightarrow> u32 \<Rightarrow> regs \<Rightarrow> regs" where "prog_remove_some_cotent fd sz = syscall2 SYS_RSC fd sz"
definition prog_delete :: "u32 \<Rightarrow> regs \<Rightarrow> regs" where "prog_delete pathname = syscall1 SYS_DELETE pathname"
definition prog_closeFile :: "u32 \<Rightarrow> regs \<Rightarrow> regs" where "prog_closeFile fd = syscall1 SYS_CLOSEFILE fd"
definition prog_getfilesize :: "u32 \<Rightarrow> regs \<Rightarrow> regs" where "prog_getfilesize fd = syscall1 SYS_GETFILESIZE fd"
definition prog_process_exit :: "regs \<Rightarrow> regs" where "prog_process_exit = syscall0 EXIT_PROCESS"
definition prog_fork :: "regs \<Rightarrow> regs" where "prog_fork = syscall0 SYS_FORK"
definition prog_get_file_type :: "u32 \<Rightarrow> regs \<Rightarrow> regs" where "prog_get_file_type filepath = syscall1 SYS_GETFILEATTRIBUTE filepath"
definition prog_pipe :: "u32 \<Rightarrow> regs \<Rightarrow> regs" where "prog_pipe fd = syscall1 SYS_PIPE fd"
definition prog_execv :: "u32 \<Rightarrow> u32 \<Rightarrow> regs \<Rightarrow> regs" where "prog_execv filepath argv = syscall2 SYS_EXEC filepath argv"
definition prog_getchar :: "regs \<Rightarrow> regs" where "prog_getchar = syscall0 SYS_GETCHAR"

lemmas calls = getpid_def write_call_def malloc_def free_def openFile_def mkdir_def read_def seekp_def
  remove_some_cotent_def delete_def closeFile_def getfilesize_def process_exit_def fork_def
  get_file_type_def pipe_def execv_def getchar_def set_file_attr_def get_file_attr_def

lemmas prog_calls = prog_getpid_def prog_write_def prog_malloc_def prog_free_def prog_openFile_def
  prog_mkdir_def prog_read_def prog_seekp_def prog_remove_some_cotent_def prog_delete_def
  prog_closeFile_def prog_getfilesize_def prog_process_exit_def prog_fork_def prog_get_file_type_def
  prog_pipe_def prog_execv_def prog_getchar_def

section \<open>Calls reach their functions\<close>

definition table_after_init :: "kernel_function option list" where
  "table_after_init =
     [Some Sys_getpid, Some User_file_write, Some Sys_malloc, Some Sys_free, Some User_mkdir, Some User_file_open,
      Some User_delete, Some User_file_read, Some User_file_seekp, Some User_file_remove_some_content,
      Some User_file_close, Some User_file_copy, Some Sys_get_file_size, Some Exit_process, Some Sys_fork,
      Some Sys_get_file_attribute, Some Sys_pipe, Some Sys_execv, Some Sys_getchar, Some Sys_set_file_attr,
      Some Sys_get_file_attr] @ replicate 11 None"

lemma syscall_init_table: "syscall_init (replicate syscall_nr None) = Inr table_after_init"
proof -
  have "replicate syscall_nr (None :: kernel_function option) = replicate 21 None @ replicate 11 None"
    by (simp add: syscall_nr_def replicate_add [symmetric])
  also have "replicate 21 (None :: kernel_function option) =
    [None, None, None, None, None, None, None, None, None, None, None, None, None, None, None, None,
     None, None, None, None, None]"
    by (simp add: numeral_eq_Suc)
  finally show ?thesis by (simp add: syscall_init_def numbers table_after_init_def)
qed

lemma handler_entry:
  "i < 32 \<Longrightarrow> unat (eax r) = i \<Longrightarrow> syscall_handler table_after_init r =
    (case table_after_init ! i of None \<Rightarrow> Inl Wild | Some f \<Rightarrow> Inr (f, ebx r, ecx r, edx r))"
  by (simp add: syscall_handler_def table_after_init_def rd_def)

lemmas registers = syscall0_def syscall1_def syscall2_def syscall3_def



end
