(* ===== verification/Process.thy ===== *)
theory Process
  imports MemorySpec Tss
begin

text \<open>
  \<^verbatim>\<open>kernel/userprog/process.c\<close>: page directories of processes, the frames a new thread starts
  from, starting a process, and \<^verbatim>\<open>fork\<close>.

  A process control block is known by its address; it fills a page, of which \<open>kstack\<close> is the array
  of 1024 words the kernel stack and the interrupt frame at its end lie in.  The memory state of
  Memory is that of the running thread under the directory \<^verbatim>\<open>cr3\<close> points to.  \<open>spaces\<close> has the
  entries of the directories that are not active, by their physical address: its own page tables
  for the user's half, while the tables of the kernel's half, all of them made by the loader, and
  the first table are the same frames in every directory.  \<open>store\<close> is what the frames hold that
  pages of bytes are mapped to.  The messages \<^verbatim>\<open>put_string\<close> prints at the start are left out.
\<close>

section \<open>State\<close>

record pcb =
  self_kstack :: nat
  kstack :: "nat \<Rightarrow> u32"
  pid :: int
  parent_pid :: int
  running_status :: bool               \<comment> \<open>\<^verbatim>\<open>TASK_RUNNING\<close>; otherwise \<^verbatim>\<open>TASK_READY\<close>\<close>
  priority :: nat
  ticks :: nat
  elapsed_ticks :: nat
  tags_null :: bool                    \<comment> \<open>both list elements are \<^verbatim>\<open>NULL\<close> on both sides\<close>
  pcb_name :: "u8 list"
  pgdir :: nat
  pcb_vaddr :: virtual_addr
  pcb_blocks :: "mem_block_desc list"
  blocks_at :: nat                     \<comment> \<open>the block whose list heads the links of the free lists name\<close>
  pcb_fds :: "int list"
  waiting_sema :: nat
  stack_magic :: nat

record machine =
  mm :: mem
  store :: "nat \<Rightarrow> u8 list"
  cr3 :: nat
  spaces :: "nat \<Rightarrow> (nat \<Rightarrow> u32) \<times> (nat \<Rightarrow> u32)"
  pg_ptr :: nat
  pcbs :: "nat \<Rightarrow> pcb"
  running :: nat
  next_pid :: int
  all_threads :: "nat list"
  second_list :: "nat list"
  third_list :: "nat list"
  the_tss :: tss
  interrupts :: bool

text \<open>Where the assembly code and the functions a thread starts at lie.\<close>

record code =
  intr_exit :: u32
  kernel_thread :: u32
  start_process_at :: u32

definition KERNEL_PAGE_DIR :: nat where "KERNEL_PAGE_DIR = 0x100000"
definition USER_VADDR_START :: nat where "USER_VADDR_START = 0x8048000"
definition USER_STACK3_VADDR :: nat where "USER_STACK3_VADDR = 0xc0000000 - 0x1000"
definition THIRD_PRIO :: nat where "THIRD_PRIO = 10"
definition THIRD_TICKS :: nat where "THIRD_TICKS = 10"
definition default_prio :: nat where "default_prio = 20"

definition upd_pcb :: "nat \<Rightarrow> (pcb \<Rightarrow> pcb) \<Rightarrow> machine \<Rightarrow> machine" where
  "upd_pcb p f M = M\<lparr>pcbs := (pcbs M)(p := f (pcbs M p))\<rparr>"

text \<open>What a program finds at a virtual page: an access to a page that is not mapped faults.\<close>

definition load_page :: "nat \<Rightarrow> machine \<Rightarrow> u8 list cres" where
  "load_page v M = (if mapped (mm M) v then Inr (store M (page_frame (mm M) v)) else Inl Wild)"

definition store_page :: "nat \<Rightarrow> u8 list \<Rightarrow> machine \<Rightarrow> machine cres" where
  "store_page v bs M =
     (if mapped (mm M) v then Inr (M\<lparr>store := (store M)(page_frame (mm M) v := bs)\<rparr>) else Inl Wild)"

fun zero_pages :: "nat \<Rightarrow> nat \<Rightarrow> machine \<Rightarrow> machine cres" where
  "zero_pages v 0 M = Inr M"
| "zero_pages v (Suc n) M = andthen (store_page v (replicate PG_SIZE 0) M) (\<lambda>M. zero_pages (v + 1) n M)"

text \<open>\<^verbatim>\<open>get_kernel_pages\<close> with its \<^verbatim>\<open>memset\<close>.\<close>

definition kernel_pages :: "nat \<Rightarrow> machine \<Rightarrow> (nat option \<times> machine) cres" where
  "kernel_pages n M =
     andthen (get_kernel_pages n (mm M)) (\<lambda>(a, m).
       case a of
         None \<Rightarrow> Inr (None, M\<lparr>mm := m\<rparr>)
       | Some a \<Rightarrow> andthen (zero_pages (a div PG_SIZE) n (M\<lparr>mm := m\<rparr>)) (\<lambda>M. Inr (Some a, M)))"

text \<open>A page whose address is used without a test: \<^verbatim>\<open>memset\<close> and \<^verbatim>\<open>memcpy\<close> fail their assertion on
  \<^verbatim>\<open>NULL\<close>.\<close>

definition need :: "(nat option \<times> machine) cres \<Rightarrow> (nat \<times> machine) cres" where
  "need r = andthen r (\<lambda>(a, M). case a of None \<Rightarrow> Inl Assertion | Some a \<Rightarrow> Inr (a, M))"

section \<open>Page directories\<close>

definition shared_table :: "nat \<Rightarrow> bool" where
  "shared_table d \<longleftrightarrow> d = 0 \<or> 768 \<le> d"

text \<open>A write to \<^verbatim>\<open>cr3\<close>.\<close>

definition load_cr3 :: "nat \<Rightarrow> machine \<Rightarrow> machine" where
  "load_cr3 phys M =
     (let saved = (spaces M)(cr3 M := (pde (mm M), pte (mm M)))
      in M\<lparr>spaces := saved, cr3 := phys,
           mm := (mm M)\<lparr>pde := fst (saved phys),
                        pte := (\<lambda>v. if shared_table (v div 1024) then pte (mm M) v else snd (saved phys) v)\<rparr>\<rparr>)"

definition page_dir_activate :: "nat \<Rightarrow> machine \<Rightarrow> machine cres" where
  "page_dir_activate p M =
     andthen (if pgdir (pcbs M p) \<noteq> 0 then addr_v2p (pgdir (pcbs M p)) (mm M) else Inr KERNEL_PAGE_DIR) (\<lambda>phys.
     Inr (load_cr3 phys M))"

definition process_activate :: "nat \<Rightarrow> machine \<Rightarrow> machine cres" where
  "process_activate p M =
     andthen (assert_c (p \<noteq> 0)) (\<lambda>_.
     andthen (page_dir_activate p M) (\<lambda>M.
     Inr (if pgdir (pcbs M p) \<noteq> 0 then M\<lparr>the_tss := update_tss_esp (of_nat p) (the_tss M)\<rparr> else M)))"

text \<open>The page for the directory is taken at addresses that only go up; \<^verbatim>\<open>memset\<close> comes before the
  test for \<^verbatim>\<open>NULL\<close>.  Entry 0 and those from \<open>0x300\<close> on are copied, the last one is replaced.\<close>

definition create_page_dir :: "machine \<Rightarrow> (nat \<times> machine) cres" where
  "create_page_dir M =
     andthen (get_a_page PF_KERNEL (pg_ptr M) (mm M)) (\<lambda>(page_dir_vaddr, m).
     let M = M\<lparr>mm := m, pg_ptr := (pg_ptr M + 0x1000) mod 2 ^ 32\<rparr>
     in case page_dir_vaddr of
          None \<Rightarrow> Inl Assertion
        | Some a \<Rightarrow>
            andthen (addr_v2p a (mm M)) (\<lambda>phys.
            let entries = (\<lambda>d. if d = 1023 then of_nat phys OR PG_US_U OR PG_RW_W OR PG_P_1
                               else if d = 0 \<or> 0x300 \<le> d then pde (mm M) d else 0)
            in Inr (a, M\<lparr>spaces := (spaces M)(phys := (entries, \<lambda>v. 0))\<rparr>)))"

definition user_bitmap_len :: nat where
  "user_bitmap_len = (0xc0000000 - USER_VADDR_START) div PG_SIZE div 8"

definition create_user_vaddr_bitmap :: "nat \<Rightarrow> machine \<Rightarrow> machine cres" where
  "create_user_vaddr_bitmap p M =
     (let bitmap_pg_cnt = DIV_ROUND_UP user_bitmap_len PG_SIZE
      in andthen (need (kernel_pages bitmap_pg_cnt M)) (\<lambda>(bits_at, M).
         andthen (bitmap_init \<lparr>bits = replicate (bitmap_pg_cnt * PG_SIZE) 0, btmp_bytes_len = user_bitmap_len\<rparr>) (\<lambda>b.
         Inr (upd_pcb p (\<lambda>t. t\<lparr>pcb_vaddr := \<lparr>vaddr_bitmap = b, vaddr_start = USER_VADDR_START\<rparr>\<rparr>) M))))"

section \<open>Threads and their stacks\<close>

definition next_of :: "int \<Rightarrow> int" where
  "next_of n = sint (word_of_int (n + 1) :: 16 word)"

definition no_vaddr :: virtual_addr where
  "no_vaddr = \<lparr>vaddr_bitmap = \<lparr>bits = [], btmp_bytes_len = 0\<rparr>, vaddr_start = 0\<rparr>"

definition init_thread :: "nat \<Rightarrow> u8 list \<Rightarrow> nat \<Rightarrow> machine \<Rightarrow> machine cres" where
  "init_thread p name prio M =
     andthen (strcpy (replicate 16 0) name) (\<lambda>nm.
     let n = next_of (next_pid M)
     in Inr (upd_pcb p (\<lambda>t. \<lparr>self_kstack = p + PG_SIZE, kstack = kstack t, pid = n,
           parent_pid = (if p = running M then n else pid (pcbs M (running M))),
           running_status = False, priority = prio, ticks = prio, elapsed_ticks = 0, tags_null = True,
           pcb_name = nm, pgdir = 0, pcb_vaddr = no_vaddr, pcb_blocks = [], blocks_at = 0,
           pcb_fds = [0, 1, 2] @ replicate 5 (- 1), waiting_sema = 0, stack_magic = 0x20240825\<rparr>)
         (M\<lparr>next_pid := n\<rparr>)))"

text \<open>Word \<open>k\<close> of the page of \<open>p\<close> lies at \<open>p + 4 * k\<close>.  The interrupt frame has 19 words, the frame a
  thread starts with eight.  \<open>self_kstack\<close> is a pointer to words, so subtracting the size of a frame in
  bytes moves it by four times as much: the frames of a new thread lie below unused words.\<close>

definition intr_stack_words :: nat where "intr_stack_words = 19"
definition thread_stack_words :: nat where "thread_stack_words = 8"

definition word_index :: "nat \<Rightarrow> nat \<Rightarrow> nat" where
  "word_index p a = (a - p) div 4"

definition put_words :: "nat \<Rightarrow> (nat \<times> u32) list \<Rightarrow> (nat \<Rightarrow> u32) \<Rightarrow> (nat \<Rightarrow> u32)" where
  "put_words k ws st = fold (\<lambda>(i, w) s. s(k + i := w)) ws st"

definition thread_create :: "code \<Rightarrow> nat \<Rightarrow> u32 \<Rightarrow> u32 \<Rightarrow> machine \<Rightarrow> machine" where
  "thread_create K p func func_arg M =
     upd_pcb p (\<lambda>t.
       let sp = self_kstack t - 4 * (4 * intr_stack_words) - 4 * (4 * thread_stack_words);
           k = word_index p sp
       in t\<lparr>self_kstack := sp,
            kstack := put_words k [(4, kernel_thread K), (6, func), (7, func_arg), (0, 0), (1, 0), (3, 0), (2, 0)] (kstack t)\<rparr>) M"

text \<open>What a process starts with: the words of its interrupt frame, in the order of \<^verbatim>\<open>struct intr_stack\<close>
  (\<^verbatim>\<open>vec_no\<close> 0, \<^verbatim>\<open>edi\<close> 1, \<^verbatim>\<open>esi\<close> 2, \<^verbatim>\<open>ebp\<close> 3, \<^verbatim>\<open>esp_dummy\<close> 4, \<^verbatim>\<open>ebx\<close> 5, \<^verbatim>\<open>edx\<close> 6, \<^verbatim>\<open>ecx\<close> 7, \<^verbatim>\<open>eax\<close> 8, \<^verbatim>\<open>gs\<close> 9, \<^verbatim>\<open>fs\<close> 10,
  \<^verbatim>\<open>es\<close> 11, \<^verbatim>\<open>ds\<close> 12, \<^verbatim>\<open>err_code\<close> 13, \<^verbatim>\<open>eip\<close> 14, \<^verbatim>\<open>cs\<close> 15, \<^verbatim>\<open>eflags\<close> 16, \<^verbatim>\<open>esp\<close> 17, \<^verbatim>\<open>ss\<close> 18).\<close>

definition EFLAGS_USER :: u32 where
  "EFLAGS_USER = push_bit 12 0 OR push_bit 1 1 OR push_bit 9 1"

definition start_frame :: "u32 \<Rightarrow> u32 \<Rightarrow> (nat \<times> u32) list" where
  "start_frame eip stack_page =
     [(1, 0), (2, 0), (3, 0), (4, 0), (5, 0), (6, 0), (7, 0), (8, 0), (9, 0), (10, 0),
      (12, SELECTOR_U_DATA), (11, SELECTOR_U_DATA), (14, eip), (15, SELECTOR_U_CODE), (16, EFLAGS_USER),
      (17, stack_page + of_nat PG_SIZE), (18, SELECTOR_U_DATA)]"

text \<open>The result is the word of the stack \<^verbatim>\<open>intr_exit\<close> is entered with.\<close>

definition enter_user :: "u32 \<Rightarrow> machine \<Rightarrow> (nat \<times> machine) cres" where
  "enter_user eip M =
     (let cur = running M;
          sp = self_kstack (pcbs M cur) + 4 * (4 * thread_stack_words)
      in andthen (get_a_page PF_USER USER_STACK3_VADDR (mm M)) (\<lambda>(tmp, m).
         let k = word_index cur sp; M = M\<lparr>mm := m\<rparr>;
             page = (case tmp of None \<Rightarrow> 0 | Some a \<Rightarrow> of_nat a)
         in Inr (k, upd_pcb cur (\<lambda>t. t\<lparr>self_kstack := sp, kstack := put_words k (start_frame eip page) (kstack t)\<rparr>) M)))"

definition start_process :: "u32 \<Rightarrow> machine \<Rightarrow> (nat \<times> machine) cres" where
  "start_process filename M =
     andthen (enter_user filename (M\<lparr>interrupts := False\<rparr>)) (\<lambda>(k, M). Inr (k, M\<lparr>interrupts := True\<rparr>))"

text \<open>The third argument is not used.\<close>

definition fork_start_process :: "u32 \<Rightarrow> u32 \<Rightarrow> u32 \<Rightarrow> machine \<Rightarrow> (nat \<times> machine) cres" where
  "fork_start_process filename eip esp M = enter_user eip M"

text \<open>The part \<^verbatim>\<open>process_execute\<close> and \<^verbatim>\<open>fork_process_execute\<close> share.\<close>

definition make_process :: "code \<Rightarrow> u32 \<Rightarrow> u8 list \<Rightarrow> machine \<Rightarrow> (nat \<times> machine) cres" where
  "make_process K filename name M =
     andthen (need (kernel_pages 1 M)) (\<lambda>(thread, M).
     andthen (init_thread thread name default_prio M) (\<lambda>M.
     andthen (create_user_vaddr_bitmap thread M) (\<lambda>M.
     andthen (create_page_dir (thread_create K thread (start_process_at K) filename M)) (\<lambda>(dir, M).
     Inr (thread, upd_pcb thread (\<lambda>t. t\<lparr>pgdir := dir, pcb_blocks := block_desc_init, blocks_at := thread\<rparr>) M)))))"

definition process_execute :: "code \<Rightarrow> u32 \<Rightarrow> u8 list \<Rightarrow> machine \<Rightarrow> machine cres" where
  "process_execute K filename name M =
     (let old_status = interrupts M
      in andthen (make_process K filename name (M\<lparr>interrupts := False\<rparr>)) (\<lambda>(thread, M).
         andthen (assert_c (thread \<notin> set (second_list M))) (\<lambda>_.
         let M = M\<lparr>second_list := second_list M @ [thread]\<rparr>
         in andthen (assert_c (thread \<notin> set (all_threads M))) (\<lambda>_.
            Inr (M\<lparr>all_threads := all_threads M @ [thread], interrupts := old_status\<rparr>)))))"

definition fork_process_execute :: "code \<Rightarrow> u32 \<Rightarrow> u8 list \<Rightarrow> machine \<Rightarrow> (nat \<times> machine) cres" where
  "fork_process_execute K filename name M =
     (let old_status = interrupts M
      in andthen (make_process K filename name (M\<lparr>interrupts := False\<rparr>)) (\<lambda>(thread, M).
         Inr (thread, M\<lparr>interrupts := old_status\<rparr>)))"

section \<open>\<^verbatim>\<open>fork\<close>\<close>

text \<open>The child's name: \<^verbatim>\<open>f_\<close> and the parent's, which ends with the first zero at or behind its 16
  bytes, in the low byte of \<^verbatim>\<open>pgdir\<close> at the latest.  \<^verbatim>\<open>strcpy\<close> writes it over the name and the start of
  \<^verbatim>\<open>pgdir\<close>, which is set again afterwards.\<close>

definition fork_name :: "pcb \<Rightarrow> pcb cres" where
  "fork_name t =
     (let src = pcb_name t @ le_bytes (pgdir t);
          out = [102, 95] @ takeWhile (\<lambda>c. c \<noteq> 0) src
      in if 0 \<in> set src \<and> length out < 20
         then andthen (put_at src 0 (out @ [0])) (\<lambda>bs.
              Inr (t\<lparr>pcb_name := take 16 bs, pgdir := hd (words_of (drop 16 bs))\<rparr>))
         else Inl Wild)"

text \<open>The parent runs, so its pages and block descriptors are those of the memory state.\<close>

definition copy_pcb_stack0_and_vaddrBitmap :: "nat \<Rightarrow> nat \<Rightarrow> machine \<Rightarrow> machine cres" where
  "copy_pcb_stack0_and_vaddrBitmap child parent M =
     (let t = pcbs M parent; n = next_of (next_pid M); va = userprog_vaddr (mm M);
          len = btmp_bytes_len (vaddr_bitmap va); bitmap_pg_cnt = DIV_ROUND_UP len PG_SIZE;
          M = upd_pcb child (\<lambda>_. t\<lparr>pid := n, parent_pid := pid t, priority := THIRD_PRIO, ticks := THIRD_TICKS,
                tags_null := True, pcb_blocks := u_block_desc (mm M)\<rparr>) (M\<lparr>next_pid := n\<rparr>)
      in andthen (need (kernel_pages bitmap_pg_cnt M)) (\<lambda>(bits_at, M).
         andthen (bitmap_init \<lparr>bits = replicate (bitmap_pg_cnt * PG_SIZE) 0, btmp_bytes_len = len\<rparr>) (\<lambda>b.
         andthen (get_at (bits (vaddr_bitmap va)) 0 len) (\<lambda>bs.
         andthen (put_at (bits b) 0 bs) (\<lambda>bs.
         andthen (fork_name (pcbs M child)) (\<lambda>t.
         Inr (upd_pcb child (\<lambda>_. t\<lparr>pcb_vaddr :=
                \<lparr>vaddr_bitmap = b\<lparr>bits := bs\<rparr>, vaddr_start = vaddr_start va\<rparr>\<rparr>) M)))))))"

text \<open>One page: out of the parent's space into the buffer, from there to a fresh page of the child's.\<close>

definition copy_page :: "nat \<Rightarrow> nat \<Rightarrow> nat \<Rightarrow> nat \<Rightarrow> machine \<Rightarrow> machine cres" where
  "copy_page child parent pbuf prog_vaddr M =
     andthen (load_page (prog_vaddr div PG_SIZE) M) (\<lambda>bs.
     andthen (store_page (pbuf div PG_SIZE) bs M) (\<lambda>M.
     andthen (page_dir_activate child M) (\<lambda>M.
     andthen (get_a_page_without_opvaddrbitmap PF_USER prog_vaddr (mm M)) (\<lambda>(_, m).
     let M = M\<lparr>mm := m\<rparr>
     in andthen (load_page (pbuf div PG_SIZE) M) (\<lambda>bs.
        andthen (store_page (prog_vaddr div PG_SIZE) bs M) (\<lambda>M.
        page_dir_activate parent M))))))"

fun copy_bits :: "nat \<Rightarrow> nat \<Rightarrow> nat \<Rightarrow> nat \<Rightarrow> u8 \<Rightarrow> nat \<Rightarrow> nat list \<Rightarrow> machine \<Rightarrow> machine cres" where
  "copy_bits child parent pbuf start byte idx_byte [] M = Inr M"
| "copy_bits child parent pbuf start byte idx_byte (idx_bit # is) M =
     andthen (if push_bit idx_bit 1 AND (ucast byte :: u32) \<noteq> 0
              then copy_page child parent pbuf (((idx_byte * 8 + idx_bit) * PG_SIZE + start) mod 2 ^ 32) M
              else Inr M) (\<lambda>M.
     copy_bits child parent pbuf start byte idx_byte is M)"

fun copy_bytes :: "nat \<Rightarrow> nat \<Rightarrow> nat \<Rightarrow> nat \<Rightarrow> u8 list \<Rightarrow> nat list \<Rightarrow> machine \<Rightarrow> machine cres" where
  "copy_bytes child parent pbuf start bs [] M = Inr M"
| "copy_bytes child parent pbuf start bs (idx_byte # is) M =
     andthen (rd bs idx_byte) (\<lambda>byte.
     andthen (if byte \<noteq> 0 then copy_bits child parent pbuf start byte idx_byte [0..<8] M else Inr M) (\<lambda>M.
     copy_bytes child parent pbuf start bs is M))"

definition copy_page_table :: "nat \<Rightarrow> nat \<Rightarrow> machine \<Rightarrow> (int \<times> machine) cres" where
  "copy_page_table child parent M =
     andthen (create_page_dir M) (\<lambda>(dir, M).
     let M = upd_pcb child (\<lambda>t. t\<lparr>pgdir := dir\<rparr>) M; va = userprog_vaddr (mm M)
     in andthen (kernel_pages 1 M) (\<lambda>(pbuf, M).
        case pbuf of
          None \<Rightarrow> Inr (-1, M)
        | Some pbuf \<Rightarrow>
            andthen (copy_bytes child parent pbuf (vaddr_start va) (bits (vaddr_bitmap va))
                       [0..<btmp_bytes_len (vaddr_bitmap va)] M) (\<lambda>M.
            andthen (page_dir_activate parent M) (\<lambda>M.
            andthen (mfree_pages PF_KERNEL pbuf 1 (mm M)) (\<lambda>m.
            Inr (0, M\<lparr>mm := m\<rparr>))))))"

text \<open>The child returns from the interrupt with 0 in \<open>eax\<close>.\<close>

definition build_child_thread :: "code \<Rightarrow> nat \<Rightarrow> machine \<Rightarrow> machine" where
  "build_child_thread K child M =
     (let k = word_index child (child + PG_SIZE - 4 * intr_stack_words)
      in upd_pcb child (\<lambda>t. t\<lparr>kstack := (kstack t)(k + 8 := 0, k - 1 := intr_exit K, k - 2 := 0, k - 3 := 0,
           k - 4 := 0, k - 5 := 0), self_kstack := child + 4 * (k - 5)\<rparr>) M)"

text \<open>The files the child has open as well.  \<^verbatim>\<open>is_pipe\<close> looks at the running thread's table.\<close>

fun count_opens :: "int list \<Rightarrow> nat list \<Rightarrow> fs \<Rightarrow> fs cres" where
  "count_opens fds [] s = Inr s"
| "count_opens fds (local_fd # is) s =
     andthen (rd fds local_fd) (\<lambda>global_fd.
     andthen (if global_fd \<ge> 3
              then andthen (is_pipe local_fd s) (\<lambda>p.
                if p then Inr s
                else andthen (rd (file_table s) (nat global_fd)) (\<lambda>f.
                     case fd_inode f of
                       Inode_at h \<Rightarrow> andthen (deref h s) (\<lambda>i.
                         Inr (put_inode h (i\<lparr>i_open_cnts := (i_open_cnts i + 1) mod 2 ^ 32\<rparr>) s))
                     | _ \<Rightarrow> Inl Wild))
              else Inr s) (\<lambda>s.
     count_opens fds is s))"

definition update_inode_open_cnts :: "nat \<Rightarrow> machine \<Rightarrow> fs \<Rightarrow> fs cres" where
  "update_inode_open_cnts p M s = count_opens (pcb_fds (pcbs M p)) [3..<MAX_FILES_OPEN_PER_PROC] s"

text \<open>Interrupts stay off.\<close>

definition sys_fork :: "code \<Rightarrow> machine \<Rightarrow> fs \<Rightarrow> (int \<times> machine \<times> fs) cres" where
  "sys_fork K M s =
     (let cur = running M
      in andthen (need (kernel_pages 1 (M\<lparr>interrupts := False\<rparr>))) (\<lambda>(child, M).
         andthen (copy_pcb_stack0_and_vaddrBitmap child cur M) (\<lambda>M.
         andthen (copy_page_table child cur M) (\<lambda>(_, M).
         let M = build_child_thread K child M
         in andthen (update_inode_open_cnts child M s) (\<lambda>s.
            andthen (assert_c (child \<notin> set (third_list M))) (\<lambda>_.
            let M = M\<lparr>third_list := third_list M @ [child]\<rparr>
            in andthen (assert_c (child \<notin> set (all_threads M))) (\<lambda>_.
               let M = upd_pcb child (\<lambda>t. t\<lparr>waiting_sema := 0\<rparr>) (M\<lparr>all_threads := all_threads M @ [child]\<rparr>)
               in Inr (pid (pcbs M child), M, s))))))))"

section \<open>How a thread is resumed\<close>

text \<open>\<^verbatim>\<open>switch_to\<close> takes four registers off the stack of the next thread and returns: where to, and with
  which stack.\<close>

definition switched_to :: "pcb \<Rightarrow> nat \<Rightarrow> u32 \<times> nat" where
  "switched_to t p = (let k = word_index p (self_kstack t) in (kstack t (k + 4), k + 5))"

text \<open>\<^verbatim>\<open>intr_exit\<close> and \<^verbatim>\<open>iret\<close>: the registers and segments of the user program, from \<open>edi\<close> to \<open>ds\<close>, then
  \<open>eip\<close>, \<open>cs\<close>, \<open>eflags\<close>, \<open>esp\<close> and \<open>ss\<close>.\<close>

definition user_registers :: "(nat \<Rightarrow> u32) \<Rightarrow> nat \<Rightarrow> u32 list" where
  "user_registers st k = map (\<lambda>i. st (k + i)) ([1..<13] @ [14..<19])"

end
