(* ===== verification/Exec.thy ===== *)
theory Exec
  imports Process Fs
begin

text \<open>
  \<^verbatim>\<open>kernel/userprog/exec.c\<close>: reading the headers of an executable, mapping and reading its segments
  and entering it.

  A buffer in the address space of the running process is written byte by byte through its page
  tables; the two headers are local variables of \<^verbatim>\<open>load\<close>, lists of their 52 and 28 bytes.
  \<open>locals\<close> is what the stack holds where the program header is.  The lines printed and logged
  are left out.
\<close>

section \<open>Bytes of a process\<close>

definition fetch :: "nat \<Rightarrow> machine \<Rightarrow> u8 cres" where
  "fetch a M = andthen (load_page (a div PG_SIZE) M) (\<lambda>pg. rd pg (a mod PG_SIZE))"

definition poke1 :: "nat \<Rightarrow> u8 \<Rightarrow> machine \<Rightarrow> machine cres" where
  "poke1 a b M =
     andthen (load_page (a div PG_SIZE) M) (\<lambda>pg.
     andthen (wr pg (a mod PG_SIZE) b) (\<lambda>pg. store_page (a div PG_SIZE) pg M))"

fun poke :: "nat \<Rightarrow> u8 list \<Rightarrow> machine \<Rightarrow> machine cres" where
  "poke a [] M = Inr M"
| "poke a (b # bs) M = andthen (poke1 a b M) (poke ((a + 1) mod 2 ^ 32) bs)"

section \<open>Headers\<close>

record ELF32_Ehdr =
  e_ident :: "u8 list"
  e_type :: nat
  e_machine :: nat
  e_version :: nat
  e_entry :: nat
  e_phoff :: nat
  e_shoff :: nat
  e_flags :: nat
  e_ehsize :: nat
  e_phentsize :: nat
  e_phnum :: nat
  e_shentsize :: nat
  e_shnum :: nat
  e_shstrndx :: nat

record ELF32_Phdr =
  p_type :: nat
  p_offset :: nat
  p_vaddr :: nat
  p_paddr :: nat
  p_filesize :: nat
  p_flags :: nat
  p_align :: nat

definition EHDR_LEN :: nat where "EHDR_LEN = 52"
definition PHDR_LEN :: nat where "PHDR_LEN = 28"
definition PT_LOAD :: nat where "PT_LOAD = 1"

definition half_at :: "u8 list \<Rightarrow> nat \<Rightarrow> nat" where
  "half_at bs k = unat (bs ! k) + 256 * unat (bs ! (k + 1))"

definition long_at :: "u8 list \<Rightarrow> nat \<Rightarrow> nat" where
  "long_at bs k = le_word (bs ! k) (bs ! (k + 1)) (bs ! (k + 2)) (bs ! (k + 3))"

definition ehdr_of :: "u8 list \<Rightarrow> ELF32_Ehdr" where
  "ehdr_of bs =
     \<lparr>e_ident = take 16 bs, e_type = half_at bs 16, e_machine = half_at bs 18, e_version = long_at bs 20,
      e_entry = long_at bs 24, e_phoff = long_at bs 28, e_shoff = long_at bs 32, e_flags = long_at bs 36,
      e_ehsize = half_at bs 40, e_phentsize = half_at bs 42, e_phnum = half_at bs 44, e_shentsize = half_at bs 46,
      e_shnum = half_at bs 48, e_shstrndx = half_at bs 50\<rparr>"

definition phdr_of :: "u8 list \<Rightarrow> ELF32_Phdr" where
  "phdr_of bs =
     \<lparr>p_type = long_at bs 0, p_offset = long_at bs 4, p_vaddr = long_at bs 8, p_paddr = long_at bs 12,
      p_filesize = long_at bs 16, p_flags = long_at bs 20, p_align = long_at bs 24\<rparr>"

text \<open>\<^verbatim>\<open>"\177ELF\1\1\1"\<close>, type 2, machine 3.\<close>

definition header_ok :: "ELF32_Ehdr \<Rightarrow> bool" where
  "header_ok h \<longleftrightarrow> take 7 (e_ident h) = [127, 69, 76, 70, 1, 1, 1] \<and> e_type h = 2 \<and> e_machine h = 3"

section \<open>Segments\<close>

definition occupy_pages :: "nat \<Rightarrow> nat \<Rightarrow> nat" where
  "occupy_pages filesize vaddr =
     (let size_in_first_page = PG_SIZE - vaddr mod PG_SIZE
      in if filesize > size_in_first_page
         then ((filesize - size_in_first_page + PG_SIZE - 1) mod 2 ^ 32 div PG_SIZE + 1) mod 2 ^ 32
         else 1)"

text \<open>The loop that makes sure the pages are there; \<open>False\<close> when one cannot be had.\<close>

fun map_segment :: "nat \<Rightarrow> nat \<Rightarrow> mem \<Rightarrow> (bool \<times> mem) cres" where
  "map_segment vaddr_page 0 m = Inr (True, m)"
| "map_segment vaddr_page (Suc n) m =
     andthen (if \<not> mapped m (vaddr_page div PG_SIZE)
              then andthen (get_a_page PF_USER vaddr_page m) (\<lambda>(a, m). Inr (a \<noteq> None \<and> a \<noteq> Some 0, m))
              else Inr (True, m)) (\<lambda>(ok, m).
     if ok then map_segment ((vaddr_page + PG_SIZE) mod 2 ^ 32) n m else Inr (False, m))"

definition segment_load :: "int \<Rightarrow> nat \<Rightarrow> nat \<Rightarrow> nat \<Rightarrow> machine \<Rightarrow> fs \<Rightarrow> (bool \<times> machine \<times> fs) cres" where
  "segment_load fd offset filesize vaddr M s =
     andthen (map_segment (vaddr div PG_SIZE * PG_SIZE) (occupy_pages filesize vaddr) (mm M)) (\<lambda>(ok, m).
     let M = M\<lparr>mm := m\<rparr>
     in if \<not> ok then Inr (False, M, s)
        else
          andthen (user_file_seekp fd (int32 (int offset)) SEEK_SET s) (\<lambda>(_, s).
          andthen (user_file_read (running M) fd filesize s) (\<lambda>(_, bs, s).
          andthen (poke vaddr bs M) (\<lambda>M. Inr (True, M, s)))))"

text \<open>The program headers: \<open>prog\<close> is the local variable, \<open>off\<close> where the next one is read from.  A
  header that is read in a greater length than the variable has runs over its end.\<close>

fun load_segments :: "int \<Rightarrow> ELF32_Ehdr \<Rightarrow> nat \<Rightarrow> nat \<Rightarrow> u8 list \<Rightarrow> machine \<Rightarrow> fs \<Rightarrow> (int \<times> machine \<times> fs) cres" where
  "load_segments fd h 0 off prog M s = Inr (int32 (int (e_entry h)), M, s)"
| "load_segments fd h (Suc n) off prog M s =
     andthen (user_file_seekp fd (int32 (int off)) SEEK_SET s) (\<lambda>(_, s).
     andthen (user_file_read (running M) fd (e_phentsize h) s) (\<lambda>(cnt, bs, s).
     andthen (put_at prog 0 bs) (\<lambda>prog.
     if cnt \<noteq> int (e_phentsize h) then Inr (-1, M, s)
     else
       andthen (let p = phdr_of prog
                in if p_type p = PT_LOAD then segment_load fd (p_offset p) (p_filesize p) (p_vaddr p) M s
                   else Inr (True, M, s)) (\<lambda>(ok, M, s).
       if \<not> ok then Inr (-1, M, s)
       else load_segments fd h n ((off + e_phentsize h) mod 2 ^ 32) prog M s))))"

definition load :: "u8 list \<Rightarrow> u8 list \<Rightarrow> machine \<Rightarrow> fs \<Rightarrow> (int \<times> machine \<times> fs) cres" where
  "load locals pathname M s =
     andthen (user_file_open pathname O_RDONLY s) (\<lambda>(fd, s).
     if fd = -1 then Inr (-1, M, s)
     else
       andthen (user_file_seekp fd 0 SEEK_SET s) (\<lambda>(_, s).
       andthen (user_file_read (running M) fd EHDR_LEN s) (\<lambda>(cnt, bs, s).
       andthen (put_at (replicate EHDR_LEN 0) 0 bs) (\<lambda>hdr.
       andthen (let h = ehdr_of hdr
                in if cnt \<noteq> int EHDR_LEN then Inr (-1, M, s)
                   else if \<not> header_ok h then Inr (-1, M, s)
                   else load_segments fd h (e_phnum h) (e_phoff h) locals M s) (\<lambda>(ret, M, s).
       andthen (user_file_close fd s) (\<lambda>(_, s). Inr (ret, M, s)))))))"

section \<open>\<^verbatim>\<open>sys_execv\<close>\<close>

text \<open>\<open>argv\<close> are the words from the array on; its length is counted up to the first \<^verbatim>\<open>NULL\<close>.\<close>

definition count_args :: "nat list \<Rightarrow> nat cres" where
  "count_args argv = (if 0 \<in> set argv then Inr (length (takeWhile (\<lambda>a. a \<noteq> 0) argv)) else Inl Wild)"

text \<open>The index of the last name: behind the last slash, where one is found behind the first byte.\<close>

fun name_start :: "u8 list \<Rightarrow> nat \<Rightarrow> nat cres" where
  "name_start path 0 = Inr 0"
| "name_start path (Suc k) =
     andthen (rd path (Suc k)) (\<lambda>c. if c = 47 then Inr (Suc k + 1) else name_start path k)"

text \<open>The result is the word of the stack \<^verbatim>\<open>intr_exit\<close> is entered with, or none when the call returns
  -1.  The name is copied with 16 bytes, whatever the path has left.\<close>

definition sys_execv :: "u8 list \<Rightarrow> u8 list \<Rightarrow> nat \<Rightarrow> nat list \<Rightarrow> machine \<Rightarrow> fs \<Rightarrow> (nat option \<times> machine \<times> fs) cres" where
  "sys_execv locals path argv_at argv M s =
     andthen (count_args argv) (\<lambda>argc.
     andthen (load locals path M s) (\<lambda>(entry_point, M, s).
     if entry_point = -1 then Inr (None, M, s)
     else
       andthen (strlen path) (\<lambda>n.
       andthen (name_start path n) (\<lambda>pathptr.
       andthen (get_at path pathptr 16) (\<lambda>nm.
       let cur = running M; k = word_index cur (cur + PG_SIZE - 4 * intr_stack_words)
       in Inr (Some k,
            upd_pcb cur (\<lambda>t. t\<lparr>pcb_name := nm[15 := 0],
              kstack := (kstack t)(k + 5 := of_nat argv_at, k + 7 := of_nat argc, k + 14 := of_int entry_point,
                k + 17 := 0xc0000000)\<rparr>) M, s))))))"

end
