(* ===== verification/ProcessSpec.thy ===== *)
theory ProcessSpec
  imports Process
begin

text \<open>
  What the memory operations that make a process guarantee: taking pages of the kernel leaves the page
  tables of all other pages as they are, a new directory has the kernel's half of the old one, and
  a page of a user is mapped to a frame nobody else has.
\<close>

section \<open>What allocations leave as it is\<close>

definition keeps :: "nat set \<Rightarrow> mem \<Rightarrow> mem \<Rightarrow> bool" where
  "keeps X m m' \<longleftrightarrow>
     (\<forall>d. present (pde m d) \<longrightarrow> present (pde m' d) \<and> frame_bits (pde m' d) = frame_bits (pde m d)) \<and>
     (\<forall>w. w \<notin> X \<longrightarrow> present (pde m (w div 1024)) \<longrightarrow> pte m' w = pte m w)"

lemma keeps_refl [simp]: "pde m' = pde m \<Longrightarrow> pte m' = pte m \<Longrightarrow> keeps X m m'"
  by (simp add: keeps_def)

lemma keeps_trans: "keeps X m m1 \<Longrightarrow> keeps Y m1 m2 \<Longrightarrow> keeps (X \<union> Y) m m2"
  by (simp add: keeps_def)

lemma keeps_subset: "keeps X m m' \<Longrightarrow> X \<subseteq> Y \<Longrightarrow> keeps Y m m'"
  unfolding keeps_def by blast

lemma keeps_mapped:
  assumes "keeps X m m'" and "mapped m w" and "w \<notin> X"
  shows "mapped m' w" "page_frame m' w = page_frame m w"
  using assms by (auto simp: keeps_def mapped_def page_frame_def)

lemma addr_index: "(w * PG_SIZE + i) div PG_SIZE = w" "PDE_IDX (w * PG_SIZE + i) = w div 1024" if "i < PG_SIZE" for w i
proof -
  show q: "(w * PG_SIZE + i) div PG_SIZE = w" using that by simp
  have "(w * PG_SIZE + i) div 2 ^ 22 = (w * PG_SIZE + i) div PG_SIZE div 1024"
    by (simp add: PG_SIZE_def div_mult2_eq [symmetric])
  then show "PDE_IDX (w * PG_SIZE + i) = w div 1024" by (simp add: PDE_IDX_def q)
qed

lemma addr_v2p_eq:
  assumes "present (pde m (w div 1024))" "present (pde m' (w div 1024))"
    and "frame_bits (pde m' (w div 1024)) = frame_bits (pde m (w div 1024))" and "pte m' w = pte m w"
  shows "addr_v2p (w * PG_SIZE) m' = addr_v2p (w * PG_SIZE) m"
  using assms addr_index [of 0 w] by (simp add: addr_v2p_def Let_def PG_SIZE_def)

lemma keeps_addr_v2p:
  assumes "keeps X m m'" and "mapped m w" and "w \<notin> X"
  shows "addr_v2p (w * PG_SIZE) m' = addr_v2p (w * PG_SIZE) m"
  using assms by (intro addr_v2p_eq) (auto simp: keeps_def mapped_def)

lemma palloc_tables:
  assumes "palloc pf m = Inr (r, m')"
  shows "pde m' = pde m" "pte m' = pte m"
  using assms by (auto simp: palloc_def Let_def andthen_eq_Inr_iff split: if_splits)

lemma accessed_bits: "frame_bits (e AND 0xffffffbf) = frame_bits e" "present (e AND 0xffffffbf) = present e"
  by simp_all

lemma page_table_add_keeps:
  assumes "page_table_add a p m = Inr m'"
  shows "keeps {a div PG_SIZE} m m'"
    and "\<And>d. d \<noteq> PDE_IDX a \<Longrightarrow> pde m' d = pde m d"
    and "\<And>w. w div 1024 \<noteq> PDE_IDX a \<Longrightarrow> w \<noteq> a div PG_SIZE \<Longrightarrow> pte m' w = pte m w"
proof -
  have "keeps {a div PG_SIZE} m m' \<and> (\<forall>d. d \<noteq> PDE_IDX a \<longrightarrow> pde m' d = pde m d) \<and>
    (\<forall>w. w div 1024 \<noteq> PDE_IDX a \<longrightarrow> w \<noteq> a div PG_SIZE \<longrightarrow> pte m' w = pte m w)"
  proof (cases "present (pde m (PDE_IDX a))")
    case True
    then have "m' = (let m1 = m\<lparr>pte := (pte m)(a div PG_SIZE := entry p)\<rparr>
        in m1\<lparr>pde := (pde m1)(PDE_IDX a := pde m1 (PDE_IDX a) AND 0xffffffbf)\<rparr>)"
      using assms by (auto simp: page_table_add_def Let_def andthen_eq_Inr_iff)
    then show ?thesis by (simp add: keeps_def Let_def)
  next
    case False
    then obtain r m1 where r: "palloc PF_KERNEL m = Inr (r, m1)"
      and m': "m' = (let m2 = m1\<lparr>pde := (pde m1)(PDE_IDX a := entry (case r of None \<Rightarrow> 0 | Some b \<Rightarrow> b)),
          pte := (\<lambda>w. if w div 2 ^ 10 = PDE_IDX a then 0 else pte m1 w)(a div PG_SIZE := entry p)\<rparr>
        in m2\<lparr>pde := (pde m2)(PDE_IDX a := pde m2 (PDE_IDX a) AND 0xffffffbf)\<rparr>)"
      using assms by (auto simp: page_table_add_def Let_def andthen_eq_Inr_iff)
    show ?thesis using False unfolding m' by (auto simp: keeps_def Let_def palloc_tables [OF r])
  qed
  then show "keeps {a div PG_SIZE} m m'" "\<And>d. d \<noteq> PDE_IDX a \<Longrightarrow> pde m' d = pde m d"
    "\<And>w. w div 1024 \<noteq> PDE_IDX a \<Longrightarrow> w \<noteq> a div PG_SIZE \<Longrightarrow> pte m' w = pte m w" by blast+
qed

lemma next_page_addr: "Suc v < 2 ^ 20 \<Longrightarrow> (v * PG_SIZE + PG_SIZE) mod 2 ^ 32 = Suc v * PG_SIZE"
  by (simp add: PG_SIZE_def)

lemma map_pages_keeps:
  assumes "map_pages pf (v * PG_SIZE) n m = Inr m'" and "v + n < 2 ^ 20"
  shows "keeps {v..<v + n} m m'"
  using assms
proof (induction n arbitrary: v m)
  case (Suc n)
  obtain r m1 m2 where s: "palloc pf m = Inr (r, m1)"
    "page_table_add (v * PG_SIZE) (case r of None \<Rightarrow> 0 | Some a \<Rightarrow> a) m1 = Inr m2"
    "map_pages pf ((v * PG_SIZE + PG_SIZE) mod 2 ^ 32) n m2 = Inr m'"
    using Suc.prems(1) by (auto simp: andthen_eq_Inr_iff)
  have nx: "Suc v < 2 ^ 20" using Suc.prems(2) by simp
  have "keeps {} m m1" using palloc_tables [OF s(1)] by simp
  moreover have "keeps {v} m1 m2" using page_table_add_keeps(1) [OF s(2)] by (simp add: PG_SIZE_def)
  moreover have "keeps {Suc v..<Suc v + n} m2 m'"
    using s(3) Suc.prems(2) unfolding next_page_addr [OF nx] by (intro Suc.IH) simp_all
  ultimately have "keeps ({} \<union> {v} \<union> {Suc v..<Suc v + n}) m m'" using keeps_trans by blast
  then show ?case by (rule keeps_subset) auto
qed simp

lemma malloc_page_keeps:
  assumes "malloc_page pf n m = Inr (Some (a * PG_SIZE), m')" and "a + n < 2 ^ 20"
  shows "keeps {a..<a + n} m m'"
proof -
  obtain m1 where m1: "vaddr_get pf n m = Inr (Some (a * PG_SIZE), m1)" "map_pages pf (a * PG_SIZE) n m1 = Inr m'"
    using assms(1) by (auto simp: malloc_page_def andthen_eq_Inr_iff split: option.splits)
  have "keeps {} m m1"
    using m1(1) by (auto simp: vaddr_get_def Let_def andthen_eq_Inr_iff split: if_splits)
  then show ?thesis using keeps_trans map_pages_keeps [OF m1(2) assms(2)] by fastforce
qed

text \<open>With the kernel's page tables in place an allocation takes its pages' frames and no more.\<close>

definition kernel_tables :: "mem \<Rightarrow> bool" where
  "kernel_tables m \<longleftrightarrow> (\<forall>d. 768 \<le> d \<longrightarrow> d < 1024 \<longrightarrow> present (pde m d))"

lemma keeps_kernel_tables: "keeps X m m' \<Longrightarrow> kernel_tables m \<Longrightarrow> kernel_tables m'"
  by (simp add: keeps_def kernel_tables_def)

lemma map_pages_frames:
  assumes "map_pages pf (v * PG_SIZE) n m = Inr m'" and "layout_ok m" and "v + n < 2 ^ 20"
    and "\<forall>w \<in> {v..<v + n}. present (pde m (w div 1024)) \<and> \<not> present (pte m w)" and "n \<le> card (free_frames pf m)"
  shows "card (free_frames pf m) = card (free_frames pf m') + n \<and> (\<forall>q. q \<noteq> pf \<longrightarrow> free_frames q m' = free_frames q m \<and> frames q m' = frames q m)"
  using assms
proof (induction n arbitrary: v m)
  case (Suc n)
  have "free_frames pf m \<noteq> {}" using Suc.prems(5) by auto
  then obtain f b where p: "palloc pf m = Inr (Some (f * PG_SIZE), set_pool pf ((the_pool pf m)\<lparr>pool_bitmap := b\<rparr>) m)"
    "f \<in> free_frames pf m" "layout_ok (set_pool pf ((the_pool pf m)\<lparr>pool_bitmap := b\<rparr>) m)"
    "\<And>q. frames q (set_pool pf ((the_pool pf m)\<lparr>pool_bitmap := b\<rparr>) m) =
       (if q = pf then insert f (frames pf m) else frames q m)"
    "\<And>q. free_frames q (set_pool pf ((the_pool pf m)\<lparr>pool_bitmap := b\<rparr>) m) =
       (if q = pf then free_frames pf m - {f} else free_frames q m)"
    by (rule palloc_ok [OF Suc.prems(2)]) (rule that)
  define m1 where "m1 = set_pool pf ((the_pool pf m)\<lparr>pool_bitmap := b\<rparr>) m"
  note p = p [folded m1_def]
  have t: "pde m1 = pde m" "pte m1 = pte m" by (simp_all add: m1_def)
  have v: "present (pde m1 (v div 1024))" "\<not> present (pte m1 v)" using Suc.prems(4) t by simp_all
  define m2 where "m2 = set_entry v f m1"
  have nx: "Suc v < 2 ^ 20" using Suc.prems(3) by simp
  have "map_pages pf (Suc v * PG_SIZE) n m2 = Inr m'"
    using Suc.prems(1) unfolding map_pages.simps next_page_addr [OF nx] p(1) m2_def
    by (simp add: page_table_add_present [OF v] del: mult_Suc)
  moreover have "present (pde m2 (w div 1024)) \<and> \<not> present (pte m2 w)" if "w \<in> {Suc v..<Suc v + n}" for w
    using that Suc.prems(4) t by (simp add: m2_def)
  moreover have "free_frames q m2 = free_frames q m1" "frames q m2 = frames q m1" for q by (simp_all add: m2_def)
  moreover have "card (free_frames pf m) = Suc (card (free_frames pf m1))"
    using p(2,5) by (metis card.remove finite_frames(1))
  moreover have "layout_ok m2" using p(3) by (simp add: m2_def)
  ultimately show ?case using Suc.IH [of "Suc v" m2] Suc.prems(3,5) p(4,5) by auto
qed simp

lemma kernel_page:
  assumes "layout_ok m" and "v \<in> owned PF_KERNEL m \<union> unowned PF_KERNEL m"
  shows "0xc0000 \<le> v" "v < 2 ^ 20 - 1024" "768 \<le> v div 1024" "v div 1024 < 1023"
  using page_range(2,3) [OF assms] by simp_all

text \<open>What a step of the kernel leaves of the running process's memory.\<close>

definition same_user :: "mem \<Rightarrow> mem \<Rightarrow> bool" where
  "same_user m m' \<longleftrightarrow> the_vaddr PF_USER m' = the_vaddr PF_USER m \<and> vbase PF_KERNEL m' = vbase PF_KERNEL m \<and>
     length (bits (vaddr_bitmap (the_vaddr PF_KERNEL m'))) = length (bits (vaddr_bitmap (the_vaddr PF_KERNEL m))) \<and>
     nbits (vaddr_bitmap (the_vaddr PF_KERNEL m')) = nbits (vaddr_bitmap (the_vaddr PF_KERNEL m)) \<and>
     u_block_desc m' = u_block_desc m \<and> free_frames PF_USER m' = free_frames PF_USER m \<and>
     frames PF_KERNEL m \<subseteq> frames PF_KERNEL m' \<and> frames PF_USER m' = frames PF_USER m \<and>
     (\<forall>q. free_frames q m' \<subseteq> free_frames q m)"

lemma same_user_trans: "same_user m m1 \<Longrightarrow> same_user m1 m2 \<Longrightarrow> same_user m m2"
  by (simp add: same_user_def) blast

lemma same_user_refl [simp]: "same_user m m"
  by (simp add: same_user_def)

text \<open>A state reached by allocations: what was mapped is mapped as before.\<close>

definition grown :: "mem \<Rightarrow> mem \<Rightarrow> bool" where
  "grown m m' \<longleftrightarrow> (\<exists>X. keeps X m m' \<and> (\<forall>w \<in> X. \<not> mapped m w)) \<and> same_user m m'"

lemma grown_refl [simp]: "grown m m"
  unfolding grown_def by (auto intro: exI [of _ "{}"])

lemma grownI: "keeps X m m' \<Longrightarrow> (\<And>w. w \<in> X \<Longrightarrow> \<not> mapped m w) \<Longrightarrow> same_user m m' \<Longrightarrow> grown m m'"
  unfolding grown_def by blast

lemma grown_mapped:
  assumes "grown m m'" and "mapped m w"
  shows "mapped m' w" "page_frame m' w = page_frame m w" "addr_v2p (w * PG_SIZE) m' = addr_v2p (w * PG_SIZE) m"
proof -
  obtain X where X: "keeps X m m'" "w \<notin> X" using assms unfolding grown_def by blast
  show "mapped m' w" "page_frame m' w = page_frame m w" using keeps_mapped [OF X(1) assms(2) X(2)] by simp_all
  show "addr_v2p (w * PG_SIZE) m' = addr_v2p (w * PG_SIZE) m" by (rule keeps_addr_v2p [OF X(1) assms(2) X(2)])
qed

lemma grown_trans:
  assumes "grown m m1" and "grown m1 m2"
  shows "grown m m2"
proof -
  obtain X Y where X: "keeps X m m1" "\<forall>w \<in> X. \<not> mapped m w" and Y: "keeps Y m1 m2" "\<forall>w \<in> Y. \<not> mapped m1 w"
    using assms unfolding grown_def by blast
  have "\<not> mapped m w" if "w \<in> X \<union> Y" for w
    using that X(2) Y(2) grown_mapped(1) [OF assms(1)] by blast
  then show ?thesis
    using keeps_trans [OF X(1) Y(1)] same_user_trans assms unfolding grown_def by blast
qed

lemma grown_tables: "grown m m' \<Longrightarrow> kernel_tables m \<Longrightarrow> kernel_tables m'"
  unfolding grown_def using keeps_kernel_tables by blast

lemma grown_pde:
  assumes "grown m m'" and "present (pde m d)"
  shows "present (pde m' d)" "frame_bits (pde m' d) = frame_bits (pde m d)"
  using assms unfolding grown_def keeps_def by blast+

lemma grown_user:
  assumes "grown m m'"
  shows "owned PF_USER m' = owned PF_USER m" "unowned PF_USER m' = unowned PF_USER m"
    "the_vaddr PF_USER m' = the_vaddr PF_USER m" "free_frames PF_USER m' = free_frames PF_USER m"
    "frames PF_USER m' = frames PF_USER m" "frames PF_KERNEL m \<subseteq> frames PF_KERNEL m'"
    "free_frames q m' \<subseteq> free_frames q m"
  using assms by (simp_all add: grown_def same_user_def owned_def unowned_def vbase_def)

lemma set_range_len:
  "set_range bitmap_set i v n b = Inr b' \<Longrightarrow> length (bits b') = length (bits b) \<and> btmp_bytes_len b' = btmp_bytes_len b"
proof (induction n arbitrary: i b)
  case (Suc n)
  obtain c where c: "bitmap_set b i v = Inr c" "set_range bitmap_set (i + 1) v n c = Inr b'"
    using Suc.prems by (auto simp: andthen_eq_Inr_iff)
  have "length (bits c) = length (bits b) \<and> btmp_bytes_len c = btmp_bytes_len b"
    using c(1) by (auto simp: bitmap_set_def Let_def andthen_eq_Inr_iff)
  then show ?case using Suc.IH [OF c(2)] by simp
qed simp

lemma kernel_malloc_ok:
  assumes inv: "mem_inv m {}" and tabs: "kernel_tables m" and n: "0 < n"
    and run: "{st..<st + n} \<subseteq> unowned PF_KERNEL m" and room: "2 * n \<le> card (free_frames PF_KERNEL m)"
  obtains a m' where "get_kernel_pages n m = Inr (Some (a * PG_SIZE), m')" "mem_inv m' {}"
    "{a..<a + n} \<subseteq> unowned PF_KERNEL m" "owned PF_KERNEL m' = owned PF_KERNEL m \<union> {a..<a + n}"
    "page_frame m' ` {a..<a + n} \<subseteq> free_frames PF_KERNEL m" "grown m m'"
    "card (free_frames PF_KERNEL m) = card (free_frames PF_KERNEL m') + n"
    "\<And>w. w \<notin> unowned PF_KERNEL m \<Longrightarrow> 768 \<le> w div 1024 \<Longrightarrow> w div 1024 < 1024 \<Longrightarrow> mapped m' w = mapped m w"
proof -
  note D = mem_invD [OF inv]
  have st: "0xbffff \<notin> unowned PF_KERNEL m" using kernel_page(1) [OF D(1), of "0xbffff"] by auto
  obtain a b where v:
    "vaddr_get PF_KERNEL n m = Inr (Some (a * PG_SIZE), set_vaddr PF_KERNEL ((the_vaddr PF_KERNEL m)\<lparr>vaddr_bitmap := b\<rparr>) m)"
    "{a..<a + n} \<subseteq> unowned PF_KERNEL m"
    "mem_inv (set_vaddr PF_KERNEL ((the_vaddr PF_KERNEL m)\<lparr>vaddr_bitmap := b\<rparr>) m) {a..<a + n}"
    "\<And>q. owned q (set_vaddr PF_KERNEL ((the_vaddr PF_KERNEL m)\<lparr>vaddr_bitmap := b\<rparr>) m) =
       (if q = PF_KERNEL then owned PF_KERNEL m \<union> {a..<a + n} else owned q m)"
    by (rule vaddr_get_ok [OF inv n run st]) (rule that)
  define m1 where "m1 = set_vaddr PF_KERNEL ((the_vaddr PF_KERNEL m)\<lparr>vaddr_bitmap := b\<rparr>) m"
  note v = v [folded m1_def]
  have e: "free_frames q m1 = free_frames q m" "frames q m1 = frames q m" "mapped m1 = mapped m" "pde m1 = pde m" "pte m1 = pte m" for q
    by (simp_all add: m1_def)
  have "\<exists>c. set_range bitmap_set c 1 n (vaddr_bitmap (the_vaddr PF_KERNEL m)) = Inr (vaddr_bitmap (the_vaddr PF_KERNEL m1))"
    using v(1) by (auto simp: vaddr_get_def Let_def andthen_eq_Inr_iff split: if_splits)
  then have len: "length (bits (vaddr_bitmap (the_vaddr PF_KERNEL m1))) = length (bits (vaddr_bitmap (the_vaddr PF_KERNEL m)))"
    and nb: "nbits (vaddr_bitmap (the_vaddr PF_KERNEL m1)) = nbits (vaddr_bitmap (the_vaddr PF_KERNEL m))"
    using set_range_len by (auto simp: nbits_def)
  have sub: "{a..<a + n} \<subseteq> {a..<a + n} \<inter> owned PF_KERNEL m1" using v(4) by auto
  obtain m' where m': "map_pages PF_KERNEL (a * PG_SIZE) n m1 = Inr m'" "mem_inv m' ({a..<a + n} - {a..<a + n})"
    "same_pages m1 m'" "page_frame m' ` {a..<a + n} \<subseteq> free_frames PF_KERNEL m1"
    "\<forall>q. frames q m1 \<subseteq> frames q m' \<and> free_frames q m' \<subseteq> free_frames q m1"
    using map_pages_ok [OF v(3) sub] room unfolding e by auto
  have page: "768 \<le> w div 1024" "w div 1024 < 1023" "\<not> mapped m w" "w < 2 ^ 20 - 1024" if "w \<in> {a..<a + n}" for w
    using kernel_page [OF D(1), of w] D(4) [of w PF_KERNEL] v(2) that by auto
  have free: "\<forall>w \<in> {a..<a + n}. present (pde m1 (w div 1024)) \<and> \<not> present (pte m1 w)"
  proof
    fix w assume w: "w \<in> {a..<a + n}"
    then have "w div 1024 < 1024" using page(2) [OF w] by simp
    then have "present (pde m (w div 1024))" using tabs page(1) [OF w] by (simp add: kernel_tables_def)
    then show "present (pde m1 (w div 1024)) \<and> \<not> present (pte m1 w)" using page(3) [OF w] e by (simp add: mapped_def)
  qed
  have "a + n - 1 \<in> {a..<a + n}" using n by auto
  then have top: "a + n < 2 ^ 20" using page(4) by fastforce
  have fr: "card (free_frames PF_KERNEL m) = card (free_frames PF_KERNEL m') + n" "free_frames PF_USER m' = free_frames PF_USER m"
    "frames PF_USER m' = frames PF_USER m"
    using map_pages_frames [OF m'(1) mem_invD(1) [OF v(3)] top free] room e by auto
  have run: "get_kernel_pages n m = Inr (Some (a * PG_SIZE), m')"
    using v(1) m'(1) by (simp add: get_kernel_pages_def malloc_page_def)
  have k: "keeps {a..<a + n} m m'"
    using malloc_page_keeps [of PF_KERNEL n m a m'] run top by (simp add: get_kernel_pages_def)
  have vu: "the_vaddr PF_USER m' = the_vaddr PF_USER m" "the_vaddr PF_KERNEL m' = the_vaddr PF_KERNEL m1" "u_block_desc m' = u_block_desc m"
    using m'(3) by (simp_all add: same_pages_def m1_def)
  have vb: "vbase PF_KERNEL m' = vbase PF_KERNEL m" by (simp add: vbase_def vu m1_def)
  have su: "same_user m m'" using vu vb len nb fr(2,3) m'(5) e by (simp add: same_user_def)
  have gr: "grown m m'" by (rule grownI [OF k page(3) su])
  have ow: "owned PF_KERNEL m' = owned PF_KERNEL m \<union> {a..<a + n}"
    using v(4) [of PF_KERNEL] same_pagesD(1) [OF m'(3)] by simp
  have img: "page_frame m' ` {a..<a + n} \<subseteq> free_frames PF_KERNEL m" using m'(4) e by simp
  have inv': "mem_inv m' {}" using m'(2) by simp
  have mp: "mapped m' w = mapped m w"
    if w: "w \<notin> unowned PF_KERNEL m" "768 \<le> w div 1024" "w div 1024 < 1024" for w
  proof -
    have "present (pde m (w div 1024))" using tabs w(2,3) by (simp add: kernel_tables_def)
    moreover have "w \<notin> {a..<a + n}" using w(1) v(2) by blast
    ultimately show ?thesis using k unfolding keeps_def mapped_def by metis
  qed
  show thesis by (rule that [OF run inv' v(2) ow img gr fr(1) mp])
qed

section \<open>A new page directory\<close>

lemma mem_inv_other_page:
  assumes inv: "mem_inv m W" and v: "\<And>q. v \<notin> owned q m \<union> unowned q m" and W: "W \<subseteq> all_owned m"
    and p: "present (pde m (v div 1024))"
  shows "mem_inv (set_entry v f m) W"
proof -
  note D = mem_invD [OF inv]
  have ne: "w \<noteq> v" if "w \<in> owned q m \<union> unowned q m \<or> w \<in> W" for w q
    using that v W unfolding all_owned_def by blast
  have S: "same_pages m (set_entry v f m)" by (simp add: same_pages_def)
  have pf': "page_frame (set_entry v f m) w = page_frame m w" if "w \<noteq> v" for w
    using that by (simp add: page_frame_def)
  have mp: "mapped (set_entry v f m) w \<longleftrightarrow> mapped m w" if "w \<noteq> v" for w
    using that by (simp add: mapped_def)
  have eq: "page_frame (set_entry v f m) w = page_frame m w" if "w \<in> all_owned m - W" for w
    using that ne unfolding all_owned_def by (intro pf') blast
  then have img: "page_frame (set_entry v f m) ` (all_owned m - W) = page_frame m ` (all_owned m - W)"
    by (rule image_cong [OF refl])
  have inj: "inj_on (page_frame (set_entry v f m)) (all_owned m - W)"
    using D(6) eq by (simp add: inj_on_def)
  have "\<forall>q. \<forall>w \<in> owned q m - W. mapped (set_entry v f m) w \<and> page_frame (set_entry v f m) w \<in> frames q m"
    using D(3) ne mp pf' by (metis DiffE UnI1)
  moreover have "\<forall>q. \<forall>w \<in> unowned q m \<union> W. \<not> mapped (set_entry v f m) w"
    using D(4,5) ne mp by (metis UnE UnI2)
  ultimately show ?thesis
    unfolding mem_inv_def same_pagesD [OF S] img using D(1,2,7,8,9) inj by simp blast
qed

lemma dir_page_ok:
  assumes inv: "mem_inv m {}" and tabs: "kernel_tables m" and v: "vbase PF_KERNEL m < v" "v < 2 ^ 20 - 1024"
    "vbase PF_KERNEL m + nbits (vaddr_bitmap (the_vaddr PF_KERNEL m)) \<le> v"
    "(v - vbase PF_KERNEL m) div 8 < length (bits (vaddr_bitmap (the_vaddr PF_KERNEL m)))" "\<not> mapped m v"
    and room: "free_frames PF_KERNEL m \<noteq> {}"
  obtains f m' where "get_a_page PF_KERNEL (v * PG_SIZE) m = Inr (Some (v * PG_SIZE), m')" "mem_inv m' {}"
    "f \<in> free_frames PF_KERNEL m" "mapped m' v" "page_frame m' v = f" "grown m m'"
    "owned PF_KERNEL m' = owned PF_KERNEL m" "unowned PF_KERNEL m' = unowned PF_KERNEL m"
    "card (free_frames PF_KERNEL m) = card (free_frames PF_KERNEL m') + 1" "\<And>q. f \<notin> free_frames q m'"
    "addr_v2p (v * PG_SIZE) m' = Inr (f * PG_SIZE)"
proof -
  note D = mem_invD [OF inv]
  let ?va = "the_vaddr PF_KERNEL m" and ?i = "v - vbase PF_KERNEL m"
  have vs: "vaddr_start ?va = vbase PF_KERNEL m * PG_SIZE" and g: "bitmap_guarded (vaddr_bitmap ?va)"
    using D(1) by (simp_all add: layout_ok_def)
  have "int (v * PG_SIZE) - int (vaddr_start ?va) = int (?i * PG_SIZE)"
    using v(1) vs by (simp add: of_nat_diff diff_mult_distrib left_diff_distrib)
  moreover have "?i * PG_SIZE < 2 ^ 32" using v(2) by (simp add: PG_SIZE_def)
  ultimately have idx: "uint32 (int (v * PG_SIZE) - int (vaddr_start ?va)) div PG_SIZE = ?i"
    by (simp add: PG_SIZE_def)
  obtain b where b: "bitmap_set (vaddr_bitmap ?va) ?i 1 = Inr b" "btmp_bytes_len b = btmp_bytes_len (vaddr_bitmap ?va)"
    "length (bits b) = length (bits (vaddr_bitmap ?va))"
    "\<forall>j. j div 8 < length (bits (vaddr_bitmap ?va)) \<longrightarrow>
       bit_set b j = (if j = ?i then (1 :: int) = 1 else bit_set (vaddr_bitmap ?va) j)"
    using bitmap_set_ok [of 1 ?i "vaddr_bitmap ?va"] v(4) by auto
  have nb: "nbits b = nbits (vaddr_bitmap ?va)" using b(2) by (simp add: nbits_def)
  have gb: "bitmap_guarded b" using g b(2,3) by (simp add: bitmap_guarded_def nbits_def)
  have "bit_set b j = bit_set (vaddr_bitmap ?va) j" if "j < nbits (vaddr_bitmap ?va)" for j
  proof -
    have "j div 8 < length (bits (vaddr_bitmap ?va))" using that g by (simp add: nbits_def bitmap_guarded_def) linarith
    moreover have "j \<noteq> ?i" using that v(1,3) by linarith
    ultimately show ?thesis using b(4) by simp
  qed
  then have al: "allocated b = allocated (vaddr_bitmap ?va)" unfolding allocated_def nb by auto
  define m1 where "m1 = set_vaddr PF_KERNEL (?va\<lparr>vaddr_bitmap := b\<rparr>) m"
  have own: "owned q m1 = owned q m" "unowned q m1 = unowned q m" for q
    unfolding m1_def using set_vaddr_owned [OF nb al, of q] by (auto simp: owned_def unowned_def)
  have all: "all_owned m1 = all_owned m" by (simp add: all_owned_def own)
  have lay1: "layout_ok m1" using set_vaddr_layout [OF D(1) gb nb] by (simp only: m1_def)
  have inv1: "mem_inv m1 {}"
  proof (rule mem_inv_pages [OF inv lay1 m1_def])
    show "all_owned m1 - {} = all_owned m - {}" by (simp add: all)
    show "{} \<subseteq> all_owned m1" by simp
    show "owned q m1 - {} \<subseteq> owned q m - {}" for q by (simp add: own)
    show "w \<in> unowned q m1 \<Longrightarrow> \<not> mapped m w" for q w unfolding own by (rule D(4)) simp
    show "w \<in> {} \<Longrightarrow> \<not> mapped m w" for w by simp
  qed
  have e1: "free_frames q m1 = free_frames q m" "frames q m1 = frames q m" "mapped m1 = mapped m" "pde m1 = pde m" "pte m1 = pte m" for q
    by (simp_all add: m1_def)
  have room1: "free_frames PF_KERNEL m1 \<noteq> {}" using room e1 by simp
  obtain f c where p: "palloc PF_KERNEL m1 = Inr (Some (f * PG_SIZE), set_pool PF_KERNEL ((the_pool PF_KERNEL m1)\<lparr>pool_bitmap := c\<rparr>) m1)"
    "f \<in> free_frames PF_KERNEL m1" "layout_ok (set_pool PF_KERNEL ((the_pool PF_KERNEL m1)\<lparr>pool_bitmap := c\<rparr>) m1)"
    "\<And>q. frames q (set_pool PF_KERNEL ((the_pool PF_KERNEL m1)\<lparr>pool_bitmap := c\<rparr>) m1) =
       (if q = PF_KERNEL then insert f (frames PF_KERNEL m1) else frames q m1)"
    "\<And>q. free_frames q (set_pool PF_KERNEL ((the_pool PF_KERNEL m1)\<lparr>pool_bitmap := c\<rparr>) m1) =
       (if q = PF_KERNEL then free_frames PF_KERNEL m1 - {f} else free_frames q m1)"
    by (rule palloc_ok [OF mem_invD(1) [OF inv1] room1]) (rule that)
  define m2 where "m2 = set_pool PF_KERNEL ((the_pool PF_KERNEL m1)\<lparr>pool_bitmap := c\<rparr>) m1"
  note p = p [folded m2_def]
  have S12: "same_pages m1 m2" by (simp add: m2_def same_pages_def)
  have t2: "pde m2 = pde m" "pte m2 = pte m" by (simp_all add: m2_def e1)
  have inv2: "mem_inv m2 {}"
  proof (rule mem_inv_more_frames [OF inv1 p(3) S12])
    show "pde m2 = pde m1" "pte m2 = pte m1" using t2 e1 by simp_all
    show "frames q m1 \<subseteq> frames q m2" "free_frames q m2 \<subseteq> free_frames q m1" for q
      using p(4,5) [of q] by auto
  qed
  have lo: "0xc0000 \<le> v" using D(1) v(1) by (simp add: layout_ok_def)
  have "768 \<le> v div 1024" "v div 1024 < 1024" using lo v(2) by simp_all
  then have pd: "present (pde m2 (v div 1024))" using tabs t2 by (simp add: kernel_tables_def)
  have npt: "\<not> present (pte m2 v)" using v(5) pd t2 by (simp add: mapped_def)
  define m' where "m' = set_entry v f m2"
  have own2: "owned q m2 = owned q m" "unowned q m2 = unowned q m" for q
    using own same_pagesD [OF S12] by simp_all
  have out: "v \<notin> owned q m2 \<union> unowned q m2" for q
    unfolding own2 using page_range(3,5) [OF D(1), of v q] lo v(3) by (cases q) auto
  have run: "get_a_page PF_KERNEL (v * PG_SIZE) m = Inr (Some (v * PG_SIZE), m')"
    using v(1) b(1) p(1) page_table_add_present [OF pd npt, of f]
    unfolding get_a_page_def Let_def idx by (simp add: m1_def m'_def)
  have f20: "f < 2 ^ 20" using frame_range(2) [OF mem_invD(1) [OF inv1], of f PF_KERNEL] p(2) by simp
  have mp: "mapped m' v" "page_frame m' v = f"
    using pd f20 by (simp_all add: m'_def mapped_def page_frame_def frame_no_entry)
  have k: "keeps {v} m m'" using t2 by (auto simp: keeps_def m'_def set_entry_def Let_def)
  have su: "same_user m m'"
  proof -
    have "the_vaddr PF_USER m' = the_vaddr PF_USER m" "vbase PF_KERNEL m' = vbase PF_KERNEL m"
      "vaddr_bitmap (the_vaddr PF_KERNEL m') = b" "u_block_desc m' = u_block_desc m"
      by (simp_all add: m'_def m2_def m1_def vbase_def)
    moreover have "free_frames q m' = free_frames q m2" "frames q m' = frames q m2" for q by (simp_all add: m'_def)
    ultimately show ?thesis unfolding same_user_def using b(3) nb p(4,5) e1(1,2) by auto
  qed
  have gr: "grown m m'" using v(5) by (intro grownI [OF k _ su]) simp
  have nf: "f \<notin> free_frames q m'" for q
    using p(2) p(5) [of q] frame_range(3) [OF mem_invD(1) [OF inv1], of f]
    by (cases q) (auto simp: m'_def)
  have inv': "mem_inv m' {}" unfolding m'_def using mem_inv_other_page [OF inv2 out _ pd] by simp
  have ow': "owned PF_KERNEL m' = owned PF_KERNEL m" "unowned PF_KERNEL m' = unowned PF_KERNEL m"
    using pages_cong [of m' m2] own2 by (simp_all add: m'_def)
  have cd: "card (free_frames PF_KERNEL m) = card (free_frames PF_KERNEL m') + 1"
    using card.remove [OF finite_frames(1), of f PF_KERNEL m1] p(2) p(5) [of PF_KERNEL] e1 by (simp add: m'_def)
  have tf: "0 < table_frame m' (v div 1024)" using mem_invD(7) [OF inv'] pd by (simp add: m'_def)
  have "frame_bits (pde m' (v div 1024)) \<noteq> 0" using tf by (auto simp: table_frame_def frame_no_def)
  moreover have "present (pde m' (v div 1024))" using pd by (simp add: m'_def)
  ultimately have "addr_v2p (v * PG_SIZE) m' = Inr (f * PG_SIZE)"
  proof -
    assume a: "frame_bits (pde m' (v div 1024)) \<noteq> 0" "present (pde m' (v div 1024))"
    have fb: "unat (frame_bits (pte m' v)) = f * PG_SIZE" using mp(2) by (simp add: frame_no_bits page_frame_def)
    have "f * PG_SIZE < 2 ^ 32" using f20 by (simp add: PG_SIZE_def)
    then have "(unat (frame_bits (pte m' v)) + v * PG_SIZE mod PG_SIZE) mod 2 ^ 32 = f * PG_SIZE"
      unfolding fb by simp
    then show ?thesis using a unfolding addr_v2p_def Let_def entry_index by simp
  qed
  with run inv' p(2) e1 mp gr ow' cd nf show thesis by (intro that) simp_all
qed

section \<open>Pages of the kernel and of a program\<close>

lemma zero_pages_ok:
  assumes "\<forall>w \<in> {v..<v + n}. mapped (mm M) w"
  obtains \<sigma> where "zero_pages v n M = Inr (M\<lparr>store := \<sigma>\<rparr>)"
    and "\<And>f. f \<notin> page_frame (mm M) ` {v..<v + n} \<Longrightarrow> \<sigma> f = store M f"
proof -
  have "\<exists>\<sigma>. zero_pages v n M = Inr (M\<lparr>store := \<sigma>\<rparr>) \<and>
    (\<forall>f. f \<notin> page_frame (mm M) ` {v..<v + n} \<longrightarrow> \<sigma> f = store M f)"
    using assms
  proof (induction n arbitrary: v M)
    case 0
    show ?case by (intro exI [of _ "store M"]) simp
  next
    case (Suc n)
    define M1 where "M1 = M\<lparr>store := (store M)(page_frame (mm M) v := replicate PG_SIZE 0)\<rparr>"
    obtain \<sigma> where \<sigma>: "zero_pages (v + 1) n M1 = Inr (M1\<lparr>store := \<sigma>\<rparr>)"
      "\<forall>f. f \<notin> page_frame (mm M1) ` {v + 1..<v + 1 + n} \<longrightarrow> \<sigma> f = store M1 f"
      using Suc.IH [of "v + 1" M1] Suc.prems by (auto simp: M1_def)
    have iv: "{v..<v + Suc n} = insert v {v + 1..<v + 1 + n}" by auto
    have "store_page v (replicate PG_SIZE 0) M = Inr M1"
      using Suc.prems by (simp add: store_page_def M1_def)
    then show ?case using \<sigma> unfolding iv by (intro exI [of _ \<sigma>]) (simp add: M1_def)
  qed
  then show thesis using that by blast
qed

lemma kernel_pages_ok:
  assumes inv: "mem_inv (mm M) {}" and tabs: "kernel_tables (mm M)" and n: "0 < n"
    and run: "{st..<st + n} \<subseteq> unowned PF_KERNEL (mm M)" and room: "2 * n \<le> card (free_frames PF_KERNEL (mm M))"
  obtains a m' \<sigma> where "kernel_pages n M = Inr (Some (a * PG_SIZE), M\<lparr>mm := m', store := \<sigma>\<rparr>)" "mem_inv m' {}"
    "{a..<a + n} \<subseteq> unowned PF_KERNEL (mm M)" "owned PF_KERNEL m' = owned PF_KERNEL (mm M) \<union> {a..<a + n}"
    "page_frame m' ` {a..<a + n} \<subseteq> free_frames PF_KERNEL (mm M)" "grown (mm M) m'"
    "card (free_frames PF_KERNEL (mm M)) = card (free_frames PF_KERNEL m') + n"
    "\<And>f. f \<notin> free_frames PF_KERNEL (mm M) \<Longrightarrow> \<sigma> f = store M f"
    "\<And>w. w \<notin> unowned PF_KERNEL (mm M) \<Longrightarrow> 768 \<le> w div 1024 \<Longrightarrow> w div 1024 < 1024 \<Longrightarrow> mapped m' w = mapped (mm M) w"
proof -
  obtain a m' where a: "get_kernel_pages n (mm M) = Inr (Some (a * PG_SIZE), m')" "mem_inv m' {}"
    "{a..<a + n} \<subseteq> unowned PF_KERNEL (mm M)" "owned PF_KERNEL m' = owned PF_KERNEL (mm M) \<union> {a..<a + n}"
    "page_frame m' ` {a..<a + n} \<subseteq> free_frames PF_KERNEL (mm M)" "grown (mm M) m'"
    "card (free_frames PF_KERNEL (mm M)) = card (free_frames PF_KERNEL m') + n"
    "\<And>w. w \<notin> unowned PF_KERNEL (mm M) \<Longrightarrow> 768 \<le> w div 1024 \<Longrightarrow> w div 1024 < 1024 \<Longrightarrow> mapped m' w = mapped (mm M) w"
    by (rule kernel_malloc_ok [OF assms]) (rule that)
  have mp: "\<forall>w \<in> {a..<a + n}. mapped (mm (M\<lparr>mm := m'\<rparr>)) w"
    using mem_invD(3) [OF a(2), of _ PF_KERNEL] a(4) by simp
  obtain \<sigma> where \<sigma>: "zero_pages a n (M\<lparr>mm := m'\<rparr>) = Inr (M\<lparr>mm := m', store := \<sigma>\<rparr>)"
    "\<And>f. f \<notin> page_frame m' ` {a..<a + n} \<Longrightarrow> \<sigma> f = store M f"
    by (rule zero_pages_ok [OF mp]) (auto intro: that)
  have "a * PG_SIZE div PG_SIZE = a" by (simp add: PG_SIZE_def)
  then have "kernel_pages n M = Inr (Some (a * PG_SIZE), M\<lparr>mm := m', store := \<sigma>\<rparr>)"
    using a(1) \<sigma>(1) by (simp add: kernel_pages_def)
  moreover have "\<sigma> f = store M f" if "f \<notin> free_frames PF_KERNEL (mm M)" for f
    using that a(5) \<sigma>(2) by blast
  ultimately show thesis using that a(2-8) by blast
qed

text \<open>The page of a program whose bit is set already: its frame, and a table where there is none.\<close>

lemma map_user_page:
  assumes inv: "mem_inv m W" and v: "v \<in> W" "v \<in> owned PF_USER m"
    and room: "free_frames PF_USER m \<noteq> {}" "free_frames PF_KERNEL m \<noteq> {}"
  obtains f m' where "get_a_page_without_opvaddrbitmap PF_USER (v * PG_SIZE) m = Inr (Some (v * PG_SIZE), m')"
    "mem_inv m' (W - {v})" "same_pages m m'" "f \<in> free_frames PF_USER m" "mapped m' v" "page_frame m' v = f"
    "\<And>w. w \<noteq> v \<Longrightarrow> mapped m w \<Longrightarrow> mapped m' w \<and> page_frame m' w = page_frame m w"
    "\<And>q. frames q m \<subseteq> frames q m'" "\<And>q. free_frames q m' \<subseteq> free_frames q m"
    "card (free_frames PF_KERNEL m) \<le> card (free_frames PF_KERNEL m') + 1"
    "card (free_frames PF_USER m) = card (free_frames PF_USER m') + 1"
    "\<And>d. d \<noteq> v div 1024 \<Longrightarrow> pde m' d = pde m d" "\<And>w. w div 1024 \<noteq> v div 1024 \<Longrightarrow> pte m' w = pte m w"
proof -
  note D = mem_invD [OF inv]
  obtain f b where p: "palloc PF_USER m = Inr (Some (f * PG_SIZE), set_pool PF_USER ((the_pool PF_USER m)\<lparr>pool_bitmap := b\<rparr>) m)"
    "f \<in> free_frames PF_USER m" "layout_ok (set_pool PF_USER ((the_pool PF_USER m)\<lparr>pool_bitmap := b\<rparr>) m)"
    "\<And>q. frames q (set_pool PF_USER ((the_pool PF_USER m)\<lparr>pool_bitmap := b\<rparr>) m) =
       (if q = PF_USER then insert f (frames PF_USER m) else frames q m)"
    "\<And>q. free_frames q (set_pool PF_USER ((the_pool PF_USER m)\<lparr>pool_bitmap := b\<rparr>) m) =
       (if q = PF_USER then free_frames PF_USER m - {f} else free_frames q m)"
    by (rule palloc_ok [OF D(1) room(1)]) (rule that)
  define m1 where "m1 = set_pool PF_USER ((the_pool PF_USER m)\<lparr>pool_bitmap := b\<rparr>) m"
  note p = p [folded m1_def]
  have t: "pde m1 = pde m" "pte m1 = pte m" and S: "same_pages m m1" by (simp_all add: m1_def same_pages_def)
  have e: "mapped m1 = mapped m" "page_frame m1 = page_frame m" "table_frame m1 = table_frame m"
    using t by (simp_all add: mapped_def page_frame_def table_frame_def fun_eq_iff)
  have inv1: "mem_inv m1 W"
    by (rule mem_inv_more_frames [OF inv p(3) S t]) (use p(4,5) in auto)
  have v1: "v \<in> owned PF_USER m1" and f1: "f \<in> frames PF_USER m1"
    using v(2) same_pagesD(1) [OF S] p(4) by simp_all
  have fresh: "f \<notin> page_frame m1 ` (all_owned m1 - W)" "\<And>d. present (pde m1 d) \<Longrightarrow> table_frame m1 d \<noteq> f"
    using unused_frame [OF inv p(2)] same_pagesD(3) [OF S] e t by simp_all
  have room1: "free_frames PF_KERNEL m1 \<noteq> {}" using room(2) p(5) by simp
  obtain m' where m': "page_table_add (v * PG_SIZE) (f * PG_SIZE) m1 = Inr m'" "mem_inv m' (W - {v})" "same_pages m1 m'"
    "page_frame m' v = f" "\<And>w. w \<noteq> v \<Longrightarrow> mapped m1 w \<Longrightarrow> page_frame m' w = page_frame m1 w"
    "\<And>q. frames q m1 \<subseteq> frames q m'" "\<And>q. free_frames q m' \<subseteq> free_frames q m1"
    "card (free_frames PF_KERNEL m1) \<le> card (free_frames PF_KERNEL m') + 1"
    "free_frames PF_USER m' = free_frames PF_USER m1" "frames PF_USER m' = frames PF_USER m1"
    "\<And>w. mapped m' w \<longleftrightarrow> w = v \<or> mapped m1 w"
    by (rule page_table_add_ok [OF inv1 v(1) v1 f1 fresh room1]) (assumption, rule that)
  have run: "get_a_page_without_opvaddrbitmap PF_USER (v * PG_SIZE) m = Inr (Some (v * PG_SIZE), m')"
    using p(1) m'(1) by (simp add: get_a_page_without_opvaddrbitmap_def m1_def)
  note K = page_table_add_keeps(2,3) [OF m'(1), unfolded entry_index]
  have cU: "card (free_frames PF_USER m) = card (free_frames PF_USER m') + 1"
    using card.remove [OF finite_frames(1) p(2)] p(5) [of PF_USER] m'(9) by simp
  have cK: "card (free_frames PF_KERNEL m) \<le> card (free_frames PF_KERNEL m') + 1" using m'(8) p(5) by simp
  have fr: "frames q m \<subseteq> frames q m'" "free_frames q m' \<subseteq> free_frames q m" for q
    using m'(6,7) [of q] p(4,5) [of q] by (auto split: if_splits)
  have "pte m' w = pte m w" if "w div 1024 \<noteq> v div 1024" for w using K(2) that t by force
  moreover have "pde m' d = pde m d" if "d \<noteq> v div 1024" for d using K(1) that t by simp
  ultimately show thesis
    using run m'(2,4,5,11) same_pages_trans [OF S m'(3)] p(2) e cU cK fr by (intro that [of m' f]) auto
qed

end
