(* ===== verification/ForkSpec.thy ===== *)
theory ForkSpec
  imports ProcessSpec
begin

text \<open>
  What \<^verbatim>\<open>fork\<close> does to memory and to the child: the child's space has a copy of every page of the
  parent's, in frames of its own, and the child resumes where the parent does, with the result 0.
\<close>

section \<open>Switching between two spaces\<close>

text \<open>The memory as a thread sees it whose directory is at \<open>phys\<close>.\<close>

definition view :: "nat \<Rightarrow> machine \<Rightarrow> mem" where
  "view phys M = mm (load_cr3 phys M)"

lemma load_cr3_simps [simp]:
  "store (load_cr3 p M) = store M" "cr3 (load_cr3 p M) = p" "pcbs (load_cr3 p M) = pcbs M"
  "running (load_cr3 p M) = running M" "pg_ptr (load_cr3 p M) = pg_ptr M" "next_pid (load_cr3 p M) = next_pid M"
  "all_threads (load_cr3 p M) = all_threads M" "third_list (load_cr3 p M) = third_list M"
  "spaces (load_cr3 p M) = (spaces M)(cr3 M := (pde (mm M), pte (mm M)))"
  by (simp_all add: load_cr3_def Let_def)

lemma view_simps [simp]:
  "the_vaddr q (view p M) = the_vaddr q (mm M)" "the_pool q (view p M) = the_pool q (mm M)"
  by (simp_all add: view_def load_cr3_def Let_def)

lemma view_same: "same_pages (mm M) (view p M)"
  by (simp add: same_pages_def view_def load_cr3_def Let_def)

lemma view_tables:
  assumes "p \<noteq> cr3 M"
  shows "pde (view p M) = fst (spaces M p)"
    "pte (view p M) = (\<lambda>v. if shared_table (v div 1024) then pte (mm M) v else snd (spaces M p) v)"
  using assms by (simp_all add: view_def load_cr3_def Let_def cong: if_cong)

lemma view_own: "view (cr3 M) M = mm M"
  by (simp add: view_def load_cr3_def Let_def cong: if_cong)

lemma view_store [simp]: "view p (M\<lparr>store := \<sigma>\<rparr>) = view p M"
  by (simp add: view_def load_cr3_def Let_def cong: if_cong)

text \<open>Working in the other space and coming back.\<close>

lemma view_round_trip:
  assumes "p \<noteq> cr3 M" and m': "\<And>v. shared_table (v div 1024) \<Longrightarrow> pte m' v = pte (view p M) v"
  shows "mm (load_cr3 (cr3 M) ((load_cr3 p M)\<lparr>mm := m', store := \<sigma>\<rparr>)) = m'\<lparr>pde := pde (mm M), pte := pte (mm M)\<rparr>"
    "view p (load_cr3 (cr3 M) ((load_cr3 p M)\<lparr>mm := m', store := \<sigma>\<rparr>)) = m'"
proof -
  have s: "pte m' v = pte (mm M) v" if "shared_table (v div 1024)" for v
    using m' [OF that] view_tables(2) [OF assms(1)] that by simp
  then have t: "(\<lambda>v. if shared_table (v div 1024) then pte m' v else pte (mm M) v) = pte (mm M)"
    "(\<lambda>v. if shared_table (v div 1024) then pte (mm M) v else pte m' v) = pte m'"
    by (auto simp: fun_eq_iff)
  let ?C = "(load_cr3 p M)\<lparr>mm := m', store := \<sigma>\<rparr>"
  have sp: "spaces ?C (cr3 M) = (pde (mm M), pte (mm M))" "cr3 ?C = p" "mm ?C = m'" by simp_all
  show "mm (load_cr3 (cr3 M) ?C) = m'\<lparr>pde := pde (mm M), pte := pte (mm M)\<rparr>"
    using assms(1) t(1) unfolding load_cr3_def [of "cr3 M"] Let_def sp by (simp add: sp cong: if_cong)
  then have m: "pte (mm (load_cr3 (cr3 M) ?C)) = pte (mm M)"
    "(mm (load_cr3 (cr3 M) ?C))\<lparr>pde := d, pte := t\<rparr> = m'\<lparr>pde := d, pte := t\<rparr>" for d t by simp_all
  have "spaces (load_cr3 (cr3 M) ?C) p = (pde m', pte m')" "cr3 (load_cr3 (cr3 M) ?C) = cr3 M" by simp_all
  then show "view p (load_cr3 (cr3 M) ?C) = m'"
    using assms(1) t(2) unfolding view_def load_cr3_def [of p "load_cr3 x y" for x y] Let_def m
    by (simp add: m cong: if_cong)
qed

section \<open>The pages copied\<close>

fun copy_pages :: "nat \<Rightarrow> nat \<Rightarrow> nat \<Rightarrow> nat list \<Rightarrow> machine \<Rightarrow> machine cres" where
  "copy_pages child parent pbuf [] M = Inr M"
| "copy_pages child parent pbuf (v # vs) M =
     andthen (copy_page child parent pbuf (v * PG_SIZE) M) (copy_pages child parent pbuf vs)"

lemma copy_pages_append:
  "copy_pages c p b (vs @ ws) = (\<lambda>M. andthen (copy_pages c p b vs M) (copy_pages c p b ws))"
  by (induction vs) (auto simp: andthen_assoc intro!: ext)

lemma bit_tested: "k < 8 \<Longrightarrow> push_bit k 1 AND (ucast (byte :: u8) :: u32) \<noteq> 0 \<longleftrightarrow> bit byte k"
  using mask_test [of "ucast byte :: u32" k] by (simp add: and.commute bit_simps)

lemma copy_bits_pages:
  assumes "\<forall>k \<in> set is. k < 8" and "vb + i * 8 + 8 \<le> 2 ^ 20"
  shows "copy_bits c p b (vb * PG_SIZE) byte i is M =
    copy_pages c p b (map (\<lambda>k. vb + (i * 8 + k)) (filter (bit byte) is)) M"
  using assms(1)
proof (induction "is" arbitrary: M)
  case (Cons k ks)
  have k: "k < 8" using Cons.prems by simp
  have "vb + (i * 8 + k) < 2 ^ 20" using assms(2) k by simp
  then have "(vb + (i * 8 + k)) * PG_SIZE < 2 ^ 32" unfolding PG_SIZE_def by simp
  moreover have "(i * 8 + k) * PG_SIZE + vb * PG_SIZE = (vb + (i * 8 + k)) * PG_SIZE"
    by (simp only: add_mult_distrib add.commute)
  ultimately have "((i * 8 + k) * PG_SIZE + vb * PG_SIZE) mod 2 ^ 32 = (vb + (i * 8 + k)) * PG_SIZE"
    by (simp only: mod_less)
  moreover have "copy_bits c p b (vb * PG_SIZE) byte i ks =
      copy_pages c p b (map (\<lambda>k. vb + (i * 8 + k)) (filter (bit byte) ks))"
  proof (rule ext)
    show "copy_bits c p b (vb * PG_SIZE) byte i ks x =
        copy_pages c p b (map (\<lambda>k. vb + (i * 8 + k)) (filter (bit byte) ks)) x" for x
      by (rule Cons.IH) (use Cons.prems in simp)
  qed
  ultimately show ?case
    unfolding copy_bits.simps bit_tested [OF k, of byte] by (cases "bit byte k") (simp_all only: if_True if_False andthen_Inr filter.simps list.map copy_pages.simps)
qed simp

lemma filter_byte:
  "filter (bit_set b) [8 * n..<8 * n + 8] = map (\<lambda>k. n * 8 + k) (filter (bit (bits b ! n)) [0..<8])"
proof -
  have "[8 * n..<8 * n + 8] = map (\<lambda>k. n * 8 + k) [0..<8]"
    using map_add_upt [of "8 * n" 8] by (simp add: add.commute mult.commute)
  moreover have "filter (\<lambda>k. bit_set b (n * 8 + k)) [0..<8] = filter (bit (bits b ! n)) [0..<8]"
    by (rule filter_cong) (simp_all add: bit_set_def)
  ultimately show ?thesis by (simp add: filter_map comp_def)
qed

lemma copy_bytes_append:
  "copy_bytes c p b st bs (xs @ ys) = (\<lambda>M. andthen (copy_bytes c p b st bs xs M) (copy_bytes c p b st bs ys))"
  by (induction xs) (auto simp: andthen_assoc intro!: ext)

lemma copy_bytes_pages:
  assumes "n \<le> length (bits bm)" and "vb + 8 * n \<le> 2 ^ 20"
  shows "copy_bytes c p b (vb * PG_SIZE) (bits bm) [0..<n] M =
    copy_pages c p b (map (\<lambda>i. vb + i) (filter (bit_set bm) [0..<8 * n])) M"
  using assms
proof (induction n)
  case (Suc n)
  have up: "[0..<8 * Suc n] = [0..<8 * n] @ [8 * n..<8 * n + 8]"
    using upt_add_eq_append [of 0 "8 * n" 8] by (simp add: add.commute)
  have "(if bits bm ! n \<noteq> 0 then copy_bits c p b (vb * PG_SIZE) (bits bm ! n) n [0..<8] M' else Inr M') =
    copy_pages c p b (map (\<lambda>i. vb + i) (filter (bit_set bm) [8 * n..<8 * n + 8])) M'" for M'
    using Suc.prems copy_bits_pages [of "[0..<8]" vb n c p b "bits bm ! n" M']
    by (simp add: filter_byte comp_def)
  then have "copy_bytes c p b (vb * PG_SIZE) (bits bm) [n] =
      copy_pages c p b (map (\<lambda>i. vb + i) (filter (bit_set bm) [8 * n..<8 * n + 8]))"
    using Suc.prems(1) by (intro ext) (simp add: rd_def andthen_def split: sum.splits)
  then show ?case
    using Suc unfolding up by (simp add: copy_bytes_append copy_pages_append)
qed simp

section \<open>One page\<close>

text \<open>The two spaces agree on the kernel's pages.\<close>

definition kernel_page_no :: "nat \<Rightarrow> bool" where
  "kernel_page_no w \<longleftrightarrow> 768 \<le> w div 1024 \<and> w div 1024 < 1023"

definition kernel_same :: "mem \<Rightarrow> mem \<Rightarrow> bool" where
  "kernel_same m0 m \<longleftrightarrow>
     (\<forall>d. 768 \<le> d \<longrightarrow> d < 1023 \<longrightarrow> present (pde m d) \<and> present (pde m0 d) \<and> frame_bits (pde m d) = frame_bits (pde m0 d)) \<and>
     (\<forall>w. kernel_page_no w \<longrightarrow> pte m w = pte m0 w)"

lemma kernel_sameD:
  assumes "kernel_same m0 m" and "kernel_page_no w"
  shows "mapped m w = mapped m0 w" "page_frame m w = page_frame m0 w"
    "addr_v2p (w * PG_SIZE) m = addr_v2p (w * PG_SIZE) m0"
proof -
  show "mapped m w = mapped m0 w" "page_frame m w = page_frame m0 w"
    using assms by (auto simp: kernel_same_def kernel_page_no_def mapped_def page_frame_def)
  show "addr_v2p (w * PG_SIZE) m = addr_v2p (w * PG_SIZE) m0"
    by (rule addr_v2p_eq) (use assms in \<open>auto simp: kernel_same_def kernel_page_no_def\<close>)
qed

lemma kernel_page_shared: "kernel_page_no w \<Longrightarrow> shared_table (w div 1024)"
  by (simp add: kernel_page_no_def shared_table_def)

lemma user_page:
  assumes "layout_ok m" and "1024 \<le> vbase PF_USER m" and "v \<in> owned PF_USER m \<union> unowned PF_USER m"
  shows "0 < v div 1024" "v div 1024 < 768" "\<not> shared_table (v div 1024)" "\<not> kernel_page_no v" "v < 0xc0000"
proof -
  show v: "v < 0xc0000" using page_range(3) [OF assms(1,3)] by simp
  show "0 < v div 1024" "v div 1024 < 768" "\<not> shared_table (v div 1024)" "\<not> kernel_page_no v"
    using page_range(4) [OF assms(1,3)] assms(2) v by (auto simp: shared_table_def kernel_page_no_def)
qed

lemma owned_kernel_page_no:
  assumes "layout_ok m" and "v \<in> owned PF_KERNEL m \<union> unowned PF_KERNEL m"
  shows "kernel_page_no v"
  using kernel_page(3,4) [OF assms] by (simp add: kernel_page_no_def)

text \<open>A process to copy and the one it is copied to: the directories, the buffer page \<open>B\<close>.\<close>

definition fork_setting :: "nat \<Rightarrow> nat \<Rightarrow> nat \<Rightarrow> nat \<Rightarrow> machine \<Rightarrow> bool" where
  "fork_setting child parent B pc M \<longleftrightarrow>
     mem_inv (mm M) {} \<and> kernel_tables (mm M) \<and> 1024 \<le> vbase PF_USER (mm M) \<and> B \<in> owned PF_KERNEL (mm M) \<and> pc \<noteq> cr3 M \<and>
     (\<exists>D. pgdir (pcbs M child) = D * PG_SIZE \<and> 0 < D \<and> kernel_page_no D \<and> addr_v2p (D * PG_SIZE) (mm M) = Inr pc) \<and>
     (\<exists>D. pgdir (pcbs M parent) = D * PG_SIZE \<and> 0 < D \<and> kernel_page_no D \<and> addr_v2p (D * PG_SIZE) (mm M) = Inr (cr3 M))"

lemma switch_space:
  assumes "pgdir (pcbs X t) = D * PG_SIZE" and "0 < D" and "addr_v2p (D * PG_SIZE) (mm X) = Inr ph"
  shows "page_dir_activate t X = Inr (load_cr3 ph X)"
  using assms by (simp add: page_dir_activate_def PG_SIZE_def)

definition same_threads :: "machine \<Rightarrow> machine \<Rightarrow> bool" where
  "same_threads M0 M \<longleftrightarrow> cr3 M = cr3 M0 \<and> pg_ptr M = pg_ptr M0 \<and> pcbs M = pcbs M0 \<and> running M = running M0 \<and>
     next_pid M = next_pid M0 \<and> all_threads M = all_threads M0 \<and> second_list M = second_list M0 \<and>
     third_list M = third_list M0 \<and> the_tss M = the_tss M0 \<and> interrupts M = interrupts M0"

lemma same_threads_refl [simp]: "same_threads M M"
  by (simp add: same_threads_def)

text \<open>The state after the pages \<open>don\<close> are copied.\<close>

definition copied :: "machine \<Rightarrow> nat \<Rightarrow> nat \<Rightarrow> nat set \<Rightarrow> machine \<Rightarrow> bool" where
  "copied M0 B pc don M \<longleftrightarrow>
     same_threads M0 M \<and>
     same_pages (mm M0) (mm M) \<and> pde (mm M) = pde (mm M0) \<and> pte (mm M) = pte (mm M0) \<and> mem_inv (mm M) {} \<and>
     mem_inv (view pc M) (owned PF_USER (mm M0) - don) \<and> kernel_same (mm M0) (view pc M) \<and>
     (\<forall>f. f \<notin> free_frames PF_USER (mm M0) \<longrightarrow> f \<noteq> page_frame (mm M0) B \<longrightarrow> store M f = store M0 f) \<and>
     (\<forall>v \<in> don. store M (page_frame (view pc M) v) = store M0 (page_frame (mm M0) v) \<and>
        page_frame (view pc M) v \<in> free_frames PF_USER (mm M0)) \<and>
     (\<forall>q. free_frames q (mm M) \<subseteq> free_frames q (mm M0))"

lemma view_frames [simp]: "frames q (view p M) = frames q (mm M)" "free_frames q (view p M) = free_frames q (mm M)"
  using frames_cong [of "view p M" "mm M"] by simp_all

lemma copy_page_ok:
  assumes set: "fork_setting child parent B pc M0" and at: "copied M0 B pc don M"
    and v: "v \<in> owned PF_USER (mm M0) - don" and don: "don \<subseteq> owned PF_USER (mm M0)"
    and room: "free_frames PF_USER (mm M) \<noteq> {}" "free_frames PF_KERNEL (mm M) \<noteq> {}"
  obtains M' where "copy_page child parent (B * PG_SIZE) (v * PG_SIZE) M = Inr M'" "copied M0 B pc (insert v don) M'"
    "card (free_frames PF_KERNEL (mm M)) \<le> card (free_frames PF_KERNEL (mm M')) + 1"
    "card (free_frames PF_USER (mm M)) = card (free_frames PF_USER (mm M')) + 1"
proof -
  let ?W = "owned PF_USER (mm M0) - don" and ?m0 = "mm M0" and ?c = "view pc M"
  have A: "same_threads M0 M" "same_pages ?m0 (mm M)"
    "pde (mm M) = pde ?m0" "pte (mm M) = pte ?m0" "mem_inv (mm M) {}" "mem_inv ?c ?W" "kernel_same ?m0 ?c"
    and st: "\<And>f. f \<notin> free_frames PF_USER ?m0 \<Longrightarrow> f \<noteq> page_frame ?m0 B \<Longrightarrow> store M f = store M0 f"
    and dn: "\<And>v. v \<in> don \<Longrightarrow> store M (page_frame ?c v) = store M0 (page_frame ?m0 v) \<and> page_frame ?c v \<in> free_frames PF_USER ?m0"
    and fr: "\<And>q. free_frames q (mm M) \<subseteq> free_frames q ?m0"
    using at unfolding copied_def by blast+
  have E: "mapped (mm M) = mapped ?m0" "page_frame (mm M) = page_frame ?m0"
    using A(3,4) by (simp_all add: mapped_def page_frame_def fun_eq_iff)
  have inv0: "mem_inv ?m0 {}" and tabs: "kernel_tables ?m0" and low: "1024 \<le> vbase PF_USER ?m0"
    and B: "B \<in> owned PF_KERNEL ?m0" and pc: "pc \<noteq> cr3 M0"
    using set unfolding fork_setting_def by blast+
  note D0 = mem_invD [OF inv0] and Dc = mem_invD [OF A(6)]
  obtain Dc Dp where dirs: "pgdir (pcbs M0 child) = Dc * PG_SIZE" "0 < Dc" "kernel_page_no Dc" "addr_v2p (Dc * PG_SIZE) ?m0 = Inr pc"
    "pgdir (pcbs M0 parent) = Dp * PG_SIZE" "0 < Dp" "kernel_page_no Dp" "addr_v2p (Dp * PG_SIZE) ?m0 = Inr (cr3 M0)"
    using set unfolding fork_setting_def by blast
  have M: "cr3 M = cr3 M0" "pcbs M = pcbs M0" using A(1) by (simp_all add: same_threads_def)
  have vo: "v \<in> owned PF_USER ?m0" and vW: "v \<in> ?W" and vc: "v \<in> owned PF_USER ?c"
    using v same_pagesD(1) [OF A(2)] same_pagesD(1) [OF view_same [of M pc]] by simp_all
  note up = user_page [OF D0(1) low, of v]
  have vB: "v \<noteq> B" using owned_disjoint [OF D0(1), of v PF_USER PF_KERNEL] vo B by blast
  have kB: "kernel_page_no B" using owned_kernel_page_no [OF D0(1)] B by blast
  let ?b = "page_frame ?m0 B" and ?bs = "store M0 (page_frame ?m0 v)"
  have mv: "mapped (mm M) v" "mapped (mm M) B" using D0(3) [OF vo] D0(3) [OF B] E by simp_all
  have nb: "page_frame ?m0 v \<noteq> ?b" using inj_onD [OF D0(6), of v B] vo B vB by (auto simp: all_owned_def)
  have "page_frame ?m0 v \<notin> free_frames PF_USER ?m0" using D0(3) [OF vo] frames_disjoint [of PF_USER ?m0] by auto
  then have bs: "store M (page_frame ?m0 v) = ?bs" using st nb by blast
  define M1 where "M1 = M\<lparr>store := (store M)(?b := ?bs)\<rparr>"
  have c1: "view pc M1 = ?c" "cr3 M1 = cr3 M0" "pcbs M1 = pcbs M0" "mm M1 = mm M"
    using M by (simp_all add: M1_def)
  have s1: "load_page v M = Inr ?bs" "store_page B ?bs M = Inr M1"
    using mv bs E by (simp_all add: load_page_def store_page_def M1_def)
  have "addr_v2p (Dc * PG_SIZE) (mm M1) = Inr pc" using dirs(4) unfolding addr_v2p_def c1 A(3,4) .
  then have s2: "page_dir_activate child M1 = Inr (load_cr3 pc M1)" using dirs(1,2) c1 by (intro switch_space) simp_all
  have mc: "mm (load_cr3 pc M1) = ?c" using c1(1) by (simp add: view_def)
  have roomc: "free_frames PF_USER ?c \<noteq> {}" "free_frames PF_KERNEL ?c \<noteq> {}" using room by simp_all
  obtain f m' where m': "get_a_page_without_opvaddrbitmap PF_USER (v * PG_SIZE) ?c = Inr (Some (v * PG_SIZE), m')"
    "mem_inv m' (?W - {v})" "same_pages ?c m'" "f \<in> free_frames PF_USER ?c" "mapped m' v" "page_frame m' v = f"
    "\<And>w. w \<noteq> v \<Longrightarrow> mapped ?c w \<Longrightarrow> mapped m' w \<and> page_frame m' w = page_frame ?c w"
    "\<And>q. frames q ?c \<subseteq> frames q m'" "\<And>q. free_frames q m' \<subseteq> free_frames q ?c"
    "card (free_frames PF_KERNEL ?c) \<le> card (free_frames PF_KERNEL m') + 1"
    "card (free_frames PF_USER ?c) = card (free_frames PF_USER m') + 1"
    "\<And>d. d \<noteq> v div 1024 \<Longrightarrow> pde m' d = pde ?c d" "\<And>w. w div 1024 \<noteq> v div 1024 \<Longrightarrow> pte m' w = pte ?c w"
    by (rule map_user_page [OF A(6) vW vc roomc]) (rule that)
  have ks: "kernel_same ?m0 m'"
  proof -
    have "pde m' d = pde ?c d" if "768 \<le> d" for d using m'(12) up(2) vo that by simp
    moreover have "pte m' w = pte ?c w" if "kernel_page_no w" for w
      using m'(13) up(2) vo that by (simp add: kernel_page_no_def)
    ultimately show ?thesis using A(7) by (simp add: kernel_same_def)
  qed
  have mB: "mapped m' B" "page_frame m' B = ?b" "page_frame ?c B = ?b" "mapped ?c B"
    using kernel_sameD(1,2) [OF ks kB] kernel_sameD(1,2) [OF A(7) kB] mv(2) E by simp_all
  define \<sigma> where "\<sigma> = ((store M)(?b := ?bs))(f := ?bs)"
  define M3 where "M3 = (load_cr3 pc M1)\<lparr>mm := m', store := \<sigma>\<rparr>"
  have s3: "load_page B ((load_cr3 pc M1)\<lparr>mm := m'\<rparr>) = Inr ?bs"
    using mB by (simp add: load_page_def M1_def)
  have s4: "store_page v ?bs ((load_cr3 pc M1)\<lparr>mm := m'\<rparr>) = Inr M3"
    using m'(5,6) by (simp add: store_page_def M3_def M1_def \<sigma>_def)
  have "addr_v2p (Dp * PG_SIZE) (mm M3) = Inr (cr3 M1)"
    using kernel_sameD(3) [OF ks dirs(7)] dirs(8) c1 by (simp add: M3_def)
  then have s5: "page_dir_activate parent M3 = Inr (load_cr3 (cr3 M1) M3)"
    using dirs(5,6) c1 by (intro switch_space) (simp_all add: M3_def)
  define M' where "M' = load_cr3 (cr3 M1) M3"
  have sh: "pte m' w = pte (view pc M1) w" if "shared_table (w div 1024)" for w
    using that m'(13) up(3) vo c1(1) by (metis UnI1)
  have pc1: "pc \<noteq> cr3 M1" using pc c1 by simp
  have mm': "mm M' = m'\<lparr>pde := pde (mm M), pte := pte (mm M)\<rparr>" "view pc M' = m'"
    using view_round_trip [OF pc1 sh, of \<sigma>] c1(4) by (simp_all add: M'_def M3_def)
  have div: "v * PG_SIZE div PG_SIZE = v" "B * PG_SIZE div PG_SIZE = B" by (simp_all add: PG_SIZE_def)
  have run: "copy_page child parent (B * PG_SIZE) (v * PG_SIZE) M = Inr M'"
    unfolding copy_page_def div by (simp add: s1 s2 mc m'(1) s3 s4 s5 M'_def Let_def)
  have fr': "frames q (mm M') = frames q m'" "free_frames q (mm M') = free_frames q m'" for q
    using frames_cong [of "mm M'" m'] by (simp_all add: mm')
  have S': "same_pages (mm M) (mm M')"
    using same_pages_trans [OF view_same m'(3)] by (simp add: same_pages_def mm')
  have inv': "mem_inv (mm M') {}"
  proof (rule mem_inv_more_frames [OF A(5) _ S'])
    show "layout_ok (mm M')" by (rule layout_cong [OF _ _ mem_invD(1) [OF m'(2)]]) (simp_all add: mm')
    show "frames q (mm M) \<subseteq> frames q (mm M')" "free_frames q (mm M') \<subseteq> free_frames q (mm M)" for q
      using m'(8,9) [of q] fr' by simp_all
  qed (simp_all add: mm')
  have st': "store M' = \<sigma>" by (simp add: M'_def M3_def)
  have f0: "f \<in> free_frames PF_USER ?m0" using m'(4) fr by auto
  have old: "store M' (page_frame m' w) = store M0 (page_frame ?m0 w) \<and> page_frame m' w \<in> free_frames PF_USER ?m0"
    if w: "w \<in> don" for w
  proof -
    have oc: "w \<in> owned PF_USER ?c" "w \<notin> ?W" "B \<in> owned PF_KERNEL ?c" "B \<notin> ?W" "w \<noteq> v" "w \<noteq> B"
      using w don v B same_pagesD(1) [OF A(2)] same_pagesD(1) [OF view_same [of M pc]]
        owned_disjoint [OF D0(1), of w PF_USER PF_KERNEL] owned_disjoint [OF D0(1), of B PF_USER PF_KERNEL] by auto
    have e: "page_frame m' w = page_frame ?c w" using m'(7) [OF oc(5)] Dc(3) [OF oc(1,2)] by simp
    have "page_frame ?c w \<noteq> ?b"
      using inj_onD [OF Dc(6), of w B] oc mB(3) by (auto simp: all_owned_def)
    moreover have "page_frame ?c w \<noteq> f"
      using unused_frame(1) [OF A(6) m'(4)] oc(1,2) by (auto simp: all_owned_def)
    ultimately show ?thesis using dn [OF w] e by (simp add: st' \<sigma>_def)
  qed
  have same: "same_threads M0 M'" using A(1) by (simp add: same_threads_def M'_def M3_def M1_def load_cr3_def Let_def)
  have W': "?W - {v} = owned PF_USER ?m0 - insert v don" by auto
  have "copied M0 B pc (insert v don) M'"
    unfolding copied_def
  proof (intro conjI)
    show "same_pages ?m0 (mm M')" by (rule same_pages_trans [OF A(2) S'])
    show "pde (mm M') = pde ?m0" "pte (mm M') = pte ?m0" using A(3,4) by (simp_all add: mm')
    show "mem_inv (view pc M') (owned PF_USER ?m0 - insert v don)" using m'(2) by (simp add: mm' W')
    show "kernel_same ?m0 (view pc M')" using ks by (simp add: mm')
    show "\<forall>q. free_frames q (mm M') \<subseteq> free_frames q ?m0" using m'(9) fr fr' by fastforce
    show "\<forall>g. g \<notin> free_frames PF_USER ?m0 \<longrightarrow> g \<noteq> ?b \<longrightarrow> store M' g = store M0 g"
      using st f0 by (auto simp: st' \<sigma>_def)
    show "\<forall>w \<in> insert v don. store M' (page_frame (view pc M') w) = store M0 (page_frame ?m0 w) \<and>
        page_frame (view pc M') w \<in> free_frames PF_USER ?m0"
      using old f0 m'(6) by (simp add: mm' st' \<sigma>_def)
  qed (fact same inv')+
  then show thesis using that [OF run] m'(10,11) fr' by simp
qed

lemma copy_pages_ok:
  assumes set: "fork_setting child parent B pc M0" and "copied M0 B pc don M"
    and "distinct vs" and "set vs \<subseteq> owned PF_USER (mm M0) - don" and "don \<subseteq> owned PF_USER (mm M0)"
    and "length vs \<le> card (free_frames PF_USER (mm M))" "length vs \<le> card (free_frames PF_KERNEL (mm M))"
  shows "\<exists>M'. copy_pages child parent (B * PG_SIZE) vs M = Inr M' \<and> copied M0 B pc (don \<union> set vs) M'"
  using assms(2-)
proof (induction vs arbitrary: don M)
  case (Cons v vs)
  have v: "v \<in> owned PF_USER (mm M0) - don" using Cons.prems by simp
  have room: "free_frames PF_USER (mm M) \<noteq> {}" "free_frames PF_KERNEL (mm M) \<noteq> {}" using Cons.prems(5,6) by auto
  obtain M1 where M1: "copy_page child parent (B * PG_SIZE) (v * PG_SIZE) M = Inr M1" "copied M0 B pc (insert v don) M1"
    "card (free_frames PF_KERNEL (mm M)) \<le> card (free_frames PF_KERNEL (mm M1)) + 1"
    "card (free_frames PF_USER (mm M)) = card (free_frames PF_USER (mm M1)) + 1"
    by (rule copy_page_ok [OF set Cons.prems(1) v Cons.prems(4) room]) (rule that)
  have "\<exists>M'. copy_pages child parent (B * PG_SIZE) vs M1 = Inr M' \<and> copied M0 B pc (insert v don \<union> set vs) M'"
    by (rule Cons.IH [OF M1(2)]) (use Cons.prems M1(3,4) in auto)
  then show ?case using M1(1) by simp
qed simp

section \<open>The space of the child before the first page\<close>

lemma frame_bits_self:
  assumes "f < 2 ^ 20"
  shows "frame_no (of_nat (f * PG_SIZE) OR PG_US_U OR PG_RW_W OR PG_P_1) = f"
    "present (of_nat (f * PG_SIZE) OR PG_US_U OR PG_RW_W OR PG_P_1)"
  using frame_no_entry [OF assms] present_entry [of "f * PG_SIZE"] by (simp_all only: entry_def)

text \<open>\<open>m\<close> is the memory the directory was made in, \<open>f\<close> its frame, \<open>M\<close> the state when copying starts.\<close>

lemma child_space:
  assumes inv: "mem_inv (mm M) {}" and tabs: "kernel_tables m" and gr: "grown m (mm M)" and low: "1024 \<le> vbase PF_USER (mm M)"
    and f: "0 < f" "f < 2 ^ 20" "f \<notin> page_frame (mm M) ` owned PF_KERNEL (mm M)" "\<And>q. f \<notin> free_frames q (mm M)"
    and pc: "pc \<noteq> cr3 M"
    and sp: "spaces M pc = (\<lambda>d. if d = 1023 then of_nat (f * PG_SIZE) OR PG_US_U OR PG_RW_W OR PG_P_1
        else if d = 0 \<or> 0x300 \<le> d then pde m d else 0, \<lambda>v. 0)"
  shows "mem_inv (view pc M) (owned PF_USER (mm M))" "kernel_same (mm M) (view pc M)"
proof -
  let ?c = "view pc M" and ?m = "mm M"
  note D = mem_invD [OF inv]
  have pd: "pde ?c = (\<lambda>d. if d = 1023 then of_nat (f * PG_SIZE) OR PG_US_U OR PG_RW_W OR PG_P_1
        else if d = 0 \<or> 0x300 \<le> d then pde m d else 0)"
    and pt: "pte ?c = (\<lambda>v. if shared_table (v div 1024) then pte ?m v else 0)"
    unfolding view_tables [OF pc] sp by (simp_all cong: if_cong)
  have ks: "present (pde ?c d) \<and> present (pde ?m d) \<and> frame_bits (pde ?c d) = frame_bits (pde ?m d)"
    if "768 \<le> d" "d < 1023" for d
  proof -
    have "present (pde m d)" using tabs that by (simp add: kernel_tables_def)
    then show ?thesis using that grown_pde [OF gr] by (simp add: pd)
  qed
  show same: "kernel_same ?m ?c"
    using ks kernel_page_shared by (simp add: kernel_same_def pt)
  have K: "mapped ?c w = mapped ?m w" "page_frame ?c w = page_frame ?m w" if "w \<in> owned PF_KERNEL ?m \<union> unowned PF_KERNEL ?m" for w
    using kernel_sameD [OF same owned_kernel_page_no [OF D(1) that]] by simp_all
  have U: "\<not> mapped ?c w" if "w \<in> owned PF_USER ?m \<union> unowned PF_USER ?m" for w
    using user_page(1,2) [OF D(1) low that] by (simp add: mapped_def pd)
  have ow: "owned q ?c = owned q ?m" "unowned q ?c = unowned q ?m" "all_owned ?c = all_owned ?m" for q
    using same_pagesD [OF view_same] by simp_all
  have diff: "all_owned ?m - owned PF_USER ?m = owned PF_KERNEL ?m"
    using owned_disjoint [OF D(1)] unfolding all_owned_def by blast
  have img: "page_frame ?c ` owned PF_KERNEL ?m = page_frame ?m ` owned PF_KERNEL ?m"
    using K(2) by (intro image_cong) auto
  have inj: "inj_on (page_frame ?c) (owned PF_KERNEL ?m)"
    using D(6) K(2) by (auto simp: inj_on_def all_owned_def)
  have tab: "0 < table_frame ?c d \<and> table_frame ?c d \<notin> page_frame ?m ` owned PF_KERNEL ?m \<and>
      (\<forall>q. table_frame ?c d \<notin> free_frames q ?m)" if p: "present (pde ?c d)" for d
  proof (cases "d = 1023")
    case True
    then have "table_frame ?c d = f" using frame_bits_self(1) [OF f(2)] by (simp add: table_frame_def pd)
    then show ?thesis using f(1,3,4) by simp
  next
    case False
    then have d: "present (pde m d)" using p by (auto simp: pd split: if_splits)
    have c: "pde ?c d = pde m d" using p False by (auto simp: pd split: if_splits)
    have "table_frame ?c d = table_frame ?m d" using grown_pde(2) [OF gr d] c by (simp add: table_frame_def frame_no_def)
    then show ?thesis using D(7,8,9) [OF grown_pde(1) [OF gr d]] by (auto simp: all_owned_def)
  qed
  have lay: "layout_ok ?c" by (rule layout_cong [OF _ _ D(1)]) simp_all
  have own: "\<forall>q. \<forall>v \<in> owned q ?m - owned PF_USER ?m. mapped ?c v \<and> page_frame ?c v \<in> frames q ?m"
  proof (intro allI ballI)
    fix q v assume v: "v \<in> owned q ?m - owned PF_USER ?m"
    then have "q = PF_KERNEL" by (cases q) auto
    then show "mapped ?c v \<and> page_frame ?c v \<in> frames q ?m" using v D(3) [of v PF_KERNEL] K [of v] by simp
  qed
  have un: "\<forall>q. \<forall>v \<in> unowned q ?m \<union> owned PF_USER ?m. \<not> mapped ?c v"
  proof (intro allI ballI)
    fix q v assume v: "v \<in> unowned q ?m \<union> owned PF_USER ?m"
    show "\<not> mapped ?c v"
    proof (cases "v \<in> owned PF_USER ?m \<or> q = PF_USER")
      case True then show ?thesis using U v by blast
    next
      case False
      then have "v \<in> unowned PF_KERNEL ?m" using v by (cases q) auto
      then show ?thesis using D(4) [of v PF_KERNEL] K(1) [of v] by simp
    qed
  qed
  show "mem_inv ?c (owned PF_USER ?m)"
    unfolding mem_inv_def ow diff view_frames img
    by (intro conjI lay own un inj) (simp_all add: all_owned_def tab)
qed

end
