(* ===== verification/ForkMain.thy ===== *)
theory ForkMain
  imports ForkSpec
begin

text \<open>The run of \<^verbatim>\<open>sys_fork\<close>, step by step, and the two theorems about it.\<close>

section \<open>When a fork succeeds\<close>

definition bitmap_pages :: "mem \<Rightarrow> nat" where
  "bitmap_pages m = DIV_ROUND_UP (btmp_bytes_len (vaddr_bitmap (userprog_vaddr m))) PG_SIZE"

definition next_dir :: "machine \<Rightarrow> nat" where
  "next_dir M = pg_ptr M div PG_SIZE"

text \<open>The running process has a directory of its own and a name of at most 15 bytes; the page the next
  directory goes to is free, behind the kernel's bitmap of pages; there are enough pages and
  frames; the queues do not name a page nobody has.\<close>

definition fork_ready :: "machine \<Rightarrow> bool" where
  "fork_ready M \<longleftrightarrow>
     mem_inv (mm M) {} \<and> kernel_tables (mm M) \<and> 1024 \<le> vbase PF_USER (mm M) \<and>
     (\<exists>D. pgdir (pcbs M (running M)) = D * PG_SIZE \<and> kernel_page_no D \<and> mapped (mm M) D \<and>
        addr_v2p (D * PG_SIZE) (mm M) = Inr (cr3 M)) \<and>
     (\<forall>q. cr3 M div PG_SIZE \<notin> free_frames q (mm M)) \<and>
     pg_ptr M = next_dir M * PG_SIZE \<and> vbase PF_KERNEL (mm M) < next_dir M \<and> next_dir M < 2 ^ 20 - 1024 \<and>
     vbase PF_KERNEL (mm M) + nbits (vaddr_bitmap (the_vaddr PF_KERNEL (mm M))) \<le> next_dir M \<and>
     (next_dir M - vbase PF_KERNEL (mm M)) div 8 < length (bits (vaddr_bitmap (the_vaddr PF_KERNEL (mm M)))) \<and>
     \<not> mapped (mm M) (next_dir M) \<and>
     0 < btmp_bytes_len (vaddr_bitmap (userprog_vaddr (mm M))) \<and>
     (\<exists>st. {st..<st + 2 * (bitmap_pages (mm M) + 1)} \<subseteq> unowned PF_KERNEL (mm M)) \<and>
     2 * bitmap_pages (mm M) + 4 + card (owned PF_USER (mm M)) \<le> card (free_frames PF_KERNEL (mm M)) \<and>
     card (owned PF_USER (mm M)) \<le> card (free_frames PF_USER (mm M)) \<and>
     length (pcb_name (pcbs M (running M))) = 16 \<and> 0 \<in> set (pcb_name (pcbs M (running M))) \<and>
     (\<forall>t \<in> insert (running M) (set (third_list M) \<union> set (all_threads M)). t div PG_SIZE \<notin> unowned PF_KERNEL (mm M))"

section \<open>Room for the pages\<close>

lemma owned_unowned_kernel:
  "owned pf m \<union> unowned pf m = (\<lambda>i. vbase pf m + i) ` {0..<nbits (vaddr_bitmap (the_vaddr pf m))}"
proof -
  let ?b = "vaddr_bitmap (the_vaddr pf m)"
  have "allocated ?b \<union> ({0..<nbits ?b} - allocated ?b) = {0..<nbits ?b}" by (auto simp: allocated_def)
  then show ?thesis unfolding owned_def unowned_def image_Un [symmetric] by simp
qed

lemma grown_unowned:
  assumes "grown m m'"
  shows "unowned PF_KERNEL m' = owned PF_KERNEL m \<union> unowned PF_KERNEL m - owned PF_KERNEL m'"
proof -
  have "owned PF_KERNEL m' \<union> unowned PF_KERNEL m' = owned PF_KERNEL m \<union> unowned PF_KERNEL m"
    using assms unfolding owned_unowned_kernel by (simp add: grown_def same_user_def)
  moreover have "owned PF_KERNEL m' \<inter> unowned PF_KERNEL m' = {}"
    by (auto simp: owned_def unowned_def)
  ultimately show ?thesis by blast
qed

lemma grown_layout:
  assumes "grown m m'"
  shows "vbase PF_KERNEL m' = vbase PF_KERNEL m" "vbase PF_USER m' = vbase PF_USER m"
    "nbits (vaddr_bitmap (the_vaddr PF_KERNEL m')) = nbits (vaddr_bitmap (the_vaddr PF_KERNEL m))"
    "length (bits (vaddr_bitmap (the_vaddr PF_KERNEL m'))) = length (bits (vaddr_bitmap (the_vaddr PF_KERNEL m)))"
    "userprog_vaddr m' = userprog_vaddr m" "u_block_desc m' = u_block_desc m"
  using assms by (auto simp: grown_def same_user_def vbase_def the_vaddr_def)

lemma run_without_page:
  assumes "{st..<st + 2 * k} \<subseteq> S"
  obtains st' where "{st'..<st' + k} \<subseteq> S - {a :: nat}"
proof (cases "a < st + k")
  case True
  then have "{st + k..<st + k + k} \<subseteq> S - {a}" using assms by auto
  then show ?thesis using that by blast
next
  case False
  then have "{st..<st + k} \<subseteq> S - {a}" using assms by auto
  then show ?thesis using that by blast
qed

lemma page_left:
  assumes "{st..<st + (n + 1)} \<subseteq> S"
  obtains x where "x \<in> S - {a..<a + n :: nat}"
proof (cases "{st..<st + (n + 1)} \<subseteq> {a..<a + n}")
  case True
  have "n + 1 \<le> n" using card_mono [OF _ True] by simp
  then show ?thesis by simp
next
  case False
  then show ?thesis using assms that by blast
qed

lemma kernel_page_free:
  assumes "kernel_pages n M = Inr (Some (a * PG_SIZE), M')" and "grown (mm M) (mm M')"
    and "owned PF_KERNEL (mm M') = owned PF_KERNEL (mm M) \<union> {a..<a + n}"
  shows "unowned PF_KERNEL (mm M') = unowned PF_KERNEL (mm M) - {a..<a + n}"
proof -
  have "owned PF_KERNEL (mm M) \<inter> unowned PF_KERNEL (mm M) = {}" by (auto simp: owned_def unowned_def)
  then show ?thesis using grown_unowned [OF assms(2)] assms(3) by blast
qed

section \<open>The child's control block and bitmap\<close>

lemma fork_name_ok:
  assumes "length (pcb_name t) = 16" and "0 \<in> set (pcb_name t)"
  obtains nm pd where "fork_name t = Inr (t\<lparr>pcb_name := nm, pgdir := pd\<rparr>)" "length nm = 16"
proof -
  let ?src = "pcb_name t @ le_bytes (pgdir t)" and ?n = "takeWhile (\<lambda>c. c \<noteq> 0) (pcb_name t)"
  have tw: "takeWhile (\<lambda>c. c \<noteq> 0) ?src = ?n"
    using assms(2) by (simp add: takeWhile_append1)
  have "?n \<noteq> pcb_name t" using assms(2) by (metis (mono_tags, lifting) set_takeWhileD)
  then have "length ?n < 16" using assms(1) length_takeWhile_le [of _ "pcb_name t"]
    by (metis le_neq_implies_less takeWhile_eq_take take_all order_refl)
  then have l: "length ([102, 95] @ ?n @ [0]) \<le> 19" by simp
  then obtain bs where bs: "put_at ?src 0 ([102, 95] @ ?n @ [0]) = Inr bs" "length bs = 20"
    using assms(1) by (simp add: put_at_def)
  have "fork_name t = Inr (t\<lparr>pcb_name := take 16 bs, pgdir := hd (words_of (drop 16 bs))\<rparr>)"
    using bs l assms(2) by (simp add: fork_name_def tw Let_def)
  then show thesis using that bs(2) by simp
qed

text \<open>What the copied control block is, with a name and a word of \<^verbatim>\<open>pgdir\<close> that is replaced.\<close>

definition child_pcb :: "pcb \<Rightarrow> int \<Rightarrow> mem \<Rightarrow> u8 list \<Rightarrow> nat \<Rightarrow> bitmap \<Rightarrow> pcb" where
  "child_pcb t n m nm pd b = t\<lparr>pid := n, parent_pid := pid t, priority := THIRD_PRIO, ticks := THIRD_TICKS,
     tags_null := True, pcb_blocks := u_block_desc m, pcb_name := nm, pgdir := pd,
     pcb_vaddr := \<lparr>vaddr_bitmap = b, vaddr_start = vaddr_start (userprog_vaddr m)\<rparr>\<rparr>"

lemma child_pcb_dir: "(child_pcb t n m nm pd b)\<lparr>pgdir := d\<rparr> = child_pcb t n m nm d b"
  by (rule pcb.equality) (simp_all add: child_pcb_def)

definition same_bits :: "bitmap \<Rightarrow> bitmap \<Rightarrow> bool" where
  "same_bits b b' \<longleftrightarrow> btmp_bytes_len b' = btmp_bytes_len b \<and>
     take (btmp_bytes_len b) (bits b') = take (btmp_bytes_len b) (bits b)"

lemma round_up_covers: "n \<le> DIV_ROUND_UP n PG_SIZE * PG_SIZE"
proof -
  have "n + PG_SIZE - 1 < (DIV_ROUND_UP n PG_SIZE + 1) * PG_SIZE"
    using mod_less_divisor [of PG_SIZE "n + PG_SIZE - 1"] div_mult_mod_eq [of "n + PG_SIZE - 1" PG_SIZE]
    unfolding DIV_ROUND_UP_def by (simp add: PG_SIZE_def)
  then show ?thesis by (simp add: PG_SIZE_def)
qed

lemma copy_pcb_ok:
  assumes inv: "mem_inv (mm M) {}" and tabs: "kernel_tables (mm M)" and ne: "child \<noteq> parent"
    and len: "0 < btmp_bytes_len (vaddr_bitmap (userprog_vaddr (mm M)))"
    and run: "{st..<st + bitmap_pages (mm M)} \<subseteq> unowned PF_KERNEL (mm M)"
    and room: "2 * bitmap_pages (mm M) \<le> card (free_frames PF_KERNEL (mm M))"
    and name: "length (pcb_name (pcbs M parent)) = 16" "0 \<in> set (pcb_name (pcbs M parent))"
  obtains a m' \<sigma> nm pd b where
    "copy_pcb_stack0_and_vaddrBitmap child parent M =
       Inr (M\<lparr>mm := m', store := \<sigma>, next_pid := next_of (next_pid M),
         pcbs := (pcbs M)(child := child_pcb (pcbs M parent) (next_of (next_pid M)) (mm M) nm pd b)\<rparr>)"
    "mem_inv m' {}" "grown (mm M) m'" "same_bits (vaddr_bitmap (userprog_vaddr (mm M))) b"
    "unowned PF_KERNEL m' = unowned PF_KERNEL (mm M) - {a..<a + bitmap_pages (mm M)}"
    "card (free_frames PF_KERNEL (mm M)) = card (free_frames PF_KERNEL m') + bitmap_pages (mm M)"
    "\<And>f. f \<notin> free_frames PF_KERNEL (mm M) \<Longrightarrow> \<sigma> f = store M f"
    "\<And>w. w \<notin> unowned PF_KERNEL (mm M) \<Longrightarrow> 768 \<le> w div 1024 \<Longrightarrow> w div 1024 < 1024 \<Longrightarrow> mapped m' w = mapped (mm M) w"
proof -
  let ?va = "userprog_vaddr (mm M)" and ?t = "pcbs M parent" and ?k = "bitmap_pages (mm M)"
  let ?len = "btmp_bytes_len (vaddr_bitmap ?va)" and ?n = "next_of (next_pid M)"
  have k: "?len \<le> ?k * PG_SIZE" unfolding bitmap_pages_def by (rule round_up_covers)
  then have k0: "0 < ?k" using len by (cases "?k") simp_all
  have len': "?len \<le> length (bits (vaddr_bitmap ?va))"
    using mem_invD(1) [OF inv] by (simp add: layout_ok_def bitmap_guarded_def the_vaddr_def split: pool_flags.splits)
      (metis less_imp_le pool_flags.distinct(1))
  define t where "t = ?t\<lparr>pid := ?n, parent_pid := pid ?t, priority := THIRD_PRIO, ticks := THIRD_TICKS,
    tags_null := True, pcb_blocks := u_block_desc (mm M)\<rparr>"
  define M1 where "M1 = upd_pcb child (\<lambda>_. t) (M\<lparr>next_pid := ?n\<rparr>)"
  have mm1: "mm M1 = mm M" "store M1 = store M" by (simp_all add: M1_def upd_pcb_def)
  obtain a m' \<sigma> where a: "kernel_pages ?k M1 = Inr (Some (a * PG_SIZE), M1\<lparr>mm := m', store := \<sigma>\<rparr>)" "mem_inv m' {}"
    "owned PF_KERNEL m' = owned PF_KERNEL (mm M) \<union> {a..<a + ?k}" "grown (mm M) m'"
    "card (free_frames PF_KERNEL (mm M)) = card (free_frames PF_KERNEL m') + ?k"
    "\<And>f. f \<notin> free_frames PF_KERNEL (mm M) \<Longrightarrow> \<sigma> f = store M f"
    "\<And>w. w \<notin> unowned PF_KERNEL (mm M) \<Longrightarrow> 768 \<le> w div 1024 \<Longrightarrow> w div 1024 < 1024 \<Longrightarrow> mapped m' w = mapped (mm M) w"
    by (rule kernel_pages_ok [of M1 ?k st, unfolded mm1, OF inv tabs k0 run room]) (rule that)
  have un: "unowned PF_KERNEL m' = unowned PF_KERNEL (mm M) - {a..<a + ?k}"
    using kernel_page_free [OF a(1)] a(3,4) mm1 by simp
  define b0 where "b0 = \<lparr>bits = replicate ?len (0 :: u8) @ drop ?len (replicate (?k * PG_SIZE) 0), btmp_bytes_len = ?len\<rparr>"
  have i: "bitmap_init \<lparr>bits = replicate (?k * PG_SIZE) 0, btmp_bytes_len = ?len\<rparr> = Inr b0"
    using memset_ok [of ?len "replicate (?k * PG_SIZE) 0" 0] len k by (simp add: bitmap_init_def b0_def)
  have g: "get_at (bits (vaddr_bitmap ?va)) 0 ?len = Inr (take ?len (bits (vaddr_bitmap ?va)))"
    using len' by (simp add: get_at_def)
  define bs where "bs = take ?len (bits (vaddr_bitmap ?va)) @ drop ?len (bits b0)"
  have l: "length (take ?len (bits (vaddr_bitmap ?va))) = ?len" "?len \<le> length (bits b0)"
    using len' k by (simp_all add: b0_def)
  have bs: "put_at (bits b0) 0 (take ?len (bits (vaddr_bitmap ?va))) = Inr bs"
    "take ?len bs = take ?len (bits (vaddr_bitmap ?va))"
    unfolding put_at_def bs_def l using l(1,2) by simp_all
  obtain nm pd where nm: "fork_name t = Inr (t\<lparr>pcb_name := nm, pgdir := pd\<rparr>)"
    by (rule fork_name_ok [of t]) (use name in \<open>auto simp: t_def\<close>)
  have pk: "DIV_ROUND_UP ?len PG_SIZE = ?k" by (simp add: bitmap_pages_def)
  have "copy_pcb_stack0_and_vaddrBitmap child parent M =
      Inr (M\<lparr>mm := m', store := \<sigma>, next_pid := ?n,
        pcbs := (pcbs M)(child := child_pcb ?t ?n (mm M) nm pd (b0\<lparr>bits := bs\<rparr>))\<rparr>)"
    unfolding copy_pcb_stack0_and_vaddrBitmap_def Let_def pk t_def [symmetric] M1_def [symmetric] need_def a(1)
    by (simp add: i g bs(1) nm M1_def upd_pcb_def) (simp add: t_def child_pcb_def)
  moreover have "same_bits (vaddr_bitmap ?va) (b0\<lparr>bits := bs\<rparr>)"
    using bs(2) by (simp add: same_bits_def b0_def)
  ultimately show thesis using that a(2,4-7) un by blast
qed

section \<open>The child's directory and the copy\<close>

text \<open>What a new directory needs of the state, kept by allocations.\<close>

definition dir_ready :: "nat \<Rightarrow> machine \<Rightarrow> bool" where
  "dir_ready parent M \<longleftrightarrow>
     mem_inv (mm M) {} \<and> kernel_tables (mm M) \<and> 1024 \<le> vbase PF_USER (mm M) \<and>
     (\<exists>D. pgdir (pcbs M parent) = D * PG_SIZE \<and> kernel_page_no D \<and> mapped (mm M) D \<and>
        addr_v2p (D * PG_SIZE) (mm M) = Inr (cr3 M)) \<and>
     (\<forall>q. cr3 M div PG_SIZE \<notin> free_frames q (mm M)) \<and>
     pg_ptr M = next_dir M * PG_SIZE \<and> vbase PF_KERNEL (mm M) < next_dir M \<and> next_dir M < 2 ^ 20 - 1024 \<and>
     vbase PF_KERNEL (mm M) + nbits (vaddr_bitmap (the_vaddr PF_KERNEL (mm M))) \<le> next_dir M \<and>
     (next_dir M - vbase PF_KERNEL (mm M)) div 8 < length (bits (vaddr_bitmap (the_vaddr PF_KERNEL (mm M))))"

lemma dir_ready_grown:
  assumes "dir_ready parent M" and "grown (mm M) (mm M')" and "mem_inv (mm M') {}"
    and "cr3 M' = cr3 M" "pg_ptr M' = pg_ptr M" "pgdir (pcbs M' parent) = pgdir (pcbs M parent)"
  shows "dir_ready parent M'"
proof -
  obtain D where D: "pgdir (pcbs M parent) = D * PG_SIZE" "kernel_page_no D" "mapped (mm M) D"
    "addr_v2p (D * PG_SIZE) (mm M) = Inr (cr3 M)" using assms(1) unfolding dir_ready_def by blast
  have "\<forall>q. cr3 M div PG_SIZE \<notin> free_frames q (mm M')"
    using assms(1) grown_user(7) [OF assms(2)] unfolding dir_ready_def by blast
  moreover have "mapped (mm M') D" "addr_v2p (D * PG_SIZE) (mm M') = Inr (cr3 M)"
    using grown_mapped [OF assms(2) D(3)] D(4) by simp_all
  moreover have "kernel_tables (mm M')" using assms(1) grown_tables [OF assms(2)] by (simp add: dir_ready_def)
  ultimately show ?thesis
    using assms(1,3-6) D(1,2) grown_layout [OF assms(2)] by (auto simp: dir_ready_def next_dir_def)
qed

definition dir_entries :: "nat \<Rightarrow> mem \<Rightarrow> nat \<Rightarrow> u32" where
  "dir_entries f m = (\<lambda>d. if d = 1023 then of_nat (f * PG_SIZE) OR PG_US_U OR PG_RW_W OR PG_P_1
     else if d = 0 \<or> 0x300 \<le> d then pde m d else 0)"

lemma create_page_dir_ok:
  assumes rdy: "dir_ready parent M" and nm: "\<not> mapped (mm M) (next_dir M)" and room: "free_frames PF_KERNEL (mm M) \<noteq> {}"
  obtains f m' where
    "create_page_dir M = Inr (next_dir M * PG_SIZE, M\<lparr>mm := m', pg_ptr := (pg_ptr M + 0x1000) mod 2 ^ 32,
       spaces := (spaces M)(f * PG_SIZE := (dir_entries f m', \<lambda>v. 0))\<rparr>)"
    "mem_inv m' {}" "grown (mm M) m'" "f * PG_SIZE \<noteq> cr3 M" "0 < f" "f < 2 ^ 20"
    "f \<notin> page_frame m' ` owned PF_KERNEL m'" "\<And>q. f \<notin> free_frames q m'"
    "mapped m' (next_dir M)" "addr_v2p (next_dir M * PG_SIZE) m' = Inr (f * PG_SIZE)"
    "unowned PF_KERNEL m' = unowned PF_KERNEL (mm M)"
    "card (free_frames PF_KERNEL (mm M)) = card (free_frames PF_KERNEL m') + 1"
proof -
  let ?v = "next_dir M"
  have R: "mem_inv (mm M) {}" "kernel_tables (mm M)" "vbase PF_KERNEL (mm M) < ?v" "?v < 2 ^ 20 - 1024"
    "vbase PF_KERNEL (mm M) + nbits (vaddr_bitmap (the_vaddr PF_KERNEL (mm M))) \<le> ?v"
    "(?v - vbase PF_KERNEL (mm M)) div 8 < length (bits (vaddr_bitmap (the_vaddr PF_KERNEL (mm M))))"
    and cr: "cr3 M div PG_SIZE \<notin> free_frames PF_KERNEL (mm M)" and pg: "pg_ptr M = ?v * PG_SIZE"
    using rdy unfolding dir_ready_def by blast+
  obtain f m' where d: "get_a_page PF_KERNEL (?v * PG_SIZE) (mm M) = Inr (Some (?v * PG_SIZE), m')" "mem_inv m' {}"
    "f \<in> free_frames PF_KERNEL (mm M)" "mapped m' ?v" "page_frame m' ?v = f" "grown (mm M) m'"
    "owned PF_KERNEL m' = owned PF_KERNEL (mm M)" "unowned PF_KERNEL m' = unowned PF_KERNEL (mm M)"
    "card (free_frames PF_KERNEL (mm M)) = card (free_frames PF_KERNEL m') + 1" "\<And>q. f \<notin> free_frames q m'"
    "addr_v2p (?v * PG_SIZE) m' = Inr (f * PG_SIZE)"
    by (rule dir_page_ok [OF R nm room]) (rule that)
  have run: "create_page_dir M = Inr (?v * PG_SIZE, M\<lparr>mm := m', pg_ptr := (pg_ptr M + 0x1000) mod 2 ^ 32,
      spaces := (spaces M)(f * PG_SIZE := (dir_entries f m', \<lambda>v. 0))\<rparr>)"
    using d(1) d(11) pg by (simp add: create_page_dir_def Let_def dir_entries_def cong: if_cong)
  have f: "0 < f" "f < 2 ^ 20" using frame_range(1,2) [OF mem_invD(1) [OF R(1)], of f PF_KERNEL] d(3) by simp_all
  have "page_frame m' w = page_frame (mm M) w" if "w \<in> owned PF_KERNEL (mm M)" for w
    using grown_mapped(2) [OF d(6)] mem_invD(3) [OF R(1) that] by simp
  then have "page_frame m' ` owned PF_KERNEL m' = page_frame (mm M) ` owned PF_KERNEL (mm M)"
    unfolding d(7) by (intro image_cong) simp_all
  then have nf: "f \<notin> page_frame m' ` owned PF_KERNEL m'"
    using unused_frame(1) [OF R(1) d(3)] by (auto simp: all_owned_def)
  have "f * PG_SIZE \<noteq> cr3 M"
  proof
    assume "f * PG_SIZE = cr3 M"
    then have "cr3 M div PG_SIZE = f" by (metis PG_SIZE_def nonzero_mult_div_cancel_right zero_neq_numeral)
    then show False using cr d(3) by simp
  qed
  with run d(2,4,6,8-11) f nf show thesis by (intro that [of f m']) simp_all
qed

text \<open>The directory and the buffer page: the state copying starts in.\<close>

lemma copy_start:
  assumes rdy: "dir_ready parent M" and ne: "child \<noteq> parent" and nm: "\<not> mapped (mm M) (next_dir M)"
    and x: "x \<in> unowned PF_KERNEL (mm M)" and room: "3 \<le> card (free_frames PF_KERNEL (mm M))"
  obtains pc B Md M0 where
    "create_page_dir M = Inr (next_dir M * PG_SIZE, Md)"
    "kernel_pages 1 (upd_pcb child (\<lambda>t. t\<lparr>pgdir := next_dir M * PG_SIZE\<rparr>) Md) = Inr (Some (B * PG_SIZE), M0)"
    "fork_setting child parent B pc M0" "copied M0 B pc {} M0" "grown (mm M) (mm M0)"
    "same_threads (M\<lparr>pg_ptr := pg_ptr M0, pcbs := (pcbs M)(child := (pcbs M child)\<lparr>pgdir := next_dir M * PG_SIZE\<rparr>)\<rparr>) M0"
    "card (free_frames PF_KERNEL (mm M)) = card (free_frames PF_KERNEL (mm M0)) + 2"
    "\<And>g. g \<notin> free_frames PF_KERNEL (mm M) \<Longrightarrow> store M0 g = store M g"
    "userprog_vaddr (mm Md) = userprog_vaddr (mm M)"
    "addr_v2p (next_dir M * PG_SIZE) (mm M0) = Inr pc" "pc \<noteq> cr3 M"
proof -
  let ?v = "next_dir M"
  have R: "mem_inv (mm M) {}" "kernel_tables (mm M)" "1024 \<le> vbase PF_USER (mm M)" "vbase PF_KERNEL (mm M) < ?v" "?v < 2 ^ 20 - 1024"
    using rdy unfolding dir_ready_def by blast+
  obtain D where D: "pgdir (pcbs M parent) = D * PG_SIZE" "kernel_page_no D" "mapped (mm M) D"
    "addr_v2p (D * PG_SIZE) (mm M) = Inr (cr3 M)" using rdy unfolding dir_ready_def by blast
  have ne0: "free_frames PF_KERNEL (mm M) \<noteq> {}" using room by auto
  obtain f m1 where d: "create_page_dir M = Inr (?v * PG_SIZE, M\<lparr>mm := m1, pg_ptr := (pg_ptr M + 0x1000) mod 2 ^ 32,
       spaces := (spaces M)(f * PG_SIZE := (dir_entries f m1, \<lambda>v. 0))\<rparr>)"
    "mem_inv m1 {}" "grown (mm M) m1" "f * PG_SIZE \<noteq> cr3 M" "0 < f" "f < 2 ^ 20"
    "f \<notin> page_frame m1 ` owned PF_KERNEL m1" "\<And>q. f \<notin> free_frames q m1"
    "mapped m1 ?v" "addr_v2p (?v * PG_SIZE) m1 = Inr (f * PG_SIZE)" "unowned PF_KERNEL m1 = unowned PF_KERNEL (mm M)"
    "card (free_frames PF_KERNEL (mm M)) = card (free_frames PF_KERNEL m1) + 1"
    by (rule create_page_dir_ok [OF rdy nm ne0]) (rule that)
  define Md where "Md = M\<lparr>mm := m1, pg_ptr := (pg_ptr M + 0x1000) mod 2 ^ 32,
       spaces := (spaces M)(f * PG_SIZE := (dir_entries f m1, \<lambda>v. 0))\<rparr>"
  define Mu where "Mu = upd_pcb child (\<lambda>t. t\<lparr>pgdir := ?v * PG_SIZE\<rparr>) Md"
  have mu: "mm Mu = m1" "store Mu = store M" by (simp_all add: Mu_def Md_def upd_pcb_def)
  have tabs1: "kernel_tables m1" by (rule grown_tables [OF d(3) R(2)])
  have x1: "{x..<x + 1} \<subseteq> unowned PF_KERNEL m1" using x d(11) by simp
  have room1: "2 * 1 \<le> card (free_frames PF_KERNEL m1)" using room d(12) by simp
  obtain B m2 \<sigma> where b: "kernel_pages 1 Mu = Inr (Some (B * PG_SIZE), Mu\<lparr>mm := m2, store := \<sigma>\<rparr>)" "mem_inv m2 {}"
    "{B..<B + 1} \<subseteq> unowned PF_KERNEL m1" "owned PF_KERNEL m2 = owned PF_KERNEL m1 \<union> {B..<B + 1}"
    "page_frame m2 ` {B..<B + 1} \<subseteq> free_frames PF_KERNEL m1" "grown m1 m2"
    "card (free_frames PF_KERNEL m1) = card (free_frames PF_KERNEL m2) + 1"
    "\<And>g. g \<notin> free_frames PF_KERNEL m1 \<Longrightarrow> \<sigma> g = store M g"
    by (rule kernel_pages_ok [of Mu 1 x, unfolded mu, OF d(2) tabs1 zero_less_one x1 room1]) (rule that)
  define M0 where "M0 = Mu\<lparr>mm := m2, store := \<sigma>\<rparr>"
  have M0: "mm M0 = m2" "cr3 M0 = cr3 M" "spaces M0 (f * PG_SIZE) = (dir_entries f m1, \<lambda>v. 0)" "store M0 = \<sigma>"
    "pcbs M0 = (pcbs M)(child := (pcbs M child)\<lparr>pgdir := ?v * PG_SIZE\<rparr>)"
    by (simp_all add: M0_def Mu_def Md_def upd_pcb_def)
  have gr: "grown (mm M) (mm M0)" using grown_trans [OF d(3) b(6)] M0 by simp
  have low: "1024 \<le> vbase PF_USER (mm M0)" using R(3) grown_layout(2) [OF gr] by simp
  have fo: "f \<notin> page_frame m2 ` owned PF_KERNEL m2"
  proof
    assume "f \<in> page_frame m2 ` owned PF_KERNEL m2"
    then obtain w where w: "w \<in> owned PF_KERNEL m2" "page_frame m2 w = f" by blast
    show False
    proof (cases "w = B")
      case True then show False using b(5) d(8) w(2) by auto
    next
      case False
      then have o1: "w \<in> owned PF_KERNEL m1" using w(1) b(4) by auto
      then have "page_frame m2 w = page_frame m1 w" using grown_mapped(2) [OF b(6)] mem_invD(3) [OF d(2) o1] by simp
      then show False using d(7) o1 w(2) by blast
    qed
  qed
  have ff: "f \<notin> free_frames q m2" for q using d(8) grown_user(7) [OF b(6)] by blast
  have cs: "mem_inv (view (f * PG_SIZE) M0) (owned PF_USER (mm M0))" "kernel_same (mm M0) (view (f * PG_SIZE) M0)"
    using child_space [of M0 m1 f "f * PG_SIZE"] b(2,6) tabs1 low d(4,5,6) fo ff M0 by (simp_all add: dir_entries_def)
  have kv: "kernel_page_no ?v" using R(4,5) mem_invD(1) [OF R(1)] by (auto simp: kernel_page_no_def layout_ok_def)
  have v0: "0 < ?v" "0 < D" using R(4) D(2) by (auto simp: kernel_page_no_def)
  have av: "addr_v2p (?v * PG_SIZE) m2 = Inr (f * PG_SIZE)" using grown_mapped(3) [OF b(6) d(9)] d(10) by simp
  have aD: "addr_v2p (D * PG_SIZE) m2 = Inr (cr3 M)" using grown_mapped(3) [OF gr D(3)] D(4) M0 by simp
  have "fork_setting child parent B (f * PG_SIZE) M0"
    unfolding fork_setting_def using b(2,4) d(4) low grown_tables [OF gr R(2)] M0 kv v0 av aD D(1,2) ne by auto
  moreover have "copied M0 B (f * PG_SIZE) {} M0"
    unfolding copied_def using b(2) cs M0(1) by (simp add: same_pages_def)
  moreover have "\<sigma> g = store M g" if "g \<notin> free_frames PF_KERNEL (mm M)" for g
    using b(8) grown_user(7) [OF d(3)] that by blast
  moreover have "same_threads (M\<lparr>pg_ptr := pg_ptr M0, pcbs := (pcbs M)(child := (pcbs M child)\<lparr>pgdir := ?v * PG_SIZE\<rparr>)\<rparr>) M0"
    by (simp add: same_threads_def M0_def Mu_def Md_def upd_pcb_def)
  moreover have "create_page_dir M = Inr (?v * PG_SIZE, Md)" using d(1) by (simp only: Md_def)
  moreover have "kernel_pages 1 (upd_pcb child (\<lambda>t. t\<lparr>pgdir := ?v * PG_SIZE\<rparr>) Md) = Inr (Some (B * PG_SIZE), M0)"
    using b(1) by (simp only: Mu_def M0_def)
  moreover have "card (free_frames PF_KERNEL (mm M)) = card (free_frames PF_KERNEL (mm M0)) + 2"
    using d(12) b(7) M0(1) by simp
  moreover have "userprog_vaddr (mm Md) = userprog_vaddr (mm M)" using grown_layout(5) [OF d(3)] by (simp add: Md_def)
  ultimately show thesis using d(4) gr M0(1,4) av by (intro that [of Md B M0 "f * PG_SIZE"]) (simp_all only: not_False_eq_True)
qed

lemma unmap_pages_tables: "unmap_pages u v n m = Inr m' \<Longrightarrow> pde m' = pde m"
proof (induction u v n m rule: unmap_pages.induct)
  case (2 u v n m)
  then show ?case
    by (auto simp: andthen_eq_Inr_iff pfree_def page_table_pte_remove_def Let_def split: if_splits)
qed simp

lemma mfree_pages_tables: "mfree_pages pf v n m = Inr m' \<Longrightarrow> pde m' = pde m"
  using unmap_pages_tables
  by (fastforce simp: mfree_pages_def mfree_page_avoid_vaddr_remove_def vaddr_remove_def andthen_eq_Inr_iff Let_def split: if_splits)

text \<open>What the parent and the child find in their spaces after the copy.\<close>

definition same_memory :: "machine \<Rightarrow> nat \<Rightarrow> machine \<Rightarrow> bool" where
  "same_memory M pc M' \<longleftrightarrow>
     (\<forall>v \<in> owned PF_USER (mm M).
        mapped (mm M') v \<and> store M' (page_frame (mm M') v) = store M (page_frame (mm M) v) \<and>
        mapped (view pc M') v \<and> store M' (page_frame (view pc M') v) = store M (page_frame (mm M) v) \<and>
        page_frame (view pc M') v \<notin> page_frame (mm M') ` all_owned (mm M')) \<and>
     (\<forall>v \<in> unowned PF_USER (mm M). \<not> mapped (view pc M') v) \<and>
     inj_on (page_frame (view pc M')) (owned PF_USER (mm M))"

definition page_list :: "mem \<Rightarrow> nat list" where
  "page_list m = map (\<lambda>i. vbase PF_USER m + i)
     (filter (bit_set (vaddr_bitmap (userprog_vaddr m))) [0..<8 * btmp_bytes_len (vaddr_bitmap (userprog_vaddr m))])"

lemma page_list_set: "set (page_list m) = owned PF_USER m"
  by (auto simp: page_list_def owned_def allocated_def nbits_def the_vaddr_def)

lemma page_list_distinct: "distinct (page_list m)"
  by (simp add: page_list_def distinct_map)

lemma page_list_length: "length (page_list m) = card (owned PF_USER m)"
  using distinct_card [OF page_list_distinct, of m] by (simp add: page_list_set)

lemma copy_bytes_list:
  assumes "layout_ok m"
  shows "copy_bytes c p b (vaddr_start (userprog_vaddr m)) (bits (vaddr_bitmap (userprog_vaddr m)))
      [0..<btmp_bytes_len (vaddr_bitmap (userprog_vaddr m))] M = copy_pages c p b (page_list m) M"
proof -
  have u: "the_vaddr PF_USER m = userprog_vaddr m" by (simp add: the_vaddr_def)
  have s: "vaddr_start (userprog_vaddr m) = vbase PF_USER m * PG_SIZE"
    and g: "bitmap_guarded (vaddr_bitmap (userprog_vaddr m))"
    and b: "vbase PF_USER m + nbits (vaddr_bitmap (userprog_vaddr m)) \<le> 0xc0000"
    using assms unfolding layout_ok_def u [symmetric] by blast+
  show ?thesis
    unfolding s page_list_def using g b by (intro copy_bytes_pages) (simp_all add: bitmap_guarded_def nbits_def)
qed

text \<open>Switching to the own directory and giving back the buffer change nothing of that.\<close>

lemma view_after:
  assumes "M7 = (load_cr3 (cr3 M5) M5)\<lparr>mm := m7\<rparr>" and "pc \<noteq> cr3 M5" and "\<not> shared_table (v div 1024)"
  shows "mapped (view pc M7) v = mapped (view pc M5) v" "page_frame (view pc M7) v = page_frame (view pc M5) v"
proof -
  have "cr3 M7 = cr3 M5" "spaces M7 pc = spaces M5 pc" using assms(1,2) by simp_all
  then have "pde (view pc M7) = pde (view pc M5)" "pte (view pc M7) v = pte (view pc M5) v"
    using view_tables [of pc M7] view_tables [of pc M5] assms(2,3) by simp_all
  then show "mapped (view pc M7) v = mapped (view pc M5) v" "page_frame (view pc M7) v = page_frame (view pc M5) v"
    by (simp_all add: mapped_def page_frame_def)
qed

lemma addr_v2p_frame:
  assumes "pde m' = pde m" and "page_frame m' w = page_frame m w"
  shows "addr_v2p (w * PG_SIZE) m' = addr_v2p (w * PG_SIZE) m"
proof -
  have e: "unat (frame_bits (pte m' w)) = unat (frame_bits (pte m w))"
    using assms(2) by (simp add: frame_no_bits page_frame_def)
  show ?thesis unfolding addr_v2p_def entry_index assms(1) e ..
qed

lemma copy_finish:
  assumes set: "fork_setting child parent B pc M0" and at: "copied M0 B pc (owned PF_USER (mm M0)) M5"
    and inv: "mem_inv (mm M) {}" and gr: "grown (mm M) (mm M0)"
    and st: "\<And>g. g \<notin> free_frames PF_KERNEL (mm M) \<Longrightarrow> store M0 g = store M g"
  obtains m7 where "mfree_pages PF_KERNEL (B * PG_SIZE) 1 (mm M5) = Inr m7" "mem_inv m7 {}"
    "same_memory M pc ((load_cr3 (cr3 M5) M5)\<lparr>mm := m7\<rparr>)"
    "\<And>w. w \<noteq> B \<Longrightarrow> addr_v2p (w * PG_SIZE) m7 = addr_v2p (w * PG_SIZE) (mm M0)"
proof -
  let ?m0 = "mm M0" and ?U = "owned PF_USER (mm M)" and ?c = "view pc M5"
  have A: "same_threads M0 M5" "same_pages ?m0 (mm M5)" "pde (mm M5) = pde ?m0" "pte (mm M5) = pte ?m0" "mem_inv (mm M5) {}"
    "mem_inv ?c {}"
    and s5: "\<And>f. f \<notin> free_frames PF_USER ?m0 \<Longrightarrow> f \<noteq> page_frame ?m0 B \<Longrightarrow> store M5 f = store M0 f"
    and dn: "\<And>v. v \<in> owned PF_USER ?m0 \<Longrightarrow> store M5 (page_frame ?c v) = store M0 (page_frame ?m0 v) \<and>
      page_frame ?c v \<in> free_frames PF_USER ?m0"
    using at unfolding copied_def by auto
  have inv0: "mem_inv ?m0 {}" and tabs: "kernel_tables ?m0" and low: "1024 \<le> vbase PF_USER ?m0"
    and B: "B \<in> owned PF_KERNEL ?m0" and pc: "pc \<noteq> cr3 M0"
    using set unfolding fork_setting_def by blast+
  have E: "mapped (mm M5) = mapped ?m0" "page_frame (mm M5) = page_frame ?m0"
    using A(3,4) by (simp_all add: mapped_def page_frame_def fun_eq_iff)
  note D0 = mem_invD [OF inv0] and U = grown_user [OF gr]
  have o5: "owned q (mm M5) = owned q ?m0" "owned q ?c = owned q ?m0" "unowned q ?c = unowned q ?m0" "all_owned (mm M5) = all_owned ?m0" for q
    using same_pagesD [OF A(2)] same_pagesD [OF view_same [of M5 pc]] by simp_all
  have "{B..<B + 1} \<subseteq> owned PF_KERNEL (mm M5)" using B o5 by simp
  then obtain m7 where m7: "mfree_pages PF_KERNEL (B * PG_SIZE) 1 (mm M5) = Inr m7" "mem_inv m7 {}"
    "\<forall>q. owned q m7 = (if q = PF_KERNEL then owned PF_KERNEL (mm M5) - {B..<B + 1} else owned q (mm M5))"
    "\<forall>w. w \<notin> {B..<B + 1} \<longrightarrow> page_frame m7 w = page_frame (mm M5) w"
    using mfree_pages_ok [OF A(5) _ zero_less_one] by blast
  define M7 where "M7 = (load_cr3 (cr3 M5) M5)\<lparr>mm := m7\<rparr>"
  have c5: "cr3 M5 = cr3 M0" using A(1) by (simp add: same_threads_def)
  have s7: "mm M7 = m7" "store M7 = store M5" by (simp_all add: M7_def)
  have frame: "page_frame m7 v = page_frame (mm M) v" "mapped m7 v" "page_frame (mm M) v = page_frame ?m0 v"
    "store M5 (page_frame (mm M) v) = store M (page_frame (mm M) v)" "store M0 (page_frame (mm M) v) = store M (page_frame (mm M) v)"
    if v: "v \<in> ?U" for v
  proof -
    have v0: "v \<in> owned PF_USER ?m0" using v U by simp
    have mv: "mapped (mm M) v" "page_frame (mm M) v \<in> frames PF_USER (mm M)" using mem_invD(3) [OF inv v] by simp_all
    show e: "page_frame (mm M) v = page_frame ?m0 v" using grown_mapped(2) [OF gr mv(1)] by simp
    have vB: "v \<noteq> B" using owned_disjoint [OF D0(1), of v PF_USER PF_KERNEL] v0 B by blast
    then show "page_frame m7 v = page_frame (mm M) v" using m7(4) E e by simp
    have "v \<in> owned PF_USER m7" using m7(3) v0 o5 by simp
    then show "mapped m7 v" using mem_invD(3) [OF m7(2)] by blast
    have k: "page_frame (mm M) v \<notin> free_frames PF_KERNEL (mm M)"
      using mv(2) frame_range(3) [OF mem_invD(1) [OF inv], of "page_frame (mm M) v"] by blast
    show s0: "store M0 (page_frame (mm M) v) = store M (page_frame (mm M) v)" by (rule st [OF k])
    have "page_frame (mm M) v \<notin> free_frames PF_USER ?m0" using mv(2) frames_disjoint [of PF_USER "mm M"] U(4) by blast
    moreover have "page_frame (mm M) v \<noteq> page_frame ?m0 B"
      using inj_onD [OF D0(6), of v B] v0 B vB e by (auto simp: all_owned_def)
    ultimately show "store M5 (page_frame (mm M) v) = store M (page_frame (mm M) v)" using s5 s0 by simp
  qed
  have va: "mapped (view pc M7) v = mapped ?c v" "page_frame (view pc M7) v = page_frame ?c v"
    if "v \<in> ?U \<union> unowned PF_USER (mm M)" for v
    using view_after [OF M7_def, of pc v] pc c5 user_page(3) [OF D0(1) low, of v] that U(1,2) by auto
  have new: "page_frame ?c v \<notin> page_frame m7 ` all_owned m7" if v: "v \<in> ?U" for v
  proof
    assume "page_frame ?c v \<in> page_frame m7 ` all_owned m7"
    then obtain w q where w: "w \<in> owned q m7" "page_frame m7 w = page_frame ?c v" by (auto simp: all_owned_def)
    have w0: "w \<in> owned q ?m0" using w(1) m7(3) o5 by (auto split: if_splits)
    have "w \<notin> {B..<B + 1}"
    proof
      assume "w \<in> {B..<B + 1}"
      then have "w = B" by simp
      moreover have "q = PF_KERNEL" using owned_disjoint [OF D0(1), of B q PF_KERNEL] w0 B \<open>w = B\<close> by blast
      ultimately show False using w(1) m7(3) by simp
    qed
    then have "page_frame ?m0 w \<in> frames q ?m0 \<and> page_frame ?m0 w \<in> free_frames PF_USER ?m0"
      using w(2) m7(4) E D0(3) [OF w0] dn [of v] v U(1) by simp
    then show False
      using frame_range(3) [OF D0(1), of "page_frame ?m0 w" q] frame_range(3) [OF D0(1), of "page_frame ?m0 w" PF_USER]
        frames_disjoint [of PF_USER ?m0] by blast
  qed
  have "same_memory M pc M7"
    unfolding same_memory_def
  proof (intro conjI ballI)
    fix v assume v: "v \<in> ?U"
    note f = frame [OF v]
    show "mapped (mm M7) v" "store M7 (page_frame (mm M7) v) = store M (page_frame (mm M) v)" using f s7 by simp_all
    show "mapped (view pc M7) v" using va(1) [of v] v mem_invD(3) [OF A(6), of v PF_USER] o5 U by simp
    show "store M7 (page_frame (view pc M7) v) = store M (page_frame (mm M) v)"
      using va(2) [of v] v dn [of v] U f s7 by simp
    show "page_frame (view pc M7) v \<notin> page_frame (mm M7) ` all_owned (mm M7)" using new [OF v] va(2) [of v] v s7 by simp
  next
    fix v assume v: "v \<in> unowned PF_USER (mm M)"
    then show "\<not> mapped (view pc M7) v" using va(1) [of v] mem_invD(4) [OF A(6), of v PF_USER] o5 U by simp
  next
    have "inj_on (page_frame ?c) ?U"
      using mem_invD(6) [OF A(6)] o5 U by (auto simp: inj_on_def all_owned_def)
    then show "inj_on (page_frame (view pc M7)) ?U" using va(2) by (simp add: inj_on_def)
  qed
  moreover have "addr_v2p (w * PG_SIZE) m7 = addr_v2p (w * PG_SIZE) ?m0" if "w \<noteq> B" for w
  proof (rule addr_v2p_frame)
    show "pde m7 = pde ?m0" using mfree_pages_tables [OF m7(1)] A(3) by simp
    show "page_frame m7 w = page_frame ?m0 w" using m7(4) that E by simp
  qed
  ultimately show thesis using that m7(1,2) by (simp add: M7_def)
qed

lemma copy_page_table_ok:
  assumes rdy: "dir_ready parent M" and ne: "child \<noteq> parent" and nm: "\<not> mapped (mm M) (next_dir M)"
    and x: "x \<in> unowned PF_KERNEL (mm M)"
    and room: "card (owned PF_USER (mm M)) + 3 \<le> card (free_frames PF_KERNEL (mm M))"
      "card (owned PF_USER (mm M)) \<le> card (free_frames PF_USER (mm M))"
  obtains pc M' where "copy_page_table child parent M = Inr (0, M')" "mem_inv (mm M') {}" "same_memory M pc M'"
    "addr_v2p (next_dir M * PG_SIZE) (mm M') = Inr pc"
    "pcbs M' = (pcbs M)(child := (pcbs M child)\<lparr>pgdir := next_dir M * PG_SIZE\<rparr>)"
    "running M' = running M" "third_list M' = third_list M" "all_threads M' = all_threads M" "cr3 M' = cr3 M"
proof -
  let ?v = "next_dir M"
  have inv: "mem_inv (mm M) {}" and far: "vbase PF_KERNEL (mm M) + nbits (vaddr_bitmap (the_vaddr PF_KERNEL (mm M))) \<le> ?v"
    using rdy unfolding dir_ready_def by blast+
  have r3: "3 \<le> card (free_frames PF_KERNEL (mm M))" using room(1) by simp
  obtain pc B Md M0 where s: "create_page_dir M = Inr (?v * PG_SIZE, Md)"
    "kernel_pages 1 (upd_pcb child (\<lambda>t. t\<lparr>pgdir := ?v * PG_SIZE\<rparr>) Md) = Inr (Some (B * PG_SIZE), M0)"
    "fork_setting child parent B pc M0" "copied M0 B pc {} M0" "grown (mm M) (mm M0)"
    "same_threads (M\<lparr>pg_ptr := pg_ptr M0, pcbs := (pcbs M)(child := (pcbs M child)\<lparr>pgdir := ?v * PG_SIZE\<rparr>)\<rparr>) M0"
    "card (free_frames PF_KERNEL (mm M)) = card (free_frames PF_KERNEL (mm M0)) + 2"
    "\<And>g. g \<notin> free_frames PF_KERNEL (mm M) \<Longrightarrow> store M0 g = store M g"
    "userprog_vaddr (mm Md) = userprog_vaddr (mm M)" "addr_v2p (?v * PG_SIZE) (mm M0) = Inr pc" "pc \<noteq> cr3 M"
    by (rule copy_start [OF rdy ne nm x r3]) (rule that)
  have inv0: "mem_inv (mm M0) {}" and B: "B \<in> owned PF_KERNEL (mm M0)"
    using s(3) unfolding fork_setting_def by blast+
  have vB: "?v \<noteq> B"
    using page_range(5) [OF mem_invD(1) [OF inv0], of B PF_KERNEL] B far grown_layout(1,3) [OF s(5)] by auto
  have pl: "page_list (mm M0) = page_list (mm M)"
    using grown_layout(2,5) [OF s(5)] by (simp add: page_list_def)
  let ?ps = "page_list (mm M0)"
  have set: "set ?ps = owned PF_USER (mm M0)" "length ?ps = card (owned PF_USER (mm M))"
    using page_list_set [of "mm M0"] page_list_length [of "mm M"] pl by simp_all
  have "\<exists>M5. copy_pages child parent (B * PG_SIZE) ?ps M0 = Inr M5 \<and> copied M0 B pc ({} \<union> set ?ps) M5"
    by (rule copy_pages_ok [OF s(3,4) page_list_distinct])
      (use set room s(7) grown_user(4) [OF s(5)] in simp_all)
  then obtain M5 where M5: "copy_pages child parent (B * PG_SIZE) ?ps M0 = Inr M5" "copied M0 B pc (owned PF_USER (mm M0)) M5"
    using set(1) by auto
  obtain m7 where m7: "mfree_pages PF_KERNEL (B * PG_SIZE) 1 (mm M5) = Inr m7" "mem_inv m7 {}"
    "same_memory M pc ((load_cr3 (cr3 M5) M5)\<lparr>mm := m7\<rparr>)"
    "\<And>w. w \<noteq> B \<Longrightarrow> addr_v2p (w * PG_SIZE) m7 = addr_v2p (w * PG_SIZE) (mm M0)"
    using copy_finish [OF s(3) M5(2) inv s(5,8)] by blast
  have T5: "same_threads M0 M5" "pde (mm M5) = pde (mm M0)" "pte (mm M5) = pte (mm M0)"
    using M5(2) unfolding copied_def by blast+
  obtain D where D: "pgdir (pcbs M0 parent) = D * PG_SIZE" "0 < D" "addr_v2p (D * PG_SIZE) (mm M0) = Inr (cr3 M0)"
    using s(3) unfolding fork_setting_def by blast
  have "addr_v2p (D * PG_SIZE) (mm M5) = Inr (cr3 M5)"
    using D(3) T5 unfolding addr_v2p_def T5 by (simp add: same_threads_def)
  then have home: "page_dir_activate parent M5 = Inr (load_cr3 (cr3 M5) M5)"
    using D(1,2) T5(1) by (intro switch_space) (simp_all add: same_threads_def)
  let ?Mu = "upd_pcb child (\<lambda>t. t\<lparr>pgdir := ?v * PG_SIZE\<rparr>) Md" and ?M' = "(load_cr3 (cr3 M5) M5)\<lparr>mm := m7\<rparr>"
  have va: "userprog_vaddr (mm ?Mu) = userprog_vaddr (mm M0)"
    using s(9) grown_layout(5) [OF s(5)] by (simp add: upd_pcb_def)
  have own: "mm (load_cr3 (cr3 M5) M5) = mm M5" using view_own [of M5] by (simp add: view_def)
  have "copy_page_table child parent M = Inr (0, ?M')"
    unfolding copy_page_table_def s(1) andthen_Inr prod.case Let_def s(2) option.case va
      copy_bytes_list [OF mem_invD(1) [OF inv0]] M5(1) home own m7(1) by simp
  moreover have "addr_v2p (?v * PG_SIZE) m7 = Inr pc" using m7(4) [OF vB] s(10) by simp
  ultimately show thesis
    using m7(2,3) s(6) T5(1) by (intro that [of ?M' pc]) (simp_all add: same_threads_def)
qed

section \<open>The whole call\<close>

lemma fork_ready_dir: "fork_ready M \<Longrightarrow> dir_ready (running M) M"
  unfolding fork_ready_def dir_ready_def by blast

lemma build_child_pcbs:
  "pcbs (build_child_thread K c M) = (pcbs M)(c := (pcbs M c)\<lparr>
     kstack := (kstack (pcbs M c))(1013 := 0, 1004 := intr_exit K, 1003 := 0, 1002 := 0, 1001 := 0, 1000 := 0),
     self_kstack := c + 4000\<rparr>)"
  by (simp add: build_child_thread_def upd_pcb_def word_index_def intr_stack_words_def PG_SIZE_def Let_def)

lemma build_child_simps [simp]:
  "mm (build_child_thread K c M) = mm M" "store (build_child_thread K c M) = store M" "cr3 (build_child_thread K c M) = cr3 M"
  "spaces (build_child_thread K c M) = spaces M" "third_list (build_child_thread K c M) = third_list M"
  "all_threads (build_child_thread K c M) = all_threads M" "running (build_child_thread K c M) = running M"
  by (simp_all add: build_child_thread_def upd_pcb_def Let_def)

lemma same_memory_grown:
  assumes "same_memory M2 pc M'" and inv: "mem_inv (mm M) {}" and gr: "grown (mm M) (mm M2)"
    and st: "\<And>g. g \<notin> free_frames PF_KERNEL (mm M) \<Longrightarrow> store M2 g = store M g"
  shows "same_memory M pc M'"
proof -
  have "store M2 (page_frame (mm M2) v) = store M (page_frame (mm M) v)" if v: "v \<in> owned PF_USER (mm M)" for v
  proof -
    have m: "mapped (mm M) v" "page_frame (mm M) v \<in> frames PF_USER (mm M)" using mem_invD(3) [OF inv v] by simp_all
    then have "page_frame (mm M) v \<notin> free_frames PF_KERNEL (mm M)"
      using frame_range(3) [OF mem_invD(1) [OF inv], of "page_frame (mm M) v"] by blast
    then show ?thesis using st grown_mapped(2) [OF gr m(1)] by simp
  qed
  then show ?thesis using assms(1) grown_user(1,2) [OF gr] by (simp add: same_memory_def)
qed

text \<open>Only the kernel's half and the frames in use matter: other fields may change.\<close>

lemma same_memory_cong:
  assumes "same_memory M pc M'" and "mm X = mm M" "store X = store M"
    and "mm Y = mm M'" "store Y = store M'" "cr3 Y = cr3 M'" "spaces Y = spaces M'"
  shows "same_memory X pc Y"
proof -
  have "view pc Y = view pc M'" using assms(4-7) by (simp add: view_def load_cr3_def Let_def cong: if_cong)
  then show ?thesis using assms by (simp add: same_memory_def)
qed

definition forked :: "code \<Rightarrow> machine \<Rightarrow> nat \<Rightarrow> nat \<Rightarrow> machine \<Rightarrow> bool" where
  "forked K M child pc M' \<longleftrightarrow>
     child mod PG_SIZE = 0 \<and> child div PG_SIZE \<in> unowned PF_KERNEL (mm M) \<and> mem_inv (mm M') {} \<and> same_memory M pc M' \<and>
     page_dir_activate child M' = Inr (load_cr3 pc M') \<and>
     running M' = running M \<and> third_list M' = third_list M @ [child] \<and> all_threads M' = all_threads M @ [child] \<and>
     (\<forall>t. t \<noteq> child \<longrightarrow> pcbs M' t = pcbs M t) \<and>
     (\<exists>nm b. same_bits (vaddr_bitmap (userprog_vaddr (mm M))) b \<and>
        pcbs M' child = (child_pcb (pcbs M (running M)) (next_of (next_pid M)) (mm M) nm (next_dir M * PG_SIZE) b)
          \<lparr>kstack := (kstack (pcbs M (running M)))(1013 := 0, 1004 := intr_exit K, 1003 := 0, 1002 := 0, 1001 := 0, 1000 := 0),
           self_kstack := child + 4000, waiting_sema := 0\<rparr>)"

lemma fork_run:
  assumes rdy: "fork_ready M" and fds: "count_opens (pcb_fds (pcbs M (running M))) [3..<MAX_FILES_OPEN_PER_PROC] s = Inr s'"
  obtains child pc M' where "sys_fork K M s = Inr (next_of (next_pid M), M', s')" "forked K M child pc M'"
proof -
  let ?p = "running M" and ?v = "next_dir M" and ?k = "bitmap_pages (mm M)" and ?n = "next_of (next_pid M)"
  have R: "mem_inv (mm M) {}" "kernel_tables (mm M)" "\<not> mapped (mm M) ?v" "vbase PF_KERNEL (mm M) < ?v" "?v < 2 ^ 20 - 1024"
      "vbase PF_KERNEL (mm M) + nbits (vaddr_bitmap (the_vaddr PF_KERNEL (mm M))) \<le> ?v"
      "0 < btmp_bytes_len (vaddr_bitmap (userprog_vaddr (mm M)))"
      "2 * ?k + 4 + card (owned PF_USER (mm M)) \<le> card (free_frames PF_KERNEL (mm M))"
      "card (owned PF_USER (mm M)) \<le> card (free_frames PF_USER (mm M))"
      "length (pcb_name (pcbs M ?p)) = 16" "0 \<in> set (pcb_name (pcbs M ?p))"
    and lists: "\<And>t. t \<in> insert ?p (set (third_list M) \<union> set (all_threads M)) \<Longrightarrow> t div PG_SIZE \<notin> unowned PF_KERNEL (mm M)"
    using rdy unfolding fork_ready_def by blast+
  obtain st where st: "{st..<st + 2 * (?k + 1)} \<subseteq> unowned PF_KERNEL (mm M)"
    using rdy unfolding fork_ready_def by blast
  define Mi where "Mi = M\<lparr>interrupts := False\<rparr>"
  have i: "mm Mi = mm M" "store Mi = store M" by (simp_all add: Mi_def)
  have st1: "{st..<st + 1} \<subseteq> unowned PF_KERNEL (mm M)" and r1: "2 * 1 \<le> card (free_frames PF_KERNEL (mm M))"
    using st R(8) by (auto simp: subset_iff)
  obtain a m1 \<sigma>1 where a: "kernel_pages 1 Mi = Inr (Some (a * PG_SIZE), Mi\<lparr>mm := m1, store := \<sigma>1\<rparr>)" "mem_inv m1 {}"
    "{a..<a + 1} \<subseteq> unowned PF_KERNEL (mm M)" "owned PF_KERNEL m1 = owned PF_KERNEL (mm M) \<union> {a..<a + 1}"
    "page_frame m1 ` {a..<a + 1} \<subseteq> free_frames PF_KERNEL (mm M)" "grown (mm M) m1"
    "card (free_frames PF_KERNEL (mm M)) = card (free_frames PF_KERNEL m1) + 1"
    "\<And>f. f \<notin> free_frames PF_KERNEL (mm M) \<Longrightarrow> \<sigma>1 f = store M f"
    "\<And>w. w \<notin> unowned PF_KERNEL (mm M) \<Longrightarrow> 768 \<le> w div 1024 \<Longrightarrow> w div 1024 < 1024 \<Longrightarrow> mapped m1 w = mapped (mm M) w"
    by (rule kernel_pages_ok [of Mi 1 st, unfolded i, OF R(1,2) zero_less_one st1 r1]) (rule that)
  define c where "c = a * PG_SIZE"
  define M1 where "M1 = Mi\<lparr>mm := m1, store := \<sigma>1\<rparr>"
  have m1: "mm M1 = m1" "pcbs M1 = pcbs M" "store M1 = \<sigma>1" "running M1 = ?p" by (simp_all add: M1_def Mi_def)
  have ca: "c div PG_SIZE = a" "c mod PG_SIZE = 0" by (simp_all add: c_def PG_SIZE_def)
  have un1: "unowned PF_KERNEL m1 = unowned PF_KERNEL (mm M) - {a}"
    using kernel_page_free [OF a(1)] a(4,6) i by simp
  have cU: "c div PG_SIZE \<in> unowned PF_KERNEL (mm M)" using a(3) ca by simp
  have new: "c \<noteq> ?p" "c \<notin> set (third_list M)" "c \<notin> set (all_threads M)" using lists cU by blast+
  have va1: "userprog_vaddr m1 = userprog_vaddr (mm M)" "u_block_desc m1 = u_block_desc (mm M)"
    using grown_layout(5,6) [OF a(6)] by simp_all
  have k1: "bitmap_pages (mm M1) = ?k" "bitmap_pages m1 = ?k" by (simp_all add: bitmap_pages_def m1 va1)
  obtain st2 where st2: "{st2..<st2 + (?k + 1)} \<subseteq> unowned PF_KERNEL (mm M) - {a}"
    by (rule run_without_page [OF st]) (rule that)
  have c1: "mem_inv (mm M1) {}" "kernel_tables (mm M1)" "0 < btmp_bytes_len (vaddr_bitmap (userprog_vaddr (mm M1)))"
    "{st2..<st2 + bitmap_pages (mm M1)} \<subseteq> unowned PF_KERNEL (mm M1)"
    "2 * bitmap_pages (mm M1) \<le> card (free_frames PF_KERNEL (mm M1))"
    "length (pcb_name (pcbs M1 ?p)) = 16" "0 \<in> set (pcb_name (pcbs M1 ?p))"
    using a(2,7) grown_tables [OF a(6) R(2)] R(7,8,10,11) st2 unfolding k1 m1 va1 un1 by (auto simp: subset_iff)
  obtain x m2 \<sigma>2 nm pd b where b: "copy_pcb_stack0_and_vaddrBitmap c ?p M1 =
       Inr (M1\<lparr>mm := m2, store := \<sigma>2, next_pid := next_of (next_pid M1),
         pcbs := (pcbs M1)(c := child_pcb (pcbs M1 ?p) (next_of (next_pid M1)) (mm M1) nm pd b)\<rparr>)"
    "mem_inv m2 {}" "grown (mm M1) m2" "same_bits (vaddr_bitmap (userprog_vaddr (mm M1))) b"
    "unowned PF_KERNEL m2 = unowned PF_KERNEL (mm M1) - {x..<x + bitmap_pages (mm M1)}"
    "card (free_frames PF_KERNEL (mm M1)) = card (free_frames PF_KERNEL m2) + bitmap_pages (mm M1)"
    "\<And>f. f \<notin> free_frames PF_KERNEL (mm M1) \<Longrightarrow> \<sigma>2 f = store M1 f"
    "\<And>w. w \<notin> unowned PF_KERNEL (mm M1) \<Longrightarrow> 768 \<le> w div 1024 \<Longrightarrow> w div 1024 < 1024 \<Longrightarrow> mapped m2 w = mapped (mm M1) w"
    by (rule copy_pcb_ok [OF c1(1,2) new(1) c1(3-7)]) (rule that)
  define M2 where "M2 = M1\<lparr>mm := m2, store := \<sigma>2, next_pid := ?n, pcbs := (pcbs M)(c := child_pcb (pcbs M ?p) ?n (mm M) nm pd b)\<rparr>"
  have cp: "child_pcb t n m1 nm pd b = child_pcb t n (mm M) nm pd b" for t n
    by (simp add: child_pcb_def va1)
  have np: "next_pid M1 = next_pid M" by (simp add: M1_def Mi_def)
  have run2: "copy_pcb_stack0_and_vaddrBitmap c ?p M1 = Inr M2"
    using b(1) unfolding m1 np cp M2_def .
  have m2: "mm M2 = m2" "store M2 = \<sigma>2" "pcbs M2 = (pcbs M)(c := child_pcb (pcbs M ?p) ?n (mm M) nm pd b)"
    "cr3 M2 = cr3 M" "pg_ptr M2 = pg_ptr M" "running M2 = ?p" "third_list M2 = third_list M" "all_threads M2 = all_threads M"
    by (simp_all add: M2_def M1_def Mi_def)
  have gr2: "grown (mm M) (mm M2)" using grown_trans [OF a(6)] b(3) m1 m2 by simp
  have sto: "store M2 g = store M g" if "g \<notin> free_frames PF_KERNEL (mm M)" for g
    using a(8) [OF that] b(7) [of g] grown_user(7) [OF a(6)] that m1 m2 by auto
  have rdy2: "dir_ready ?p M2"
    by (rule dir_ready_grown [OF fork_ready_dir [OF rdy] gr2]) (use b(2) m2 new(1) in simp_all)
  have nd: "next_dir M2 = ?v" by (simp add: next_dir_def m2)
  have vout: "?v \<notin> unowned PF_KERNEL (mm M)" using page_range(5) [OF mem_invD(1) [OF R(1)], of ?v PF_KERNEL] R(6) by auto
  have vk: "768 \<le> ?v div 1024" "?v div 1024 < 1024" using R(4,5) mem_invD(1) [OF R(1)] by (auto simp: layout_ok_def)
  have nm2: "\<not> mapped (mm M2) (next_dir M2)"
    using a(9) [OF vout vk] b(8) [of ?v] vout vk un1 R(3) m1 m2 nd by simp
  obtain y where "y \<in> (unowned PF_KERNEL (mm M) - {a}) - {x..<x + ?k}" by (rule page_left [OF st2])
  then have y: "y \<in> unowned PF_KERNEL (mm M2)" using b(5) un1 m1 m2 k1 by simp
  have room2: "card (owned PF_USER (mm M2)) + 3 \<le> card (free_frames PF_KERNEL (mm M2))"
    "card (owned PF_USER (mm M2)) \<le> card (free_frames PF_USER (mm M2))"
    using R(8,9) a(7) b(6) k1 m1 m2 grown_user(1,4) [OF gr2] by simp_all
  obtain pc M3 where m3: "copy_page_table c ?p M2 = Inr (0, M3)" "mem_inv (mm M3) {}" "same_memory M2 pc M3"
    "addr_v2p (next_dir M2 * PG_SIZE) (mm M3) = Inr pc"
    "pcbs M3 = (pcbs M2)(c := (pcbs M2 c)\<lparr>pgdir := next_dir M2 * PG_SIZE\<rparr>)"
    "running M3 = running M2" "third_list M3 = third_list M2" "all_threads M3 = all_threads M2" "cr3 M3 = cr3 M2"
    by (rule copy_page_table_ok [OF rdy2 new(1) nm2 y room2]) (rule that)
  define M4 where "M4 = build_child_thread K c M3"
  define t where "t = (child_pcb (pcbs M ?p) ?n (mm M) nm (?v * PG_SIZE) b)
    \<lparr>kstack := (kstack (pcbs M ?p))(1013 := 0, 1004 := intr_exit K, 1003 := 0, 1002 := 0, 1001 := 0, 1000 := 0), self_kstack := c + 4000\<rparr>"
  have p4: "pcbs M4 = (pcbs M)(c := t)"
    unfolding M4_def build_child_pcbs m3(5) m2(3) nd by (simp add: t_def child_pcb_dir) (simp add: child_pcb_def)
  have m4: "mm M4 = mm M3" "store M4 = store M3" "cr3 M4 = cr3 M3" "spaces M4 = spaces M3" "running M4 = ?p"
    "third_list M4 = third_list M" "all_threads M4 = all_threads M"
    using m3(6-8) m2(6-8) by (simp_all add: M4_def)
  have fd: "update_inode_open_cnts c M4 s = Inr s'"
    using fds by (simp add: update_inode_open_cnts_def p4 t_def child_pcb_def)
  define M' where "M' = upd_pcb c (\<lambda>t. t\<lparr>waiting_sema := 0\<rparr>) (M4\<lparr>third_list := third_list M @ [c], all_threads := all_threads M @ [c]\<rparr>)"
  have m': "mm M' = mm M3" "store M' = store M3" "cr3 M' = cr3 M3" "spaces M' = spaces M3" "running M' = ?p"
    "third_list M' = third_list M @ [c]" "all_threads M' = all_threads M @ [c]" "pcbs M' = (pcbs M)(c := t\<lparr>waiting_sema := 0\<rparr>)"
    by (simp_all add: M'_def upd_pcb_def m4 p4)
  have pid: "pid (pcbs M' c) = ?n" by (simp add: m' t_def child_pcb_def)
  have kp: "kernel_pages 1 (M\<lparr>interrupts := False\<rparr>) = Inr (Some c, M1)" using a(1) by (simp add: Mi_def M1_def c_def)
  have "sys_fork K M s = Inr (?n, M', s')"
    unfolding sys_fork_def Let_def need_def kp andthen_Inr prod.case option.case run2 m3(1) M4_def [symmetric] fd m4(6,7)
    using new(2,3) pid by (simp add: M'_def m4)
  moreover have "forked K M c pc M'"
    unfolding forked_def
  proof (intro conjI)
    show "c mod PG_SIZE = 0" "c div PG_SIZE \<in> unowned PF_KERNEL (mm M)" using ca cU by simp_all
    show "mem_inv (mm M') {}" using m3(2) m' by simp
    have "same_memory M pc M3" by (rule same_memory_grown [OF m3(3) R(1) gr2 sto])
    then show "same_memory M pc M'" by (rule same_memory_cong) (simp_all add: m')
    have "pgdir (pcbs M' c) = ?v * PG_SIZE" by (simp add: m' t_def child_pcb_def)
    then show "page_dir_activate c M' = Inr (load_cr3 pc M')"
      by (rule switch_space) (use R(4) m3(4) nd m' in simp_all)
    show "running M' = ?p" "third_list M' = third_list M @ [c]" "all_threads M' = all_threads M @ [c]"
      "\<forall>u. u \<noteq> c \<longrightarrow> pcbs M' u = pcbs M u" by (simp_all add: m')
    show "\<exists>nm b. same_bits (vaddr_bitmap (userprog_vaddr (mm M))) b \<and>
        pcbs M' c = (child_pcb (pcbs M ?p) ?n (mm M) nm (?v * PG_SIZE) b)
          \<lparr>kstack := (kstack (pcbs M ?p))(1013 := 0, 1004 := intr_exit K, 1003 := 0, 1002 := 0, 1001 := 0, 1000 := 0),
           self_kstack := c + 4000, waiting_sema := 0\<rparr>"
      using b(4) m1 va1 by (intro exI [of _ nm] exI [of _ b]) (simp add: m' t_def)
  qed
  ultimately show thesis by (rule that)
qed

lemma load_page_mapped: "mapped (mm M) v \<Longrightarrow> load_page v M = Inr (store M (page_frame (mm M) v))"
  by (simp add: load_page_def)

text \<open>C7: A fork with enough pages and frames succeeds.  Afterwards the parent finds every page of its
  program as it was, and in the space the child's directory switches to every page of the
  program has the same bytes, in a frame that no page of the parent's and no other page of the
  child's has; pages the program has not got fault there; the allocator's invariant holds, and
  the child is behind the others in the lowest queue.\<close>

theorem fork_copies_memory:
  assumes "fork_ready M" and "count_opens (pcb_fds (pcbs M (running M))) [3..<MAX_FILES_OPEN_PER_PROC] s = Inr s'"
  shows "\<exists>r child C M'. sys_fork K M s = Inr (r, M', s') \<and> page_dir_activate child M' = Inr C \<and>
    mem_inv (mm M') {} \<and> third_list M' = third_list M @ [child] \<and>
    (\<forall>v \<in> owned PF_USER (mm M). load_page v M' = load_page v M \<and> load_page v C = load_page v M \<and>
       page_frame (mm C) v \<notin> page_frame (mm M') ` all_owned (mm M')) \<and>
    inj_on (page_frame (mm C)) (owned PF_USER (mm M)) \<and>
    (\<forall>v \<in> unowned PF_USER (mm M). load_page v C = Inl Wild)"
proof -
  obtain child pc M' where r: "sys_fork K M s = Inr (next_of (next_pid M), M', s')" "forked K M child pc M'"
    by (rule fork_run [OF assms])
  have inv: "mem_inv (mm M) {}" using assms(1) unfolding fork_ready_def by blast
  have F: "mem_inv (mm M') {}" "same_memory M pc M'" "page_dir_activate child M' = Inr (load_cr3 pc M')"
    "third_list M' = third_list M @ [child]" using r(2) unfolding forked_def by blast+
  let ?C = "load_cr3 pc M'"
  have C: "mm ?C = view pc M'" by (simp add: view_def)
  have P: "load_page v M' = load_page v M" "load_page v ?C = load_page v M"
    "page_frame (mm ?C) v \<notin> page_frame (mm M') ` all_owned (mm M')" if v: "v \<in> owned PF_USER (mm M)" for v
    using F(2) v mem_invD(3) [OF inv v] unfolding same_memory_def by (simp_all add: load_page_def C)
  have N: "load_page v ?C = Inl Wild" if "v \<in> unowned PF_USER (mm M)" for v
    using F(2) that unfolding same_memory_def by (simp add: load_page_def C)
  have "inj_on (page_frame (mm ?C)) (owned PF_USER (mm M))" using F(2) unfolding same_memory_def C by blast
  then show ?thesis using r(1) F(1,3,4) P N by blast
qed

text \<open>C11: The child is a copy that resumes where the parent will: the first switch to it goes to the end of the
  interrupt with the stack at the frame there, from which all the registers, the addresses and
  the flags of the user program come as they are in the parent's frame, but \<^verbatim>\<open>eax\<close>, the
  result, which is 0 for the child and the child's number for the parent; it has the parent's
  open files and pages, the lowest priority and nobody waiting, and the parent's block is left
  alone.\<close>

theorem fork_child_resumes:
  assumes "fork_ready M" and "count_opens (pcb_fds (pcbs M (running M))) [3..<MAX_FILES_OPEN_PER_PROC] s = Inr s'"
  shows "\<exists>child M'. sys_fork K M s = Inr (pid (pcbs M' child), M', s') \<and>
    all_threads M' = all_threads M @ [child] \<and> running M' = running M \<and>
    (let t = pcbs M' child; p = pcbs M (running M) in
       switched_to t child = (intr_exit K, 1005) \<and>
       user_registers (kstack t) 1005 = (user_registers (kstack p) 1005)[7 := 0] \<and>
       pid t = next_of (next_pid M) \<and> parent_pid t = pid p \<and> pcb_fds t = pcb_fds p \<and>
       same_bits (vaddr_bitmap (userprog_vaddr (mm M))) (vaddr_bitmap (pcb_vaddr t)) \<and>
       priority t = THIRD_PRIO \<and> waiting_sema t = 0 \<and> pcbs M' (running M) = p)"
proof -
  obtain child pc M' where r: "sys_fork K M s = Inr (next_of (next_pid M), M', s')" "forked K M child pc M'"
    by (rule fork_run [OF assms])
  have F: "child div PG_SIZE \<in> unowned PF_KERNEL (mm M)" "running M' = running M" "all_threads M' = all_threads M @ [child]"
    "\<forall>t. t \<noteq> child \<longrightarrow> pcbs M' t = pcbs M t" using r(2) unfolding forked_def by blast+
  obtain nm b where t: "same_bits (vaddr_bitmap (userprog_vaddr (mm M))) b"
    "pcbs M' child = (child_pcb (pcbs M (running M)) (next_of (next_pid M)) (mm M) nm (next_dir M * PG_SIZE) b)
          \<lparr>kstack := (kstack (pcbs M (running M)))(1013 := 0, 1004 := intr_exit K, 1003 := 0, 1002 := 0, 1001 := 0, 1000 := 0),
           self_kstack := child + 4000, waiting_sema := 0\<rparr>"
    using r(2) unfolding forked_def by blast
  have "child \<noteq> running M" using F(1) assms(1) unfolding fork_ready_def by blast
  then have p: "pcbs M' (running M) = pcbs M (running M)" using F(4) by simp
  have sw: "switched_to (pcbs M' child) child = (intr_exit K, 1005)"
    by (simp add: t(2) switched_to_def word_index_def)
  have up: "[1..<13] @ [14..<19] = [1, 2, 3, 4, 5, 6, 7, 8, 9, 10, 11, 12, 14, 15, 16, 17, 18 :: nat]"
    by (simp add: upt_rec)
  have rg: "user_registers (kstack (pcbs M' child)) 1005 = (user_registers (kstack (pcbs M (running M))) 1005)[7 := 0]"
    unfolding user_registers_def up by (simp add: t(2))
  show ?thesis
    using r(1) F(2,3) p sw rg t(1) by (intro exI [of _ child] exI [of _ M']) (simp add: Let_def t(2) child_pcb_def)
qed

section \<open>A process that forks\<close>

text \<open>One page of the program, mapped to the first frame of the pool; its directory outside the heap.\<close>

definition first_used :: bitmap where
  "first_used = \<lparr>bits = 1 # replicate 8 0, btmp_bytes_len = 8\<rparr>"

definition fork_mem :: mem where
  "fork_mem = sample_mem\<lparr>
     user_pool := \<lparr>pool_bitmap = first_used, phy_addr_start = 0x142 * PG_SIZE, pool_size = 64 * PG_SIZE\<rparr>,
     userprog_vaddr := \<lparr>vaddr_bitmap = first_used, vaddr_start = 0x8048 * PG_SIZE\<rparr>,
     pde := (\<lambda>d. if 768 \<le> d \<and> d < 1024 then entry (0x80 * PG_SIZE) else if d = 32 then entry (0x81 * PG_SIZE) else 0),
     pte := (\<lambda>v. if v = 0xc0050 then entry (0x101 * PG_SIZE) else if v = 0x8048 then entry (0x142 * PG_SIZE) else 0)\<rparr>"

definition fork_pcb :: pcb where
  "fork_pcb = \<lparr>self_kstack = 0xc009e000, kstack = (\<lambda>i. of_nat i), pid = 7, parent_pid = 1, running_status = True,
     priority = 20, ticks = 15, elapsed_ticks = 3, tags_null = True, pcb_name = [105, 110, 105, 116] @ replicate 12 0,
     pgdir = 0xc0050 * PG_SIZE, pcb_vaddr = userprog_vaddr fork_mem, pcb_blocks = block_desc_init, blocks_at = 0,
     pcb_fds = [0, 1, 2, -1, -1, -1, -1, -1], waiting_sema = 0, stack_magic = 0x20240825\<rparr>"

definition fork_machine :: machine where
  "fork_machine = \<lparr>mm = fork_mem, store = (\<lambda>f. replicate PG_SIZE (of_nat f)), cr3 = 0x101 * PG_SIZE, spaces = (\<lambda>p. (\<lambda>d. 0, \<lambda>v. 0)),
     pg_ptr = 0xc0140 * PG_SIZE, pcbs = (\<lambda>t. fork_pcb), running = 0xc009e * PG_SIZE, next_pid = 7,
     all_threads = [0xc009e * PG_SIZE], second_list = [], third_list = [], the_tss = zero_tss, interrupts = True\<rparr>"

lemma first_used_ok: "bitmap_guarded first_used" "nbits first_used = 64" "allocated first_used = {0}"
proof -
  show "bitmap_guarded first_used" by (simp add: bitmap_guarded_def nbits_def first_used_def)
  show n: "nbits first_used = 64" by (simp add: nbits_def first_used_def)
  have "bit_set first_used i \<longleftrightarrow> i = 0" if "i < 64" for i
  proof (cases "i div 8")
    case 0
    then show ?thesis by (auto simp: bit_set_def first_used_def bit_1_iff)
  next
    case (Suc k)
    then have "k < 8" using that by simp
    then show ?thesis using Suc by (auto simp: bit_set_def first_used_def)
  qed
  then show "allocated first_used = {0}" unfolding allocated_def n by auto
qed

lemma fork_mem_parts:
  "pool_bitmap (the_pool pf fork_mem) = (case pf of PF_KERNEL \<Rightarrow> zeros 8 | PF_USER \<Rightarrow> first_used)"
  "vaddr_bitmap (the_vaddr pf fork_mem) = (case pf of PF_KERNEL \<Rightarrow> zeros 8 | PF_USER \<Rightarrow> first_used)"
  "pbase pf fork_mem = (case pf of PF_KERNEL \<Rightarrow> 0x102 | PF_USER \<Rightarrow> 0x142)"
  "vbase pf fork_mem = (case pf of PF_KERNEL \<Rightarrow> 0xc0100 | PF_USER \<Rightarrow> 0x8048)"
  by (cases pf; simp add: fork_mem_def sample_mem_def the_pool_def the_vaddr_def pbase_def vbase_def PG_SIZE_def)+

lemma fork_mem_sets:
  "owned PF_KERNEL fork_mem = {}" "owned PF_USER fork_mem = {0x8048}"
  "unowned PF_KERNEL fork_mem = {0xc0100..<0xc0140}" "unowned PF_USER fork_mem = {0x8049..<0x8088}"
  "frames PF_KERNEL fork_mem = {}" "frames PF_USER fork_mem = {0x142}"
  "free_frames PF_KERNEL fork_mem = {0x102..<0x142}" "free_frames PF_USER fork_mem = {0x143..<0x182}"
proof -
  have d: "{0..<64} - {0 :: nat} = {1..<64}" by auto
  show "owned PF_KERNEL fork_mem = {}" "owned PF_USER fork_mem = {0x8048}"
    "unowned PF_KERNEL fork_mem = {0xc0100..<0xc0140}" "unowned PF_USER fork_mem = {0x8049..<0x8088}"
    "frames PF_KERNEL fork_mem = {}" "frames PF_USER fork_mem = {0x142}"
    "free_frames PF_KERNEL fork_mem = {0x102..<0x142}" "free_frames PF_USER fork_mem = {0x143..<0x182}"
    by (simp_all add: owned_def frames_def unowned_def free_frames_def fork_mem_parts zeros_ok first_used_ok d image_add_atLeastLessThan)
qed

lemma fork_mem_tables:
  "present (pde fork_mem d) \<longleftrightarrow> 768 \<le> d \<and> d < 1024 \<or> d = 32" "present (pte fork_mem v) \<longleftrightarrow> v = 0xc0050 \<or> v = 0x8048"
  "table_frame fork_mem d = (if 768 \<le> d \<and> d < 1024 then 0x80 else if d = 32 then 0x81 else 0)"
  "page_frame fork_mem 0x8048 = 0x142" "page_frame fork_mem 0xc0050 = 0x101"
proof -
  have z: "frame_no 0 = 0" by (simp add: frame_no_def frame_bits_def)
  show "present (pde fork_mem d) \<longleftrightarrow> 768 \<le> d \<and> d < 1024 \<or> d = 32" "present (pte fork_mem v) \<longleftrightarrow> v = 0xc0050 \<or> v = 0x8048"
    by (auto simp: fork_mem_def)
  show "table_frame fork_mem d = (if 768 \<le> d \<and> d < 1024 then 0x80 else if d = 32 then 0x81 else 0)"
    "page_frame fork_mem 0x8048 = 0x142" "page_frame fork_mem 0xc0050 = 0x101"
    using frame_no_entry [of "0x80"] frame_no_entry [of "0x81"] frame_no_entry [of "0x142"] frame_no_entry [of "0x101"]
    by (simp_all add: table_frame_def page_frame_def fork_mem_def z)
qed

lemma fork_mem_inv: "mem_inv fork_mem {}"
proof -
  have "phy_addr_start (the_pool pf fork_mem) = pbase pf fork_mem * PG_SIZE"
    "vaddr_start (the_vaddr pf fork_mem) = vbase pf fork_mem * PG_SIZE" for pf
    by (cases pf; simp add: fork_mem_parts; simp add: fork_mem_def sample_mem_def the_pool_def the_vaddr_def)+
  then have lay: "layout_ok fork_mem"
    unfolding layout_ok_def fork_mem_parts by (auto simp: zeros_ok first_used_ok split: pool_flags.splits)
  have own: "mapped fork_mem v \<and> page_frame fork_mem v \<in> frames pf fork_mem" if "v \<in> owned pf fork_mem" for pf v
    using that by (cases pf) (auto simp: fork_mem_sets fork_mem_tables mapped_def)
  have un: "\<not> mapped fork_mem v" if "v \<in> unowned pf fork_mem" for pf v
    using that by (cases pf) (auto simp: fork_mem_sets fork_mem_tables mapped_def)
  have al: "all_owned fork_mem = {0x8048}" by (simp add: all_owned_def fork_mem_sets)
  have tab: "0 < table_frame fork_mem d \<and> table_frame fork_mem d \<notin> page_frame fork_mem ` {0x8048} \<and>
      (\<forall>pf. table_frame fork_mem d \<notin> free_frames pf fork_mem)" if "present (pde fork_mem d)" for d
  proof -
    have "table_frame fork_mem d = 0x80 \<or> table_frame fork_mem d = 0x81" using that by (auto simp: fork_mem_tables)
    moreover have "(0x80 :: nat) \<notin> free_frames pf fork_mem" "(0x81 :: nat) \<notin> free_frames pf fork_mem" for pf
      by (cases pf; simp add: fork_mem_sets)+
    ultimately show ?thesis by (elim disjE) (simp_all add: fork_mem_tables(4))
  qed
  show ?thesis
    unfolding mem_inv_def al using lay own un tab by auto
qed

lemma fork_machine_ready: "fork_ready fork_machine"
proof -
  have mm: "mm fork_machine = fork_mem" "pcbs fork_machine t = fork_pcb" "cr3 fork_machine = 0x101 * PG_SIZE"
    "next_dir fork_machine = 0xc0140" "running fork_machine = 0xc009e * PG_SIZE" for t
    by (simp_all add: fork_machine_def next_dir_def PG_SIZE_def)
  have tabs: "kernel_tables fork_mem" by (simp add: kernel_tables_def fork_mem_tables)
  have "frame_bits (pde fork_mem 768) \<noteq> 0"
    using mem_invD(7) [OF fork_mem_inv, of 768] by (auto simp: fork_mem_tables table_frame_def frame_no_def)
  moreover have "unat (frame_bits (pte fork_mem 0xc0050)) = 0x101 * PG_SIZE"
    using fork_mem_tables(5) by (simp add: frame_no_bits page_frame_def)
  moreover have "(0xc0050 * PG_SIZE) div PG_SIZE = 0xc0050" "PDE_IDX (0xc0050 * PG_SIZE) = 768" by (simp_all add: PG_SIZE_def PDE_IDX_def)
  ultimately have av: "addr_v2p (0xc0050 * PG_SIZE) fork_mem = Inr (0x101 * PG_SIZE)"
    using fork_mem_tables(1) [of 768] unfolding addr_v2p_def Let_def by (simp add: PG_SIZE_def)
  have dir: "\<exists>D. pgdir fork_pcb = D * PG_SIZE \<and> kernel_page_no D \<and> mapped fork_mem D \<and> addr_v2p (D * PG_SIZE) fork_mem = Inr (0x101 * PG_SIZE)"
    by (intro exI [of _ "0xc0050"] conjI av) (simp_all add: fork_pcb_def kernel_page_no_def mapped_def fork_mem_tables)
  have cr: "\<forall>q. 0x101 * PG_SIZE div PG_SIZE \<notin> free_frames q fork_mem"
    by (intro allI, rename_tac q, case_tac q) (simp_all add: fork_mem_sets PG_SIZE_def)
  have len: "btmp_bytes_len (vaddr_bitmap (userprog_vaddr fork_mem)) = 8" "bitmap_pages fork_mem = 1"
    by (simp_all add: bitmap_pages_def fork_mem_def first_used_def DIV_ROUND_UP_def PG_SIZE_def)
  have st: "\<exists>st. {st..<st + 2 * (1 + 1)} \<subseteq> unowned PF_KERNEL fork_mem"
    by (intro exI [of _ "0xc0100"]) (simp add: fork_mem_sets)
  have lists: "\<forall>t \<in> insert (running fork_machine) (set (third_list fork_machine) \<union> set (all_threads fork_machine)).
      t div PG_SIZE \<notin> unowned PF_KERNEL fork_mem"
    by (simp add: fork_machine_def fork_mem_sets PG_SIZE_def)
  have zl: "length (bits (zeros 8)) = 9" by (simp add: zeros_def)
  show ?thesis
    unfolding fork_ready_def mm len
    by (intro conjI fork_mem_inv tabs dir cr st lists)
      (simp_all add: fork_mem_parts fork_mem_sets fork_mem_tables mapped_def zeros_ok zl fork_machine_def fork_pcb_def)
qed

lemma fork_machine_files:
  "count_opens (pcb_fds (pcbs fork_machine (running fork_machine))) [3..<MAX_FILES_OPEN_PER_PROC] s = Inr s"
  by (simp add: fork_machine_def fork_pcb_def MAX_FILES_OPEN_PER_PROC_def upt_rec rd_def)

lemma fork_copies_memory_witness:
  "\<forall>K s. \<exists>r child C M'. sys_fork K fork_machine s = Inr (r, M', s) \<and> page_dir_activate child M' = Inr C \<and>
    load_page 0x8048 C = Inr (replicate PG_SIZE 0x42) \<and> load_page 0x8049 C = Inl Wild"
proof (intro allI)
  fix K s
  have mm: "mm fork_machine = fork_mem" by (simp add: fork_machine_def)
  have o: "0x8048 \<in> owned PF_USER (mm fork_machine)" "0x8049 \<in> unowned PF_USER (mm fork_machine)"
    by (simp_all add: mm fork_mem_sets)
  have l: "load_page 0x8048 fork_machine = Inr (replicate PG_SIZE 0x42)"
    by (simp add: load_page_def fork_machine_def mapped_def fork_mem_tables)
  show "\<exists>r child C M'. sys_fork K fork_machine s = Inr (r, M', s) \<and> page_dir_activate child M' = Inr C \<and>
      load_page 0x8048 C = Inr (replicate PG_SIZE 0x42) \<and> load_page 0x8049 C = Inl Wild"
    using fork_copies_memory [OF fork_machine_ready fork_machine_files, of K s] o unfolding l [symmetric] by blast
qed

lemma fork_child_resumes_witness:
  "\<forall>K s. \<exists>child M'. sys_fork K fork_machine s = Inr (8, M', s) \<and>
    switched_to (pcbs M' child) child = (intr_exit K, 1005) \<and>
    user_registers (kstack (pcbs M' child)) 1005 =
      [1006, 1007, 1008, 1009, 1010, 1011, 1012, 0, 1014, 1015, 1016, 1017, 1019, 1020, 1021, 1022, 1023]"
proof (intro allI)
  fix K s
  have up: "[1..<13] @ [14..<19] = [1, 2, 3, 4, 5, 6, 7, 8, 9, 10, 11, 12, 14, 15, 16, 17, 18 :: nat]"
    by (simp add: upt_rec)
  have r: "(user_registers (kstack (pcbs fork_machine (running fork_machine))) 1005)[7 := 0] =
      [1006, 1007, 1008, 1009, 1010, 1011, 1012, 0, 1014, 1015, 1016, 1017, 1019, 1020, 1021, 1022, 1023]"
    unfolding user_registers_def up by (simp add: fork_machine_def fork_pcb_def)
  have n: "next_of (next_pid fork_machine) = 8" by (simp add: next_of_def fork_machine_def)
  show "\<exists>child M'. sys_fork K fork_machine s = Inr (8, M', s) \<and>
      switched_to (pcbs M' child) child = (intr_exit K, 1005) \<and>
      user_registers (kstack (pcbs M' child)) 1005 =
        [1006, 1007, 1008, 1009, 1010, 1011, 1012, 0, 1014, 1015, 1016, 1017, 1019, 1020, 1021, 1022, 1023]"
    using fork_child_resumes [OF fork_machine_ready fork_machine_files, of K s] unfolding r n Let_def by metis
qed

end
