(* ===== verification/ExecSpec.thy ===== *)
theory ExecSpec
  imports Exec OpenFile ForkMain
begin

text \<open>
  Loading a segment puts the bytes of the file at their addresses; and the program headers of real
  executables do not fit in the variable they are read to.
\<close>

section \<open>A page at a given address\<close>

lemma take_page_bit:
  assumes inv: "mem_inv m {}" and v: "v \<in> unowned pf m"
  obtains b where "bitmap_set (vaddr_bitmap (the_vaddr pf m)) (v - vbase pf m) 1 = Inr b"
    "mem_inv (set_vaddr pf ((the_vaddr pf m)\<lparr>vaddr_bitmap := b\<rparr>) m) {v}"
    "\<And>q. owned q (set_vaddr pf ((the_vaddr pf m)\<lparr>vaddr_bitmap := b\<rparr>) m) =
       (if q = pf then insert v (owned pf m) else owned q m)"
    "\<And>q. unowned q (set_vaddr pf ((the_vaddr pf m)\<lparr>vaddr_bitmap := b\<rparr>) m) =
       (if q = pf then unowned pf m - {v} else unowned q m)"
proof -
  note D = mem_invD [OF inv]
  let ?b = "vaddr_bitmap (the_vaddr pf m)" and ?v = "vbase pf m"
  have g: "bitmap_guarded ?b" using D(1) by (simp add: layout_ok_def)
  have i: "?v \<le> v" "v - ?v < nbits ?b" "v - ?v \<notin> allocated ?b" using v by (auto simp: unowned_def)
  obtain b where b: "bitmap_set ?b (v - ?v) 1 = Inr b" "bitmap_guarded b" "nbits b = nbits ?b"
    "allocated b = insert (v - ?v) (allocated ?b)"
    using bm.put_works [OF g i(2), of 1] by auto
  let ?m = "set_vaddr pf ((the_vaddr pf m)\<lparr>vaddr_bitmap := b\<rparr>) m"
  have own: "owned q ?m = (if q = pf then insert v (owned pf m) else owned q m)" for q
    unfolding set_vaddr_owned(1) [OF b(3,4)] using i(1) by (simp add: owned_def)
  have "(\<lambda>i. ?v + i) ` ({0..<nbits ?b} - insert (v - ?v) (allocated ?b)) = unowned pf m - {v}"
    unfolding unowned_def using i(1) by auto
  then have un: "unowned q ?m = (if q = pf then unowned pf m - {v} else unowned q m)" for q
    unfolding set_vaddr_owned(2) [OF b(3,4)] by simp
  have all: "all_owned ?m = insert v (all_owned m)"
    by (auto simp: all_owned_def own split: if_splits) (metis pool_flags.exhaust)+
  have no: "v \<notin> owned q m" for q
    using owned_disjoint [OF D(1), of v q pf] v owned_unowned [of pf m] by blast
  have inv': "mem_inv ?m {v}"
  proof (rule mem_inv_pages [OF inv set_vaddr_layout [OF D(1) b(2,3)] refl])
    show "all_owned ?m - {v} = all_owned m - {}" using all no by (auto simp: all_owned_def)
    show "{v} \<subseteq> all_owned ?m" using all by simp
    show "owned q ?m - {v} \<subseteq> owned q m - {}" for q using own [of q] by auto
    show "w \<in> unowned q ?m \<Longrightarrow> \<not> mapped m w" for q w using un [of q] D(4) [of w q] by (auto split: if_splits)
    show "w \<in> {v} \<Longrightarrow> \<not> mapped m w" for w using D(4) v by simp
  qed
  show thesis by (rule that [OF b(1) inv' own un])
qed

lemma get_user_page_ok:
  assumes inv: "mem_inv m {}" and v: "v \<in> unowned PF_USER m" "vbase PF_USER m < v"
    and room: "free_frames PF_USER m \<noteq> {}" "free_frames PF_KERNEL m \<noteq> {}"
  obtains f m' where "get_a_page PF_USER (v * PG_SIZE) m = Inr (Some (v * PG_SIZE), m')" "mem_inv m' {}"
    "owned PF_USER m' = insert v (owned PF_USER m)" "unowned PF_USER m' = unowned PF_USER m - {v}"
    "\<And>w. w \<noteq> v \<Longrightarrow> mapped m w \<Longrightarrow> mapped m' w \<and> page_frame m' w = page_frame m w"
    "vbase PF_USER m' = vbase PF_USER m" "mapped m' v"
    "card (free_frames PF_KERNEL m) \<le> card (free_frames PF_KERNEL m') + 1"
    "card (free_frames PF_USER m) = card (free_frames PF_USER m') + 1"
proof -
  note D = mem_invD [OF inv]
  let ?va = "the_vaddr PF_USER m"
  obtain b where b: "bitmap_set (vaddr_bitmap ?va) (v - vbase PF_USER m) 1 = Inr b"
    "mem_inv (set_vaddr PF_USER (?va\<lparr>vaddr_bitmap := b\<rparr>) m) {v}"
    "\<And>q. owned q (set_vaddr PF_USER (?va\<lparr>vaddr_bitmap := b\<rparr>) m) = (if q = PF_USER then insert v (owned PF_USER m) else owned q m)"
    "\<And>q. unowned q (set_vaddr PF_USER (?va\<lparr>vaddr_bitmap := b\<rparr>) m) = (if q = PF_USER then unowned PF_USER m - {v} else unowned q m)"
    by (rule take_page_bit [OF inv v(1)]) (rule that)
  define m1 where "m1 = set_vaddr PF_USER (?va\<lparr>vaddr_bitmap := b\<rparr>) m"
  note b = b [folded m1_def]
  have e: "free_frames q m1 = free_frames q m" "mapped m1 = mapped m" "page_frame m1 = page_frame m" "vbase q m1 = vbase q m" for q
    by (cases q; simp add: m1_def vbase_def)+
  have v1: "v \<in> {v}" "v \<in> owned PF_USER m1" using b(3) by simp_all
  have r1: "free_frames PF_USER m1 \<noteq> {}" "free_frames PF_KERNEL m1 \<noteq> {}" using room e by simp_all
  obtain f m' where m': "get_a_page_without_opvaddrbitmap PF_USER (v * PG_SIZE) m1 = Inr (Some (v * PG_SIZE), m')"
    "mem_inv m' ({v} - {v})" "same_pages m1 m'" "f \<in> free_frames PF_USER m1" "mapped m' v" "page_frame m' v = f"
    "\<And>w. w \<noteq> v \<Longrightarrow> mapped m1 w \<Longrightarrow> mapped m' w \<and> page_frame m' w = page_frame m1 w"
    "\<And>q. frames q m1 \<subseteq> frames q m'" "\<And>q. free_frames q m' \<subseteq> free_frames q m1"
    "card (free_frames PF_KERNEL m1) \<le> card (free_frames PF_KERNEL m') + 1"
    "card (free_frames PF_USER m1) = card (free_frames PF_USER m') + 1"
    "\<And>d. d \<noteq> v div 1024 \<Longrightarrow> pde m' d = pde m1 d" "\<And>w. w div 1024 \<noteq> v div 1024 \<Longrightarrow> pte m' w = pte m1 w"
    by (rule map_user_page [OF b(2) v1 r1]) (rule that)
  have vs: "vaddr_start ?va = vbase PF_USER m * PG_SIZE" using D(1) by (simp add: layout_ok_def)
  have lt: "v < 2 ^ 20" using page_range(2) [OF D(1), of v PF_USER] v(1) by simp
  have "int (v * PG_SIZE) - int (vaddr_start ?va) = int ((v - vbase PF_USER m) * PG_SIZE)"
    using v(2) vs by (simp add: of_nat_diff diff_mult_distrib left_diff_distrib)
  moreover have "(v - vbase PF_USER m) * PG_SIZE < 2 ^ 32" using lt by (simp add: PG_SIZE_def)
  ultimately have idx: "uint32 (int (v * PG_SIZE) - int (vaddr_start ?va)) div PG_SIZE = v - vbase PF_USER m"
    by (simp add: PG_SIZE_def)
  have run: "get_a_page PF_USER (v * PG_SIZE) m = Inr (Some (v * PG_SIZE), m')"
    using m'(1) v(2) b(1) unfolding get_a_page_def Let_def idx get_a_page_without_opvaddrbitmap_def
    by (simp add: m1_def)
  have o: "owned PF_USER m' = insert v (owned PF_USER m)" "unowned PF_USER m' = unowned PF_USER m - {v}"
    "vbase PF_USER m' = vbase PF_USER m"
    using same_pagesD [OF m'(3)] b(3,4) e(4) by simp_all
  have inv': "mem_inv m' {}" using m'(2) by simp
  have keep: "mapped m' w \<and> page_frame m' w = page_frame m w" if "w \<noteq> v" "mapped m w" for w
    using m'(7) that e by simp
  show thesis
    by (rule that [OF run inv' o(1,2) keep o(3) m'(5)]) (use m'(10,11) e in simp_all)
qed

text \<open>The pages of a segment: those that are missing are made, the others stay.\<close>

lemma map_segment_ok:
  assumes "mem_inv m {}" and "{v..<v + n} \<subseteq> owned PF_USER m \<union> unowned PF_USER m" and "vbase PF_USER m < v"
    and "n \<le> card (free_frames PF_USER m)" "n \<le> card (free_frames PF_KERNEL m)"
  shows "\<exists>m'. map_segment (v * PG_SIZE) n m = Inr (True, m') \<and> mem_inv m' {} \<and> {v..<v + n} \<subseteq> owned PF_USER m' \<and>
    owned PF_USER m' \<union> unowned PF_USER m' = owned PF_USER m \<union> unowned PF_USER m \<and>
    (\<forall>w. mapped m w \<longrightarrow> mapped m' w \<and> page_frame m' w = page_frame m w)"
  using assms
proof (induction n arbitrary: v m)
  case (Suc n)
  note D = mem_invD [OF Suc.prems(1)]
  have "v \<in> {v..<v + Suc n}" by simp
  then have v: "v \<in> owned PF_USER m \<union> unowned PF_USER m" using Suc.prems(2) by blast
  have step: "\<exists>m1. (if \<not> mapped m v then andthen (get_a_page PF_USER (v * PG_SIZE) m) (\<lambda>(a, m). Inr (a \<noteq> None \<and> a \<noteq> Some 0, m))
        else Inr (True, m)) = Inr (True, m1) \<and> mem_inv m1 {} \<and> v \<in> owned PF_USER m1 \<and>
      owned PF_USER m \<subseteq> owned PF_USER m1 \<and> owned PF_USER m1 \<union> unowned PF_USER m1 = owned PF_USER m \<union> unowned PF_USER m \<and>
      vbase PF_USER m1 = vbase PF_USER m \<and> (\<forall>w. mapped m w \<longrightarrow> mapped m1 w \<and> page_frame m1 w = page_frame m w) \<and>
      n \<le> card (free_frames PF_USER m1) \<and> n \<le> card (free_frames PF_KERNEL m1)"
  proof (cases "mapped m v")
    case True
    then have "v \<in> owned PF_USER m" using v D(4) by blast
    then show ?thesis using True Suc.prems by (intro exI [of _ m]) simp
  next
    case False
    have u: "v \<in> unowned PF_USER m" using v False D(3) [of v PF_USER] by auto
    have r: "free_frames PF_USER m \<noteq> {}" "free_frames PF_KERNEL m \<noteq> {}" using Suc.prems(4,5) by auto
    obtain f m1 where m1: "get_a_page PF_USER (v * PG_SIZE) m = Inr (Some (v * PG_SIZE), m1)" "mem_inv m1 {}"
      "owned PF_USER m1 = insert v (owned PF_USER m)" "unowned PF_USER m1 = unowned PF_USER m - {v}"
      "\<And>w. w \<noteq> v \<Longrightarrow> mapped m w \<Longrightarrow> mapped m1 w \<and> page_frame m1 w = page_frame m w"
      "vbase PF_USER m1 = vbase PF_USER m" "mapped m1 v"
      "card (free_frames PF_KERNEL m) \<le> card (free_frames PF_KERNEL m1) + 1"
      "card (free_frames PF_USER m) = card (free_frames PF_USER m1) + 1"
      by (rule get_user_page_ok [OF Suc.prems(1) u Suc.prems(3) r]) (rule that)
    have "v * PG_SIZE \<noteq> 0" using Suc.prems(3) by (simp add: PG_SIZE_def)
    moreover have "mapped m1 w \<and> page_frame m1 w = page_frame m w" if "mapped m w" for w
      using m1(5) [of w] that False by blast
    ultimately show ?thesis
      using False m1(1-4,6,8,9) Suc.prems(4,5) u by (intro exI [of _ m1]) auto
  qed
  then obtain m1 where m1: "(if \<not> mapped m v then andthen (get_a_page PF_USER (v * PG_SIZE) m) (\<lambda>(a, m). Inr (a \<noteq> None \<and> a \<noteq> Some 0, m))
        else Inr (True, m)) = Inr (True, m1)" "mem_inv m1 {}" "v \<in> owned PF_USER m1" "owned PF_USER m \<subseteq> owned PF_USER m1"
      "owned PF_USER m1 \<union> unowned PF_USER m1 = owned PF_USER m \<union> unowned PF_USER m" "vbase PF_USER m1 = vbase PF_USER m"
      "\<forall>w. mapped m w \<longrightarrow> mapped m1 w \<and> page_frame m1 w = page_frame m w"
      "n \<le> card (free_frames PF_USER m1)" "n \<le> card (free_frames PF_KERNEL m1)" by blast
  have nx: "Suc v < 2 ^ 20" using page_range(2) [OF D(1) v] by simp
  have sub: "{Suc v..<Suc v + n} \<subseteq> owned PF_USER m1 \<union> unowned PF_USER m1"
    unfolding m1(5) by (rule subset_trans [OF _ Suc.prems(2)]) auto
  have vb: "vbase PF_USER m1 < Suc v" using m1(6) Suc.prems(3) by simp
  obtain m' where m': "map_segment (Suc v * PG_SIZE) n m1 = Inr (True, m')" "mem_inv m' {}" "{Suc v..<Suc v + n} \<subseteq> owned PF_USER m'"
    "owned PF_USER m' \<union> unowned PF_USER m' = owned PF_USER m1 \<union> unowned PF_USER m1"
    "\<forall>w. mapped m1 w \<longrightarrow> mapped m' w \<and> page_frame m' w = page_frame m1 w"
    using Suc.IH [OF m1(2) sub vb m1(8,9)] by blast
  have "mapped m' v" using m'(5) mem_invD(3) [OF m1(2,3)] by simp
  then have v': "v \<in> owned PF_USER m'" using m'(4) mem_invD(4) [OF m'(2), of v PF_USER] m1(3) by blast
  have "{v..<v + Suc n} = insert v {Suc v..<Suc v + n}" by auto
  then have "{v..<v + Suc n} \<subseteq> owned PF_USER m'" by (rule ssubst) (simp only: insert_subset v' m'(3) simp_thms)
  have pg: "v * PG_SIZE div PG_SIZE = v" by (simp add: PG_SIZE_def)
  have run: "map_segment (v * PG_SIZE) (Suc n) m = Inr (True, m')"
    unfolding map_segment.simps next_page_addr [OF nx] pg m1(1) by (simp add: m'(1) del: mult_Suc)
  have keep: "\<forall>w. mapped m w \<longrightarrow> mapped m' w \<and> page_frame m' w = page_frame m w" using m1(7) m'(5) by simp
  show ?case
    by (rule exI [of _ m'])
      (intro conjI run m'(2) keep; fact \<open>{v..<v + Suc n} \<subseteq> owned PF_USER m'\<close> trans [OF m'(4) m1(5)])
qed simp

section \<open>Writing into the process\<close>

lemma fetch_mapped: "mapped (mm M) (a div PG_SIZE) \<Longrightarrow> fetch a M = rd (store M (page_frame (mm M) (a div PG_SIZE))) (a mod PG_SIZE)"
  by (simp add: fetch_def load_page_def)

lemma poke1_ok:
  assumes "mapped (mm M) (a div PG_SIZE)" and "\<And>f. length (store M f) = PG_SIZE"
    and inj: "inj_on (page_frame (mm M)) V" and V: "a div PG_SIZE \<in> V"
  obtains \<sigma> where "poke1 a b M = Inr (M\<lparr>store := \<sigma>\<rparr>)" "\<And>f. length (\<sigma> f) = PG_SIZE"
    "\<And>x. x div PG_SIZE \<in> V \<Longrightarrow> mapped (mm M) (x div PG_SIZE) \<Longrightarrow> fetch x (M\<lparr>store := \<sigma>\<rparr>) = (if x = a then Inr b else fetch x M)"
proof -
  let ?f = "page_frame (mm M) (a div PG_SIZE)"
  let ?\<sigma> = "(store M)(?f := (store M ?f)[a mod PG_SIZE := b])"
  have p: "0 < PG_SIZE" by (simp add: PG_SIZE_def)
  have run: "poke1 a b M = Inr (M\<lparr>store := ?\<sigma>\<rparr>)"
    using assms(1,2) p by (simp add: poke1_def load_page_def store_page_def wr_def)
  have len: "length (?\<sigma> f) = PG_SIZE" for f using assms(2) by simp
  have rest: "fetch x (M\<lparr>store := ?\<sigma>\<rparr>) = (if x = a then Inr b else fetch x M)"
    if x: "x div PG_SIZE \<in> V" "mapped (mm M) (x div PG_SIZE)" for x
  proof (cases "x div PG_SIZE = a div PG_SIZE")
    case True
    then have "x mod PG_SIZE = a mod PG_SIZE \<longleftrightarrow> x = a" by (metis mod_div_mult_eq)
    then show ?thesis using x True assms(2) p by (auto simp: fetch_mapped rd_def nth_list_update)
  next
    case False
    then have "page_frame (mm M) (x div PG_SIZE) \<noteq> ?f" "x \<noteq> a" using inj x(1) V by (auto simp: inj_on_def)
    then show ?thesis using x by (simp add: fetch_mapped)
  qed
  show thesis by (rule that [OF run len rest])
qed

lemma poke_ok:
  assumes "\<And>f. length (store M f) = PG_SIZE" and "inj_on (page_frame (mm M)) V" and "\<And>v. v \<in> V \<Longrightarrow> mapped (mm M) v"
    and "\<And>k. k < length bs \<Longrightarrow> (a + k) div PG_SIZE \<in> V" and "a + length bs < 2 ^ 32"
  shows "\<exists>\<sigma>. poke a bs M = Inr (M\<lparr>store := \<sigma>\<rparr>) \<and> (\<forall>f. length (\<sigma> f) = PG_SIZE) \<and>
    (\<forall>x. x div PG_SIZE \<in> V \<longrightarrow> fetch x (M\<lparr>store := \<sigma>\<rparr>) =
      (if a \<le> x \<and> x < a + length bs then Inr (bs ! (x - a)) else fetch x M))"
  using assms
proof (induction bs arbitrary: a M)
  case Nil
  show ?case by (rule exI [of _ "store M"]) (use Nil.prems(1) in auto)
next
  case (Cons b bs)
  have a: "a div PG_SIZE \<in> V" using Cons.prems(4) [of 0] by simp
  obtain \<sigma> where \<sigma>: "poke1 a b M = Inr (M\<lparr>store := \<sigma>\<rparr>)" "\<And>f. length (\<sigma> f) = PG_SIZE"
    "\<And>x. x div PG_SIZE \<in> V \<Longrightarrow> mapped (mm M) (x div PG_SIZE) \<Longrightarrow> fetch x (M\<lparr>store := \<sigma>\<rparr>) = (if x = a then Inr b else fetch x M)"
    by (rule poke1_ok [OF Cons.prems(3) [OF a] Cons.prems(1,2) a]) (rule that)
  let ?M = "M\<lparr>store := \<sigma>\<rparr>"
  have pg: "\<And>k. k < length bs \<Longrightarrow> (a + 1 + k) div PG_SIZE \<in> V" using Cons.prems(4) [of "Suc k" for k] by simp
  have lt: "a + 1 + length bs < 2 ^ 32" using Cons.prems(5) by simp
  obtain \<tau> where \<tau>: "poke (a + 1) bs ?M = Inr (?M\<lparr>store := \<tau>\<rparr>)" "\<forall>f. length (\<tau> f) = PG_SIZE"
    "\<forall>x. x div PG_SIZE \<in> V \<longrightarrow> fetch x (?M\<lparr>store := \<tau>\<rparr>) =
      (if a + 1 \<le> x \<and> x < a + 1 + length bs then Inr (bs ! (x - (a + 1))) else fetch x ?M)"
    using Cons.IH [of ?M "a + 1"] \<sigma>(2) Cons.prems(2,3) pg lt by auto
  have step: "(a + 1) mod 2 ^ 32 = a + 1" using lt by simp
  have "poke a (b # bs) M = Inr (M\<lparr>store := \<tau>\<rparr>)" using \<sigma>(1) \<tau>(1) unfolding poke.simps step by simp
  moreover have "fetch x (M\<lparr>store := \<tau>\<rparr>) = (if a \<le> x \<and> x < a + length (b # bs) then Inr ((b # bs) ! (x - a)) else fetch x M)"
    if x: "x div PG_SIZE \<in> V" for x
    using \<tau>(3) x \<sigma>(3) [OF x Cons.prems(3) [OF x]] by (auto simp: nth_Cons' not_less)
  ultimately show ?case using \<tau>(2) by blast
qed

section \<open>Segments\<close>

lemma occupied_pages:
  assumes "vaddr + filesize \<le> 2 ^ 32 - PG_SIZE" and "k < filesize"
  shows "(vaddr + k) div PG_SIZE \<in> {vaddr div PG_SIZE..<vaddr div PG_SIZE + occupy_pages filesize vaddr}"
proof -
  define q r where "q = vaddr div PG_SIZE" and "r = vaddr mod PG_SIZE"
  have v: "vaddr = q * PG_SIZE + r" "r < PG_SIZE" by (simp_all add: q_def r_def PG_SIZE_def)
  have d: "(vaddr + k) div PG_SIZE = q + (r + k) div PG_SIZE"
    unfolding v(1) by (simp add: PG_SIZE_def add.assoc)
  have "(r + k) div PG_SIZE < occupy_pages filesize vaddr"
  proof (cases "filesize > PG_SIZE - r")
    case False
    then have "(r + k) div PG_SIZE = 0" using assms(2) v(2) by simp
    then show ?thesis using False by (simp add: occupy_pages_def r_def)
  next
    case True
    have lt: "filesize - (PG_SIZE - r) + PG_SIZE - 1 < 2 ^ 32" using assms(1) v by (simp add: PG_SIZE_def)
    have sm: "(filesize - (PG_SIZE - r) + PG_SIZE - 1) div PG_SIZE + 1 < 2 ^ 32"
      using lt by (simp add: PG_SIZE_def)
    have "occupy_pages filesize vaddr = (filesize - (PG_SIZE - r) + PG_SIZE - 1) div PG_SIZE + 1"
      using True unfolding occupy_pages_def Let_def r_def [symmetric] mod_less [OF lt] mod_less [OF sm] by (rule if_P)
    also have "filesize - (PG_SIZE - r) + PG_SIZE - 1 = filesize + r - 1" using True v(2) by simp
    finally have o: "occupy_pages filesize vaddr = (filesize + r - 1) div PG_SIZE + 1" .
    have "(r + k) div PG_SIZE \<le> (filesize + r - 1) div PG_SIZE" by (rule div_le_mono) (use assms(2) in simp)
    then show ?thesis unfolding o by simp
  qed
  then show ?thesis unfolding d q_def [symmetric] by simp
qed

text \<open>What the process has room for: the addresses of the segment are pages of its pool, and there
  are frames for all of them and their tables.\<close>

definition segment_room :: "nat \<Rightarrow> nat \<Rightarrow> mem \<Rightarrow> bool" where
  "segment_room filesize vaddr m \<longleftrightarrow>
     vbase PF_USER m < vaddr div PG_SIZE \<and> vaddr + filesize \<le> 2 ^ 32 - PG_SIZE \<and>
     {vaddr div PG_SIZE..<vaddr div PG_SIZE + occupy_pages filesize vaddr} \<subseteq> owned PF_USER m \<union> unowned PF_USER m \<and>
     occupy_pages filesize vaddr \<le> card (free_frames PF_USER m) \<and> occupy_pages filesize vaddr \<le> card (free_frames PF_KERNEL m)"

text \<open>C15: \<^verbatim>\<open>segment_load\<close> puts the bytes of the file at the addresses of the segment, over pages
  that were there and pages it makes; the other bytes of the process and the invariant of the
  allocator stay, and the descriptor is behind what was read.\<close>

theorem segment_load_places:
  assumes inv: "mem_inv (mm M) {}" and st: "\<And>f. length (store M f) = PG_SIZE"
    and room: "segment_room filesize vaddr (mm M)"
    and o: "open_at s fd g h p" "2 < fd" and w: "whole_file s h i"
    and size: "offset < i_size i" "0 < filesize" "filesize \<le> 2 ^ 16"
  shows "\<exists>M'. segment_load fd offset filesize vaddr M s =
      Inr (True, M', moved s g (offset + min filesize (i_size i - offset))) \<and> mem_inv (mm M') {} \<and>
    (\<forall>k < min filesize (i_size i - offset). fetch (vaddr + k) M' = Inr (fbyte s i (offset + k))) \<and>
    (\<forall>x. x div PG_SIZE \<in> owned PF_USER (mm M) \<longrightarrow>
      \<not> (vaddr \<le> x \<and> x < vaddr + min filesize (i_size i - offset)) \<longrightarrow> fetch x M' = fetch x M)"
proof -
  let ?n = "occupy_pages filesize vaddr" and ?v = "vaddr div PG_SIZE" and ?c = "min filesize (i_size i - offset)"
  note R = room [unfolded segment_room_def]
  obtain m' where m': "map_segment (?v * PG_SIZE) ?n (mm M) = Inr (True, m')" "mem_inv m' {}" "{?v..<?v + ?n} \<subseteq> owned PF_USER m'"
    "owned PF_USER m' \<union> unowned PF_USER m' = owned PF_USER (mm M) \<union> unowned PF_USER (mm M)"
    "\<forall>w. mapped (mm M) w \<longrightarrow> mapped m' w \<and> page_frame m' w = page_frame (mm M) w"
    using map_segment_ok [OF inv, of ?v ?n] R by blast
  note D = mem_invD [OF inv] and D' = mem_invD [OF m'(2)]
  let ?M = "M\<lparr>mm := m'\<rparr>" and ?V = "owned PF_USER m'" and ?bs = "fbytes s i offset (offset + ?c)"
  have sz: "i_size i \<le> 6144" using w by (simp add: whole_file_def)
  have off: "uint32 (int offset) = offset" using size(1) sz by (subst uint32_id) auto
  have seek: "user_file_seekp fd (int32 (int offset)) SEEK_SET s = Inr (int32 (int offset), moved s g offset)"
    using seek_step [OF o(1) w o(2), of offset] size(1) unfolding off by simp
  have read: "user_file_read (running M) fd filesize (moved s g offset) = Inr (int ?c, ?bs, moved s g (offset + ?c))"
    using read_step [OF open_at_moved [OF o(1), of offset], where i = i and t = "running M"] w size o(1)
    by (simp add: moved_moved open_at_def)
  have len: "length ?bs = ?c" by (simp add: fbytes_def)
  have inj: "inj_on (page_frame (mm ?M)) ?V" using D'(6) by (auto simp: all_owned_def intro: inj_on_subset)
  have map: "mapped (mm ?M) v" if "v \<in> ?V" for v using D'(3) [OF that] by simp
  have pages: "(vaddr + k) div PG_SIZE \<in> ?V" if "k < length ?bs" for k
    using occupied_pages [of vaddr filesize k] R that m'(3) unfolding len by auto
  have end32: "vaddr + length ?bs < 2 ^ 32" 
  proof -
    have "vaddr + ?c \<le> vaddr + filesize" by simp
    also have "\<dots> \<le> 2 ^ 32 - PG_SIZE" using R by blast
    also have "(2 ^ 32 - PG_SIZE :: nat) < 2 ^ 32" by (simp add: PG_SIZE_def)
    finally show ?thesis unfolding len .
  qed
  obtain \<sigma> where \<sigma>: "poke vaddr ?bs ?M = Inr (?M\<lparr>store := \<sigma>\<rparr>)"
    "\<And>x. x div PG_SIZE \<in> ?V \<Longrightarrow> fetch x (?M\<lparr>store := \<sigma>\<rparr>) =
      (if vaddr \<le> x \<and> x < vaddr + length ?bs then Inr (?bs ! (x - vaddr)) else fetch x ?M)"
    using poke_ok [of ?M ?V ?bs vaddr] st inj map pages end32 by auto
  let ?M' = "?M\<lparr>store := \<sigma>\<rparr>"
  have run: "segment_load fd offset filesize vaddr M s = Inr (True, ?M', moved s g (offset + ?c))"
    unfolding segment_load_def m'(1) Let_def by (simp add: seek read \<sigma>(1))
  have new: "fetch (vaddr + k) ?M' = Inr (fbyte s i (offset + k))" if "k < ?c" for k
    using \<sigma>(2) [OF pages, of k] that unfolding len by (simp add: fbytes_def)
  have old: "fetch x ?M' = fetch x M"
    if "x div PG_SIZE \<in> owned PF_USER (mm M)" "\<not> (vaddr \<le> x \<and> x < vaddr + ?c)" for x
  proof -
    have mp: "mapped (mm M) (x div PG_SIZE)" using D(3) that(1) by simp
    then have "x div PG_SIZE \<in> ?V" using that(1) m'(4,5) D'(4) by blast
    from \<sigma>(2) [OF this] show ?thesis using that(2) mp m'(5) unfolding len by (simp add: fetch_mapped)
  qed
  show ?thesis by (rule exI [of _ ?M']) (intro conjI allI impI run new old; simp add: m'(2))
qed

section \<open>Program headers\<close>

text \<open>C34: the program headers of an ELF file have 32 bytes, the variable \<^verbatim>\<open>load\<close> reads them to
  has 28: reading the first one writes beyond it.\<close>

theorem program_header_overruns:
  assumes o: "open_at s fd g h p" "2 < fd" and w: "whole_file s h i"
    and e: "e_phentsize E = 32" "off + 32 \<le> i_size i" and l: "length prog = PHDR_LEN"
  shows "load_segments fd E (Suc n) off prog M s = Inl Wild"
proof -
  have sz: "i_size i \<le> 6144" using w by (simp add: whole_file_def)
  have off: "uint32 (int off) = off" using e(2) sz by (subst uint32_id) auto
  have seek: "user_file_seekp fd (int32 (int off)) SEEK_SET s = Inr (int32 (int off), moved s g off)"
    using seek_step [OF o(1) w o(2), of off] e(2) unfolding off by simp
  have read: "user_file_read (running M) fd 32 (moved s g off) = Inr (32, fbytes s i off (off + 32), moved s g (off + 32))"
    using read_step [OF open_at_moved [OF o(1), of off], where i = i and t = "running M" and n = 32] w e(2) o(1)
    by (simp add: moved_moved open_at_def)
  show ?thesis by (simp add: seek e(1) read put_at_def l PHDR_LEN_def fbytes_def)
qed

section \<open>A file and a process\<close>

definition exec_inode :: inode where
  "exec_inode = \<lparr>i_no = 3, i_size = 300, i_open_cnts = 1, flags = 0, i_sectors = 700 # replicate 12 0\<rparr>"

definition exec_fs :: fs where
  "exec_fs = sample_fs\<lparr>disk := (\<lambda>_. replicate 512 0x90), block_bitmap := \<lparr>bits = 1 # replicate 599 0, btmp_bytes_len = 2\<rparr>,
     inodes := [1 \<mapsto> exec_inode], fd_table := [0, 1, 2, 5, -1, -1, -1, -1],
     file_table := (replicate 32 \<lparr>fd_pos = 0, fd_flag = 0, fd_inode = Nothing\<rparr>)
       [5 := \<lparr>fd_pos = 0, fd_flag = 0, fd_inode = Inode_at 1\<rparr>]\<rparr>"

lemma exec_fs_file: "open_at exec_fs 3 5 1 0" "whole_file exec_fs 1 exec_inode"
proof -
  show "open_at exec_fs 3 5 1 0" by (simp add: open_at_def exec_fs_def PIPE_FLAG_def)
  have n: "nbits (block_bitmap exec_fs) = 16" by (simp add: exec_fs_def nbits_def)
  have "bit_set (block_bitmap exec_fs) r \<longleftrightarrow> r = 0" if "r < 16" for r
    using that by (cases "r div 8") (auto simp: exec_fs_def bit_set_def bit_1_iff)
  then have a: "allocated (block_bitmap exec_fs) = {0}" unfolding allocated_def n by auto
  have f: "free_blocks exec_fs = {1..<16}" unfolding free_blocks_def a n by auto
  have ms: "missing exec_inode = {1..<12}" by (auto simp: missing_def exec_inode_def nth_Cons')
  have ok: "fs_ok exec_fs" by (auto simp: fs_ok_def sample_fs_def exec_fs_def bitmap_guarded_def nbits_def max_lba_def)
  have u: "used_block exec_fs 700" unfolding used_block_def a by (simp add: exec_fs_def sample_fs_def)
  have "direct_file exec_fs 1 exec_inode"
    unfolding direct_file_def ms f using ok u by (auto simp: exec_inode_def nth_Cons' exec_fs_def)
  then show "whole_file exec_fs 1 exec_inode"
    by (auto simp: whole_file_def exec_fs_def heap_ok_def sample_fs_def exec_inode_def nth_Cons')
qed

lemma program_header_overruns_witness:
  "\<forall>M. load_segments 3 (ehdr_of (replicate 42 0 @ [32, 0] @ replicate 8 0)) 2 52 (replicate 28 0) M exec_fs = Inl Wild"
proof
  fix M
  have e: "e_phentsize (ehdr_of (replicate 42 0 @ [32, 0] @ replicate 8 0)) = 32"
    by (simp add: ehdr_of_def half_at_def nth_append)
  have "load_segments 3 (ehdr_of (replicate 42 0 @ [32, 0] @ replicate 8 0)) (Suc 1) 52 (replicate 28 0) M exec_fs = Inl Wild"
    by (rule program_header_overruns [OF exec_fs_file(1) _ exec_fs_file(2) e]) (simp_all add: exec_inode_def PHDR_LEN_def)
  then show "load_segments 3 (ehdr_of (replicate 42 0 @ [32, 0] @ replicate 8 0)) 2 52 (replicate 28 0) M exec_fs = Inl Wild"
    by (simp only: Suc_1)
qed

lemma segment_load_places_witness:
  "\<exists>M' s'. segment_load 3 52 200 0x8049f80 fork_machine exec_fs = Inr (True, M', s') \<and>
    fetch 0x8049f80 M' = Inr 0x90 \<and> fetch 0x804a047 M' = Inr 0x90 \<and> fetch 0x8048000 M' = Inr 0x42"
proof -
  have mm: "mm fork_machine = fork_mem" by (simp add: fork_machine_def)
  have n: "occupy_pages 200 0x8049f80 = 2" by (simp add: occupy_pages_def PG_SIZE_def Let_def)
  have room: "segment_room 200 0x8049f80 (mm fork_machine)"
    unfolding segment_room_def mm n by (auto simp: fork_mem_sets fork_mem_parts PG_SIZE_def)
  have st: "\<And>f. length (store fork_machine f) = PG_SIZE" by (simp add: fork_machine_def)
  have inv: "mem_inv (mm fork_machine) {}" unfolding mm by (rule fork_mem_inv)
  have sz: "52 < i_size exec_inode" "i_size exec_inode - 52 = 248" by (simp_all add: exec_inode_def)
  obtain M' where M': "segment_load 3 52 200 0x8049f80 fork_machine exec_fs = Inr (True, M', moved exec_fs 5 (52 + 200))"
    "\<forall>k < 200. fetch (0x8049f80 + k) M' = Inr (fbyte exec_fs exec_inode (52 + k))"
    "\<forall>x. x div PG_SIZE \<in> owned PF_USER (mm fork_machine) \<longrightarrow> \<not> (0x8049f80 \<le> x \<and> x < 0x8049f80 + 200) \<longrightarrow>
      fetch x M' = fetch x fork_machine"
    using segment_load_places [OF inv st room exec_fs_file(1) _ exec_fs_file(2) sz(1)] sz(2) by auto
  have b: "fbyte exec_fs exec_inode 52 = 0x90" "fbyte exec_fs exec_inode 251 = 0x90"
    by (simp_all add: fbyte_def exec_inode_def exec_fs_def)
  have "fetch 0x8048000 M' = fetch 0x8048000 fork_machine"
    using M'(3) [rule_format, of "0x8048000"] by (simp add: mm fork_mem_sets PG_SIZE_def)
  also have "\<dots> = Inr 0x42"
    by (simp add: fetch_def load_page_def fork_machine_def fork_mem_tables mapped_def PG_SIZE_def)
  finally show ?thesis using M'(1) M'(2) [rule_format, of 0] M'(2) [rule_format, of 199] b by auto
qed

end
