(* ===== verification/UserLib.thy ===== *)
theory UserLib
  imports Stdio Words
begin

text \<open>
  \<^verbatim>\<open>kernel/subprogram/string.c\<close> and \<^verbatim>\<open>stdio.c\<close>: the routines a user program is linked with.
  They are copies of the ones of the kernel, without their assertions, without the width of
  \<^verbatim>\<open>%0\<dots>x\<close> and with buffers of 1024 bytes.  The conventions are those of the theories of the
  kernel's routines.
\<close>

section \<open>\<^verbatim>\<open>string.c\<close>\<close>

fun lib_memset :: "u8 list \<Rightarrow> u8 \<Rightarrow> nat \<Rightarrow> u8 list cres" where
  "lib_memset dst v 0 = Inr dst"
| "lib_memset [] v (Suc n) = Inl Wild"
| "lib_memset (_ # dst) v (Suc n) = andthen (lib_memset dst v n) (\<lambda>r. Inr (v # r))"

fun lib_memcpy :: "u8 list \<Rightarrow> u8 list \<Rightarrow> nat \<Rightarrow> u8 list cres" where
  "lib_memcpy dst src 0 = Inr dst"
| "lib_memcpy (_ # dst) (b # src) (Suc n) = andthen (lib_memcpy dst src n) (\<lambda>r. Inr (b # r))"
| "lib_memcpy dst src (Suc n) = Inl Wild"

fun lib_memcmp :: "u8 list \<Rightarrow> u8 list \<Rightarrow> nat \<Rightarrow> int cres" where
  "lib_memcmp a b 0 = Inr 0"
| "lib_memcmp (x # a) (y # b) (Suc n) =
     (if x \<noteq> y then Inr (if sint x > sint y then 1 else -1) else lib_memcmp a b n)"
| "lib_memcmp a b (Suc n) = Inl Wild"

fun lib_strcpy :: "u8 list \<Rightarrow> u8 list \<Rightarrow> u8 list cres" where
  "lib_strcpy (_ # dst) (c # src) =
     (if c = 0 then Inr (c # dst) else andthen (lib_strcpy dst src) (\<lambda>r. Inr (c # r)))"
| "lib_strcpy dst src = Inl Wild"

text \<open>The pointer runs one byte past the zero; the length is the difference less one.\<close>

fun strlen_scan :: "u8 list \<Rightarrow> nat \<Rightarrow> nat cres" where
  "strlen_scan [] p = Inl Wild"
| "strlen_scan (c # s) p = (if c \<noteq> 0 then strlen_scan s (p + 1) else Inr (p + 1))"

definition lib_strlen :: "u8 list \<Rightarrow> nat cres" where
  "lib_strlen s = andthen (strlen_scan s 0) (\<lambda>p. Inr (p - 1))"

fun lib_strcmp :: "u8 list \<Rightarrow> u8 list \<Rightarrow> int cres" where
  "lib_strcmp (a # as) (b # bs) =
     (if a \<noteq> 0 \<and> a = b then lib_strcmp as bs
      else Inr (if sint a < sint b then -1 else if sint a > sint b then 1 else 0))"
| "lib_strcmp as bs = Inl Wild"

fun lib_strchr :: "u8 list \<Rightarrow> u8 \<Rightarrow> nat option cres" where
  "lib_strchr [] ch = Inl Wild"
| "lib_strchr (c # s) ch =
     (if c = 0 then Inr None else if char_eq c ch then Inr (Some 0)
      else andthen (lib_strchr s ch) (\<lambda>r. Inr (map_option Suc r)))"

fun lib_strrchr_loop :: "u8 list \<Rightarrow> u8 \<Rightarrow> nat \<Rightarrow> nat option \<Rightarrow> nat option cres" where
  "lib_strrchr_loop [] ch i last_char = Inl Wild"
| "lib_strrchr_loop (c # s) ch i last_char =
     (if c = 0 then Inr last_char
      else lib_strrchr_loop s ch (Suc i) (if char_eq c ch then Some i else last_char))"

definition lib_strrchr :: "u8 list \<Rightarrow> u8 \<Rightarrow> nat option cres" where
  "lib_strrchr s ch = lib_strrchr_loop s ch 0 None"

text \<open>The pointer is moved behind the terminator and one back, then the copy starts there.\<close>

definition lib_strcat :: "u8 list \<Rightarrow> u8 list \<Rightarrow> u8 list cres" where
  "lib_strcat dst src =
     andthen (strlen_scan dst 0) (\<lambda>p.
     andthen (lib_strcpy (drop (p - 1) dst) src) (\<lambda>r. Inr (take (p - 1) dst @ r)))"

fun lib_strchrs_loop :: "u8 list \<Rightarrow> u8 \<Rightarrow> nat \<Rightarrow> nat cres" where
  "lib_strchrs_loop [] ch n = Inl Wild"
| "lib_strchrs_loop (c # s) ch n =
     (if c = 0 then Inr n else lib_strchrs_loop s ch (if char_eq c ch then Suc n else n))"

definition lib_strchrs :: "u8 list \<Rightarrow> u8 \<Rightarrow> nat cres" where
  "lib_strchrs s ch = lib_strchrs_loop s ch 0"

section \<open>\<^verbatim>\<open>stdio.c\<close>\<close>

text \<open>The base is 10 or 16; \<^verbatim>\<open>itoa\<close> is the kernel's.\<close>

definition lib_fmt_s :: "u8 list \<Rightarrow> u8 list cres" where
  "lib_fmt_s s = andthen (lib_strlen s) (\<lambda>n. Inr (take n s))"

fun lib_fmt_loop :: "u8 list \<Rightarrow> arg list \<Rightarrow> u8 list cres" where
  "lib_fmt_loop [] ap = Inl Wild"
| "lib_fmt_loop (c # f) ap =
     (if c = 0 then Inr []
      else if c \<noteq> 37 then andthen (lib_fmt_loop f ap) (\<lambda>r. Inr (c # r))
      else case f of [] \<Rightarrow> Inl Wild
        | k # g \<Rightarrow>
            if k = 120 then
              (case ap of Num v # ap' \<Rightarrow>
                 andthen (itoa (unat v) 16) (\<lambda>s. andthen (lib_fmt_loop g ap') (\<lambda>r. Inr (s @ r)))
               | _ \<Rightarrow> Inl Wild)
            else if k = 115 then
              (case ap of Ptr p # ap' \<Rightarrow>
                 andthen (lib_fmt_s p) (\<lambda>s. andthen (lib_fmt_loop g ap') (\<lambda>r. Inr (s @ r)))
               | _ \<Rightarrow> Inl Wild)
            else if k = 99 then
              (case ap of Num v # ap' \<Rightarrow> andthen (lib_fmt_loop g ap') (\<lambda>r. Inr (ucast v # r))
               | _ \<Rightarrow> Inl Wild)
            else if k = 100 then
              (case ap of Num v # ap' \<Rightarrow>
                 andthen (itoa (unat v) 10) (\<lambda>s. andthen (lib_fmt_loop g ap') (\<lambda>r. Inr (s @ r)))
               | _ \<Rightarrow> Inl Wild)
            else lib_fmt_loop f ap)"

declare lib_fmt_loop.simps [simp del]

definition lib_vsprintf :: "u8 list \<Rightarrow> u8 list \<Rightarrow> arg list \<Rightarrow> (u8 list \<times> nat) cres" where
  "lib_vsprintf str fmt ap =
     andthen (lib_fmt_loop fmt ap) (\<lambda>out.
       if length out < length str
       then let str = out @ 0 # drop (Suc (length out)) str
            in andthen (lib_strlen str) (\<lambda>n. Inr (str, n))
       else Inl Wild)"

definition lib_printf :: "u8 list \<Rightarrow> arg list \<Rightarrow> u8 list cres" where
  "lib_printf fmt args =
     andthen (lib_vsprintf (replicate 1024 0) fmt args) (\<lambda>(b, _).
     andthen (lib_strlen b) (\<lambda>n. Inr (take n b)))"

definition lib_sprintf :: "u8 list \<Rightarrow> u8 list \<Rightarrow> arg list \<Rightarrow> (u8 list \<times> nat) cres" where
  "lib_sprintf b fmt args = andthen (lib_vsprintf b fmt args) (\<lambda>(b, _). Inr (b, 0))"

definition lib_putchar :: "u32 \<Rightarrow> u8 list" where
  "lib_putchar c = take 1 [ucast c, 0]"

definition lib_puts :: "u8 list \<Rightarrow> u8 list cres" where
  "lib_puts s =
     andthen (lib_strcpy (replicate 1024 0) s) (\<lambda>b.
     andthen (lib_strlen b) (\<lambda>n. Inr (take n b)))"

section \<open>The two copies\<close>

lemma strlen_scan_eq: "strlen_scan s p = andthen (strlen s) (\<lambda>n. Inr (p + n + 1))"
  by (induction s p rule: strlen_scan.induct) (auto simp: andthen_assoc)

lemma andthen_id [simp]: "andthen m Inr = m"
  by (cases m) simp_all

lemma lib_strlen_eq [simp]: "lib_strlen = strlen"
  by (rule ext) (simp add: lib_strlen_def strlen_scan_eq andthen_assoc)

lemma lib_memset_eq: "lib_memset dst v n = memset_loop dst v n"
  by (induction dst v n rule: memset_loop.induct) auto

lemma lib_memcpy_eq: "lib_memcpy dst src n = memcpy dst src n"
  by (induction dst src n rule: memcpy.induct) auto

lemma lib_memcmp_eq: "lib_memcmp a b n = memcmp a b n"
  by (induction a b n rule: memcmp.induct) auto

lemma lib_strcpy_eq: "lib_strcpy dst src = strcpy dst src"
  by (induction dst src rule: strcpy.induct) auto

lemma lib_strcmp_eq: "lib_strcmp a b = strcmp a b"
  by (induction a b rule: strcmp.induct) auto

lemma lib_strchr_eq: "lib_strchr s ch = strchr s ch"
  by (induction s ch rule: strchr.induct) auto

lemma lib_strrchr_eq: "lib_strrchr s ch = strrchr s ch"
proof -
  have "lib_strrchr_loop s ch i l = strrchr_loop s ch i l" for i l
    by (induction s ch i l rule: strrchr_loop.induct) auto
  then show ?thesis by (simp add: lib_strrchr_def strrchr_def)
qed

lemma lib_strcat_eq: "lib_strcat dst src = strcat dst src"
proof (induction dst src rule: strcat.induct)
  case (2 c dst src)
  show ?case
  proof (cases "c = 0")
    case False
    have "andthen (strlen dst) (\<lambda>x. andthen (strcpy (drop x dst) src) (\<lambda>r. Inr (take x dst @ r))) = strcat dst src"
      using 2 [OF False] by (simp add: lib_strcat_def strlen_scan_eq lib_strcpy_eq andthen_assoc)
    from arg_cong [OF this, of "\<lambda>m. andthen m (\<lambda>r. Inr (c # r))"] show ?thesis
      using False by (simp add: lib_strcat_def strlen_scan_eq lib_strcpy_eq andthen_assoc)
  qed (simp add: lib_strcat_def strlen_scan_eq lib_strcpy_eq)
qed (simp add: lib_strcat_def)

lemma lib_strchrs_eq: "lib_strchrs s ch = strchrs s ch"
proof -
  have "lib_strchrs_loop s ch n = strchrs_loop s ch n" for n
    by (induction s ch n rule: strchrs_loop.induct) auto
  then show ?thesis by (simp add: lib_strchrs_def strchrs_def)
qed

text \<open>A format none of whose \<^verbatim>\<open>%\<close> is followed by a 0.\<close>

fun no_width :: "u8 list \<Rightarrow> bool" where
  "no_width (c # d # f) \<longleftrightarrow> (c = 37 \<longrightarrow> d \<noteq> 48) \<and> no_width (d # f)"
| "no_width f \<longleftrightarrow> True"

lemma no_width_tl: "no_width (c # f) \<Longrightarrow> no_width f"
  by (cases f) auto

lemma lib_fmt_eq: "no_width f \<Longrightarrow> lib_fmt_loop f ap = fmt_loop f ap"
proof (induction f arbitrary: ap rule: measure_induct_rule [where f = length])
  case (less fmt)
  show ?case
  proof (cases fmt)
    case c: (Cons c f)
    note unf = fmt_loop.simps(2) [of c f ap] lib_fmt_loop.simps(2) [of c f ap]
    have f: "lib_fmt_loop f ap = fmt_loop f ap" for ap using less c no_width_tl by simp
    show ?thesis
    proof (cases "c = 37 \<and> f \<noteq> []")
      case True
      then obtain k g where k: "f = k # g" by (cases f) auto
      have nk: "k \<noteq> 48" "no_width g" using less.prems True c k by (auto dest: no_width_tl)
      have g: "lib_fmt_loop g ap = fmt_loop g ap" for ap using less.IH [of g] nk(2) c k by simp
      have "parse_padding f = Inr (0, k # g)" using nk(1) k by (simp add: parse_padding_def)
      then show ?thesis
        unfolding c unf using True f g unfolding k
        by (simp add: fmt_x_def fmt_d_def fmt_s_def lib_fmt_s_def split: list.split arg.split)
    qed (unfold c unf, use f in \<open>auto simp: parse_padding_def\<close>)
  qed (simp add: fmt_loop.simps lib_fmt_loop.simps)
qed

section \<open>Properties\<close>



text \<open>A width is lost: the 0 and what follows it is printed as it stands, the argument is left.\<close>

lemma library_width:
  "lib_fmt_loop [37, 48, 56, 120, 0] [Num 255] = Inr [48, 56, 120]"
  "fmt_loop [37, 48, 56, 120, 0] [Num 255] = Inr [48, 48, 48, 48, 48, 48, 70, 70]"
  by code_simp+

end
