(* ===== verification/Log.thy ===== *)
theory Log
  imports Sync OpenFile Stdio
begin

text \<open>
  \<^verbatim>\<open>kernel/console/console.c\<close>, \<^verbatim>\<open>kernel/log/log.c\<close> and the printers of
  \<^verbatim>\<open>kernel/standard/stdio-kernel.c\<close>: output under the lock of the console, and messages put
  into the log files under the lock of the log.

  The locks are those of the scheduler.  A thread that has to wait for one does not go on:
  \<open>Blocked\<close>.  \<^verbatim>\<open>put_string\<close> and \<^verbatim>\<open>put_char\<close> append to the text on the screen; \<^verbatim>\<open>put_int\<close>
  is assembly and a parameter.  The messages the file system has of its own while a log file is written
  are left out, as in the theories of the file system.
\<close>

section \<open>Under a lock\<close>

definition console_lock :: nat where "console_lock = 0"
definition log_lock :: nat where "log_lock = 1"

text \<open>What a thread does between \<^verbatim>\<open>lock_acquire\<close> and \<^verbatim>\<open>lock_release\<close>.\<close>

definition locked :: "nat \<Rightarrow> 'a cres \<Rightarrow> sched \<Rightarrow> ('a \<times> sched) cres" where
  "locked l body \<sigma> =
     andthen (lock_acquire l \<sigma>) (\<lambda>\<sigma>'.
     if cur \<sigma>' \<noteq> cur \<sigma> then Inl Blocked
     else andthen body (\<lambda>x. andthen (lock_release l \<sigma>') (\<lambda>\<sigma>''. Inr (x, \<sigma>''))))"

section \<open>The console\<close>

definition console_init :: "sched \<Rightarrow> sched" where
  "console_init \<sigma> = lock_init console_lock \<sigma>"

definition console_put_string :: "u8 list \<Rightarrow> u8 list \<Rightarrow> sched \<Rightarrow> (u8 list \<times> sched) cres" where
  "console_put_string str screen \<sigma> =
     locked console_lock (andthen (strlen str) (\<lambda>n. Inr (screen @ take n str))) \<sigma>"

definition console_put_char :: "u8 \<Rightarrow> u8 list \<Rightarrow> sched \<Rightarrow> (u8 list \<times> sched) cres" where
  "console_put_char c screen \<sigma> = locked console_lock (Inr (screen @ [c])) \<sigma>"

definition console_put_int :: "(u32 \<Rightarrow> u8 list) \<Rightarrow> u32 \<Rightarrow> u8 list \<Rightarrow> sched \<Rightarrow> (u8 list \<times> sched) cres" where
  "console_put_int put_int num screen \<sigma> = locked console_lock (Inr (screen @ put_int num)) \<sigma>"

section \<open>The log\<close>

datatype log_type = PROCESS | FILE | SYSCALL | DEVICE

text \<open>The paths, \<^verbatim>\<open>"/log_process.log"\<close> and so on.\<close>

definition log_path :: "log_type \<Rightarrow> u8 list" where
  "log_path ty =
     [47, 108, 111, 103, 95] @
     (case ty of PROCESS \<Rightarrow> [112, 114, 111, 99, 101, 115, 115] | FILE \<Rightarrow> [102, 105, 108, 101]
      | SYSCALL \<Rightarrow> [115, 121, 115, 99, 97, 108, 108] | DEVICE \<Rightarrow> [100, 101, 118, 105, 99, 101]) @
     [46, 108, 111, 103, 0]"

record klog =
  lg_sched :: sched
  lg_fs :: fs
  log_write :: bool
  log_pos :: "log_type \<Rightarrow> nat"

definition open_close :: "u8 list \<Rightarrow> fs \<Rightarrow> fs cres" where
  "open_close path s =
     andthen (sys_open path O_CREAT s) (\<lambda>(fd, s). andthen (sys_close fd s) (\<lambda>(_, s). Inr s))"

definition log_init :: "klog \<Rightarrow> klog cres" where
  "log_init L =
     andthen (open_close (log_path PROCESS) (lg_fs L)) (\<lambda>s.
     andthen (open_close (log_path FILE) s) (\<lambda>s.
     andthen (open_close (log_path SYSCALL) s) (\<lambda>s.
     andthen (open_close (log_path DEVICE) s) (\<lambda>s.
     Inr (L\<lparr>lg_sched := lock_init log_lock (lg_sched L), lg_fs := s, log_write := False\<rparr>)))))"

text \<open>The four writes of a message: \<^verbatim>\<open>[name]text\<close>, each behind the one before, whatever they return.\<close>

definition log_entry :: "int \<Rightarrow> u8 list \<Rightarrow> u8 list \<Rightarrow> nat \<Rightarrow> fs \<Rightarrow> (nat \<times> fs) cres" where
  "log_entry fd str nm pos s =
     andthen (sys_write fd [91, 0] pos 1 s) (\<lambda>(_, s).
     let pos = pos + 1
     in andthen (strlen nm) (\<lambda>n.
        andthen (sys_write fd nm pos n s) (\<lambda>(_, s).
        let pos = pos + n
        in andthen (sys_write fd [93, 0] pos 1 s) (\<lambda>(_, s).
           let pos = pos + 1
           in andthen (strlen str) (\<lambda>n.
              andthen (sys_write fd str pos n s) (\<lambda>(_, s). Inr (pos + n, s)))))))"

definition LOG_SIZE :: nat where "LOG_SIZE = 1024 * 60"

definition process_log :: "u8 list \<Rightarrow> u8 list \<Rightarrow> u8 list \<Rightarrow> nat \<Rightarrow> fs \<Rightarrow> (nat \<times> fs) cres" where
  "process_log str nm filepath pos s =
     andthen (sys_open_log filepath O_RDWR s) (\<lambda>(fd, s).
     let pos = if LOG_SIZE \<le> pos then 0 else pos
     in andthen (if pos = 0 \<and> fd \<ge> 0 then sys_remove_some_content fd 0 (int LOG_SIZE) s else Inr (0, s)) (\<lambda>(_, s).
        andthen (if fd \<ge> 0 then log_entry fd str nm pos s else Inr (pos, s)) (\<lambda>(pos, s).
        andthen (sys_close fd s) (\<lambda>(_, s). Inr (pos, s)))))"

definition log_put_string :: "u8 list \<Rightarrow> u8 list \<Rightarrow> log_type \<Rightarrow> klog \<Rightarrow> klog cres" where
  "log_put_string nm str ty L =
     andthen (locked log_lock (process_log str nm (log_path ty) (log_pos L ty) (lg_fs L)) (lg_sched L))
       (\<lambda>((pos, s), \<sigma>). Inr (L\<lparr>lg_sched := \<sigma>, lg_fs := s, log_pos := (log_pos L)(ty := pos)\<rparr>))"

definition logEnable :: "klog \<Rightarrow> bool \<times> klog" where
  "logEnable L = (let L = L\<lparr>log_write := True\<rparr> in (log_write L, L))"

definition logDisable :: "klog \<Rightarrow> bool \<times> klog" where
  "logDisable L = (let L = L\<lparr>log_write := False\<rparr> in (log_write L, L))"

text \<open>The status is an \<^verbatim>\<open>enum\<close>, 0 or 1.\<close>

definition log_setstatus :: "nat \<Rightarrow> klog \<Rightarrow> (nat \<times> klog) cres" where
  "log_setstatus st L =
     andthen (assert_c (st = 0 \<or> st = 1)) (\<lambda>_.
     Inr (of_bool (log_write L), L\<lparr>log_write := (st = 1)\<rparr>))"

definition get_log_status :: "klog \<Rightarrow> nat" where
  "get_log_status L = of_bool (log_write L)"

definition log_printk :: "u8 list \<Rightarrow> log_type \<Rightarrow> u8 list \<Rightarrow> u8 list \<Rightarrow> arg list \<Rightarrow> klog \<Rightarrow> klog cres" where
  "log_printk nm ty junk fmt args L =
     andthen (vsprintf (take 128 junk) fmt args) (\<lambda>(b, _).
     if get_log_status L \<noteq> 0 then log_put_string nm b ty L else Inr L)"

section \<open>A free lock\<close>

definition free_lock :: "nat \<Rightarrow> sched \<Rightarrow> bool" where
  "free_lock l \<sigma> \<longleftrightarrow> locks \<sigma> l = \<lparr>holder = None, holder_repeat_nr = 0\<rparr> \<and> semas \<sigma> (Lock_sema l) = 1 \<and>
     q_empty (Waiters (Lock_sema l)) \<sigma>"

lemma locked_free:
  assumes "free_lock l \<sigma>"
  shows "locked l body \<sigma> = andthen body (\<lambda>x. Inr (x, \<sigma>))"
proof -
  let ?\<tau> = "\<sigma>\<lparr>locks := (locks \<sigma>)(l := \<lparr>holder = Some (cur \<sigma>), holder_repeat_nr = 1\<rparr>),
    semas := (semas \<sigma>)(Lock_sema l := 0)\<rparr>"
  have a: "lock_acquire l \<sigma> = Inr ?\<tau>"
    using assms by (simp add: lock_acquire_def free_lock_def Let_def down_then_def take_lock_def intr_set_status_def)
  have "(locks \<sigma>)(l := \<lparr>holder = None, holder_repeat_nr = 0\<rparr>) = locks \<sigma>"
    "(semas \<sigma>)(Lock_sema l := 1) = semas \<sigma>"
    using assms by (auto simp: free_lock_def fun_eq_iff)
  then have r: "lock_release l ?\<tau> = Inr \<sigma>"
    using assms by (simp add: lock_release_def free_lock_def Let_def sema_up_def q_empty_def intr_set_status_def)
  show ?thesis unfolding locked_def a by (simp only: andthen_Inr r) simp
qed

lemma init_frees: "free_lock l (lock_init l \<sigma>)"
  by (simp add: free_lock_def lock_init_def sema_init_def q_empty_def)

lemma console_prints:
  assumes "free_lock console_lock \<sigma>" and "terminated str"
  shows "console_put_string str screen \<sigma> = Inr (screen @ cstr str, \<sigma>)"
  using assms by (simp add: console_put_string_def locked_free strlen_ok take_cstr)

section \<open>A message\<close>

text \<open>The descriptor is open for writing on a file of direct blocks, and the pages the writing takes
  are there.\<close>

definition writable :: "fs \<Rightarrow> int \<Rightarrow> nat \<Rightarrow> nat \<Rightarrow> inode \<Rightarrow> bool" where
  "writable s fd g h i \<longleftrightarrow>
     2 < fd \<and> (\<exists>p. open_at s fd g h p) \<and> fd_flag (file_table s ! g) = O_RDWR \<and> direct_file s h i \<and>
     2 \<le> length (pages s) \<and> pages_ok s"

lemma write_step:
  assumes w: "writable s fd g h i" and n: "pos + n \<le> 6144" "0 < n" "n \<le> length data"
  obtains r i' s' where "sys_write fd data pos n s = Inr (r, s')" "writable s' fd g h i'" "i_size i' = max (i_size i) (pos + n)"
    "\<And>y. y < 6144 \<Longrightarrow> fbyte s' i' y = (if pos \<le> y \<and> y < pos + n then data ! (y - pos) else fbyte s i y)"
proof -
  obtain q where o: "open_at s fd g h q" and W: "2 < fd" "fd_flag (file_table s ! g) = O_RDWR" "direct_file s h i" "pages_ok s"
    using w by (auto simp: writable_def)
  obtain a b ps where pg: "pages s = a # b # ps"
    using w by (cases "pages s"; cases "tl (pages s)") (auto simp: writable_def)
  obtain i' s' where *: "file_write h data pos n s = Inr (int n - int (pos mod 512), s')" "direct_file s' h i'"
    "i_size i' = max (i_size i) (pos + n)"
    "\<forall>y<6144. fbyte s' i' y = (if pos \<le> y \<and> y < pos + n then data ! (y - pos) else fbyte s i y)"
    "length (pages s') = length (pages s)" "pages_ok s'" "file_table s' = file_table s" "fd_table s' = fd_table s"
    using file_write_ok [OF W(3) n pg W(4)] by blast
  have run: "sys_write fd data pos n s = Inr (int n - int (pos mod 512), s')"
    using o W(1,2) *(1) open_at_local(1) [OF o]
    by (simp add: sys_write_def open_at_def open_inode_def has_flag_def O_RDWR_def O_WRONLY_def)
  have "writable s' fd g h i'" using w *(2,5-8) by (auto simp: writable_def open_at_def)
  then show thesis by (rule that [OF run _ *(3) *(4) [rule_format]])
qed

lemma log_entry_ok:
  assumes w: "writable s fd g h i" and t: "terminated nm" "terminated str" "cstr nm \<noteq> []" "cstr str \<noteq> []"
    and room: "pos + length (cstr nm) + length (cstr str) + 2 \<le> 6144"
  shows "\<exists>i' s'. let msg = 91 # cstr nm @ 93 # cstr str
    in log_entry fd str nm pos s = Inr (pos + length msg, s') \<and> writable s' fd g h i' \<and>
       i_size i' = max (i_size i) (pos + length msg) \<and>
       (\<forall>y < 6144. fbyte s' i' y = (if pos \<le> y \<and> y < pos + length msg then msg ! (y - pos) else fbyte s i y))"
proof -
  let ?n = "length (cstr nm)" and ?m = "length (cstr str)"
  have len: "?n \<le> length nm" "?m \<le> length str" by (simp_all add: cstr_def length_takeWhile_le)
  have pre: "nm ! k = cstr nm ! k" if "k < ?n" for k using that by (simp add: cstr_def takeWhile_nth)
  have pre': "str ! k = cstr str ! k" if "k < ?m" for k using that by (simp add: cstr_def takeWhile_nth)
  obtain r1 i1 s1 where 1: "sys_write fd [91, 0] pos 1 s = Inr (r1, s1)" "writable s1 fd g h i1" "i_size i1 = max (i_size i) (pos + 1)"
    "\<And>y. y < 6144 \<Longrightarrow> fbyte s1 i1 y = (if pos \<le> y \<and> y < pos + 1 then [91, 0] ! (y - pos) else fbyte s i y)"
    by (rule write_step [OF w, of pos 1 "[91, 0]"]) (use room in simp_all)
  obtain r2 i2 s2 where 2: "sys_write fd nm (pos + 1) ?n s1 = Inr (r2, s2)" "writable s2 fd g h i2" "i_size i2 = max (i_size i1) (pos + 1 + ?n)"
    "\<And>y. y < 6144 \<Longrightarrow> fbyte s2 i2 y = (if pos + 1 \<le> y \<and> y < pos + 1 + ?n then nm ! (y - (pos + 1)) else fbyte s1 i1 y)"
    by (rule write_step [OF 1(2), of "pos + 1" ?n nm]) (use room t len in simp_all)
  obtain r3 i3 s3 where 3: "sys_write fd [93, 0] (pos + 1 + ?n) 1 s2 = Inr (r3, s3)" "writable s3 fd g h i3" "i_size i3 = max (i_size i2) (pos + 1 + ?n + 1)"
    "\<And>y. y < 6144 \<Longrightarrow> fbyte s3 i3 y = (if pos + 1 + ?n \<le> y \<and> y < pos + 1 + ?n + 1 then [93, 0] ! (y - (pos + 1 + ?n)) else fbyte s2 i2 y)"
    by (rule write_step [OF 2(2), of "pos + 1 + ?n" 1 "[93, 0]"]) (use room in simp_all)
  obtain r4 i4 s4 where 4: "sys_write fd str (pos + 1 + ?n + 1) ?m s3 = Inr (r4, s4)" "writable s4 fd g h i4" "i_size i4 = max (i_size i3) (pos + 1 + ?n + 1 + ?m)"
    "\<And>y. y < 6144 \<Longrightarrow> fbyte s4 i4 y = (if pos + 1 + ?n + 1 \<le> y \<and> y < pos + 1 + ?n + 1 + ?m then str ! (y - (pos + 1 + ?n + 1)) else fbyte s3 i3 y)"
    by (rule write_step [OF 3(2), of "pos + 1 + ?n + 1" ?m str]) (use room t len in simp_all)
  let ?msg = "91 # cstr nm @ 93 # cstr str"
  have run: "log_entry fd str nm pos s = Inr (pos + length ?msg, s4)"
    using 1(1) 2(1) 3(1) 4(1) t by (simp add: log_entry_def strlen_ok Let_def)
  have sz: "i_size i4 = max (i_size i) (pos + length ?msg)" unfolding 1(3) 2(3) 3(3) 4(3) by (simp add: max_def)
  have byte: "fbyte s4 i4 y = (if pos \<le> y \<and> y < pos + length ?msg then ?msg ! (y - pos) else fbyte s i y)" if "y < 6144" for y
    using 1(4) [OF that] 2(4) [OF that] 3(4) [OF that] 4(4) [OF that]
    by (auto simp: nth_Cons' nth_append pre pre' less_diff_conv2 Suc_diff_le)
  show ?thesis unfolding Let_def using run 4(2) sz byte by blast
qed

lemma fbytes_eqI: "(\<And>k. k < length xs \<Longrightarrow> fbyte s i (a + k) = xs ! k) \<Longrightarrow> fbytes s i a (a + length xs) = xs"
  by (intro nth_equalityI) (simp_all add: fbytes_def)

text \<open>The whole of \<^verbatim>\<open>log_put_string\<close> with the lock free: the message goes to the file of its kind and
  the lock is free again.\<close>

lemma log_put_string_appends:
  assumes "free_lock log_lock (lg_sched L)" and "sys_open_log (log_path ty) O_RDWR (lg_fs L) = Inr (fd, s)"
    and "writable s fd g h i" and "terminated nm" "terminated str" "cstr nm \<noteq> []" "cstr str \<noteq> []"
    and "0 < log_pos L ty" and "log_pos L ty + length (cstr nm) + length (cstr str) + 2 \<le> 6144"
  shows "\<exists>i' s'. log_put_string nm str ty L = andthen (sys_close fd s') (\<lambda>(_, s'').
      Inr (L\<lparr>lg_fs := s'', log_pos := (log_pos L)(ty := log_pos L ty + length (cstr nm) + length (cstr str) + 2)\<rparr>)) \<and>
    fbytes s' i' (log_pos L ty) (log_pos L ty + length (cstr nm) + length (cstr str) + 2) = 91 # cstr nm @ 93 # cstr str"
proof -
  let ?p = "log_pos L ty" and ?msg = "91 # cstr nm @ 93 # cstr str"
  obtain i' s' where *: "log_entry fd str nm ?p s = Inr (?p + length ?msg, s')"
    "\<forall>y < 6144. fbyte s' i' y = (if ?p \<le> y \<and> y < ?p + length ?msg then ?msg ! (y - ?p) else fbyte s i y)"
    using log_entry_ok [OF assms(3-7,9)] unfolding Let_def by blast
  have "0 < fd" using assms(3) by (simp add: writable_def)
  then have "log_put_string nm str ty L = andthen (sys_close fd s') (\<lambda>(_, s''). Inr (L\<lparr>lg_fs := s'', log_pos := (log_pos L)(ty := ?p + length ?msg)\<rparr>))"
    using assms(1,2,8,9) *(1)
    by (simp add: log_put_string_def locked_free process_log_def LOG_SIZE_def Let_def andthen_assoc case_prod_beta')
  moreover have "fbytes s' i' ?p (?p + length ?msg) = ?msg"
    by (rule fbytes_eqI) (use *(2) assms(9) in simp)
  ultimately show ?thesis by (auto simp: add.assoc)
qed

section \<open>Properties\<close>


definition log_fs :: fs where
  "log_fs = sample_fs\<lparr>fd_table := [0, 1, 2, 5, -1, -1, -1, -1],
     file_table := (replicate 32 \<lparr>fd_pos = 0, fd_flag = 0, fd_inode = Nothing\<rparr>)
       [5 := \<lparr>fd_pos = 0, fd_flag = 2, fd_inode = Inode_at 1\<rparr>]\<rparr>"


end
