(* ===== verification/Boot.thy ===== *)
theory Boot
  imports Sync
begin

text \<open>
  \<^verbatim>\<open>thread_init\<close> of \<^verbatim>\<open>kernel/thread/thread.c\<close>: the code running becomes the thread \<^verbatim>\<open>main\<close>, the
  idle thread is made, and the kernel runs from there.  The address of the page the idle
  thread gets is the argument.
\<close>

definition pid_lock :: nat where "pid_lock = 2"

definition make_main_thread :: "sched \<Rightarrow> sched cres" where
  "make_main_thread s =
     (let m = cur s; s = init_thread m True FIRST_PRIO s
      in andthen (assert_c (m \<notin> set (all_list s))) (\<lambda>_. Inr (s\<lparr>all_list := all_list s @ [m]\<rparr>)))"

definition thread_init :: "nat \<Rightarrow> sched \<Rightarrow> sched cres" where
  "thread_init idle s =
     (let s = s\<lparr>queues := (queues s)(Ready First := [], Ready Second := [], Ready Third := []), all_list := []\<rparr>
      in andthen (make_main_thread (lock_init pid_lock s)) (\<lambda>s.
         andthen (thread_start idle THIRD_PRIO s) (\<lambda>s. Inr (s\<lparr>idle_thread := idle\<rparr>))))"

text \<open>Before: nothing is a thread, no queue of a semaphore has an element and no lock is held.  A
  control block that is none yet counts as one of a dead thread.\<close>

definition no_threads :: "sched \<Rightarrow> bool" where
  "no_threads s \<longleftrightarrow>
     (\<forall>t. tag (tasks s t) = None \<and> status (tasks s t) = TASK_DIED \<and> cont (tasks s t) = Running \<and>
        stack_magic (tasks s t) = 0x20240825 \<and> \<not> pgdir (tasks s t)) \<and>
     (\<forall>k. queues s (Waiters k) = []) \<and> (\<forall>l. lock_ok (semas s (Lock_sema l)) (locks s l))"

lemma lock_ok_free [simp]: "lock_ok 1 \<lparr>holder = None, holder_repeat_nr = 0\<rparr>"
  by (simp add: lock_ok_def)

lemma thread_init_ok:
  assumes "no_threads s" and "idle \<noteq> cur s"
  shows "\<exists>s'. thread_init idle s = Inr s' \<and> sys_inv s' \<and> cur s' = cur s \<and> idle_thread s' = idle \<and>
    all_list s' = [cur s, idle] \<and> intr s' = intr s \<and> (\<forall>l. holder (locks s' l) = holder (locks s l) \<or> l = pid_lock)"
proof -
  define s1 where "s1 = init_thread (cur s) True FIRST_PRIO
    (lock_init pid_lock (s\<lparr>queues := (queues s)(Ready First := [], Ready Second := [], Ready Third := []), all_list := []\<rparr>))"
  have q1: "queues s1 q = []" for q
  proof (cases q)
    case (Ready l)
    then show ?thesis by (cases l) (simp_all add: s1_def init_thread_def allocate_pid_def Let_def sema_init_def lock_init_def)
  next
    case (Waiters k)
    then show ?thesis using assms(1) by (simp add: s1_def init_thread_def allocate_pid_def Let_def sema_init_def lock_init_def no_threads_def)
  qed
  have s1: "all_list s1 = []" "cur s1 = cur s" "intr s1 = intr s"
    "status (tasks s1 (cur s)) = TASK_RUNNING" "\<And>t. t \<noteq> cur s \<Longrightarrow> status (tasks s1 t) = TASK_DIED"
    "\<And>t. tag (tasks s1 t) = None" "\<And>t. cont (tasks s1 t) = Running" "\<And>t. stack_magic (tasks s1 t) = 0x20240825"
    "\<And>t. \<not> pgdir (tasks s1 t)" "\<And>l. lock_ok (semas s1 (Lock_sema l)) (locks s1 l)"
    "\<And>l. l \<noteq> pid_lock \<Longrightarrow> locks s1 l = locks s l"
    using assms(1) by (auto simp: s1_def init_thread_def allocate_pid_def Let_def sema_init_def lock_init_def no_threads_def)
  define s2 where "s2 = s1\<lparr>all_list := [cur s]\<rparr>"
  define s3 where "s3 = (init_thread idle False THIRD_PRIO (s2\<lparr>intr := False\<rparr>))\<lparr>all_list := [cur s, idle]\<rparr>"
  have mk: "thread_init idle s = andthen (thread_start idle THIRD_PRIO s2) (\<lambda>s. Inr (s\<lparr>idle_thread := idle\<rparr>))"
    using s1(1) by (simp add: thread_init_def make_main_thread_def s1_def s2_def Let_def lock_init_def sema_init_def)
  have q3: "queues s3 q = []" for q
    using q1 by (simp add: s3_def s2_def init_thread_def allocate_pid_def Let_def sema_init_def)
  have s3: "cur s3 = cur s" "status (tasks s3 idle) = TASK_READY" "tasks s3 (cur s) = tasks s1 (cur s)"
    "\<And>t. t \<noteq> cur s \<Longrightarrow> t \<noteq> idle \<Longrightarrow> status (tasks s3 t) = TASK_DIED"
    "\<And>t. tag (tasks s3 t) = None" "\<And>t. \<not> waits (cont (tasks s3 t))" "\<And>t. stack_magic (tasks s3 t) = 0x20240825"
    "\<And>t. \<not> pgdir (tasks s3 t)" "\<And>l. lock_ok (semas s3 (Lock_sema l)) (locks s3 l)" "locks s3 = locks s1"
    using s1 assms(2) by (auto simp: s3_def s2_def init_thread_def allocate_pid_def Let_def sema_init_def waits_def)
  define s4 where "s4 = upd idle (\<lambda>p. p\<lparr>tag := Some (Ready Third)\<rparr>) (s3\<lparr>queues := (queues s3)(Ready Third := [idle])\<rparr>)"
  have p: "THIRD_PRIO \<noteq> FIRST_PRIO" "THIRD_PRIO \<noteq> SECOND_PRIO" by (simp_all add: THIRD_PRIO_def FIRST_PRIO_def SECOND_PRIO_def)
  have al: "all_list (init_thread idle False THIRD_PRIO (s2\<lparr>intr := False\<rparr>)) = [cur s]"
    by (simp add: s2_def init_thread_def allocate_pid_def Let_def sema_init_def)
  have "thread_start idle THIRD_PRIO s2 = Inr (s4\<lparr>intr := intr s2\<rparr>)"
    unfolding thread_start_def Let_def al using assms(2) p q3 [of "Ready Third"] s3(5) [of idle]
    by (simp add: s3_def [symmetric] assert_append_def in_queue_def tag_append_def s4_def intr_set_status_def)
  then have run: "thread_init idle s = Inr (s4\<lparr>intr := intr s2, idle_thread := idle\<rparr>)" unfolding mk by simp
  have q4: "queues s4 q = (if q = Ready Third then [idle] else [])" for q using q3 by (simp add: s4_def)
  have t4: "tag (tasks s4 t) = (if t = idle then Some (Ready Third) else None)" "status (tasks s4 t) = status (tasks s3 t)"
    "cont (tasks s4 t) = cont (tasks s3 t)" "stack_magic (tasks s4 t) = 0x20240825" "\<not> pgdir (tasks s4 t)" for t
    using s3(5,7,8) by (simp_all add: s4_def)
  have r4: "cur s4 = cur s" "semas s4 = semas s3" "locks s4 = locks s3" "all_list s4 = [cur s, idle]"
    using s3(1) by (simp_all add: s4_def) (simp add: s3_def)
  let ?s = "s4\<lparr>intr := intr s2, idle_thread := idle\<rparr>"
  have st: "status (tasks s4 t) = (if t = cur s then TASK_RUNNING else if t = idle then TASK_READY else TASK_DIED)" for t
    using t4(2) s3(2-4) s1(4) by simp
  have "links ?s" using q4 t4(1) by (auto simp: links_def split: if_splits)
  moreover have "mem_ok ?s" using t4(4,5) by (simp add: mem_ok_def)
  moreover have "task_ok (tasks ?s t)" for t using t4(1) [of t] st [of t] assms(2) by (auto simp: task_ok_def split: if_splits)
  ultimately have "sched_inv ?s"
    using st t4(1) r4(1) by (auto simp: sched_inv_def sched_wf_def split: if_splits)
  moreover have "cont (tasks ?s t) \<noteq> Down (Lock_sema l) b" for t l b using s3(6) [of t] t4(3) [of t] by (auto simp: waits_def)
  ultimately have "sys_inv ?s" using s3(6,9) t4(3) r4(2,3) by (simp add: sys_inv_def)
  then show ?thesis using run r4 s1(3,11) s3(10) by (intro exI [of _ ?s]) (auto simp: s2_def)
qed



end
