(* ===== verification/Tasks.thy ===== *)
theory Tasks
  imports ShellTextSpec Shell ForkMain Sched
begin

text \<open>
  What works on the list of all threads: the commands \<^verbatim>\<open>kill\<close> and \<^verbatim>\<open>ps\<close> of
  \<^verbatim>\<open>kernel/shell/shell.c\<close> and \<^verbatim>\<open>thread_cleaner\<close> of \<^verbatim>\<open>kernel/thread/thread.c\<close>.

  \<^verbatim>\<open>kill\<close> and the cleaner work on the control blocks of Process, \<^verbatim>\<open>ps\<close> on the tasks of the
  scheduler with their names as an argument.  Where the functions lie that a thread is sent to, the
  status of a thread and the address of its bitmap are arguments too.
\<close>

section \<open>\<^verbatim>\<open>kill\<close>\<close>

definition spared :: "machine \<Rightarrow> nat \<Rightarrow> bool cres" where
  "spared M t =
     (if t = running M then Inr True
      else
        andthen (strcmp (pcb_name (pcbs M t)) (text_of ''thread_cleaner'' @ [0])) (\<lambda>c.
        if c = 0 then Inr True
        else andthen (strcmp (pcb_name (pcbs M t)) (text_of ''shell'' @ [0])) (\<lambda>c. Inr (c = 0))))"

text \<open>The fifth word of the stack, from where the thread was left.\<close>

definition send_to_exit :: "u32 \<Rightarrow> u32 \<Rightarrow> nat \<Rightarrow> machine \<Rightarrow> machine" where
  "send_to_exit thread_exit_at process_exit_at t M =
     upd_pcb t (\<lambda>p. p\<lparr>kstack := (kstack p)(word_index t (self_kstack p) + 4 :=
       (if pcb.pgdir p = 0 then thread_exit_at else process_exit_at))\<rparr>) M"

fun kill_loop :: "u32 \<Rightarrow> u32 \<Rightarrow> int \<Rightarrow> nat list \<Rightarrow> machine \<Rightarrow> machine cres" where
  "kill_loop te pe p [] M = Inr M"
| "kill_loop te pe p (t # ts) M =
     andthen (spared M t) (\<lambda>skip.
     if skip then kill_loop te pe p ts M
     else kill_loop te pe p ts (if pcb.pid (pcbs M t) = p then send_to_exit te pe t M else M))"

definition process_kill_command :: "u32 \<Rightarrow> u32 \<Rightarrow> u8 list \<Rightarrow> machine \<Rightarrow> machine cres" where
  "process_kill_command te pe cmd_line M =
     andthen (skip_spaces cmd_line 4) (\<lambda>i.
     andthen (atoi_10 (drop i cmd_line)) (\<lambda>n.
     kill_loop te pe (sint (word_of_int n :: 16 word)) (all_threads M) M))"

section \<open>\<^verbatim>\<open>ps\<close>\<close>

fun status_str :: "task_status \<Rightarrow> string" where
  "status_str TASK_RUNNING = ''TASK_RUNNING''"
| "status_str TASK_READY = ''TASK_READY''"
| "status_str TASK_BLOCKED = ''TASK_BLOCKED''"
| "status_str TASK_WAITING = ''TASK_WAITING''"
| "status_str TASK_HANGING = ''TASK_HANGING''"
| "status_str TASK_DIED = ''TASK_DIED''"

fun ps_loop :: "(nat \<Rightarrow> u8 list) \<Rightarrow> nat list \<Rightarrow> sched \<Rightarrow> u8 list cres" where
  "ps_loop nm [] s = Inr []"
| "ps_loop nm (t # ts) s =
     andthen (say ''pid %d, status %s, pname %s,ticks %d''
       [Num (word_of_int (task.pid (tasks s t))), Ptr (text_of (status_str (task.status (tasks s t))) @ [0]),
        Ptr (nm t), Num (task.elapsed_ticks (tasks s t))]) (\<lambda>line.
     andthen (ps_loop nm ts s) (\<lambda>out. Inr (line @ out)))"

definition ps :: "(nat \<Rightarrow> u8 list) \<Rightarrow> sched \<Rightarrow> u8 list cres" where
  "ps nm s = ps_loop nm (all_list s) s"

section \<open>\<^verbatim>\<open>thread_cleaner\<close>\<close>

text \<open>The descriptors of the dead thread; \<^verbatim>\<open>fd_local2global\<close> looks them up in the table of the
  running one.\<close>

fun clean_files :: "int list \<Rightarrow> nat list \<Rightarrow> fs \<Rightarrow> fs cres" where
  "clean_files fds [] s = Inr s"
| "clean_files fds (fd # rest) s =
     andthen (rd fds fd) (\<lambda>x.
     andthen (if x \<noteq> -1
              then let g = int32 (int (fd_local2global fd s))
                   in if g \<ge> 0 then andthen (file_close (nat g) s) (\<lambda>(_, s). Inr s) else Inr s
              else Inr s) (clean_files fds rest))"

definition clean_memory :: "nat \<Rightarrow> nat \<Rightarrow> machine \<Rightarrow> machine cres" where
  "clean_memory bits_at t M =
     (let p = pcbs M t
      in andthen
           (if pcb.pgdir p \<noteq> 0
            then andthen (mfree_pages PF_KERNEL (pcb.pgdir p) 1 (mm M)) (\<lambda>m.
                 mfree_pages PF_KERNEL bits_at
                   (DIV_ROUND_UP (btmp_bytes_len (virtual_addr.vaddr_bitmap (pcb_vaddr p))) PG_SIZE) m)
            else Inr (mm M)) (\<lambda>m.
         andthen (mfree_pages PF_KERNEL t 1 m) (\<lambda>m. Inr (M\<lparr>mm := m\<rparr>))))"

text \<open>One dead thread.  The last message has the name of the thread in it, which is read from its
  control block.\<close>

definition clean_thread :: "(nat \<Rightarrow> nat) \<Rightarrow> nat \<Rightarrow> machine \<times> fs \<Rightarrow> (machine \<times> fs) cres" where
  "clean_thread bits_at t = (\<lambda>(M, s).
     andthen (clean_files (pcb_fds (pcbs M t)) [3..<MAX_FILES_OPEN_PER_PROC] s) (\<lambda>s.
     let M = M\<lparr>all_threads := remove1 t (all_threads M), second_list := remove1 t (second_list M),
       third_list := remove1 t (third_list M)\<rparr>
     in andthen (clean_memory (bits_at t) t M) (\<lambda>M.
        if mapped (mm M) (t div PG_SIZE) then Inr (M, s) else Inl Wild)))"

fun cleaner_round :: "(nat \<Rightarrow> bool) \<Rightarrow> (nat \<Rightarrow> nat) \<Rightarrow> nat list \<Rightarrow> machine \<times> fs \<Rightarrow> (machine \<times> fs) cres" where
  "cleaner_round died bits_at [] Ms = Inr Ms"
| "cleaner_round died bits_at (t # ts) Ms =
     andthen (if died t then clean_thread bits_at t Ms else Inr Ms) (cleaner_round died bits_at ts)"

section \<open>Killing\<close>

text \<open>The threads \<^verbatim>\<open>kill\<close> means: those with the number, but for the running one and the two it
  spares by name.\<close>

definition victim :: "machine \<Rightarrow> int \<Rightarrow> nat \<Rightarrow> bool" where
  "victim M n t \<longleftrightarrow> t \<noteq> running M \<and> pcb.pid (pcbs M t) = n \<and>
     cstr (pcb_name (pcbs M t)) \<noteq> text_of ''thread_cleaner'' \<and> cstr (pcb_name (pcbs M t)) \<noteq> text_of ''shell''"

lemma text_string: "terminated (text_of ''thread_cleaner'' @ [0])" "cstr (text_of ''thread_cleaner'' @ [0]) = text_of ''thread_cleaner''"
  "terminated (text_of ''shell'' @ [0])" "cstr (text_of ''shell'' @ [0]) = text_of ''shell''"
  by (simp_all add: text_of_def)

lemma spared_ok:
  assumes "terminated (pcb_name (pcbs M t))"
  shows "spared M t = Inr (t = running M \<or> cstr (pcb_name (pcbs M t)) = text_of ''thread_cleaner'' \<or>
    cstr (pcb_name (pcbs M t)) = text_of ''shell'')"
  using strcmp_ok [OF assms text_string(1)] strcmp_ok [OF assms text_string(3)] text_string(2,4)
  by (auto simp: spared_def)

lemma send_to_exit_other:
  "u \<noteq> t \<Longrightarrow> pcbs (send_to_exit te pe t M) u = pcbs M u" "running (send_to_exit te pe t M) = running M"
  "all_threads (send_to_exit te pe t M) = all_threads M" "(send_to_exit te pe t M)\<lparr>pcbs := P\<rparr> = M\<lparr>pcbs := P\<rparr>"
  by (simp_all add: send_to_exit_def upd_pcb_def)

lemma kill_loop_ok:
  assumes "distinct ts" and "\<forall>t \<in> set ts. terminated (pcb_name (pcbs M t))"
  shows "kill_loop te pe n ts M = Inr (M\<lparr>pcbs := (\<lambda>t. if t \<in> set ts \<and> victim M n t
    then pcbs (send_to_exit te pe t M) t else pcbs M t)\<rparr>)"
  using assms
proof (induction ts arbitrary: M)
  case Nil
  show ?case by simp
next
  case (Cons t ts)
  have sp: "spared M t = Inr (t = running M \<or> cstr (pcb_name (pcbs M t)) = text_of ''thread_cleaner'' \<or>
      cstr (pcb_name (pcbs M t)) = text_of ''shell'')"
    using spared_ok Cons.prems(2) by simp
  show ?case
  proof (cases "victim M n t")
    case True
    let ?M = "send_to_exit te pe t M"
    have "kill_loop te pe n (t # ts) M = kill_loop te pe n ts ?M"
      using True sp by (simp add: victim_def)
    also have "\<dots> = Inr (?M\<lparr>pcbs := (\<lambda>u. if u \<in> set ts \<and> victim ?M n u then pcbs (send_to_exit te pe u ?M) u else pcbs ?M u)\<rparr>)"
      by (rule Cons.IH) (use Cons.prems in \<open>auto simp: send_to_exit_def upd_pcb_def\<close>)
    also have "(\<lambda>u. if u \<in> set ts \<and> victim ?M n u then pcbs (send_to_exit te pe u ?M) u else pcbs ?M u) =
      (\<lambda>u. if u \<in> set (t # ts) \<and> victim M n u then pcbs (send_to_exit te pe u M) u else pcbs M u)"
    proof
      fix u
      show "(if u \<in> set ts \<and> victim ?M n u then pcbs (send_to_exit te pe u ?M) u else pcbs ?M u) =
        (if u \<in> set (t # ts) \<and> victim M n u then pcbs (send_to_exit te pe u M) u else pcbs M u)"
        using True Cons.prems(1) by (cases "u = t") (auto simp: victim_def send_to_exit_def upd_pcb_def)
    qed
    finally show ?thesis by (simp add: send_to_exit_other)
  next
    case False
    have "kill_loop te pe n (t # ts) M = kill_loop te pe n ts M"
      using False sp by (auto simp: victim_def)
    also have "\<dots> = Inr (M\<lparr>pcbs := (\<lambda>u. if u \<in> set ts \<and> victim M n u then pcbs (send_to_exit te pe u M) u else pcbs M u)\<rparr>)"
      by (rule Cons.IH) (use Cons.prems in auto)
    finally show ?thesis using False by (auto simp: fun_eq_iff intro!: arg_cong [where f = "\<lambda>P. M\<lparr>pcbs := P\<rparr>"])
  qed
qed

lemma kill_line:
  assumes "itoa v 10 = Inr ds" and "v < 2 ^ 15"
  shows "process_kill_command te pe (text_of ''kill '' @ ds @ 0 # rest) M = kill_loop te pe (int v) (all_threads M) M"
proof -
  let ?l = "text_of ''kill '' @ ds @ 0 # rest"
  have d: "ds \<noteq> []" "set ds \<subseteq> {48..57}" using itoa_total [of 10 v] itoa_decimal [OF assms(1)] assms(1) by auto
  then obtain c cs where c1: "ds = c # cs" "48 \<le> c" by (cases ds) auto
  then have c: "ds = c # cs" "c \<noteq> 32" by auto
  have k: "text_of ''kill '' = [107, 105, 108, 108, 32]" by (simp add: text_of_def)
  have l: "?l ! 4 = 32" "?l ! 5 = c" "5 < length ?l" unfolding k c(1) by simp_all
  have "skip_spaces ?l 5 = Inr 5" using l c(2) by (subst skip_spaces.simps) simp
  then have sk: "skip_spaces ?l 4 = Inr 5"
    using l by (subst skip_spaces.simps) (simp add: MAX_CMD_LENGTH_def cmd_len_def)
  have dr: "drop 5 ?l = ds @ 0 # rest" unfolding k by simp
  have "v < 2 ^ 31" using assms(2) by simp
  then have at: "atoi_10 (ds @ 0 # rest) = Inr (int v)" by (rule atoi_itoa(1) [OF assms(1)]) (simp add: isDigit_def)
  have "sint (word_of_int (int v) :: 16 word) = int v"
    using assms(2) by (simp add: signed_of_nat signed_take_bit_int_eq_self)
  then show ?thesis unfolding process_kill_command_def sk andthen_Inr dr at by simp
qed

text \<open>C27: \<^verbatim>\<open>kill n\<close> makes every thread of the number \<open>n\<close>, but for the running thread, the
  cleaner and the shell, go on in the function that ends a thread, or a process, the next time it is
  switched to; every other thread is left as it was.\<close>

theorem kill_redirects:
  assumes "itoa v 10 = Inr ds" and "v < 2 ^ 15" and "distinct (all_threads M)"
    and "\<forall>t \<in> set (all_threads M). terminated (pcb_name (pcbs M t))"
  shows "\<exists>M'. process_kill_command te pe (text_of ''kill '' @ ds @ 0 # rest) M = Inr M' \<and> M' = M\<lparr>pcbs := pcbs M'\<rparr> \<and>
    (\<forall>t. if t \<in> set (all_threads M) \<and> victim M (int v) t
      then switched_to (pcbs M' t) t = (if pcb.pgdir (pcbs M t) = 0 then te else pe, snd (switched_to (pcbs M t) t)) \<and>
        (pcbs M' t)\<lparr>kstack := kstack (pcbs M t)\<rparr> = pcbs M t
      else pcbs M' t = pcbs M t)"
  unfolding kill_line [OF assms(1,2)] kill_loop_ok [OF assms(3,4)]
  by (intro exI conjI) (auto simp: send_to_exit_def upd_pcb_def switched_to_def Let_def)

lemma kill_redirects_witness:
  "\<forall>te pe. \<exists>M'. process_kill_command te pe (text_of ''kill '' @ [55] @ [0]) (fork_machine\<lparr>running := 0\<rparr>) = Inr M' \<and>
    fst (switched_to (pcbs M' 0xc009e000) 0xc009e000) = pe"
proof (intro allI)
  fix te pe
  let ?M = "fork_machine\<lparr>running := 0\<rparr>"
  have i: "itoa 7 10 = Inr [55]" by (subst itoa.simps) simp
  have a: "all_threads ?M = [0xc009e000]" by (simp add: fork_machine_def PG_SIZE_def)
  have nm: "\<forall>t \<in> set (all_threads ?M). terminated (pcb_name (pcbs ?M t))" by (simp add: fork_machine_def fork_pcb_def terminated_def)
  have v: "victim ?M (int 7) 0xc009e000"
    by (simp add: victim_def fork_machine_def fork_pcb_def text_of_def)
  have "pcb.pgdir (pcbs ?M 0xc009e000) \<noteq> 0" by (simp add: fork_machine_def fork_pcb_def PG_SIZE_def)
  then show "\<exists>M'. process_kill_command te pe (text_of ''kill '' @ [55] @ [0]) ?M = Inr M' \<and>
      fst (switched_to (pcbs M' 0xc009e000) 0xc009e000) = pe"
    using kill_redirects [OF i _ _ nm, of te pe "[]"] v unfolding a by auto
qed

section \<open>Cleaning\<close>

definition bitmap_count :: "pcb \<Rightarrow> nat" where
  "bitmap_count p = DIV_ROUND_UP (btmp_bytes_len (virtual_addr.vaddr_bitmap (pcb_vaddr p))) PG_SIZE"

text \<open>The pages a dead thread leaves: its control block, and those of its directory and bitmap.\<close>

definition left_pages :: "nat \<Rightarrow> nat \<Rightarrow> machine \<Rightarrow> nat set" where
  "left_pages bits_at t M =
     insert (t div PG_SIZE)
       (if pcb.pgdir (pcbs M t) \<noteq> 0
        then insert (pcb.pgdir (pcbs M t) div PG_SIZE)
          {bits_at div PG_SIZE..<bits_at div PG_SIZE + bitmap_count (pcbs M t)}
        else {})"

text \<open>They are different pages of the kernel's pool.\<close>

definition can_clean :: "nat \<Rightarrow> nat \<Rightarrow> machine \<Rightarrow> bool" where
  "can_clean bits_at t M \<longleftrightarrow> mem_inv (mm M) {} \<and> left_pages bits_at t M \<subseteq> owned PF_KERNEL (mm M) \<and> t mod PG_SIZE = 0 \<and>
     (let p = pcbs M t; d = pcb.pgdir p
      in d \<noteq> 0 \<longrightarrow> d mod PG_SIZE = 0 \<and> bits_at mod PG_SIZE = 0 \<and> 0 < bitmap_count p \<and> d div PG_SIZE \<noteq> t div PG_SIZE \<and>
        d div PG_SIZE \<notin> {bits_at div PG_SIZE..<bits_at div PG_SIZE + bitmap_count p} \<and>
        t div PG_SIZE \<notin> {bits_at div PG_SIZE..<bits_at div PG_SIZE + bitmap_count p})"

lemma free_kernel:
  assumes "mem_inv m {}" "{a div PG_SIZE..<a div PG_SIZE + n} \<subseteq> owned PF_KERNEL m" "0 < n" "a mod PG_SIZE = 0"
  obtains m' where "mfree_pages PF_KERNEL a n m = Inr m'" "mem_inv m' {}"
    "owned PF_KERNEL m' = owned PF_KERNEL m - {a div PG_SIZE..<a div PG_SIZE + n}" "owned PF_USER m' = owned PF_USER m"
    "\<And>w. w \<in> {a div PG_SIZE..<a div PG_SIZE + n} \<Longrightarrow> \<not> mapped m' w"
proof -
  have a: "a div PG_SIZE * PG_SIZE = a" using assms(4) by (metis add.right_neutral div_mult_mod_eq)
  obtain m' where m': "mfree_pages PF_KERNEL a n m = Inr m'" "mem_inv m' {}"
    "\<forall>q. owned q m' = (if q = PF_KERNEL then owned PF_KERNEL m - {a div PG_SIZE..<a div PG_SIZE + n} else owned q m)"
    "\<forall>w \<in> {a div PG_SIZE..<a div PG_SIZE + n}. \<not> mapped m' w"
    using mfree_pages_ok [OF assms(1-3)] unfolding a by blast
  show thesis by (rule that [OF m'(1,2)]) (use m'(3,4) in auto)
qed

lemma one_page: "{v..<v + 1} = {v :: nat}"
  by auto

lemma clean_memory_ok:
  assumes "can_clean bits_at t M"
  shows "\<exists>m. clean_memory bits_at t M = Inr (M\<lparr>mm := m\<rparr>) \<and> mem_inv m {} \<and>
    owned PF_KERNEL m = owned PF_KERNEL (mm M) - left_pages bits_at t M \<and> owned PF_USER m = owned PF_USER (mm M) \<and>
    \<not> mapped m (t div PG_SIZE)"
proof -
  let ?p = "pcbs M t"
  let ?d = "pcb.pgdir ?p" and ?n = "bitmap_count ?p"
  let ?rest = "if ?d \<noteq> 0 then insert (?d div PG_SIZE) {bits_at div PG_SIZE..<bits_at div PG_SIZE + ?n} else {}"
  note C = assms [unfolded can_clean_def Let_def]
  obtain m where m: "(if ?d \<noteq> 0
      then andthen (mfree_pages PF_KERNEL ?d 1 (mm M)) (mfree_pages PF_KERNEL bits_at ?n) else Inr (mm M)) = Inr m"
    "mem_inv m {}" "owned PF_KERNEL m = owned PF_KERNEL (mm M) - ?rest" "owned PF_USER m = owned PF_USER (mm M)"
  proof (cases "?d = 0")
    case True
    then show thesis using C that [of "mm M"] by simp
  next
    case False
    then have D: "?d mod PG_SIZE = 0" "bits_at mod PG_SIZE = 0" "0 < ?n"
      "?d div PG_SIZE \<notin> {bits_at div PG_SIZE..<bits_at div PG_SIZE + ?n}"
      and own: "?d div PG_SIZE \<in> owned PF_KERNEL (mm M)"
        "{bits_at div PG_SIZE..<bits_at div PG_SIZE + ?n} \<subseteq> owned PF_KERNEL (mm M)"
      using C by (auto simp: left_pages_def)
    have inv: "mem_inv (mm M) {}" using C by blast
    have o1: "{?d div PG_SIZE..<?d div PG_SIZE + 1} \<subseteq> owned PF_KERNEL (mm M)" unfolding one_page using own(1) by simp
    obtain m1 where m1: "mfree_pages PF_KERNEL ?d 1 (mm M) = Inr m1" "mem_inv m1 {}"
      "owned PF_KERNEL m1 = owned PF_KERNEL (mm M) - {?d div PG_SIZE..<?d div PG_SIZE + 1}" "owned PF_USER m1 = owned PF_USER (mm M)"
      by (rule free_kernel [OF inv o1 zero_less_one D(1)]) (rule that)
    have o2: "{bits_at div PG_SIZE..<bits_at div PG_SIZE + ?n} \<subseteq> owned PF_KERNEL m1"
      unfolding m1(3) one_page using own(2) D(4) by blast
    obtain m2 where m2: "mfree_pages PF_KERNEL bits_at ?n m1 = Inr m2" "mem_inv m2 {}"
      "owned PF_KERNEL m2 = owned PF_KERNEL m1 - {bits_at div PG_SIZE..<bits_at div PG_SIZE + ?n}" "owned PF_USER m2 = owned PF_USER m1"
      by (rule free_kernel [OF m1(2) o2 D(3,2)]) (rule that)
    show thesis
    proof (rule that [of m2])
      show "owned PF_KERNEL m2 = owned PF_KERNEL (mm M) - ?rest" unfolding m2(3) m1(3) one_page using False by auto
    qed (use False m1 m2 in simp_all)
  qed
  have "t div PG_SIZE \<in> owned PF_KERNEL (mm M)" "t div PG_SIZE \<notin> ?rest" using C by (auto simp: left_pages_def)
  then have o3: "{t div PG_SIZE..<t div PG_SIZE + 1} \<subseteq> owned PF_KERNEL m" unfolding one_page m(3) by blast
  have tm: "t mod PG_SIZE = 0" using C by blast
  obtain m' where m': "mfree_pages PF_KERNEL t 1 m = Inr m'" "mem_inv m' {}"
    "owned PF_KERNEL m' = owned PF_KERNEL m - {t div PG_SIZE..<t div PG_SIZE + 1}" "owned PF_USER m' = owned PF_USER m"
    "\<And>w. w \<in> {t div PG_SIZE..<t div PG_SIZE + 1} \<Longrightarrow> \<not> mapped m' w"
    by (rule free_kernel [OF m(2) o3 zero_less_one tm]) (rule that)
  have run: "clean_memory bits_at t M = Inr (M\<lparr>mm := m'\<rparr>)"
    unfolding clean_memory_def Let_def bitmap_count_def [symmetric] m(1) by (simp only: andthen_Inr m'(1))
  have own: "owned PF_KERNEL m' = owned PF_KERNEL (mm M) - left_pages bits_at t M"
    unfolding m'(3) m(3) one_page left_pages_def by blast
  have "\<not> mapped m' (t div PG_SIZE)" using m'(5) by simp
  then show ?thesis using run m'(2) own m'(4) m(4) by (intro exI [of _ m']) simp
qed

text \<open>C28: cleaning up after a dead thread gives back exactly the pages of its control block, its
  directory and its bitmap; and then the name is read from the control block that is gone.\<close>

theorem cleaner_reads_freed:
  assumes "can_clean (bits_at t) t M" and "\<forall>fd \<in> {3..<8}. fd < length (pcb_fds (pcbs M t)) \<and> pcb_fds (pcbs M t) ! fd = -1"
  shows "\<exists>m. clean_memory (bits_at t) t M = Inr (M\<lparr>mm := m\<rparr>) \<and> mem_inv m {} \<and>
    owned PF_KERNEL m = owned PF_KERNEL (mm M) - left_pages (bits_at t) t M \<and> owned PF_USER m = owned PF_USER (mm M) \<and>
    clean_thread bits_at t (M, s) = Inl Wild"
proof -
  let ?M = "M\<lparr>all_threads := remove1 t (all_threads M), second_list := remove1 t (second_list M), third_list := remove1 t (third_list M)\<rparr>"
  have files: "clean_files (pcb_fds (pcbs M t)) fds s = Inr s" if "set fds \<subseteq> {3..<8}" for fds
    using that assms(2) by (induction fds) auto
  have f: "clean_files (pcb_fds (pcbs M t)) [3..<MAX_FILES_OPEN_PER_PROC] s = Inr s"
    by (rule files) (auto simp: MAX_FILES_OPEN_PER_PROC_def)
  have c: "can_clean (bits_at t) t ?M" using assms(1) unfolding can_clean_def left_pages_def Let_def by (simp cong: if_cong)
  obtain m where m: "clean_memory (bits_at t) t ?M = Inr (?M\<lparr>mm := m\<rparr>)" "\<not> mapped m (t div PG_SIZE)"
    using clean_memory_ok [OF c] by blast
  then have "clean_thread bits_at t (M, s) = Inl Wild" by (simp add: clean_thread_def f Let_def)
  then show ?thesis using clean_memory_ok [OF assms(1)] by blast
qed

text \<open>The files of the dead thread stay open when the cleaner has none of its own.\<close>

lemma cleaner_leaves_files:
  assumes "\<forall>fd \<in> {3..<8}. fd_table s ! fd = -1" and "length fds = 8"
  shows "clean_files fds [3..<MAX_FILES_OPEN_PER_PROC] s = Inr s"
proof -
  have *: "clean_files fds l s = Inr s" if "set l \<subseteq> {3..<8}" for l
    using that
  proof (induction l)
    case (Cons fd l)
    then have "fd \<in> {3..<8}" by simp
    then have "int32 (int (fd_local2global fd s)) = -1"
      using assms(1) by (simp add: fd_local2global_def MAX_FILES_OPEN_PER_PROC_def uint32_def int32_def)
    then show ?case using Cons assms(2) by (simp add: Let_def)
  qed simp
  show ?thesis by (rule *) (auto simp: MAX_FILES_OPEN_PER_PROC_def)
qed

text \<open>A process with one page each for its directory, its bitmap and its control block.\<close>

lemma cleaner_reads_freed_witness:
  "\<forall>s. \<exists>M bits_at t m. clean_memory (bits_at t) t M = Inr (M\<lparr>mm := m\<rparr>) \<and> owned PF_KERNEL m = {} \<and>
    card (left_pages (bits_at t) t M) = 3 \<and> clean_thread bits_at t (M, s) = Inl Wild"
proof
  fix s
  have tabs: "kernel_tables fork_mem" by (simp add: kernel_tables_def fork_mem_tables)
  have run: "{0xc0100..<0xc0100 + 3} \<subseteq> unowned PF_KERNEL fork_mem" by (simp add: fork_mem_sets)
  obtain a m' where a: "mem_inv m' {}" "{a..<a + 3} \<subseteq> unowned PF_KERNEL fork_mem"
    "owned PF_KERNEL m' = owned PF_KERNEL fork_mem \<union> {a..<a + 3}"
    by (rule kernel_malloc_ok [OF fork_mem_inv tabs _ run]) (simp_all add: fork_mem_sets)
  let ?M = "fork_machine\<lparr>mm := m', pcbs := (\<lambda>_. fork_pcb\<lparr>pcb.pgdir := a * PG_SIZE\<rparr>)\<rparr>"
  let ?t = "(a + 2) * PG_SIZE" and ?b = "\<lambda>_ :: nat. (a + 1) * PG_SIZE"
  have "a \<in> {a..<a + 3}" by simp
  then have "0 < a" using a(2) fork_mem_sets(3) by auto
  then have nz: "a * PG_SIZE \<noteq> 0" by (simp add: PG_SIZE_def)
  have d: "(a + k) * PG_SIZE div PG_SIZE = a + k" "(a + k) * PG_SIZE mod PG_SIZE = 0" "a * PG_SIZE div PG_SIZE = a" for k
    by (simp_all add: PG_SIZE_def)
  have n: "bitmap_count (fork_pcb\<lparr>pcb.pgdir := a * PG_SIZE\<rparr>) = 1"
    by (simp add: bitmap_count_def fork_pcb_def fork_mem_def first_used_def DIV_ROUND_UP_def PG_SIZE_def)
  have lp: "left_pages (?b ?t) ?t ?M = {a + 2, a, a + 1}"
    unfolding left_pages_def using nz by (simp add: d n atLeastLessThanSuc del: mult_Suc)
  have own: "owned PF_KERNEL m' = {a + 2, a, a + 1}" unfolding a(3) fork_mem_sets by auto
  have can: "can_clean (?b ?t) ?t ?M"
    unfolding can_clean_def lp Let_def using a(1) own by (simp add: d n del: mult_Suc)
  have "\<forall>fd \<in> {3..<8}. fd < length (pcb_fds (pcbs ?M ?t)) \<and> pcb_fds (pcbs ?M ?t) ! fd = -1"
  proof -
    have "{3..<8} = {3, 4, 5, 6, 7 :: nat}" by auto
    then show ?thesis by (simp add: fork_pcb_def)
  qed
  then obtain m where m: "clean_memory (?b ?t) ?t ?M = Inr (?M\<lparr>mm := m\<rparr>)" "owned PF_KERNEL m = owned PF_KERNEL m' - left_pages (?b ?t) ?t ?M"
    "clean_thread ?b ?t (?M, s) = Inl Wild"
    using cleaner_reads_freed [of ?b ?t ?M s, OF can] by auto
  have "owned PF_KERNEL m = {}" unfolding m(2) lp own by simp
  moreover have "card (left_pages (?b ?t) ?t ?M) = 3" unfolding lp by simp
  ultimately show "\<exists>M bits_at t m. clean_memory (bits_at t) t M = Inr (M\<lparr>mm := m\<rparr>) \<and> owned PF_KERNEL m = {} \<and>
      card (left_pages (bits_at t) t M) = 3 \<and> clean_thread bits_at t (M, s) = Inl Wild"
    using m(1,3) by (intro exI [of _ ?M] exI [of _ ?b] exI [of _ ?t] exI [of _ m] conjI)
qed

end
