(* ===== verification/KernelMain.thy ===== *)
theory KernelMain
  imports ShellSpec
begin

text \<open>
  \<^verbatim>\<open>main\<close> of \<^verbatim>\<open>kernel/main.c\<close> between the start of the parts and that of the threads: it prints
  a welcome file and copies a program from the boot disk into the file system.  The buffers, from
  \<^verbatim>\<open>sys_malloc\<close> and \<^verbatim>\<open>get_kernel_pages\<close>, are lists of bytes.
\<close>

section \<open>The welcome\<close>

text \<open>The count is unsigned, -1 is compared as one; the position wraps.\<close>

partial_function (option) welcome_loop :: "int \<Rightarrow> nat \<Rightarrow> u8 list \<Rightarrow> fs \<Rightarrow> u8 list cres option" where
  "welcome_loop fd0 ptr out s =
     (case sys_read fd0 ptr 0x200 s of
        Inl e \<Rightarrow> Some (Inl e)
      | Inr (read_cnt, bs) \<Rightarrow>
          if uint32 read_cnt = 2 ^ 32 - 1 then Some (Inr out)
          else welcome_loop fd0 ((ptr + uint32 read_cnt) mod 2 ^ 32)
                 (out @ filter (\<lambda>c. c \<noteq> 0) (take (uint32 read_cnt) bs)) s)"

definition print_welcome :: "fs \<Rightarrow> (u8 list \<times> fs) cres option" where
  "print_welcome s =
     (case sys_open (text_of ''/welcome.txt'' @ [0]) O_RDWR s of
        Inl e \<Rightarrow> Some (Inl e)
      | Inr (fd0, s) \<Rightarrow>
          (case welcome_loop fd0 0 (10 # text_of ''hello hello hello'' @ putchar 10) s of
             None \<Rightarrow> None
           | Some r \<Rightarrow> Some (andthen r (\<lambda>out. andthen (sys_close fd0 s) (\<lambda>(_, s). Inr (out, s))))))"

section \<open>Copying a program\<close>

text \<open>100 sectors from sector 400 of the first disk of the first channel.\<close>

definition install_program :: "sectors \<Rightarrow> fs \<Rightarrow> fs cres" where
  "install_program sda s =
     (let file_size = 100 * 512; sec_cnt = DIV_ROUND_UP file_size 512
      in andthen (ide_read sda 0 400 sec_cnt) (\<lambda>prog_buf.
         andthen (sys_open (text_of ''/highP'' @ [0]) (O_CREAT + O_RDWR) s) (\<lambda>(fd, s).
         andthen (if fd \<noteq> -1 then sys_write fd prog_buf 0 file_size s else Inr (-1, s)) (\<lambda>(_, s).
         andthen (user_file_close fd s) (\<lambda>(_, s). Inr s)))))"

section \<open>The loop ends\<close>

lemma sys_read_file:
  assumes o: "open_at s fd g h q" and w: "whole_file s h i" and n: "n \<le> 2 ^ 16" "p \<le> i_size i"
  shows "sys_read fd p n s =
    (if p < i_size i then Inr (int (min n (i_size i - p)), fbytes s i p (p + min n (i_size i - p))) else Inr (-1, []))"
proof -
  note l = open_at_local [OF o]
  have w': "direct_file s h i" "heap_ok s" "i_size i \<le> 6144" "\<And>j. j * 512 < i_size i \<Longrightarrow> i_sectors i ! j \<noteq> 0"
    using w by (auto simp: whole_file_def)
  have ino: "inodes s h = Some i" using w'(1) by (simp add: direct_file_def)
  have g: "g < length (file_table s)" "fd_inode (file_table s ! g) = Inode_at h" "0 < fd"
    using o by (auto simp: open_at_def)
  have sr: "sys_read fd p n s = file_read h p n s" using g by (simp add: sys_read_def l(1) open_inode_def)
  show ?thesis
  proof (cases "p < i_size i")
    case True
    have "p + n < 2 ^ 32" using n w'(3) by simp
    then show ?thesis using file_read_ok [OF w'(1,2) True w'(3,4), of n] True sr by simp
  qed (use sr ino in \<open>simp add: file_read_def deref_def\<close>)
qed

lemma welcome_prints:
  "open_at s fd g h q \<Longrightarrow> whole_file s h i \<Longrightarrow> p \<le> i_size i \<Longrightarrow>
   welcome_loop fd p out s = Some (Inr (out @ filter (\<lambda>c. c \<noteq> 0) (fbytes s i p (i_size i))))"
proof (induction "i_size i - p" arbitrary: p out rule: less_induct)
  case less
  have sz: "i_size i \<le> 6144" using less.prems(2) by (simp add: whole_file_def)
  note rd = sys_read_file [OF less.prems(1,2) _ less.prems(3), of 512]
  show ?case
  proof (cases "p < i_size i")
    case False
    then have "p = i_size i" using less.prems(3) by simp
    then show ?thesis using rd by (subst welcome_loop.simps) (simp add: uint32_def fbytes_def)
  next
    case True
    define m where "m = min 512 (i_size i - p)"
    have m: "0 < m" "p + m \<le> i_size i" using True by (auto simp: m_def)
    have read: "sys_read fd p 512 s = Inr (int m, fbytes s i p (p + m))" using rd True by (simp add: m_def)
    have b: "m < 2 ^ 31" "p + m < 2 ^ 31" using m(2) sz by simp_all
    then have um: "uint32 (int m) = m" by (subst uint32_id) auto
    then have u: "uint32 (int m) = m" "uint32 (int m) \<noteq> 2 ^ 32 - 1" "(p + m) mod 2 ^ 32 = p + m"
      using b by simp_all
    let ?out = "out @ filter (\<lambda>c. c \<noteq> 0) (fbytes s i p (p + m))"
    have "welcome_loop fd p out s = welcome_loop fd (p + m) ?out s"
      using read u by (subst welcome_loop.simps) (simp add: fbytes_def)
    also have "\<dots> = Some (Inr (?out @ filter (\<lambda>c. c \<noteq> 0) (fbytes s i (p + m) (i_size i))))"
      by (rule less.hyps) (use less.prems m in simp_all)
    finally show ?thesis using fbytes_append [of p "p + m" "i_size i" s i] m(2)
      by (simp flip: filter_append)
  qed
qed

end
