(* ===== verification/Spec2Isabelle.thy ===== *)
theory Spec2Isabelle
  imports KList IOQueue SM4Spec SHA256 Sync FileSpec Mount MemorySpec Keyboard ShellSpec EditorSpec EditorMain
    Devices Tss Syscall ExecSpec UserLib Log Boot Tasks KernelMain
begin

text \<open>
  A verification library of the JAT kernel, a small operating system for the i386: the C code of
  \<^verbatim>\<open>src/kernel\<close>.  File names below are relative to that directory.

  \<^bold>\<open>The program.\<close>  The kernel boots on one processor into a single thread, which starts the scheduler
  (\<^verbatim>\<open>thread/\<close>), the memory manager (\<^verbatim>\<open>memop/\<close>), the interrupt tables (\<^verbatim>\<open>interrupt/\<close>), the
  drivers (\<^verbatim>\<open>device/\<close>) and the file system (\<^verbatim>\<open>fs/\<close>), then runs a shell (\<^verbatim>\<open>shell/\<close>) with an
  editor (\<^verbatim>\<open>editor/\<close>) and ciphers (\<^verbatim>\<open>crypto/\<close>).  User programs (\<^verbatim>\<open>userprog/\<close>) call it through
  interrupt 0x80 with the library of \<^verbatim>\<open>subprogram/\<close>.  Threads wait for each other on semaphores;
  the keyboard hands its characters over in a ring buffer; disk, file system, pipes and editor work
  on pages and blocks of the memory manager; every message is put together by \<^verbatim>\<open>vsprintf\<close>.

  \<^bold>\<open>Conventions.\<close>  A C function that may stop the kernel or leave the memory described returns a
  \<open>cres\<close>: \<open>Inl\<close> a fault (\<open>Assertion\<close>, \<open>Wild\<close>, \<open>DivZero\<close>, \<open>Blocked\<close>) or \<open>Inr\<close> its value; the
  codes -1 and \<^verbatim>\<open>NULL\<close> a function returns are ordinary values (\<open>None\<close> for a pointer).  A pointer to
  bytes is the list of the bytes from there to the end of the object.  Bytes and words whose bits
  matter are \<open>8 word\<close>, \<open>32 word\<close>; counters, addresses and sizes are \<open>nat\<close> and \<open>int\<close> with
  \<open>mod 2 ^ 32\<close>, \<open>uint32\<close> and \<open>int32\<close> where the code wraps.  Blocks and pages given back are
  used no more.  Output is the list of bytes printed.  Constants of the source that are octal or
  hexadecimal are sometimes written in decimal.

  \<^bold>\<open>Theories and files.\<close>
    \<^item> Prelude: outcomes, checked accesses, integers.  Words: words in byte buffers.
    \<^item> CString (\<^verbatim>\<open>memop/string.c\<close>), Bitmap (\<^verbatim>\<open>memop/bitmap.c\<close>), KList (\<^verbatim>\<open>list/list.c\<close>, over an
      explicit heap of links), IOQueue (\<^verbatim>\<open>device/ioqueue.c\<close> and \<^verbatim>\<open>device/pipe.c\<close>).
    \<^item> Sched (\<^verbatim>\<open>thread/thread.c\<close>, the timer handler of \<^verbatim>\<open>device/timer.c\<close>), Sync
      (\<^verbatim>\<open>thread/sync.c\<close>, creating, waiting and ending; the step relation \<open>step\<close>), Boot
      (\<^verbatim>\<open>thread_init\<close>), KernelMain (\<^verbatim>\<open>main.c\<close>), Tasks (\<^verbatim>\<open>kill\<close>, \<^verbatim>\<open>ps\<close>, \<^verbatim>\<open>thread_cleaner\<close>).  The record \<open>sched\<close> has the
      tasks, the queues, the current thread, semaphores and locks; what a thread does when it is
      switched to again is its field \<open>cont\<close>.
    \<^item> Memory and MemorySpec (\<^verbatim>\<open>memop/memory.c\<close>): the record \<open>mem\<close> has the two pools of frames, the
      two bitmaps of virtual pages, the entries of the page tables and the arenas of small blocks.
    \<^item> Interrupt (\<^verbatim>\<open>interrupt/interrupt.c\<close>, clock), Tss (\<^verbatim>\<open>userprog/tss.c\<close>), Syscall
      (\<^verbatim>\<open>interrupt/syscall.c\<close>, \<^verbatim>\<open>subprogram/syscall.c\<close>, the entry of interrupt 0x80).
    \<^item> Process, ProcessSpec, ForkSpec, ForkMain (\<^verbatim>\<open>userprog/process.c\<close>), Exec and ExecSpec
      (\<^verbatim>\<open>userprog/exec.c\<close>): the record \<open>machine\<close> adds the control blocks with their kernel stacks, the
      frames' bytes and the page tables of the spaces that are not active.
    \<^item> Keyboard (\<^verbatim>\<open>device/keyboard.c\<close>), Ide and Devices (\<^verbatim>\<open>device/ide.c\<close>).
    \<^item> FsBase, Inode, Dir, File, FileOps, Path, Fs, Mount (\<^verbatim>\<open>fs/\<close>): the record \<open>fs\<close> has the disk, the
      two bitmaps, open inodes by address, the table of open files, the descriptors of the running
      thread, pipes and the free pages the file system takes.  FileSpec and OpenFile have the
      meaning of a file as a function of the position.
    \<^item> SHA256, SM4Tables, SM4, SM4Spec (\<^verbatim>\<open>crypto/\<close>).
    \<^item> Stdio (\<^verbatim>\<open>standard/\<close>), Log (\<^verbatim>\<open>console/console.c\<close>, \<^verbatim>\<open>log/log.c\<close>), UserLib
      (\<^verbatim>\<open>subprogram/string.c\<close>, \<^verbatim>\<open>subprogram/stdio.c\<close>).
    \<^item> History, ShellText, ShellTextSpec, CdSpec, Shell, ShellSpec (\<^verbatim>\<open>shell/\<close>); Editor, EditorSpec,
      EditorMain (\<^verbatim>\<open>editor/editor.c\<close>).

  \<^bold>\<open>What is shown.\<close>
    \<^item> Threads: \<open>sys_inv\<close> (queues, tags and statuses agree, a lock is free with its semaphore at 1 or
      held with it at 0) is made by \<open>thread_init\<close> and kept by every step; no call of the running thread
      fails; the scheduler runs the highest level; a lock is not taken from a thread that does not run.
    \<^item> Memory: \<open>mem_inv\<close> (the pages in use are the mapped ones, no two share a frame, no frame of
      a page is one of a page table) is kept by taking and giving back pages, by
      fork, by loading a segment and by cleaning up; fork copies the space and the registers.
    \<^item> Files: writing overwrites, reading gives back, the gap is zero, other blocks stay; the
      log, the loader, \<^verbatim>\<open>cat\<close> and the editor's session rest on these lemmas.
    \<^item> Drivers: sectors read back as written, the scan of partitions ends, the disk interrupt wakes
      its thread, the keyboard types what was pressed.
    \<^item> Text and ciphers: \<^verbatim>\<open>vsprintf\<close> on typed arguments, line editing, history and \<^verbatim>\<open>cd\<close> against their
      specifications; SHA-256 digests, SM4 in table form against the definition, and round trips.
    \<^item> Where the code fails, the failure is the theorem: a nested lock release, the pages a dying
      process keeps, the program header that overruns, the control block read after it is freed,
      padding of 55 and 63 bytes, \<^verbatim>\<open>bitmap_scan\<close> on a full bitmap.

  \<^bold>\<open>Interfaces.\<close>  \<open>bit_pool\<close> is what the allocators need of a bitmap (interpreted as \<open>bm\<close>),
  \<open>byte_queue\<close> what pipes and keyboard need of the ring (\<open>ring\<close>), \<open>queue_heap\<close> what the scheduler
  assumes of the linked lists (\<open>kl\<close>, which justifies its lists of threads), \<open>block_cipher\<close> what the ECB
  mode needs (\<open>sm4\<close>).

  \<^bold>\<open>Loops and fuel.\<close>  Loops with a bound are recursive functions with a termination proof.  Those that
  follow data are \<open>partial_function (option)\<close>: the walks of KList, which end on well-formed
  lists; \<^verbatim>\<open>cat\<close>, which is shown to end; the search for a key and \<^verbatim>\<open>cp\<close> in Shell.  The recursion of
  \<open>partition_scan\<close> follows the tables on the disk and has fuel: \<open>max_lba + 2\<close> is enough when every
  extended partition lies behind the one naming it, and no fuel is when one names itself.  The disk
  driver polls at most 29999 times.

  \<^bold>\<open>Assumptions and limits.\<close>  The file system is modelled as run by one thread at a time, with its
  messages to the log left out; the sectors of the disk and the keyboard's scan codes are
  arguments.  File contents are described for the 12 direct blocks (6144 bytes); the
  indirect block is in the definitions, not in FileSpec.  A turn of the shell takes the commands that
  start threads, except those modelled, as its argument \<open>other\<close>.  A thread that is to wait inside a
  lock, a pipe or an empty ring stops with \<open>Blocked\<close> outside of Sched and Sync.  In Process,
  addresses of assembly routines are the fields of \<open>code\<close>, and the tables of the kernel's half are
  shared by all directories.  Reading a page that is not mapped is \<open>Wild\<close>, whatever the TLB holds.

  \<^bold>\<open>Not modelled.\<close>  \<^verbatim>\<open>init/init.c\<close>, the order in which the parts are set up, and the threads of
  \<^verbatim>\<open>main.c\<close>, most of them only mentioned in comments; the assembly (\<^verbatim>\<open>print.S\<close>, \<^verbatim>\<open>thread/thread.S\<close>, \<^verbatim>\<open>interrupt/interrupt.S\<close>,
  \<^verbatim>\<open>include/io.h\<close>), whose effects on the screen and the ports are arguments and whose stack frames
  appear where \<^verbatim>\<open>fork\<close>, \<^verbatim>\<open>execv\<close> and \<^verbatim>\<open>kill\<close> rely on them; \<^verbatim>\<open>debug/debug.c\<close>, which is the
  fault \<open>Assertion\<close>; the boot loader; the test program \<^verbatim>\<open>subprogram/test.c\<close>.
\<close>

end
